(* ===== verification/Prelude.thy ===== *)
theory Prelude
  imports Main "HOL-Library.AList" "HOL-Library.Sublist"
begin

text \<open>
  The prelude of the development: what the components share.

  \<^item> Python values whose type the source leaves open (\<open>Any\<close>), exceptions, results;
  \<^item> dictionaries as association lists that keep insertion order, as Python's do;
  \<^item> the environment of an operation: the clock readings and the identifiers
    (\<open>uuid4\<close>, \<open>secrets\<close>) it draws, in the order it draws them;
  \<^item> the interfaces that recur in the components, as locales: an invariant that every
    operation keeps, a log that only grows, a store of keyed values.
\<close>

named_theorems frame_simps \<open>fields an operation leaves unchanged\<close>
named_theorems inv_intros \<open>operations keep the invariant of their component\<close>

section \<open>Python values, exceptions, results\<close>

text \<open>
  A value the source types as \<open>Any\<close>. Only the shapes the modelled code distinguishes are
  constructors: None, bool, int, str, list and dict.
\<close>

datatype pyval =
    VNone
  | VBool bool
  | VInt int
  | VStr string
  | VList "pyval list"
  | VDict "(string \<times> pyval) list"

text \<open>The exceptions the modelled code raises, with their message.\<close>

datatype py_error =
    ValueError string
  | TypeError string
  | KeyError string
  | IndexError string
  | QueueFull
  | HTTPException nat string
  | CustomError string string \<comment> \<open>class name, message\<close>

fun err_str :: "py_error \<Rightarrow> string" where
  "err_str (ValueError m) = m"
| "err_str (TypeError m) = m"
| "err_str (KeyError m) = m"
| "err_str (IndexError m) = m"
| "err_str QueueFull = ''''"
| "err_str (HTTPException c m) = m"
| "err_str (CustomError c m) = m"

type_synonym 'a result = "py_error + 'a"

abbreviation Err :: "py_error \<Rightarrow> 'a result" where "Err e \<equiv> Inl e"
abbreviation Ok :: "'a \<Rightarrow> 'a result" where "Ok x \<equiv> Inr x"

text \<open>A loop whose body may raise.\<close>

fun each_r :: "('c \<Rightarrow> 'a \<Rightarrow> 'a result) \<Rightarrow> 'c list \<Rightarrow> 'a \<Rightarrow> 'a result" where
  "each_r f [] a = Ok a"
| "each_r f (c # cs) a = (case f c a of Inl err \<Rightarrow> Err err | Inr b \<Rightarrow> each_r f cs b)"

lemma each_r_cong [fundef_cong]:
  assumes "cs = cs'" "a = a'" "\<And>c b. c \<in> set cs' \<Longrightarrow> f c b = g c b"
  shows "each_r f cs a = each_r g cs' a'"
  unfolding assms(1,2) using assms(3) by (induction cs' arbitrary: a') (auto split: sum.split)

lemma each_r_append:
  "each_r f (cs @ ds) a = (case each_r f cs a of Inl err \<Rightarrow> Err err | Inr b \<Rightarrow> each_r f ds b)"
  by (induction cs arbitrary: a) (auto split: sum.split)

section \<open>Numbers as text\<close>

text \<open>The decimal digits of an integer that is not negative, and \<open>str(i)\<close>.\<close>

definition digit_char :: "int \<Rightarrow> char" where
  "digit_char n = char_of (48 + n)"

function str_nat :: "int \<Rightarrow> string" where
  "str_nat n = (if n < 10 then [digit_char n] else str_nat (n div 10) @ [digit_char (n mod 10)])"
  by pat_completeness auto
termination
  by (relation "measure nat") auto

declare str_nat.simps [simp del]

definition str_int :: "int \<Rightarrow> string" where
  "str_int i = (if i < 0 then ''-'' @ str_nat (- i) else str_nat i)"

lemma str_nat_nonempty [simp]: "str_nat n \<noteq> []"
  by (subst str_nat.simps) simp

section \<open>Strings\<close>

text \<open>\<open>p in s\<close> on strings.\<close>

fun in_str :: "string \<Rightarrow> string \<Rightarrow> bool" where
  "in_str p [] = (p = [])"
| "in_str p (c # s) = (prefix p (c # s) \<or> in_str p s)"

lemma in_str_iff: "in_str p s \<longleftrightarrow> sublist p s"
  by (induction p s rule: in_str.induct) (auto simp: sublist_Cons_right)

text \<open>A string between single quotes.\<close>

definition quoted :: "string \<Rightarrow> string" where
  "quoted s = CHR 0x27 # s @ [CHR 0x27]"

section \<open>Slices\<close>

text \<open>\<open>xs[:n]\<close> and \<open>xs[n:]\<close>; a negative index counts from the end.\<close>

definition py_take :: "int \<Rightarrow> 'a list \<Rightarrow> 'a list" where
  "py_take n xs = (if 0 \<le> n then take (nat n) xs else take (length xs - nat (- n)) xs)"

definition py_drop :: "int \<Rightarrow> 'a list \<Rightarrow> 'a list" where
  "py_drop n xs = (if 0 \<le> n then drop (nat n) xs else drop (length xs - nat (- n)) xs)"

lemma py_take_drop [simp]: "py_take n xs @ py_drop n xs = xs"
  by (simp add: py_take_def py_drop_def)

section \<open>Dictionaries\<close>

text \<open>
  A Python dictionary keeps its keys in insertion order; assigning to a present key keeps
  its place, a new key goes last. \<open>AList.update\<close> does exactly that.
\<close>

type_synonym ('k, 'v) dict = "('k \<times> 'v) list"

abbreviation dget :: "('k, 'v) dict \<Rightarrow> 'k \<Rightarrow> 'v option" where
  "dget d k \<equiv> map_of d k"

definition dset :: "'k \<Rightarrow> 'v \<Rightarrow> ('k, 'v) dict \<Rightarrow> ('k, 'v) dict" where
  "dset k v d = AList.update k v d"

definition ddel :: "'k \<Rightarrow> ('k, 'v) dict \<Rightarrow> ('k, 'v) dict" where
  "ddel k d = AList.delete k d"

text \<open>\<open>d.get(k, default)\<close>\<close>

definition dget_or :: "('k, 'v) dict \<Rightarrow> 'k \<Rightarrow> 'v \<Rightarrow> 'v" where
  "dget_or d k v = (case dget d k of None \<Rightarrow> v | Some x \<Rightarrow> x)"

definition has_key :: "('k, 'v) dict \<Rightarrow> 'k \<Rightarrow> bool" where
  "has_key d k = (dget d k \<noteq> None)"

definition dict_ok :: "('k, 'v) dict \<Rightarrow> bool" where
  "dict_ok d = distinct (map fst d)"

lemma dget_dset [simp]: "dget (dset k v d) k' = (if k' = k then Some v else dget d k')"
  by (simp add: dset_def update_conv')

lemma dget_ddel [simp]: "dget (ddel k d) k' = (if k' = k then None else dget d k')"
  by (simp add: ddel_def delete_conv')

lemma dget_or_dset [simp]:
  "dget_or (dset k v d) k' x = (if k' = k then v else dget_or d k' x)"
  by (simp add: dget_or_def)

lemma dget_or_ddel [simp]:
  "dget_or (ddel k d) k' x = (if k' = k then x else dget_or d k' x)"
  by (simp add: dget_or_def)

lemma dget_or_Nil [simp]: "dget_or [] k x = x"
  by (simp add: dget_or_def)

lemma has_key_dset [simp]: "has_key (dset k v d) k' = (k' = k \<or> has_key d k')"
  by (simp add: has_key_def)

lemma has_key_ddel [simp]: "has_key (ddel k d) k' = (k' \<noteq> k \<and> has_key d k')"
  by (simp add: has_key_def)

lemma has_key_Nil [simp]: "\<not> has_key [] k"
  by (simp add: has_key_def)

lemma dict_ok_Nil [simp]: "dict_ok []"
  by (simp add: dict_ok_def)

lemma dict_ok_dset [simp]: "dict_ok d \<Longrightarrow> dict_ok (dset k v d)"
  by (simp add: dict_ok_def dset_def distinct_update)

lemma dict_ok_ddel [simp]: "dict_ok d \<Longrightarrow> dict_ok (ddel k d)"
  by (simp add: dict_ok_def ddel_def distinct_delete)

lemma dset_Nil [simp]: "dset k v [] = [(k, v)]"
  by (simp add: dset_def)

lemma dset_Cons [simp]:
  "dset k v ((a, b) # d) = (if a = k then (k, v) # d else (a, b) # dset k v d)"
  by (simp add: dset_def)

lemma ddel_Nil [simp]: "ddel k [] = []"
  by (simp add: ddel_def delete_simps)

lemma ddel_Cons [simp]:
  "ddel k ((a, b) # d) = (if a = k then ddel k d else (a, b) # ddel k d)"
  by (simp add: ddel_def delete_simps)

lemma dset_nonempty [simp]: "dset k v d \<noteq> []"
  by (cases d) (auto split: if_splits)

lemma dset_same: "dget d k = Some v \<Longrightarrow> dset k v d = d"
  by (induction d) (auto split: if_splits)

lemma dset_twice: "dset k v (dset k w d) = dset k v d"
  by (induction d) (auto simp: dset_def)

lemma dset_new: "\<not> has_key d k \<Longrightarrow> dset k v d = d @ [(k, v)]"
  by (induction d) (auto simp: has_key_def split: if_splits)

lemma fst_dset: "map fst (dset k v d) = (if has_key d k then map fst d else map fst d @ [k])"
  by (induction d) (auto simp: has_key_def)

lemma length_dset: "length (dset k v d) = (if has_key d k then length d else Suc (length d))"
  using arg_cong [OF fst_dset, of length k v d] by (simp split: if_splits)

lemma set_dset: "set (dset k v d) \<subseteq> insert (k, v) (set d)"
  by (induction d) (auto split: if_splits)

lemma set_ddel: "set (ddel k d) \<subseteq> set d"
  by (induction d) (auto split: if_splits)

lemma set_fst_ddel: "set (map fst (ddel k d)) = set (map fst d) - {k}"
  unfolding ddel_def delete_keys by simp

lemma has_key_iff: "has_key d k \<longleftrightarrow> k \<in> set (map fst d)"
  by (simp add: has_key_def map_of_eq_None_iff)

section \<open>The environment of an operation\<close>

text \<open>
  Time is an integer count of microseconds, the resolution of Python's \<open>datetime\<close>. An
  operation that reads the clock or draws an identifier takes an environment: \<open>clock e k\<close> is
  its k-th clock reading and \<open>uuid e k\<close> the k-th identifier it draws. A caller passes a
  later part of its own environment on (\<open>later n\<close>).
\<close>

type_synonym time = int

abbreviation seconds :: "int \<Rightarrow> time" where "seconds n \<equiv> n * 1000000"

text \<open>\<open>int(...)\<close> of a span in seconds truncates towards zero.\<close>

definition whole_seconds :: "time \<Rightarrow> int" where
  "whole_seconds d = (if 0 \<le> d then d div 1000000 else - (- d div 1000000))"

record env =
  uuid :: "nat \<Rightarrow> string"
  clock :: "nat \<Rightarrow> time"

definition later :: "nat \<Rightarrow> env \<Rightarrow> env" where
  "later n e = \<lparr>uuid = (\<lambda>k. uuid e (n + k)), clock = (\<lambda>k. clock e (n + k))\<rparr>"

lemma later_simps [simp]:
  "uuid (later n e) k = uuid e (n + k)" "clock (later n e) k = clock e (n + k)"
  by (simp_all add: later_def)

text \<open>An environment for concrete runs: the k-th identifier is \<open>u<k>\<close>, the k-th reading is k.\<close>

definition env0 :: env where
  "env0 = \<lparr>uuid = (\<lambda>k. ''u'' @ str_int (int k)), clock = (\<lambda>k. int k)\<rparr>"

lemma env0_simps [simp]: "uuid env0 0 = ''u0''" "uuid env0 (Suc 0) = ''u1''" "clock env0 k = int k"
  by (code_simp, code_simp, simp add: env0_def)

section \<open>Recurring interfaces\<close>

text \<open>An invariant that every operation keeps holds after any sequence of operations.\<close>

locale preserved =
  fixes step :: "'op \<Rightarrow> 's \<Rightarrow> 's"
    and inv :: "'s \<Rightarrow> bool"
  assumes step_inv: "inv s \<Longrightarrow> inv (step a s)"
begin

lemma run_inv: "inv s \<Longrightarrow> inv (fold step ops s)"
  by (induction ops arbitrary: s) (auto intro: step_inv)

end

text \<open>
  A log that only grows: every operation leaves the entries already there in place. After
  any sequence of operations an entry is where it was.
\<close>

locale append_only =
  fixes step :: "'op \<Rightarrow> 's \<Rightarrow> 's"
    and log :: "'s \<Rightarrow> 'e list"
  assumes step_prefix: "prefix (log s) (log (step a s))"
begin

lemma run_prefix: "prefix (log s) (log (fold step ops s))"
proof (induction ops arbitrary: s)
  case (Cons a ops)
  have "prefix (log (step a s)) (log (fold step ops (step a s)))" by (rule Cons.IH)
  with step_prefix [of s a] show ?case by (auto intro: prefix_order.trans)
qed simp

lemma run_nth:
  assumes "i < length (log s)"
  shows "log (fold step ops s) ! i = log s ! i"
    and "i < length (log (fold step ops s))"
  using run_prefix [of s ops] assms by (auto simp: prefix_def nth_append)

end

text \<open>A store of keyed values with a default for a key never written.\<close>

locale keyed_store =
  fixes get :: "'k \<Rightarrow> 's \<Rightarrow> 'v"
    and put :: "'k \<Rightarrow> 'v \<Rightarrow> 's \<Rightarrow> 's"
  assumes get_put: "get k (put k' v s) = (if k = k' then v else get k s)"
begin

lemma get_put_same [simp]: "get k (put k v s) = v"
  by (simp add: get_put)

lemma get_put_other [simp]: "k \<noteq> k' \<Longrightarrow> get k (put k' v s) = get k s"
  by (simp add: get_put)

text \<open>
  Two writes that take from one key what they give to another leave the total over any
  finite set of keys that holds both unchanged, for any additive measure of the values.
\<close>

lemma sum_put2:
  fixes val :: "'v \<Rightarrow> 'a :: ab_group_add"
  assumes "finite K" "a \<in> K" "b \<in> K" "a \<noteq> b"
    and bal: "val va + val vb = val (get a s) + val (get b s)"
  shows "(\<Sum>k\<in>K. val (get k (put b vb (put a va s)))) = (\<Sum>k\<in>K. val (get k s))"
proof -
  have split: "sum f K = f a + f b + sum f (K - {a, b})" for f :: "'k \<Rightarrow> 'a"
  proof -
    have "sum f K = f a + sum f (K - {a})" by (rule sum.remove [OF assms(1,2)])
    also have "sum f (K - {a}) = f b + sum f (K - {a} - {b})"
      using assms by (intro sum.remove) auto
    finally show ?thesis by (simp add: add.assoc Diff_insert2 [symmetric])
  qed
  have "(\<Sum>k\<in>K - {a, b}. val (get k (put b vb (put a va s)))) = (\<Sum>k\<in>K - {a, b}. val (get k s))"
    by (rule sum.cong) (auto simp: get_put)
  with assms(4) bal show ?thesis
    by (simp add: split get_put)
qed

end

end
