(* ===== verification/PyDecimal.thy ===== *)
theory PyDecimal
  imports Prelude Complex_Main
begin

text \<open>
  Python's \<open>decimal.Decimal\<close>, as the code uses it: a finite number
  \<open>coefficient * 10 ^ exponent\<close>, added, subtracted, multiplied and divided in the default context (precision 28,
  \<open>ROUND_HALF_EVEN\<close>), compared by value, and written with \<open>str\<close>.

  Not modelled: NaN, the infinities, the sign of zero, and exponents near the context's limits.
  The value of a decimal (\<open>dval\<close>) is rational, and addition is exact as long as the result
  fits 28 digits (\<open>dval_add\<close>, \<open>dval_sub\<close>): that is the hypothesis \<open>add_exact\<close> of the theorems about
  balances.
\<close>

section \<open>Representation\<close>

datatype decimal = Dec (coeff: int) (expo: int)

definition dval :: "decimal \<Rightarrow> rat" where
  "dval d = of_int (coeff d) * 10 powi expo d"

function ndigits :: "int \<Rightarrow> nat" where
  "ndigits n = (if n < 10 then 1 else Suc (ndigits (n div 10)))"
  by pat_completeness auto
termination
  by (relation "measure nat") auto

declare ndigits.simps [simp del]

definition prec :: nat where "prec = 28"

text \<open>Rounding to a multiple of \<open>10 ^ k\<close>, ties to the even neighbour, sign apart.\<close>

definition half_even :: "nat \<Rightarrow> int \<Rightarrow> int" where
  "half_even k c =
     (let m = 10 ^ k; a = \<bar>c\<bar>; q = a div m; r = a mod m;
          q' = (if 2 * r > m \<or> (2 * r = m \<and> odd q) then q + 1 else q)
      in sgn c * q')"

text \<open>Fitting a result to the precision (\<open>_fix\<close> of the decimal library).\<close>

definition dec_fix :: "decimal \<Rightarrow> decimal" where
  "dec_fix d =
     (let n = ndigits \<bar>coeff d\<bar>
      in if n \<le> prec then d
         else let k = n - prec; c = half_even k (coeff d); e = expo d + int k
              in if ndigits \<bar>c\<bar> \<le> prec then Dec c e else Dec (c div 10) (e + 1))"

text \<open>The exact sum, at the smaller of the two exponents.\<close>

definition dec_align :: "decimal \<Rightarrow> int \<Rightarrow> int" where
  "dec_align d e = coeff d * 10 ^ nat (expo d - e)"

definition exact_add :: "decimal \<Rightarrow> decimal \<Rightarrow> decimal" where
  "exact_add a b = (let e = min (expo a) (expo b) in Dec (dec_align a e + dec_align b e) e)"

definition dec_neg :: "decimal \<Rightarrow> decimal" where
  "dec_neg d = Dec (- coeff d) (expo d)"

definition dec_add :: "decimal \<Rightarrow> decimal \<Rightarrow> decimal" where
  "dec_add a b = dec_fix (exact_add a b)"

definition dec_sub :: "decimal \<Rightarrow> decimal \<Rightarrow> decimal" where
  "dec_sub a b = dec_fix (exact_add a (dec_neg b))"

definition dec_mul :: "decimal \<Rightarrow> decimal \<Rightarrow> decimal" where
  "dec_mul a b = dec_fix (Dec (coeff a * coeff b) (expo a + expo b))"

text \<open>
  Division by a number that is not zero: one digit more than the precision, the last one made sticky when the
  division is not exact; an exact quotient goes back towards the difference of the exponents.
\<close>

fun drop_zeros :: "nat \<Rightarrow> int \<Rightarrow> int \<Rightarrow> int \<Rightarrow> int \<times> int" where
  "drop_zeros 0 ideal c e = (c, e)"
| "drop_zeros (Suc n) ideal c e =
     (if e < ideal \<and> c mod 10 = 0 then drop_zeros n ideal (c div 10) (e + 1) else (c, e))"

definition dec_div :: "decimal \<Rightarrow> decimal \<Rightarrow> decimal" where
  "dec_div a b =
     (let ideal = expo a - expo b; x = \<bar>coeff a\<bar>; y = \<bar>coeff b\<bar>;
          shift = int (ndigits y) - int (ndigits x) + int prec + 1;
          n = x * 10 ^ nat shift; d = y * 10 ^ nat (- shift);
          q = n div d; sticky = (if q mod 5 = 0 then q + 1 else q);
          (c, e) = (if n mod d = 0 then drop_zeros (nat (shift + 1)) ideal q (ideal - shift) else (sticky, ideal - shift))
      in if x = 0 then Dec 0 ideal
         else dec_fix (Dec (if (coeff a < 0) = (coeff b < 0) then c else - c) e))"

text \<open>Comparison is by value, on the aligned coefficients.\<close>

definition dec_less :: "decimal \<Rightarrow> decimal \<Rightarrow> bool" where
  "dec_less a b = (let e = min (expo a) (expo b) in dec_align a e < dec_align b e)"

section \<open>Text\<close>

text \<open>
  \<open>str(d)\<close>: plain notation when the exponent is not positive and the adjusted exponent at
  least -6, scientific notation otherwise.
\<close>

definition dec_str :: "decimal \<Rightarrow> string" where
  "dec_str d =
     (let ds = str_nat \<bar>coeff d\<bar>; n = int (length ds);
          leftdigits = expo d + n;
          dotplace = (if expo d \<le> 0 \<and> leftdigits > - 6 then leftdigits else 1);
          intpart = (if dotplace \<le> 0 then ''0''
                     else if dotplace \<ge> n then ds @ replicate (nat (dotplace - n)) (CHR ''0'')
                     else take (nat dotplace) ds);
          fracpart = (if dotplace \<le> 0 then ''.'' @ replicate (nat (- dotplace)) (CHR ''0'') @ ds
                      else if dotplace \<ge> n then ''''
                      else ''.'' @ drop (nat dotplace) ds);
          ex = (if leftdigits = dotplace then ''''
                else ''E'' @ (if leftdigits - dotplace \<ge> 0 then ''+'' else '''')
                     @ str_int (leftdigits - dotplace))
      in (if coeff d < 0 then ''-'' else '''') @ intpart @ fracpart @ ex)"

section \<open>Values\<close>

lemma dval_Dec: "dval (Dec c e) = of_int c * 10 powi e"
  by (simp add: dval_def)

lemma dval_align:
  assumes "e \<le> expo d"
  shows "of_int (dec_align d e) * 10 powi e = dval d"
proof -
  have "(10::rat) ^ nat (expo d - e) = 10 powi (expo d - e)"
    using assms by (simp add: power_int_def)
  then have "of_int (dec_align d e) * 10 powi e = of_int (coeff d) * (10 powi (expo d - e) * 10 powi e :: rat)"
    by (simp add: dec_align_def)
  also have "(10 powi (expo d - e) * 10 powi e :: rat) = 10 powi expo d"
    by (subst power_int_add [symmetric]) auto
  finally show ?thesis by (simp add: dval_def)
qed

lemma dval_exact_add [simp]: "dval (exact_add a b) = dval a + dval b"
  by (simp add: exact_add_def Let_def dval_Dec distrib_right dval_align)

lemma dval_neg [simp]: "dval (dec_neg d) = - dval d"
  by (simp add: dec_neg_def dval_def)

lemma dec_less_iff: "dec_less a b \<longleftrightarrow> dval a < dval b"
proof -
  define e where "e = min (expo a) (expo b)"
  have pos: "(0::rat) < 10 powi e" by simp
  have "dval a = of_int (dec_align a e) * 10 powi e" "dval b = of_int (dec_align b e) * 10 powi e"
    by (simp_all add: dval_align e_def)
  then have "dval a < dval b \<longleftrightarrow> of_int (dec_align a e) < (of_int (dec_align b e) :: rat)"
    using mult_less_cancel_right_pos [OF pos] by simp
  then show ?thesis by (simp add: dec_less_def e_def Let_def)
qed

text \<open>A result that fits the precision is exact.\<close>

definition fits :: "decimal \<Rightarrow> bool" where
  "fits d = (ndigits \<bar>coeff d\<bar> \<le> prec)"

definition add_exact :: "decimal \<Rightarrow> decimal \<Rightarrow> bool" where
  "add_exact a b = fits (exact_add a b)"

definition sub_exact :: "decimal \<Rightarrow> decimal \<Rightarrow> bool" where
  "sub_exact a b = fits (exact_add a (dec_neg b))"

lemma dec_fix_fits [simp]: "fits d \<Longrightarrow> dec_fix d = d"
  by (simp add: dec_fix_def fits_def Let_def)

lemma dval_add: "add_exact a b \<Longrightarrow> dval (dec_add a b) = dval a + dval b"
  by (simp add: dec_add_def add_exact_def)

lemma dval_sub: "sub_exact a b \<Longrightarrow> dval (dec_sub a b) = dval a - dval b"
  by (simp add: dec_sub_def sub_exact_def)

lemma ndigits_le: "0 < k \<Longrightarrow> n < 10 ^ k \<Longrightarrow> ndigits n \<le> k"
proof (induction k arbitrary: n)
  case (Suc k)
  show ?case
  proof (cases "n < 10")
    case True
    then show ?thesis by (subst ndigits.simps) simp
  next
    case False
    with Suc.prems have k: "0 < k" by (cases k) auto
    from Suc.prems have "n div 10 < 10 ^ k" by simp
    with k Suc.IH have "ndigits (n div 10) \<le> k" by blast
    with False show ?thesis by (subst ndigits.simps) simp
  qed
qed simp

lemma fits_bound: "\<bar>coeff d\<bar> < 10 ^ 28 \<Longrightarrow> fits d"
  unfolding fits_def prec_def by (rule ndigits_le) auto

lemma dval_mul: "\<bar>coeff a * coeff b\<bar> < 10 ^ 28 \<Longrightarrow> dval (dec_mul a b) = dval a * dval b"
  using fits_bound [of "Dec (coeff a * coeff b) (expo a + expo b)"]
  by (simp add: dec_mul_def dval_def power_int_add)

text \<open>
  Two amounts with the same exponent (both in cents, say) whose coefficients are far from the
  precision: their sum and their difference are exact.
\<close>

lemma same_expo_exact:
  assumes "expo a = expo b" "\<bar>coeff a\<bar> < 10 ^ 27" "\<bar>coeff b\<bar> < 10 ^ 27"
  shows "add_exact a b" "sub_exact a b"
  using assms
  by (auto simp: add_exact_def sub_exact_def exact_add_def dec_align_def dec_neg_def
      intro!: fits_bound)

text \<open>Arithmetic at one exponent is integer arithmetic, while the result fits.\<close>

lemma dec_same_expo:
  "\<bar>x + y\<bar> < 10 ^ 28 \<Longrightarrow> dec_add (Dec x e) (Dec y e) = Dec (x + y) e"
  "\<bar>x - y\<bar> < 10 ^ 28 \<Longrightarrow> dec_sub (Dec x e) (Dec y e) = Dec (x - y) e"
  "dec_less (Dec x e) (Dec y e) \<longleftrightarrow> x < y"
  by (simp_all add: dec_add_def dec_sub_def exact_add_def dec_align_def dec_neg_def dec_less_def
      fits_bound)

text \<open>Subtracting a value that is not larger, or adding a value that is not negative.\<close>

lemma half_even_nonneg: "0 \<le> c \<Longrightarrow> 0 \<le> half_even k c"
  by (auto simp: half_even_def Let_def sgn_if pos_imp_zdiv_nonneg_iff intro: add_nonneg_nonneg)

lemma dec_fix_nonneg: "0 \<le> coeff d \<Longrightarrow> 0 \<le> coeff (dec_fix d)"
  using half_even_nonneg [of "coeff d"]
  by (auto simp: dec_fix_def Let_def pos_imp_zdiv_nonneg_iff)

lemma dval_nonneg_iff: "0 \<le> dval d \<longleftrightarrow> 0 \<le> coeff d"
proof -
  have "(0::rat) < 10 powi expo d" by simp
  from mult_le_cancel_right_pos [OF this, of 0 "of_int (coeff d)"] show ?thesis
    by (simp add: dval_def)
qed

text \<open>Rounding keeps the sign of the exact result, so these need no exactness.\<close>

lemma dec_sub_nonneg: "\<not> dec_less a b \<Longrightarrow> 0 \<le> dval (dec_sub a b)"
proof -
  assume "\<not> dec_less a b"
  then have "0 \<le> dval (exact_add a (dec_neg b))" by (simp add: dec_less_iff)
  then show ?thesis
    unfolding dec_sub_def dval_nonneg_iff by (rule dec_fix_nonneg)
qed

lemma dec_add_nonneg: "0 \<le> dval a \<Longrightarrow> 0 \<le> dval b \<Longrightarrow> 0 \<le> dval (dec_add a b)"
proof -
  assume "0 \<le> dval a" "0 \<le> dval b"
  then have "0 \<le> dval (exact_add a b)" by simp
  then show ?thesis
    unfolding dec_add_def dval_nonneg_iff by (rule dec_fix_nonneg)
qed

end
