(* ===== verification/Txn_Events.thy ===== *)
theory Txn_Events
  imports PyDecimal
begin

text \<open>
  The immutable event store of the transaction services
  (\<open>backend/app/services/event_store.py\<close>): the main log and its three indices.

  The model keeps the store as a record of the four containers. Events are values: the code
  only writes to an event while it is being appended. Lemmas: every append keeps the indices
  equal to filters of the log (\<open>es_wf\<close>), so the queries are what a scan of the log would give;
  the log is append-only; \<open>replay_transaction\<close> reports the last decisive event.
  Not modelled: the JSON text of \<open>to_json\<close> and \<open>export_for_audit\<close>.
\<close>

section \<open>Events\<close>

datatype txn_event_type =
    TRANSFER_INITIATED | TRANSFER_COMPLETED | TRANSFER_FAILED | TRANSFER_CANCELLED
  | PAYMENT_INITIATED | PAYMENT_COMPLETED | PAYMENT_FAILED | PAYMENT_REVERSED
  | BUY_ORDER_INITIATED | BUY_ORDER_FILLED | BUY_ORDER_FAILED
  | SELL_ORDER_INITIATED | SELL_ORDER_FILLED | SELL_ORDER_FAILED
  | BALANCE_RESERVED | BALANCE_RELEASED | BALANCE_MODIFIED
  | CRYPTO_SENT | CRYPTO_RECEIVED
  | GOAL_CONTRIBUTION | GOAL_WITHDRAWAL

fun type_value :: "txn_event_type \<Rightarrow> string" where
  "type_value TRANSFER_INITIATED = ''transfer_initiated''"
| "type_value TRANSFER_COMPLETED = ''transfer_completed''"
| "type_value TRANSFER_FAILED = ''transfer_failed''"
| "type_value TRANSFER_CANCELLED = ''transfer_cancelled''"
| "type_value PAYMENT_INITIATED = ''payment_initiated''"
| "type_value PAYMENT_COMPLETED = ''payment_completed''"
| "type_value PAYMENT_FAILED = ''payment_failed''"
| "type_value PAYMENT_REVERSED = ''payment_reversed''"
| "type_value BUY_ORDER_INITIATED = ''buy_order_initiated''"
| "type_value BUY_ORDER_FILLED = ''buy_order_filled''"
| "type_value BUY_ORDER_FAILED = ''buy_order_failed''"
| "type_value SELL_ORDER_INITIATED = ''sell_order_initiated''"
| "type_value SELL_ORDER_FILLED = ''sell_order_filled''"
| "type_value SELL_ORDER_FAILED = ''sell_order_failed''"
| "type_value BALANCE_RESERVED = ''balance_reserved''"
| "type_value BALANCE_RELEASED = ''balance_released''"
| "type_value BALANCE_MODIFIED = ''balance_modified''"
| "type_value CRYPTO_SENT = ''crypto_sent''"
| "type_value CRYPTO_RECEIVED = ''crypto_received''"
| "type_value GOAL_CONTRIBUTION = ''goal_contribution''"
| "type_value GOAL_WITHDRAWAL = ''goal_withdrawal''"

datatype txn_event_status = EV_PENDING | EV_PROCESSING | EV_COMPLETED | EV_FAILED

fun status_value :: "txn_event_status \<Rightarrow> string" where
  "status_value EV_PENDING = ''pending''"
| "status_value EV_PROCESSING = ''processing''"
| "status_value EV_COMPLETED = ''completed''"
| "status_value EV_FAILED = ''failed''"

type_synonym metadata = "(string \<times> pyval) list"

record txn_event =
  ev_id :: string
  ev_txn :: string
  ev_user :: int
  ev_type :: txn_event_type
  ev_time :: "time option"
  ev_amount :: decimal
  ev_version :: int
  ev_currency :: string
  ev_from :: "int option"
  ev_to :: "int option"
  ev_desc :: string
  ev_meta :: metadata
  ev_status :: txn_event_status
  ev_error :: "string option"
  ev_prev :: "string option"

text \<open>The constructor's defaults; \<open>__post_init__\<close> turns a missing metadata into \<open>{}\<close>.\<close>

definition new_event :: "string \<Rightarrow> string \<Rightarrow> int \<Rightarrow> txn_event_type \<Rightarrow> time \<Rightarrow> decimal \<Rightarrow> txn_event" where
  "new_event eid tid uid ty t amt =
     \<lparr>ev_id = eid, ev_txn = tid, ev_user = uid, ev_type = ty, ev_time = Some t, ev_amount = amt,
      ev_version = 1, ev_currency = ''USD'', ev_from = None, ev_to = None, ev_desc = '''',
      ev_meta = [], ev_status = EV_PENDING, ev_error = None, ev_prev = None\<rparr>"

section \<open>The store\<close>

record event_store =
  es_events :: "txn_event list"
  es_txn :: "(string, txn_event list) dict"
  es_acct :: "(int, txn_event list) dict"
  es_user :: "(int, txn_event list) dict"

definition empty_store :: event_store where
  "empty_store = \<lparr>es_events = [], es_txn = [], es_acct = [], es_user = []\<rparr>"

text \<open>\<open>if k not in d: d[k] = []\<close>, then \<open>d[k].append(x)\<close>\<close>

definition push_index :: "'k \<Rightarrow> 'v \<Rightarrow> ('k, 'v list) dict \<Rightarrow> ('k, 'v list) dict" where
  "push_index k x d = dset k (dget_or d k [] @ [x]) d"

definition stamp :: "env \<Rightarrow> txn_event \<Rightarrow> txn_event" where
  "stamp e ev =
     (let ev1 = (if ev_id ev = '''' then ev\<lparr>ev_id := uuid e 0\<rparr> else ev)
      in (if ev_time ev1 = None then ev1\<lparr>ev_time := Some (clock e 0)\<rparr> else ev1))"

definition append_event :: "env \<Rightarrow> txn_event \<Rightarrow> event_store \<Rightarrow> event_store" where
  "append_event e ev0 s =
     (let ev = stamp e ev0;
          s1 = s\<lparr>es_events := es_events s @ [ev]\<rparr>;
          s2 = s1\<lparr>es_txn := push_index (ev_txn ev) ev (es_txn s1)\<rparr>;
          s3 = (case ev_from ev of None \<Rightarrow> s2
                | Some a \<Rightarrow> s2\<lparr>es_acct := push_index a ev (es_acct s2)\<rparr>);
          s4 = (case ev_to ev of None \<Rightarrow> s3
                | Some a \<Rightarrow> s3\<lparr>es_acct := push_index a ev (es_acct s3)\<rparr>)
      in s4\<lparr>es_user := push_index (ev_user ev) ev (es_user s4)\<rparr>)"

definition get_transaction_events :: "event_store \<Rightarrow> string \<Rightarrow> txn_event list" where
  "get_transaction_events s tid = dget_or (es_txn s) tid []"

text \<open>The comparison of a stored time; \<open>append_event\<close> leaves no event without one.\<close>

definition at_or_after :: "time option \<Rightarrow> time \<Rightarrow> bool" where
  "at_or_after t b = (case t of None \<Rightarrow> False | Some x \<Rightarrow> b \<le> x)"

definition at_or_before :: "time option \<Rightarrow> time \<Rightarrow> bool" where
  "at_or_before t b = (case t of None \<Rightarrow> False | Some x \<Rightarrow> x \<le> b)"

definition get_account_events ::
    "event_store \<Rightarrow> int \<Rightarrow> time option \<Rightarrow> time option \<Rightarrow> txn_event list" where
  "get_account_events s a start_time end_time =
     (let events = dget_or (es_acct s) a []
      in if start_time \<noteq> None \<or> end_time \<noteq> None
         then filter (\<lambda>ev.
                (case start_time of None \<Rightarrow> True | Some b \<Rightarrow> at_or_after (ev_time ev) b)
              \<and> (case end_time of None \<Rightarrow> True | Some b \<Rightarrow> at_or_before (ev_time ev) b)) events
         else events)"

definition get_user_events :: "event_store \<Rightarrow> int \<Rightarrow> txn_event_type option \<Rightarrow> txn_event list" where
  "get_user_events s u ty =
     (let events = dget_or (es_user s) u []
      in case ty of None \<Rightarrow> events | Some t \<Rightarrow> filter (\<lambda>ev. ev_type ev = t) events)"

record replay_state =
  rp_txn :: string
  rp_status :: string
  rp_amount :: decimal
  rp_events :: nat
  rp_timeline :: "(time option \<times> string \<times> string \<times> string) list"

definition replay_event :: "txn_event \<Rightarrow> replay_state \<Rightarrow> replay_state" where
  "replay_event ev st =
     (let v = type_value (ev_type ev);
          st1 = st\<lparr>rp_timeline := rp_timeline st
                     @ [(ev_time ev, v, status_value (ev_status ev), dec_str (ev_amount ev))]\<rparr>
      in if in_str ''completed'' v then st1\<lparr>rp_status := ''completed''\<rparr>
         else if in_str ''failed'' v then st1\<lparr>rp_status := ''failed''\<rparr>
         else if in_str ''initiated'' v then st1\<lparr>rp_status := ''pending''\<rparr>
         else st1)"

definition replay_transaction :: "event_store \<Rightarrow> string \<Rightarrow> replay_state" where
  "replay_transaction s tid =
     (let events = get_transaction_events s tid
      in fold replay_event events
           \<lparr>rp_txn = tid, rp_status = ''unknown'', rp_amount = Dec 0 0,
            rp_events = length events, rp_timeline = []\<rparr>)"

definition get_all_events :: "event_store \<Rightarrow> txn_event list" where
  "get_all_events s = es_events s"

definition clear_store :: "event_store \<Rightarrow> event_store" where
  "clear_store s = \<lparr>es_events = [], es_txn = [], es_acct = [], es_user = []\<rparr>"

section \<open>The indices are filters of the log\<close>

definition acct_hits :: "int \<Rightarrow> txn_event \<Rightarrow> txn_event list" where
  "acct_hits a ev = (if ev_from ev = Some a then [ev] else []) @ (if ev_to ev = Some a then [ev] else [])"

definition es_wf :: "event_store \<Rightarrow> bool" where
  "es_wf s \<longleftrightarrow>
     (\<forall>t. dget_or (es_txn s) t [] = filter (\<lambda>ev. ev_txn ev = t) (es_events s))
   \<and> (\<forall>a. dget_or (es_acct s) a [] = concat (map (acct_hits a) (es_events s)))
   \<and> (\<forall>u. dget_or (es_user s) u [] = filter (\<lambda>ev. ev_user ev = u) (es_events s))"

lemma dget_or_push [simp]:
  "dget_or (push_index k x d) k' [] = (if k' = k then dget_or d k [] @ [x] else dget_or d k' [])"
  by (simp add: push_index_def)

lemma events_append [simp]: "es_events (append_event e ev s) = es_events s @ [stamp e ev]"
  by (simp add: append_event_def Let_def split: option.split)

lemma txn_index_append:
  "dget_or (es_txn (append_event e ev s)) t [] =
     dget_or (es_txn s) t [] @ (if ev_txn (stamp e ev) = t then [stamp e ev] else [])"
  by (simp add: append_event_def Let_def split: option.split)

lemma user_index_append:
  "dget_or (es_user (append_event e ev s)) u [] =
     dget_or (es_user s) u [] @ (if ev_user (stamp e ev) = u then [stamp e ev] else [])"
  by (simp add: append_event_def Let_def split: option.split)

lemma acct_index_append:
  "dget_or (es_acct (append_event e ev s)) a [] =
     dget_or (es_acct s) a [] @ acct_hits a (stamp e ev)"
  by (simp add: append_event_def Let_def acct_hits_def split: option.split)

lemma stamp_simps [simp]:
  "ev_txn (stamp e ev) = ev_txn ev" "ev_user (stamp e ev) = ev_user ev"
  "ev_type (stamp e ev) = ev_type ev" "ev_amount (stamp e ev) = ev_amount ev"
  "ev_from (stamp e ev) = ev_from ev" "ev_to (stamp e ev) = ev_to ev"
  "ev_status (stamp e ev) = ev_status ev" "ev_error (stamp e ev) = ev_error ev"
  "ev_desc (stamp e ev) = ev_desc ev" "ev_meta (stamp e ev) = ev_meta ev"
  by (simp_all add: stamp_def Let_def)

lemma stamp_time: "ev_time (stamp e ev) \<noteq> None"
  by (simp add: stamp_def Let_def)

lemma stamp_id: "uuid e 0 \<noteq> '''' \<Longrightarrow> ev_id (stamp e ev) \<noteq> ''''"
  by (simp add: stamp_def Let_def)

lemma stamp_new [simp]: "eid \<noteq> '''' \<Longrightarrow> ev_id ev = eid \<Longrightarrow> ev_time ev = Some t \<Longrightarrow> stamp e ev = ev"
  by (simp add: stamp_def)

lemma es_wf_empty [inv_intros]: "es_wf empty_store"
  by (simp add: es_wf_def empty_store_def)

lemma es_wf_clear [inv_intros]: "es_wf (clear_store s)"
  by (simp add: es_wf_def clear_store_def)

lemma es_wf_append [inv_intros]: "es_wf s \<Longrightarrow> es_wf (append_event e ev s)"
  by (simp add: es_wf_def txn_index_append user_index_append acct_index_append)

interpretation es_inv: preserved "\<lambda>(e, ev). append_event e ev" es_wf
  by unfold_locales (auto intro: es_wf_append)

interpretation es_log: append_only "\<lambda>(e, ev). append_event e ev" es_events
  by unfold_locales auto

text \<open>The stores that appends can build.\<close>

definition es_run :: "(env \<times> txn_event) list \<Rightarrow> event_store \<Rightarrow> event_store" where
  "es_run evs s = fold (\<lambda>(e, ev). append_event e ev) evs s"

lemma es_wf_run: "es_wf s \<Longrightarrow> es_wf (es_run evs s)"
  unfolding es_run_def by (rule es_inv.run_inv)

lemma txn_events_filter:
  "es_wf s \<Longrightarrow> get_transaction_events s t = filter (\<lambda>ev. ev_txn ev = t) (es_events s)"
  by (simp add: es_wf_def get_transaction_events_def)

section \<open>Replay\<close>

text \<open>What an event of a type says about the transaction; \<open>None\<close> for a type that says nothing.\<close>

definition verdict :: "txn_event_type \<Rightarrow> string option" where
  "verdict ty =
     (if ty \<in> {TRANSFER_COMPLETED, PAYMENT_COMPLETED} then Some ''completed''
      else if ty \<in> {TRANSFER_FAILED, PAYMENT_FAILED, BUY_ORDER_FAILED, SELL_ORDER_FAILED}
        then Some ''failed''
      else if ty \<in> {TRANSFER_INITIATED, PAYMENT_INITIATED, BUY_ORDER_INITIATED, SELL_ORDER_INITIATED}
        then Some ''pending''
      else None)"

lemma replay_event_status:
  "rp_status (replay_event ev st) =
     (case verdict (ev_type ev) of None \<Rightarrow> rp_status st | Some v \<Rightarrow> v)"
  by (cases "ev_type ev") (simp_all add: replay_event_def verdict_def Let_def)

lemma replay_fold_status:
  "rp_status (fold replay_event evs st) =
     (let ds = filter (\<lambda>ev. verdict (ev_type ev) \<noteq> None) evs
      in if ds = [] then rp_status st else the (verdict (ev_type (last ds))))"
  by (induction evs rule: rev_induct)
     (auto simp: replay_event_status Let_def split: option.split)

lemma replay_event_frame [simp]:
  "rp_txn (replay_event ev st) = rp_txn st" "rp_amount (replay_event ev st) = rp_amount st"
  "rp_events (replay_event ev st) = rp_events st"
  "length (rp_timeline (replay_event ev st)) = Suc (length (rp_timeline st))"
  by (simp_all add: replay_event_def Let_def)

lemma replay_fold_frame:
  "rp_amount (fold replay_event evs st) = rp_amount st"
  "rp_events (fold replay_event evs st) = rp_events st"
  "length (rp_timeline (fold replay_event evs st)) = length (rp_timeline st) + length evs"
  by (induction evs arbitrary: st) simp_all

section \<open>Properties\<close>

text \<open>C21: whatever sequence of events is appended to an empty store, the three indices stay exact: the
  events of a transaction are the scan of the log for it, in log order; so are a user's; and an
  account's list holds an event once for each side of it the account is on.\<close>

theorem indices_exact:
  "get_transaction_events (es_run evs empty_store) t
     = filter (\<lambda>ev. ev_txn ev = t) (get_all_events (es_run evs empty_store))
   \<and> get_user_events (es_run evs empty_store) u None
     = filter (\<lambda>ev. ev_user ev = u) (get_all_events (es_run evs empty_store))
   \<and> get_account_events (es_run evs empty_store) a None None
     = concat (map (acct_hits a) (get_all_events (es_run evs empty_store)))"
  using es_wf_run [OF es_wf_empty, of evs]
  by (simp add: es_wf_def get_transaction_events_def get_user_events_def
      get_account_events_def get_all_events_def)

text \<open>the log is immutable: an event recorded at position i is still there, unchanged, after any
  further appends.\<close>

theorem log_immutable:
  assumes "i < length (get_all_events s)"
  shows "get_all_events (es_run evs s) ! i = get_all_events s ! i"
  using assms es_log.run_nth(1) [of i s evs] by (simp add: get_all_events_def es_run_def)

theorem log_immutable_witness:
  "get_all_events (es_run [(env0, new_event ''b'' ''t2'' 2 CRYPTO_SENT 5 (Dec 1 0))]
      (append_event env0 (new_event ''a'' ''t1'' 1 TRANSFER_INITIATED 3 (Dec 1 0)) empty_store)) ! 0
   = new_event ''a'' ''t1'' 1 TRANSFER_INITIATED 3 (Dec 1 0)"
  using log_immutable [of 0 "append_event env0
      (new_event ''a'' ''t1'' 1 TRANSFER_INITIATED 3 (Dec 1 0)) empty_store"
      "[(env0, new_event ''b'' ''t2'' 2 CRYPTO_SENT 5 (Dec 1 0))]"]
  by (simp add: get_all_events_def empty_store_def new_event_def stamp_def)

text \<open>replaying a transaction reports the verdict of its last decisive event (a completed, failed or
  initiated type), \<open>unknown\<close> if it has none; its timeline lists every event; the amount it
  reports is always zero, since replay never reads the events' amounts.\<close>

theorem replay_reports_last_verdict:
  "(let s = es_run evs empty_store;
        ds = filter (\<lambda>ev. verdict (ev_type ev) \<noteq> None) (get_transaction_events s t);
        r = replay_transaction s t
    in rp_status r = (if ds = [] then ''unknown'' else the (verdict (ev_type (last ds))))
     \<and> length (rp_timeline r) = length (filter (\<lambda>ev. ev_txn ev = t) (get_all_events s))
     \<and> rp_amount r = Dec 0 0)"
  using txn_events_filter [OF es_wf_run [OF es_wf_empty], of evs t]
  by (simp add: replay_transaction_def replay_fold_status replay_fold_frame get_all_events_def Let_def)

end
