(* ===== verification/Coordinator.thy ===== *)
theory Coordinator
  imports Txn_Events
begin

text \<open>
  The transaction coordinator (\<open>backend/app/services/transaction_coordinator.py\<close>): transaction
  contexts and their states, the optimistic version lock, the queue with its worker, and the
  bookkeeping of in-flight and completed transactions.

  Contexts are objects shared by the queue, the two tracking dictionaries and the callers: the
  model gives each a reference (a \<open>nat\<close>) and keeps their contents in \<open>co_ctx\<close>. Handlers are
  registered by name; what a handler does is the parameter \<open>run\<close> of the operations that call
  one, and \<open>co_world\<close> is the state only handlers touch. The locale \<open>handler_contract\<close> says what the
  coordinator relies on; the theory of the handlers interprets it. One call of \<open>worker_tick\<close> is one
  round of the worker thread's loop; \<open>submit_put\<close> and \<open>submit_track\<close> are the two atomic parts of
  \<open>submit_transaction\<close>, so that worker rounds can come between them.
\<close>

section \<open>Transaction contexts\<close>

datatype txn_state = PENDING | PROCESSING | COMPLETED | FAILED | CANCELLED

fun txn_state_value :: "txn_state \<Rightarrow> string" where
  "txn_state_value PENDING = ''pending''"
| "txn_state_value PROCESSING = ''processing''"
| "txn_state_value COMPLETED = ''completed''"
| "txn_state_value FAILED = ''failed''"
| "txn_state_value CANCELLED = ''cancelled''"

record txn_context =
  cx_id :: string
  cx_user :: int
  cx_type :: string
  cx_amount :: decimal
  cx_from :: "int option"
  cx_to :: "int option"
  cx_desc :: string
  cx_meta :: metadata
  cx_state :: txn_state
  cx_created :: time
  cx_started :: "time option"
  cx_completed :: "time option"
  cx_error :: "string option"
  cx_version :: int
  cx_account_versions :: "(int, int) dict"

text \<open>\<open>__init__\<close>; \<open>Decimal(str(amount))\<close> of a decimal is that decimal.\<close>

definition new_context ::
    "string \<Rightarrow> int \<Rightarrow> string \<Rightarrow> decimal \<Rightarrow> int option \<Rightarrow> int option \<Rightarrow> string \<Rightarrow> metadata \<Rightarrow> time
     \<Rightarrow> txn_context" where
  "new_context tid uid ty amt frm dest desc meta now =
     \<lparr>cx_id = tid, cx_user = uid, cx_type = ty, cx_amount = amt, cx_from = frm, cx_to = dest,
      cx_desc = desc, cx_meta = meta, cx_state = PENDING, cx_created = now, cx_started = None,
      cx_completed = None, cx_error = None, cx_version = 1, cx_account_versions = []\<rparr>"

definition mark_processing :: "time \<Rightarrow> txn_context \<Rightarrow> txn_context" where
  "mark_processing now c = c\<lparr>cx_state := PROCESSING, cx_started := Some now\<rparr>"

definition mark_completed :: "time \<Rightarrow> txn_context \<Rightarrow> txn_context" where
  "mark_completed now c = c\<lparr>cx_state := COMPLETED, cx_completed := Some now\<rparr>"

definition mark_failed :: "string \<Rightarrow> time \<Rightarrow> txn_context \<Rightarrow> txn_context" where
  "mark_failed msg now c = c\<lparr>cx_state := FAILED, cx_completed := Some now, cx_error := Some msg\<rparr>"

definition mark_cancelled :: "time \<Rightarrow> txn_context \<Rightarrow> txn_context" where
  "mark_cancelled now c = c\<lparr>cx_state := CANCELLED, cx_completed := Some now\<rparr>"

definition duration :: "txn_context \<Rightarrow> time option" where
  "duration c =
     (case (cx_started c, cx_completed c) of (Some a, Some b) \<Rightarrow> Some (b - a) | _ \<Rightarrow> None)"

section \<open>The version lock\<close>

type_synonym version_lock = "(int, int) dict"

definition get_version :: "version_lock \<Rightarrow> int \<Rightarrow> int" where
  "get_version v a = dget_or v a 1"

definition increment_version :: "int \<Rightarrow> version_lock \<Rightarrow> version_lock \<times> int" where
  "increment_version a v =
     (let current = dget_or v a 1; v' = dset a (current + 1) v
      in (v', dget_or v' a 1))"

definition validate_version :: "version_lock \<Rightarrow> int \<Rightarrow> int \<Rightarrow> bool" where
  "validate_version v a expected = (dget_or v a 1 = expected)"

definition reset_versions :: "version_lock \<Rightarrow> version_lock" where
  "reset_versions v = []"

section \<open>The coordinator\<close>

record stats =
  total_processed :: int
  total_failed :: int
  total_completed :: int

definition zero_stats :: stats where
  "zero_stats = \<lparr>total_processed = 0, total_failed = 0, total_completed = 0\<rparr>"

type_synonym cref = nat

record ('h, 'w) coordinator =
  co_queue :: "cref list"
  co_maxsize :: int
  co_ctx :: "cref \<Rightarrow> txn_context"
  co_transactions :: "(string, cref) dict"
  co_completed :: "(string, cref) dict"
  co_versions :: version_lock
  co_events :: event_store
  co_handlers :: "(string, 'h) dict"
  co_stats :: stats
  co_worker :: bool
  co_stop :: bool
  co_world :: 'w

definition init_coordinator ::
    "int \<Rightarrow> event_store \<Rightarrow> (cref \<Rightarrow> txn_context) \<Rightarrow> 'w \<Rightarrow> ('h, 'w) coordinator" where
  "init_coordinator maxsize es heap w =
     \<lparr>co_queue = [], co_maxsize = maxsize, co_ctx = heap, co_transactions = [], co_completed = [],
      co_versions = [], co_events = es, co_handlers = [], co_stats = zero_stats,
      co_worker = False, co_stop = False, co_world = w\<rparr>"

definition upd_ctx ::
    "cref \<Rightarrow> (txn_context \<Rightarrow> txn_context) \<Rightarrow> ('h, 'w) coordinator \<Rightarrow> ('h, 'w) coordinator" where
  "upd_ctx r f s = s\<lparr>co_ctx := (co_ctx s)(r := f (co_ctx s r))\<rparr>"

definition log_event :: "env \<Rightarrow> txn_event \<Rightarrow> ('h, 'w) coordinator \<Rightarrow> ('h, 'w) coordinator" where
  "log_event e ev s = s\<lparr>co_events := append_event e ev (co_events s)\<rparr>"

definition register_handler :: "string \<Rightarrow> 'h \<Rightarrow> ('h, 'w) coordinator \<Rightarrow> ('h, 'w) coordinator" where
  "register_handler ty h s = s\<lparr>co_handlers := dset ty h (co_handlers s)\<rparr>"

definition failure_event :: "string \<Rightarrow> time \<Rightarrow> string \<Rightarrow> txn_context \<Rightarrow> txn_event" where
  "failure_event eid now err c =
     (new_event eid (cx_id c) (cx_user c) TRANSFER_FAILED now (cx_amount c))
       \<lparr>ev_from := cx_from c, ev_to := cx_to c, ev_status := EV_FAILED, ev_error := Some err\<rparr>"

definition record_failure_event ::
    "env \<Rightarrow> cref \<Rightarrow> string \<Rightarrow> ('h, 'w) coordinator \<Rightarrow> ('h, 'w) coordinator" where
  "record_failure_event e r err s =
     log_event e (failure_event (uuid e 0) (clock e 0) err (co_ctx s r)) s"

definition initial_event :: "string \<Rightarrow> time \<Rightarrow> txn_context \<Rightarrow> txn_event" where
  "initial_event eid now c =
     (new_event eid (cx_id c) (cx_user c) TRANSFER_INITIATED now (cx_amount c))
       \<lparr>ev_from := cx_from c, ev_to := cx_to c, ev_desc := cx_desc c, ev_meta := cx_meta c,
        ev_status := EV_PENDING\<rparr>"

text \<open>\<open>Queue.put(block=False)\<close> of the standard library: a size of 0 or less is no bound.\<close>

definition queue_full :: "('h, 'w) coordinator \<Rightarrow> bool" where
  "queue_full s = (0 < co_maxsize s \<and> co_maxsize s \<le> int (length (co_queue s)))"

definition submit_put :: "env \<Rightarrow> cref \<Rightarrow> ('h, 'w) coordinator \<Rightarrow> string result \<times> ('h, 'w) coordinator" where
  "submit_put e r s =
     (let s1 = (if cx_id (co_ctx s r) = '''' then upd_ctx r (\<lambda>c. c\<lparr>cx_id := uuid e 0\<rparr>) s else s);
          s2 = log_event e (initial_event (uuid e 1) (clock e 0) (co_ctx s1 r)) s1
      in if queue_full s2
         then (let s3 = upd_ctx r (mark_failed (''Queue full: '' @ err_str QueueFull) (clock e 1)) s2
               in (Err QueueFull, record_failure_event (later 2 e) r (err_str QueueFull) s3))
         else (Ok (cx_id (co_ctx s2 r)), s2\<lparr>co_queue := co_queue s2 @ [r]\<rparr>))"

definition submit_track :: "cref \<Rightarrow> ('h, 'w) coordinator \<Rightarrow> ('h, 'w) coordinator" where
  "submit_track r s = s\<lparr>co_transactions := dset (cx_id (co_ctx s r)) r (co_transactions s)\<rparr>"

definition submit_transaction ::
    "env \<Rightarrow> cref \<Rightarrow> ('h, 'w) coordinator \<Rightarrow> string result \<times> ('h, 'w) coordinator" where
  "submit_transaction e r s =
     (case submit_put e r s of
        (Inl err, s1) \<Rightarrow> (Err err, s1)
      | (Inr tid, s1) \<Rightarrow> (Ok tid, submit_track r s1))"

definition get_transaction_status :: "('h, 'w) coordinator \<Rightarrow> string \<Rightarrow> cref option" where
  "get_transaction_status s tid =
     (case dget (co_transactions s) tid of
        Some r \<Rightarrow> Some r
      | None \<Rightarrow> dget (co_completed s) tid)"

definition start_processing :: "('h, 'w) coordinator \<Rightarrow> ('h, 'w) coordinator" where
  "start_processing s = (if \<not> co_worker s then s\<lparr>co_stop := False, co_worker := True\<rparr> else s)"

definition stop_processing :: "('h, 'w) coordinator \<Rightarrow> ('h, 'w) coordinator" where
  "stop_processing s = s\<lparr>co_stop := True\<rparr>"

definition processing_event :: "string \<Rightarrow> time \<Rightarrow> txn_context \<Rightarrow> txn_event" where
  "processing_event eid now c =
     (new_event eid (cx_id c) (cx_user c) TRANSFER_INITIATED now (cx_amount c))
       \<lparr>ev_from := cx_from c, ev_to := cx_to c, ev_desc := cx_desc c, ev_status := EV_PROCESSING\<rparr>"

definition completion_event :: "string \<Rightarrow> time \<Rightarrow> txn_context \<Rightarrow> txn_event" where
  "completion_event eid now c =
     (new_event eid (cx_id c) (cx_user c) TRANSFER_COMPLETED now (cx_amount c))
       \<lparr>ev_from := cx_from c, ev_to := cx_to c, ev_status := EV_COMPLETED\<rparr>"

type_synonym ('h, 'w) runner =
  "'h \<Rightarrow> env \<Rightarrow> cref \<Rightarrow> ('h, 'w) coordinator \<Rightarrow> unit result \<times> ('h, 'w) coordinator"

definition call_handler :: "('h, 'w) runner \<Rightarrow> env \<Rightarrow> cref \<Rightarrow> ('h, 'w) coordinator
    \<Rightarrow> unit result \<times> ('h, 'w) coordinator" where
  "call_handler run e r s =
     (case dget (co_handlers s) (cx_type (co_ctx s r)) of
        None \<Rightarrow> (Err (ValueError (''No handler for transaction type: '' @ cx_type (co_ctx s r))), s)
      | Some h \<Rightarrow> run h e r s)"

definition finish_ok :: "env \<Rightarrow> cref \<Rightarrow> ('h, 'w) coordinator \<Rightarrow> ('h, 'w) coordinator" where
  "finish_ok e r s =
     (let s1 = upd_ctx r (mark_completed (clock e 2)) s;
          s2 = log_event e (completion_event (uuid e 1) (clock e 3) (co_ctx s1 r)) s1;
          tid = cx_id (co_ctx s2 r);
          s3 = s2\<lparr>co_transactions := ddel tid (co_transactions s2),
                  co_completed := dset tid r (co_completed s2)\<rparr>;
          s4 = s3\<lparr>co_stats := (co_stats s3)\<lparr>total_completed := total_completed (co_stats s3) + 1\<rparr>\<rparr>
      in s4\<lparr>co_stats := (co_stats s4)\<lparr>total_processed := total_processed (co_stats s4) + 1\<rparr>\<rparr>)"

definition finish_failed :: "env \<Rightarrow> cref \<Rightarrow> string \<Rightarrow> ('h, 'w) coordinator \<Rightarrow> ('h, 'w) coordinator" where
  "finish_failed e r msg s =
     (let s1 = upd_ctx r (mark_failed msg (clock e 2)) s;
          s2 = record_failure_event (later 3 e) r msg s1
      in s2\<lparr>co_stats := (co_stats s2)\<lparr>total_failed := total_failed (co_stats s2) + 1\<rparr>\<rparr>)"

definition process_transaction :: "('h, 'w) runner \<Rightarrow> env \<Rightarrow> cref \<Rightarrow> ('h, 'w) coordinator
    \<Rightarrow> unit result \<times> ('h, 'w) coordinator" where
  "process_transaction run e r s =
     (let s1 = upd_ctx r (mark_processing (clock e 0)) s;
          s2 = log_event e (processing_event (uuid e 0) (clock e 1) (co_ctx s1 r)) s1
      in case call_handler run (later 10 e) r s2 of
           (Inr u, s3) \<Rightarrow> (Ok u, finish_ok e r s3)
         | (Inl err, s3) \<Rightarrow> (Err err, finish_failed e r (err_str err) s3))"

definition worker_round :: "('h, 'w) runner \<Rightarrow> env \<Rightarrow> ('h, 'w) coordinator \<Rightarrow> ('h, 'w) coordinator" where
  "worker_round run e s =
     (case co_queue s of
        [] \<Rightarrow> s
      | r # q \<Rightarrow>
          (case process_transaction run e r (s\<lparr>co_queue := q\<rparr>) of
             (Inr u, s1) \<Rightarrow> s1
           | (Inl err, s1) \<Rightarrow>
               record_failure_event (later 5 e) r (err_str err)
                 (upd_ctx r (mark_failed (err_str err) (clock e 4)) s1)))"

definition worker_tick :: "('h, 'w) runner \<Rightarrow> env \<Rightarrow> ('h, 'w) coordinator \<Rightarrow> ('h, 'w) coordinator" where
  "worker_tick run e s =
     (if \<not> co_worker s then s
      else if co_stop s then s\<lparr>co_worker := False\<rparr>
      else worker_round run e s)"

definition get_statistics :: "('h, 'w) coordinator \<Rightarrow> stats" where
  "get_statistics s = co_stats s"

definition reset_statistics :: "('h, 'w) coordinator \<Rightarrow> ('h, 'w) coordinator" where
  "reset_statistics s = s\<lparr>co_stats := zero_stats\<rparr>"

definition get_queue_size :: "('h, 'w) coordinator \<Rightarrow> int" where
  "get_queue_size s = int (length (co_queue s))"

section \<open>Frame lemmas\<close>

lemma upd_ctx_frame [frame_simps]:
  "co_queue (upd_ctx r f s) = co_queue s" "co_maxsize (upd_ctx r f s) = co_maxsize s"
  "co_transactions (upd_ctx r f s) = co_transactions s"
  "co_completed (upd_ctx r f s) = co_completed s" "co_versions (upd_ctx r f s) = co_versions s"
  "co_events (upd_ctx r f s) = co_events s" "co_handlers (upd_ctx r f s) = co_handlers s"
  "co_stats (upd_ctx r f s) = co_stats s" "co_worker (upd_ctx r f s) = co_worker s"
  "co_stop (upd_ctx r f s) = co_stop s" "co_world (upd_ctx r f s) = co_world s"
  "co_ctx (upd_ctx r f s) = (co_ctx s)(r := f (co_ctx s r))"
  by (simp_all add: upd_ctx_def)

lemma log_event_frame [frame_simps]:
  "co_queue (log_event e ev s) = co_queue s" "co_maxsize (log_event e ev s) = co_maxsize s"
  "co_transactions (log_event e ev s) = co_transactions s"
  "co_completed (log_event e ev s) = co_completed s" "co_versions (log_event e ev s) = co_versions s"
  "co_events (log_event e ev s) = append_event e ev (co_events s)"
  "co_handlers (log_event e ev s) = co_handlers s"
  "co_stats (log_event e ev s) = co_stats s" "co_worker (log_event e ev s) = co_worker s"
  "co_stop (log_event e ev s) = co_stop s" "co_world (log_event e ev s) = co_world s"
  "co_ctx (log_event e ev s) = co_ctx s"
  by (simp_all add: log_event_def)

lemma mark_frame [simp]:
  "cx_id (mark_processing t c) = cx_id c" "cx_id (mark_completed t c) = cx_id c"
  "cx_id (mark_failed m t c) = cx_id c" "cx_type (mark_processing t c) = cx_type c"
  "cx_state (mark_processing t c) = PROCESSING" "cx_state (mark_completed t c) = COMPLETED"
  "cx_state (mark_failed m t c) = FAILED" "cx_error (mark_failed m t c) = Some m"
  "cx_amount (mark_completed t c) = cx_amount c" "cx_amount (mark_failed m t c) = cx_amount c"
  "cx_amount (mark_processing t c) = cx_amount c" "cx_from (mark_processing t c) = cx_from c"
  "cx_to (mark_processing t c) = cx_to c"
  by (simp_all add: mark_processing_def mark_completed_def mark_failed_def)

lemma record_failure_frame [frame_simps]:
  "co_queue (record_failure_event e r m s) = co_queue s"
  "co_maxsize (record_failure_event e r m s) = co_maxsize s"
  "co_transactions (record_failure_event e r m s) = co_transactions s"
  "co_completed (record_failure_event e r m s) = co_completed s"
  "co_versions (record_failure_event e r m s) = co_versions s"
  "co_events (record_failure_event e r m s)
     = append_event e (failure_event (uuid e 0) (clock e 0) m (co_ctx s r)) (co_events s)"
  "co_handlers (record_failure_event e r m s) = co_handlers s"
  "co_stats (record_failure_event e r m s) = co_stats s"
  "co_worker (record_failure_event e r m s) = co_worker s"
  "co_stop (record_failure_event e r m s) = co_stop s"
  "co_world (record_failure_event e r m s) = co_world s"
  "co_ctx (record_failure_event e r m s) = co_ctx s"
  by (simp_all add: record_failure_event_def frame_simps)

section \<open>The coordinator's invariant\<close>

text \<open>What one round of the worker does to the transaction at the head of the queue.\<close>

definition after_round ::
    "cref \<Rightarrow> cref list \<Rightarrow> ('h, 'w) coordinator \<Rightarrow> ('h, 'w) coordinator \<Rightarrow> bool" where
  "after_round r q s s' \<longleftrightarrow>
     co_queue s' = q \<and> co_worker s' = co_worker s \<and> co_stop s' = co_stop s
   \<and> co_maxsize s' = co_maxsize s
   \<and> cx_state (co_ctx s' r) \<in> {COMPLETED, FAILED}
   \<and> cx_amount (co_ctx s' r) = cx_amount (co_ctx s r)
   \<and> (\<forall>r'. r' \<noteq> r \<longrightarrow> co_ctx s' r' = co_ctx s r')
   \<and> (co_completed s' = co_completed s
        \<or> (\<exists>t. co_completed s' = dset t r (co_completed s) \<and> cx_state (co_ctx s' r) = COMPLETED))
   \<and> prefix (es_events (co_events s)) (es_events (co_events s'))
   \<and> (es_wf (co_events s) \<longrightarrow> es_wf (co_events s'))
   \<and> total_processed (co_stats s') - total_completed (co_stats s')
       = total_processed (co_stats s) - total_completed (co_stats s)
   \<and> total_failed (co_stats s') + total_completed (co_stats s')
       = total_failed (co_stats s) + total_completed (co_stats s) + 1"

text \<open>
  The queue respects its bound, the event indices are exact, and the statistics agree: the
  processed count is the completed count, failures are not in it.
\<close>

definition co_inv :: "('h, 'w) coordinator \<Rightarrow> bool" where
  "co_inv s \<longleftrightarrow>
     (0 < co_maxsize s \<longrightarrow> int (length (co_queue s)) \<le> co_maxsize s)
   \<and> es_wf (co_events s)
   \<and> total_processed (co_stats s) = total_completed (co_stats s)"

lemma co_inv_init [inv_intros]: "es_wf es \<Longrightarrow> co_inv (init_coordinator n es heap w)"
  by (simp add: co_inv_def init_coordinator_def zero_stats_def)

lemma co_inv_put [inv_intros]: "co_inv s \<Longrightarrow> co_inv (snd (submit_put e r s))"
  by (auto simp: co_inv_def submit_put_def Let_def queue_full_def frame_simps es_wf_append)

lemma co_inv_track [inv_intros]: "co_inv s \<Longrightarrow> co_inv (submit_track r s)"
  by (simp add: co_inv_def submit_track_def)

lemma co_inv_submit [inv_intros]: "co_inv s \<Longrightarrow> co_inv (snd (submit_transaction e r s))"
  using co_inv_put [of s e r]
  by (auto simp: submit_transaction_def split: prod.split sum.split intro: co_inv_track)

lemma co_inv_admin [inv_intros]:
  "co_inv s \<Longrightarrow> co_inv (register_handler ty h s)" "co_inv s \<Longrightarrow> co_inv (start_processing s)"
  "co_inv s \<Longrightarrow> co_inv (stop_processing s)" "co_inv s \<Longrightarrow> co_inv (reset_statistics s)"
  by (simp_all add: co_inv_def register_handler_def start_processing_def stop_processing_def
      reset_statistics_def zero_stats_def)

section \<open>What the coordinator relies on\<close>

text \<open>The part of the state that is the coordinator's own; handlers leave it alone.\<close>

definition co_admin where
  "co_admin s = (co_queue s, co_maxsize s, co_ctx s, co_transactions s, co_completed s,
                 co_handlers s, co_stats s, co_worker s, co_stop s)"

text \<open>
  The contract of the registered handlers: they do not touch the coordinator's bookkeeping, they
  only append to the event log and keep its indices exact, and a handler that raises has had
  no effect.
\<close>

locale handler_contract =
  fixes run :: "'h \<Rightarrow> env \<Rightarrow> cref \<Rightarrow> ('h, 'w) coordinator \<Rightarrow> unit result \<times> ('h, 'w) coordinator"
  assumes run_admin: "run h e r s = (x, s') \<Longrightarrow> co_admin s' = co_admin s"
    and run_log: "run h e r s = (x, s') \<Longrightarrow>
      prefix (es_events (co_events s)) (es_events (co_events s'))"
    and run_wf: "run h e r s = (x, s') \<Longrightarrow> es_wf (co_events s) \<Longrightarrow> es_wf (co_events s')"
    and run_failed: "run h e r s = (Inl err, s') \<Longrightarrow> s' = s"
begin

lemma call_admin: "call_handler run e r s = (x, s') \<Longrightarrow> co_admin s' = co_admin s"
  by (auto simp: call_handler_def dest: run_admin split: option.splits)

lemma call_log: "call_handler run e r s = (x, s') \<Longrightarrow>
    prefix (es_events (co_events s)) (es_events (co_events s'))"
  by (auto simp: call_handler_def dest: run_log split: option.splits)

lemma call_wf: "call_handler run e r s = (x, s') \<Longrightarrow> es_wf (co_events s) \<Longrightarrow> es_wf (co_events s')"
  by (auto simp: call_handler_def dest: run_wf split: option.splits)

lemma call_failed: "call_handler run e r s = (Inl err, s') \<Longrightarrow> s' = s"
  by (auto simp: call_handler_def dest: run_failed split: option.splits)

text \<open>The two outcomes of \<open>_process_transaction\<close>.\<close>

lemma process_cases:
  obtains (ok) s3 where
    "process_transaction run e r s = (Ok (), finish_ok e r s3)"
    "co_queue s3 = co_queue s" "co_maxsize s3 = co_maxsize s" "co_worker s3 = co_worker s"
    "co_stop s3 = co_stop s" "co_stats s3 = co_stats s"
    "co_ctx s3 = (co_ctx s)(r := mark_processing (clock e 0) (co_ctx s r))"
    "co_transactions s3 = co_transactions s" "co_completed s3 = co_completed s"
    "co_handlers s3 = co_handlers s"
    "prefix (es_events (co_events s)) (es_events (co_events s3))"
    "es_wf (co_events s) \<Longrightarrow> es_wf (co_events s3)"
  | (failed) err s2 where
    "process_transaction run e r s = (Err err, finish_failed e r (err_str err) s2)"
    "s2 = log_event e (processing_event (uuid e 0) (clock e 1)
            (mark_processing (clock e 0) (co_ctx s r))) (upd_ctx r (mark_processing (clock e 0)) s)"
proof -
  define s1 where "s1 = upd_ctx r (mark_processing (clock e 0)) s"
  define s2 where "s2 = log_event e (processing_event (uuid e 0) (clock e 1) (co_ctx s1 r)) s1"
  obtain x s3 where c: "call_handler run (later 10 e) r s2 = (x, s3)" by fastforce
  have p: "process_transaction run e r s =
      (case x of Inr u \<Rightarrow> (Ok u, finish_ok e r s3) | Inl err \<Rightarrow> (Err err, finish_failed e r (err_str err) s3))"
    using c by (simp add: process_transaction_def Let_def s1_def s2_def split: sum.split)
  show ?thesis
  proof (cases x)
    case (Inl err)
    with c call_failed have "s3 = s2" by blast
    with p Inl show ?thesis by (intro failed) (auto simp: s2_def s1_def frame_simps)
  next
    case (Inr u)
    have "co_admin s3 = co_admin s2" by (rule call_admin [OF c])
    moreover have "prefix (es_events (co_events s)) (es_events (co_events s2))"
      by (simp add: s2_def s1_def frame_simps)
    ultimately show ?thesis
      using p Inr call_log [OF c] call_wf [OF c]
      by (intro ok) (auto simp: co_admin_def s2_def s1_def frame_simps es_wf_append
          dest: append_prefixD)
  qed
qed

lemma round_spec:
  assumes "co_queue s = r # q"
  shows "after_round r q s (worker_round run e s)"
proof (cases rule: process_cases [of e r "s\<lparr>co_queue := q\<rparr>"])
  case (ok s3)
  then show ?thesis
    using assms
    by (auto simp: after_round_def worker_round_def finish_ok_def Let_def frame_simps es_wf_append)
next
  case (failed err s2)
  then show ?thesis
    using assms
    by (simp add: after_round_def worker_round_def finish_failed_def Let_def frame_simps es_wf_append)
qed

lemma tick_idle: "co_queue s = [] \<Longrightarrow> \<not> co_stop s \<Longrightarrow> worker_tick run e s = s"
  by (simp add: worker_tick_def worker_round_def)

lemma tick_busy:
  "co_queue s = r # q \<Longrightarrow> co_worker s \<Longrightarrow> \<not> co_stop s \<Longrightarrow>
     after_round r q s (worker_tick run e s)"
  by (simp add: worker_tick_def round_spec)

text \<open>A round keeps the coordinator's invariant.\<close>

lemma co_inv_tick: "co_inv s \<Longrightarrow> co_inv (worker_tick run e s)"
proof (cases "co_queue s")
  case Nil
  then show "co_inv s \<Longrightarrow> ?thesis" by (auto simp: worker_tick_def worker_round_def co_inv_def)
next
  case (Cons r q)
  from round_spec [OF Cons, of e] Cons show "co_inv s \<Longrightarrow> ?thesis"
    by (auto simp: worker_tick_def co_inv_def after_round_def)
qed

text \<open>A running worker that is given a round per waiting transaction empties the queue.\<close>

lemma drain:
  assumes "co_worker s" "\<not> co_stop s" "length (co_queue s) \<le> length es"
  defines "s' \<equiv> fold (worker_tick run) es s"
  shows "co_queue s' = [] \<and> co_worker s' \<and> \<not> co_stop s'
     \<and> (\<forall>r\<in>set (co_queue s). cx_state (co_ctx s' r) \<in> {COMPLETED, FAILED})
     \<and> (\<forall>r. r \<notin> set (co_queue s) \<longrightarrow> co_ctx s' r = co_ctx s r)
     \<and> prefix (es_events (co_events s)) (es_events (co_events s'))"
  using assms(1-3) unfolding s'_def
proof (induction es arbitrary: s)
  case (Cons e es)
  show ?case
  proof (cases "co_queue s")
    case Nil
    with Cons.prems have "worker_tick run e s = s" by (simp add: tick_idle)
    with Cons Nil show ?thesis by simp
  next
    case (Cons r q)
    define t where "t = worker_tick run e s"
    have t: "co_queue t = q" "co_worker t" "\<not> co_stop t" "cx_state (co_ctx t r) \<in> {COMPLETED, FAILED}"
      "\<And>r'. r' \<noteq> r \<Longrightarrow> co_ctx t r' = co_ctx s r'"
      "prefix (es_events (co_events s)) (es_events (co_events t))"
      using tick_busy [OF Cons, of e] Cons.prems by (auto simp: after_round_def t_def)
    with Cons Cons.prems have "length (co_queue t) \<le> length es" by simp
    note ih = Cons.IH [OF t(2,3) this]
    have "cx_state (co_ctx (fold (worker_tick run) es t) r) \<in> {COMPLETED, FAILED}"
      using ih t(1,4) by (cases "r \<in> set q") (metis, metis)
    moreover have "co_ctx (fold (worker_tick run) es t) r' = co_ctx s r'"
      if "r' \<notin> set (co_queue s)" for r'
      using ih that t(1) t(5) [of r'] Cons by (metis list.set_intros)
    moreover have "prefix (es_events (co_events s)) (es_events (co_events (fold (worker_tick run) es t)))"
      using t(6) ih by (blast intro: prefix_order.trans)
    ultimately show ?thesis using ih t(1) Cons by (simp add: t_def [symmetric])
  qed
qed simp

end

end
