(* ===== verification/Txn_Handler.thy ===== *)
theory Txn_Handler
  imports Coordinator
begin

text \<open>
  The handlers of the core transaction types (\<open>backend/app/services/transaction_handler.py\<close>):
  transfers, payments, investment orders, over the balances and buying power the handler keeps.

  The balances are the \<open>co_world\<close> of the coordinator. A handler returns an exception or succeeds;
  the exceptions are raised before the first write, so a failed handler has no effect, which is
  part of the contract interpreted at the end (\<open>th: handler_contract run_handler\<close>). The lemmas:
  when a handler succeeds, what it writes, that a transfer between two accounts conserves their
  total (\<open>bal: keyed_store\<close>), that balances stay non-negative, that the balance events in the log
  agree with the balances (\<open>trail_agrees\<close>).
\<close>

section \<open>State and operations\<close>

datatype handler_name = HTransfer | HPayment | HBuy | HSell

record bank =
  bk_balances :: "(int, decimal) dict"
  bk_power :: "(int, decimal) dict"
  bk_created :: bool \<comment> \<open>the global handler instance exists\<close>

type_synonym txn_sys = "(handler_name, bank) coordinator"

definition empty_bank :: bank where
  "empty_bank = \<lparr>bk_balances = [], bk_power = [], bk_created = False\<rparr>"

definition get_account_balance :: "int \<Rightarrow> txn_sys \<Rightarrow> decimal" where
  "get_account_balance a s = dget_or (bk_balances (co_world s)) a (Dec 100000 (-2))"

definition update_account_balance :: "int \<Rightarrow> decimal \<Rightarrow> txn_sys \<Rightarrow> txn_sys" where
  "update_account_balance a b s =
     s\<lparr>co_world := (co_world s)\<lparr>bk_balances := dset a b (bk_balances (co_world s))\<rparr>\<rparr>"

definition get_buying_power :: "int \<Rightarrow> txn_sys \<Rightarrow> decimal" where
  "get_buying_power a s = dget_or (bk_power (co_world s)) a (Dec 500000 (-2))"

definition update_buying_power :: "int \<Rightarrow> decimal \<Rightarrow> txn_sys \<Rightarrow> txn_sys" where
  "update_buying_power a b s =
     s\<lparr>co_world := (co_world s)\<lparr>bk_power := dset a b (bk_power (co_world s))\<rparr>\<rparr>"

definition bump_version :: "int \<Rightarrow> txn_sys \<Rightarrow> txn_sys" where
  "bump_version a s = s\<lparr>co_versions := fst (increment_version a (co_versions s))\<rparr>"

definition balance_event ::
    "time \<Rightarrow> string \<Rightarrow> int \<Rightarrow> int \<Rightarrow> string \<Rightarrow> decimal \<Rightarrow> decimal \<Rightarrow> string \<Rightarrow> txn_event" where
  "balance_event now tid uid a operation amt new_balance desc =
     (new_event (tid @ ''_'' @ operation) tid uid BALANCE_MODIFIED now amt)
       \<lparr>ev_from := (if operation = ''DEBIT'' then Some a else None),
        ev_to := (if operation = ''CREDIT'' then Some a else None),
        ev_desc := desc,
        ev_meta := [(''operation'', VStr operation), (''new_balance'', VStr (dec_str new_balance))],
        ev_status := EV_COMPLETED\<rparr>"

text \<open>The handler object has no attribute \<open>context\<close>, so the event's time is the clock's.\<close>

definition record_balance_event ::
    "env \<Rightarrow> string \<Rightarrow> int \<Rightarrow> int \<Rightarrow> string \<Rightarrow> decimal \<Rightarrow> decimal \<Rightarrow> string \<Rightarrow> txn_sys \<Rightarrow> txn_sys" where
  "record_balance_event e tid uid a operation amt new_balance desc s =
     log_event e (balance_event (clock e 0) tid uid a operation amt new_balance desc) s"

definition insufficient :: "string \<Rightarrow> decimal \<Rightarrow> decimal \<Rightarrow> py_error" where
  "insufficient msg have need =
     CustomError ''InsufficientFundsError'' (msg @ dec_str have @ '', Required: '' @ dec_str need)"

definition handle_transfer :: "env \<Rightarrow> cref \<Rightarrow> txn_sys \<Rightarrow> unit result \<times> txn_sys" where
  "handle_transfer e r s =
     (let c = co_ctx s r in
      case (cx_from c, cx_to c) of
        (Some frm, Some dest) \<Rightarrow>
          (let from_balance = get_account_balance frm s;
               to_balance = get_account_balance dest s
           in if dec_less from_balance (cx_amount c)
              then (Err (insufficient ''Insufficient funds. Balance: '' from_balance (cx_amount c)), s)
              else
                (let new_from = dec_sub from_balance (cx_amount c);
                     new_to = dec_add to_balance (cx_amount c);
                     s1 = update_account_balance frm new_from s;
                     s2 = update_account_balance dest new_to s1;
                     s3 = bump_version frm s2;
                     s4 = bump_version dest s3;
                     s5 = record_balance_event e (cx_id c) (cx_user c) frm ''DEBIT'' (cx_amount c)
                            new_from ''Transfer from account'' s4
                 in (Ok (), record_balance_event (later 1 e) (cx_id c) (cx_user c) dest ''CREDIT''
                              (cx_amount c) new_to ''Transfer to account'' s5)))
      | _ \<Rightarrow> (Err (ValueError ''Transfer requires both source and destination accounts''), s))"

definition handle_payment :: "env \<Rightarrow> cref \<Rightarrow> txn_sys \<Rightarrow> unit result \<times> txn_sys" where
  "handle_payment e r s =
     (let c = co_ctx s r in
      case cx_from c of
        None \<Rightarrow> (Err (ValueError ''Payment requires source account''), s)
      | Some frm \<Rightarrow>
          (let balance = get_account_balance frm s
           in if dec_less balance (cx_amount c)
              then (Err (insufficient ''Insufficient funds for payment. Balance: '' balance (cx_amount c)), s)
              else
                (let new_balance = dec_sub balance (cx_amount c);
                     s1 = update_account_balance frm new_balance s;
                     s2 = bump_version frm s1
                 in (Ok (), record_balance_event e (cx_id c) (cx_user c) frm ''DEBIT'' (cx_amount c)
                              new_balance (''Payment: '' @ cx_desc c) s2))))"

text \<open>\<open>context.started_at or context.created_at\<close>\<close>

definition order_time :: "txn_context \<Rightarrow> time" where
  "order_time c = (case cx_started c of Some t \<Rightarrow> t | None \<Rightarrow> cx_created c)"

definition order_event :: "txn_event_type \<Rightarrow> string \<Rightarrow> int \<Rightarrow> txn_context \<Rightarrow> txn_event" where
  "order_event ty lead a c =
     (new_event (cx_id c) (cx_id c) (cx_user c) ty (order_time c) (cx_amount c))
       \<lparr>ev_from := Some a, ev_desc := lead @ cx_desc c, ev_meta := cx_meta c,
        ev_status := EV_COMPLETED\<rparr>"

definition handle_investment_buy :: "env \<Rightarrow> cref \<Rightarrow> txn_sys \<Rightarrow> unit result \<times> txn_sys" where
  "handle_investment_buy e r s =
     (let c = co_ctx s r in
      case cx_from c of
        None \<Rightarrow> (Err (ValueError ''Buy order requires account''), s)
      | Some a \<Rightarrow>
          (let power = get_buying_power a s
           in if dec_less power (cx_amount c)
              then (Err (insufficient ''Insufficient buying power. Available: '' power (cx_amount c)), s)
              else
                (let s1 = update_buying_power a (dec_sub power (cx_amount c)) s;
                     s2 = bump_version a s1
                 in (Ok (), log_event e (order_event BUY_ORDER_FILLED ''Buy order: '' a c) s2))))"

definition handle_investment_sell :: "env \<Rightarrow> cref \<Rightarrow> txn_sys \<Rightarrow> unit result \<times> txn_sys" where
  "handle_investment_sell e r s =
     (let c = co_ctx s r in
      case cx_from c of
        None \<Rightarrow> (Err (ValueError ''Sell order requires account''), s)
      | Some a \<Rightarrow> (Ok (), log_event e (order_event SELL_ORDER_FILLED ''Sell order: '' a c) s))"

fun run_handler :: "handler_name \<Rightarrow> env \<Rightarrow> cref \<Rightarrow> txn_sys \<Rightarrow> unit result \<times> txn_sys" where
  "run_handler HTransfer = handle_transfer"
| "run_handler HPayment = handle_payment"
| "run_handler HBuy = handle_investment_buy"
| "run_handler HSell = handle_investment_sell"

text \<open>\<open>TransactionHandler.__init__\<close> registers the four handlers; the global accessor runs it once.\<close>

definition init_handler :: "txn_sys \<Rightarrow> txn_sys" where
  "init_handler s =
     register_handler ''investment_sell'' HSell
       (register_handler ''investment_buy'' HBuy
         (register_handler ''payment'' HPayment
           (register_handler ''transfer'' HTransfer s)))"

definition get_transaction_handler :: "txn_sys \<Rightarrow> txn_sys" where
  "get_transaction_handler s =
     (if bk_created (co_world s) then s
      else init_handler (s\<lparr>co_world := (co_world s)\<lparr>bk_created := True\<rparr>\<rparr>))"

definition reset_state :: "txn_sys \<Rightarrow> txn_sys" where
  "reset_state s = s\<lparr>co_world := (co_world s)\<lparr>bk_balances := [], bk_power := []\<rparr>\<rparr>"

section \<open>Balances and buying power are keyed stores\<close>

interpretation bal: keyed_store get_account_balance update_account_balance
  by unfold_locales (simp add: get_account_balance_def update_account_balance_def)

interpretation power: keyed_store get_buying_power update_buying_power
  by unfold_locales (simp add: get_buying_power_def update_buying_power_def)

lemma balance_frame [frame_simps]:
  "get_account_balance a (bump_version b s) = get_account_balance a s"
  "get_account_balance a (log_event e ev s) = get_account_balance a s"
  "get_account_balance a (update_buying_power b v s) = get_account_balance a s"
  "get_account_balance a (record_balance_event e t u b oper amt v d s) = get_account_balance a s"
  "get_buying_power a (bump_version b s) = get_buying_power a s"
  "get_buying_power a (log_event e ev s) = get_buying_power a s"
  by (simp_all add: get_account_balance_def get_buying_power_def bump_version_def log_event_def
      update_buying_power_def record_balance_event_def)

lemma events_frame [frame_simps]:
  "co_events (bump_version b s) = co_events s"
  "co_events (update_account_balance a v s) = co_events s"
  "co_events (update_buying_power a v s) = co_events s"
  "co_events (record_balance_event e t u b oper amt v d s) =
     append_event e (balance_event (clock e 0) t u b oper amt v d) (co_events s)"
  by (simp_all add: bump_version_def update_account_balance_def update_buying_power_def
      record_balance_event_def frame_simps)

lemma admin_frame [frame_simps]:
  "co_admin (bump_version b s) = co_admin s"
  "co_admin (update_account_balance a v s) = co_admin s"
  "co_admin (update_buying_power a v s) = co_admin s"
  "co_admin (log_event e ev s) = co_admin s"
  "co_admin (record_balance_event e t u b oper amt v d s) = co_admin s"
  by (simp_all add: co_admin_def bump_version_def update_account_balance_def
      update_buying_power_def record_balance_event_def log_event_def)

lemma versions_frame [frame_simps]:
  "get_version (co_versions (bump_version b s)) a =
     (if a = b then get_version (co_versions s) a + 1 else get_version (co_versions s) a)"
  "co_versions (update_account_balance a' v s) = co_versions s"
  "co_versions (record_balance_event e t u b oper amt v d s) = co_versions s"
  by (simp_all add: bump_version_def update_account_balance_def record_balance_event_def
      frame_simps increment_version_def get_version_def Let_def)

lemmas handler_defs =
  handle_transfer_def handle_payment_def handle_investment_buy_def handle_investment_sell_def Let_def

section \<open>The handlers keep the contract\<close>

interpretation th: handler_contract run_handler
proof unfold_locales
  fix h e r s x s'
  assume r: "run_handler h e r s = (x, s')"
  show "co_admin s' = co_admin s"
    using r by (cases h) (auto simp: handler_defs frame_simps split: option.splits if_splits)
  show "prefix (es_events (co_events s)) (es_events (co_events s'))"
    using r by (cases h) (auto simp: handler_defs frame_simps split: option.splits if_splits)
  show "es_wf (co_events s) \<Longrightarrow> es_wf (co_events s')"
    using r by (cases h) (auto simp: handler_defs frame_simps es_wf_append split: option.splits if_splits)
next
  fix h e r s err s'
  assume "run_handler h e r s = (Err err, s')"
  then show "s' = s"
    by (cases h) (auto simp: handler_defs split: option.splits if_splits)
qed

section \<open>What a successful handler did\<close>

lemma transfer_failed: "handle_transfer e r s = (Inl err, s') \<Longrightarrow> s' = s"
  using th.run_failed [of HTransfer] by simp

text \<open>The state after a transfer: two writes, on the original balances.\<close>

lemma transfer_ok_balance:
  assumes "fst (handle_transfer e r s) = Ok ()"
    and "cx_from (co_ctx s r) = Some f" "cx_to (co_ctx s r) = Some d"
  shows "get_account_balance a (snd (handle_transfer e r s)) =
       get_account_balance a
         (update_account_balance d (dec_add (get_account_balance d s) (cx_amount (co_ctx s r)))
           (update_account_balance f (dec_sub (get_account_balance f s) (cx_amount (co_ctx s r))) s))"
  using assms by (auto simp: handle_transfer_def Let_def frame_simps split: if_splits)

lemma power_update_frame [frame_simps]:
  "get_buying_power a (update_account_balance b v s) = get_buying_power a s"
  "get_buying_power a (record_balance_event e t u b oper amt v d s) = get_buying_power a s"
  by (simp_all add: get_buying_power_def update_account_balance_def record_balance_event_def log_event_def)

text \<open>No balance and no buying power is negative.\<close>

definition solvent :: "txn_sys \<Rightarrow> bool" where
  "solvent s \<longleftrightarrow> (\<forall>a. 0 \<le> dval (get_account_balance a s) \<and> 0 \<le> dval (get_buying_power a s))"

lemma solvent_init: "bk_balances (co_world s) = [] \<Longrightarrow> bk_power (co_world s) = [] \<Longrightarrow> solvent s"
  by (simp add: solvent_def get_account_balance_def get_buying_power_def dval_nonneg_iff)

lemma solvent_frame [frame_simps]:
  "solvent (bump_version b s) = solvent s" "solvent (log_event e ev s) = solvent s"
  "solvent (record_balance_event e t u b oper amt v d s) = solvent s"
  by (simp_all add: solvent_def frame_simps)

lemma solvent_update:
  "solvent s \<Longrightarrow> 0 \<le> dval v \<Longrightarrow> solvent (update_account_balance a v s)"
  "solvent s \<Longrightarrow> 0 \<le> dval v \<Longrightarrow> solvent (update_buying_power a v s)"
  by (simp_all add: solvent_def bal.get_put power.get_put frame_simps)

lemma solventD: "solvent s \<Longrightarrow> 0 \<le> dval (get_account_balance a s)"
  by (simp add: solvent_def)

lemma solvent_handler:
  assumes "solvent s" "0 \<le> dval (cx_amount (co_ctx s r))" "run_handler h e r s = (x, s')"
  shows "solvent s'"
  using assms
  by (cases h) (auto simp: handler_defs frame_simps split: option.splits if_splits
      intro!: solvent_update dec_sub_nonneg dec_add_nonneg intro: solventD)

section \<open>The balance events agree with the balances\<close>

text \<open>The balance a balance event reports for an account, and the last one in a log.\<close>

definition note_of :: "int \<Rightarrow> txn_event \<Rightarrow> string option" where
  "note_of a ev =
     (if ev_type ev = BALANCE_MODIFIED \<and> (ev_from ev = Some a \<or> ev_to ev = Some a)
      then (case map_of (ev_meta ev) ''new_balance'' of Some (VStr b) \<Rightarrow> Some b | _ \<Rightarrow> None)
      else None)"

fun last_note :: "int \<Rightarrow> txn_event list \<Rightarrow> string option" where
  "last_note a evs = fold (\<lambda>ev acc. case note_of a ev of None \<Rightarrow> acc | Some b \<Rightarrow> Some b) evs None"

definition trail_agrees :: "txn_sys \<Rightarrow> bool" where
  "trail_agrees s \<longleftrightarrow>
     (\<forall>a. last_note a (es_events (co_events s)) = map_option dec_str (dget (bk_balances (co_world s)) a))"

lemma note_stamp [simp]: "note_of a (stamp e ev) = note_of a ev"
  unfolding note_of_def by (simp only: stamp_simps)

lemma note_other: "ev_type ev \<noteq> BALANCE_MODIFIED \<Longrightarrow> note_of a ev = None"
  by (simp add: note_of_def)

lemma note_balance_event [simp]:
  "oper \<in> {''DEBIT'', ''CREDIT''} \<Longrightarrow>
     note_of a (balance_event now t u b oper amt v d) = (if a = b then Some (dec_str v) else None)"
  by (auto simp: note_of_def balance_event_def new_event_def)

lemma type_simps [simp]:
  "ev_type (order_event ty lead a c) = ty" "ev_type (failure_event i t m c) = TRANSFER_FAILED"
  "ev_type (initial_event i t c) = TRANSFER_INITIATED"
  "ev_type (processing_event i t c) = TRANSFER_INITIATED"
  "ev_type (completion_event i t c) = TRANSFER_COMPLETED"
  by (simp_all add: order_event_def failure_event_def initial_event_def processing_event_def
      completion_event_def new_event_def)

lemma trail_log_other [simp]:
  "ev_type ev \<noteq> BALANCE_MODIFIED \<Longrightarrow> trail_agrees (log_event e ev s) = trail_agrees s"
  by (simp add: trail_agrees_def log_event_def note_other)

lemma world_frame [frame_simps]:
  "bk_balances (co_world (bump_version b s)) = bk_balances (co_world s)"
  "bk_balances (co_world (update_buying_power a v s)) = bk_balances (co_world s)"
  "bk_balances (co_world (update_account_balance a v s)) = dset a v (bk_balances (co_world s))"
  "bk_balances (co_world (record_balance_event e t u b oper amt v d s)) = bk_balances (co_world s)"
  by (simp_all add: bump_version_def update_buying_power_def update_account_balance_def
      record_balance_event_def log_event_def)

lemma trail_handler:
  assumes "trail_agrees s" "run_handler h e r s = (x, s')"
  shows "trail_agrees s'"
proof (cases h)
  case HTransfer
  with assms show ?thesis
    by (auto simp: handler_defs trail_agrees_def frame_simps split: option.splits if_splits)
next
  case HPayment
  with assms show ?thesis
    by (auto simp: handler_defs trail_agrees_def frame_simps split: option.splits if_splits)
next
  case HBuy
  with assms have "trail_agrees s' = trail_agrees s"
    by (auto simp: handler_defs split: option.splits if_splits)
       (simp add: trail_agrees_def frame_simps)
  with assms show ?thesis by simp
next
  case HSell
  with assms show ?thesis by (auto simp: handler_defs split: option.splits if_splits)
qed

section \<open>Properties\<close>

text \<open>A concrete system: accounts 1 and 2 at their default balance, one transfer of 250.50.\<close>

definition sys0 :: txn_sys where
  "sys0 = init_coordinator 10000 empty_store
     (\<lambda>r. new_context ''t1'' 7 ''transfer'' (Dec 25050 (-2)) (Some 1) (Some (if r = 0 then 2 else 1)) '''' [] 0)
     empty_bank"

lemma sys0_simps:
  "co_ctx sys0 r = new_context ''t1'' 7 ''transfer'' (Dec 25050 (-2)) (Some 1)
     (Some (if r = 0 then 2 else 1)) '''' [] 0"
  "get_account_balance a sys0 = Dec 100000 (-2)" "solvent sys0" "trail_agrees sys0"
  by (simp_all add: sys0_def init_coordinator_def get_account_balance_def empty_bank_def solvent_init
      trail_agrees_def empty_store_def)

lemma sys0_transfer_ok: "fst (handle_transfer env0 r sys0) = Ok ()"
  by (simp add: handle_transfer_def sys0_simps new_context_def Let_def dec_less_def dec_align_def)

text \<open>a transfer succeeds exactly when both accounts are given and the source holds at least the
  amount; otherwise it raises and nothing at all has changed.\<close>

theorem transfer_guard:
  "(fst (handle_transfer e r s) = Ok () \<longleftrightarrow>
      (\<exists>f d. cx_from (co_ctx s r) = Some f \<and> cx_to (co_ctx s r) = Some d
            \<and> dval (cx_amount (co_ctx s r)) \<le> dval (get_account_balance f s)))
   \<and> (fst (handle_transfer e r s) = Ok () \<or> snd (handle_transfer e r s) = s)"
  by (auto simp: handle_transfer_def Let_def dec_less_iff split: option.splits)

text \<open>C10: money is conserved: a successful transfer between two different accounts leaves the total over
  any finite set of accounts that holds both unchanged, as long as the two new balances fit the
  28 digits of Python's decimal context.\<close>

theorem transfer_conserves:
  assumes "fst (handle_transfer e r s) = Ok ()"
    and "cx_from (co_ctx s r) = Some f" "cx_to (co_ctx s r) = Some d" "f \<noteq> d"
    and "sub_exact (get_account_balance f s) (cx_amount (co_ctx s r))"
    and "add_exact (get_account_balance d s) (cx_amount (co_ctx s r))"
    and "finite K" "f \<in> K" "d \<in> K"
  shows "(\<Sum>a\<in>K. dval (get_account_balance a (snd (handle_transfer e r s))))
           = (\<Sum>a\<in>K. dval (get_account_balance a s))"
  unfolding transfer_ok_balance [OF assms(1-3)]
  by (rule bal.sum_put2) (use assms in \<open>simp_all add: dval_add dval_sub\<close>)

theorem transfer_conserves_witness:
  "(\<Sum>a\<in>{1, 2}. dval (get_account_balance a (snd (handle_transfer env0 0 sys0))))
     = (\<Sum>a\<in>{1, 2}. dval (get_account_balance a sys0))"
  by (rule transfer_conserves [of env0 0 sys0 1 2])
     (simp_all add: sys0_transfer_ok, simp_all add: sys0_simps new_context_def same_expo_exact)

text \<open>C14: the overdraft protection works for amounts that are not negative: no handler, whether it
  succeeds or raises, takes a balance or a buying power below zero, even where the decimal
  arithmetic rounds.\<close>

theorem no_overdraft:
  assumes "solvent s" "0 \<le> dval (cx_amount (co_ctx s r))"
  shows "solvent (snd (run_handler h e r s))"
  using solvent_handler [OF assms, of h e] by (cases "run_handler h e r s") auto

theorem no_overdraft_witness: "solvent (snd (run_handler HTransfer env0 0 sys0))"
  by (rule no_overdraft) (simp_all add: sys0_simps new_context_def dval_nonneg_iff)

text \<open>a transfer of an account to itself creates money: the debit is overwritten by the credit,
  which was computed from the balance read before the debit, so the balance grows by the
  amount.\<close>

theorem self_transfer_mints:
  assumes "fst (handle_transfer e r s) = Ok ()"
    and "cx_from (co_ctx s r) = Some a" "cx_to (co_ctx s r) = Some a"
    and "add_exact (get_account_balance a s) (cx_amount (co_ctx s r))"
  shows "dval (get_account_balance a (snd (handle_transfer e r s)))
           = dval (get_account_balance a s) + dval (cx_amount (co_ctx s r))"
  using transfer_ok_balance [OF assms(1-3), of a] assms(4) by (simp add: dval_add)

theorem self_transfer_mints_witness:
  "dval (get_account_balance 1 (snd (handle_transfer env0 1 sys0))) = 1250 + 1 / 2"
proof -
  have "dval (get_account_balance 1 (snd (handle_transfer env0 1 sys0)))
          = dval (get_account_balance 1 sys0) + dval (cx_amount (co_ctx sys0 1))"
    by (rule self_transfer_mints)
       (simp_all add: sys0_transfer_ok, simp_all add: sys0_simps new_context_def same_expo_exact)
  then show ?thesis
    by (simp add: sys0_simps new_context_def dval_Dec power_int_def power2_eq_square)
qed

text \<open>C13: the audit trail agrees with the ledger: whatever handlers run, in whatever order and however
  they end, the last balance event recorded for an account states exactly its balance.\<close>

theorem ledger_matches_trail:
  assumes "trail_agrees s"
  shows "trail_agrees (fold (\<lambda>(h, e, r) s. snd (run_handler h e r s)) calls s)"
proof -
  have "trail_agrees (snd (run_handler h e r s))" if "trail_agrees s" for h e r s
    using trail_handler [OF that, of h e r] by (cases "run_handler h e r s") auto
  with assms show ?thesis by (induction calls arbitrary: s) auto
qed

theorem ledger_matches_trail_witness:
  "trail_agrees (fold (\<lambda>(h, e, r) s. snd (run_handler h e r s))
     [(HTransfer, env0, 0), (HPayment, env0, 1), (HTransfer, env0, 1)] sys0)"
  by (rule ledger_matches_trail) (rule sys0_simps)

end
