(* ===== verification/Txn_System.thy ===== *)
theory Txn_System
  imports Txn_Handler
begin

text \<open>
  The transaction system as its callers see it: the adapter functions of
  \<open>backend/app/services/transaction_adapter.py\<close>, and the steps by which clients, the adapter and
  the worker thread interleave on the shared coordinator.

  \<open>sys_step\<close> has one rule per atomic step: a client's put, its later tracking, a round of the
  worker, a handler called directly (as the adapter does), start and stop. \<open>sys_reachable\<close> is what
  these steps can reach from a fresh system; \<open>sys_inv\<close> holds in all of it. The adapter functions
  are sequences of these steps (\<open>safe_transfer_steps\<close>). Times are microseconds where the code
  formats them; \<open>sq_duration\<close> is the duration before the conversion to floating milliseconds.
\<close>

section \<open>The adapter\<close>

record txn_result =
  tr_id :: string
  tr_state :: string
  tr_success :: bool
  tr_message :: string

definition place_ctx :: "cref \<Rightarrow> txn_context \<Rightarrow> txn_sys \<Rightarrow> txn_sys" where
  "place_ctx r c s = s\<lparr>co_ctx := (co_ctx s)(r := c)\<rparr>"

definition failed_result :: "string \<Rightarrow> py_error \<Rightarrow> txn_result" where
  "failed_result tid err =
     \<lparr>tr_id = tid, tr_state = txn_state_value FAILED, tr_success = False, tr_message = err_str err\<rparr>"

text \<open>
  In each of these, \<open>r\<close> is the reference of the context object the function creates. A missing
  account is \<open>None\<close>.
\<close>

definition safe_transfer ::
    "env \<Rightarrow> cref \<Rightarrow> int \<Rightarrow> int \<Rightarrow> decimal \<Rightarrow> int \<Rightarrow> string \<Rightarrow> txn_sys \<Rightarrow> txn_result \<times> txn_sys" where
  "safe_transfer e r from_acc to_acc amt uid desc s =
     (let tid = uuid e 0;
          c = new_context tid uid ''transfer'' amt (Some from_acc) (Some to_acc) desc [] (clock e 0);
          s1 = get_transaction_handler (place_ctx r c s)
      in case submit_transaction (later 1 e) r s1 of
           (Inl err, s2) \<Rightarrow> (failed_result tid err, s2)
         | (Inr t, s2) \<Rightarrow>
             (case handle_transfer (later 9 e) r s2 of
                (Inl err, s3) \<Rightarrow> (failed_result tid err, s3)
              | (Inr u, s3) \<Rightarrow>
                  (\<lparr>tr_id = tid, tr_state = txn_state_value (cx_state (co_ctx s3 r)), tr_success = True,
                    tr_message = ''Transfer completed successfully''\<rparr>, s3)))"

definition safe_payment ::
    "env \<Rightarrow> cref \<Rightarrow> int \<Rightarrow> decimal \<Rightarrow> int \<Rightarrow> string \<Rightarrow> txn_sys \<Rightarrow> txn_result \<times> txn_sys" where
  "safe_payment e r from_acc amt uid desc s =
     (let tid = uuid e 0;
          c = new_context tid uid ''payment'' amt (Some from_acc) None desc [] (clock e 0);
          s1 = get_transaction_handler (place_ctx r c s)
      in case submit_transaction (later 1 e) r s1 of
           (Inl err, s2) \<Rightarrow> (failed_result tid err, s2)
         | (Inr t, s2) \<Rightarrow>
             (case handle_payment (later 9 e) r s2 of
                (Inl err, s3) \<Rightarrow> (failed_result tid err, s3)
              | (Inr u, s3) \<Rightarrow>
                  (\<lparr>tr_id = tid, tr_state = txn_state_value (cx_state (co_ctx s3 r)), tr_success = True,
                    tr_message = ''Payment processed successfully''\<rparr>, s3)))"

definition safe_investment_buy ::
    "env \<Rightarrow> cref \<Rightarrow> int \<Rightarrow> decimal \<Rightarrow> int \<Rightarrow> string \<Rightarrow> txn_sys \<Rightarrow> txn_result \<times> txn_sys" where
  "safe_investment_buy e r acc amt uid desc s =
     (let tid = uuid e 0;
          c = new_context tid uid ''investment_buy'' amt (Some acc) None desc [] (clock e 0);
          s1 = get_transaction_handler (place_ctx r c s)
      in case submit_transaction (later 1 e) r s1 of
           (Inl err, s2) \<Rightarrow> (failed_result tid err, s2)
         | (Inr t, s2) \<Rightarrow>
             (case handle_investment_buy (later 9 e) r s2 of
                (Inl err, s3) \<Rightarrow> (failed_result tid err, s3)
              | (Inr u, s3) \<Rightarrow>
                  (\<lparr>tr_id = tid, tr_state = txn_state_value (cx_state (co_ctx s3 r)), tr_success = True,
                    tr_message = ''Buy order placed successfully''\<rparr>, s3)))"

record status_query =
  sq_id :: string
  sq_state :: string
  sq_amount :: string
  sq_created :: time
  sq_started :: "time option"
  sq_completed :: "time option"
  sq_duration :: "time option"
  sq_error :: "string option"

text \<open>A zero duration is falsy in \<open>if context.duration()\<close>.\<close>

definition query_status :: "txn_sys \<Rightarrow> string \<Rightarrow> status_query option" where
  "query_status s tid =
     (case get_transaction_status s tid of
        None \<Rightarrow> None
      | Some r \<Rightarrow>
          (let c = co_ctx s r
           in Some \<lparr>sq_id = cx_id c, sq_state = txn_state_value (cx_state c),
                    sq_amount = dec_str (cx_amount c), sq_created = cx_created c,
                    sq_started = cx_started c, sq_completed = cx_completed c,
                    sq_duration = (if duration c = Some 0 then None else duration c),
                    sq_error = cx_error c\<rparr>))"

text \<open>\<open>xs[-n:]\<close>\<close>

definition slice_last :: "int \<Rightarrow> 'a list \<Rightarrow> 'a list" where
  "slice_last n xs =
     (if 0 < n then drop (length xs - nat n) xs else drop (nat (- n)) xs)"

definition get_account_transaction_history :: "txn_sys \<Rightarrow> int \<Rightarrow> int \<Rightarrow>
    (string \<times> string \<times> string \<times> string \<times> time option \<times> string \<times> string) list" where
  "get_account_transaction_history s a max_count =
     map (\<lambda>ev. (ev_id ev, ev_txn ev, type_value (ev_type ev), dec_str (ev_amount ev), ev_time ev,
                status_value (ev_status ev), ev_desc ev))
       (slice_last max_count (get_account_events (co_events s) a None None))"

record user_stats =
  us_user :: int
  us_total :: nat
  us_completed :: nat
  us_failed :: nat
  us_transferred :: string
  us_stats :: stats
  us_queue :: int

definition get_user_transaction_stats :: "txn_sys \<Rightarrow> int \<Rightarrow> user_stats" where
  "get_user_transaction_stats s u =
     (let events = get_user_events (co_events s) u None;
          has = (\<lambda>w ev. in_str w (type_value (ev_type ev)))
      in \<lparr>us_user = u, us_total = length events,
          us_completed = length (filter (has ''completed'') events),
          us_failed = length (filter (has ''failed'') events),
          us_transferred = dec_str (foldl dec_add (Dec 0 0)
             (map ev_amount (filter (\<lambda>ev. has ''transfer'' ev \<and> has ''completed'' ev) events))),
          us_stats = get_statistics s, us_queue = get_queue_size s\<rparr>)"

definition initialize_transaction_system :: "txn_sys \<Rightarrow> txn_sys" where
  "initialize_transaction_system s = start_processing s"

definition shutdown_transaction_system :: "txn_sys \<Rightarrow> txn_sys" where
  "shutdown_transaction_system s = stop_processing s"

text \<open>New event store, new coordinator (the old worker told to stop), new handler.\<close>

definition reset_transaction_system_for_testing :: "txn_sys \<Rightarrow> txn_sys" where
  "reset_transaction_system_for_testing s =
     init_handler (init_coordinator 10000 empty_store (co_ctx s) (empty_bank\<lparr>bk_created := True\<rparr>))"

section \<open>Worker rounds and the ledger\<close>

lemma ledger_cong:
  assumes "co_world s = co_world s'" "co_events s = co_events s'"
  shows "solvent s = solvent s'" "trail_agrees s = trail_agrees s'"
  using assms
  by (simp_all add: solvent_def trail_agrees_def get_account_balance_def get_buying_power_def)

lemma upd_ctx_ledger [simp]:
  "solvent (upd_ctx r f s) = solvent s" "trail_agrees (upd_ctx r f s) = trail_agrees s"
  by (rule ledger_cong; simp add: frame_simps)+

lemma queue_ledger [simp]:
  "solvent (s\<lparr>co_queue := q\<rparr>) = solvent s" "trail_agrees (s\<lparr>co_queue := q\<rparr>) = trail_agrees s"
  by (rule ledger_cong; simp)+

lemma failure_ledger [simp]:
  "solvent (record_failure_event e r m s) = solvent s"
  "trail_agrees (record_failure_event e r m s) = trail_agrees s"
  by (simp_all add: record_failure_event_def solvent_frame)

lemma finish_ledger [simp]:
  "solvent (finish_ok e r s) = solvent s" "trail_agrees (finish_ok e r s) = trail_agrees s"
  "solvent (finish_failed e r m s) = solvent s" "trail_agrees (finish_failed e r m s) = trail_agrees s"
proof -
  let ?s = "log_event e (completion_event (uuid e 1) (clock e 3)
    (mark_completed (clock e 2) (co_ctx s r))) (upd_ctx r (mark_completed (clock e 2)) s)"
  have "solvent (finish_ok e r s) = solvent ?s" "trail_agrees (finish_ok e r s) = trail_agrees ?s"
    by (rule ledger_cong; simp add: finish_ok_def Let_def frame_simps)+
  then show "solvent (finish_ok e r s) = solvent s" "trail_agrees (finish_ok e r s) = trail_agrees s"
    by (simp_all add: solvent_frame)
  let ?t = "record_failure_event (later 3 e) r m (upd_ctx r (mark_failed m (clock e 2)) s)"
  have "solvent (finish_failed e r m s) = solvent ?t" "trail_agrees (finish_failed e r m s) = trail_agrees ?t"
    by (rule ledger_cong; simp add: finish_failed_def Let_def frame_simps)+
  then show "solvent (finish_failed e r m s) = solvent s"
    "trail_agrees (finish_failed e r m s) = trail_agrees s"
    by simp_all
qed

lemma call_ledger:
  assumes "solvent s" "trail_agrees s" "0 \<le> dval (cx_amount (co_ctx s r))"
    and "call_handler run_handler e r s = (x, s')"
  shows "solvent s' \<and> trail_agrees s'"
  using assms solvent_handler [of s r _ e x s'] trail_handler [of s _ e r x s']
  by (auto simp: call_handler_def split: option.splits)

lemma process_ledger:
  assumes "solvent s" "trail_agrees s" "0 \<le> dval (cx_amount (co_ctx s r))"
    and "process_transaction run_handler e r s = (x, s')"
  shows "solvent s' \<and> trail_agrees s'"
proof -
  define s2 where "s2 = log_event e (processing_event (uuid e 0) (clock e 1)
      (mark_processing (clock e 0) (co_ctx s r))) (upd_ctx r (mark_processing (clock e 0)) s)"
  obtain y s3 where c: "call_handler run_handler (later 10 e) r s2 = (y, s3)" by fastforce
  have "solvent s3 \<and> trail_agrees s3"
    by (rule call_ledger [OF _ _ _ c]) (use assms in \<open>auto simp: s2_def frame_simps\<close>)
  with assms(4) c show ?thesis
    by (cases y) (auto simp: process_transaction_def Let_def s2_def frame_simps)
qed

lemma tick_ledger:
  assumes "solvent s" "trail_agrees s" "\<forall>r\<in>set (co_queue s). 0 \<le> dval (cx_amount (co_ctx s r))"
  shows "solvent (worker_tick run_handler e s) \<and> trail_agrees (worker_tick run_handler e s)"
proof (cases "co_queue s")
  case Nil
  with assms ledger_cong [of "s\<lparr>co_worker := False\<rparr>" s] show ?thesis
    by (simp add: worker_tick_def worker_round_def)
next
  case (Cons r q)
  obtain x s1 where p: "process_transaction run_handler e r (s\<lparr>co_queue := q\<rparr>) = (x, s1)" by fastforce
  have "solvent s1 \<and> trail_agrees s1"
    by (rule process_ledger [OF _ _ _ p]) (use assms Cons in auto)
  with assms Cons p ledger_cong [of "s\<lparr>co_worker := False\<rparr>" s] show ?thesis
    by (cases x) (auto simp: worker_tick_def worker_round_def)
qed

section \<open>Interleaved steps\<close>

text \<open>
  The set \<open>A\<close> holds the references of the context objects that exist. A client puts a context it
  has just created, with an amount that is not negative; it tracks it in a later step; the
  worker does a round; the adapter calls a handler on an existing context.
\<close>

inductive sys_step :: "cref set \<Rightarrow> txn_sys \<Rightarrow> cref set \<Rightarrow> txn_sys \<Rightarrow> bool" where
  put: "r \<notin> A \<Longrightarrow> cx_state c = PENDING \<Longrightarrow> 0 \<le> dval (cx_amount c) \<Longrightarrow>
    sys_step A s (insert r A) (snd (submit_put e r (place_ctx r c s)))"
| track: "r \<in> A \<Longrightarrow> sys_step A s A (submit_track r s)"
| tick: "sys_step A s A (worker_tick run_handler e s)"
| direct: "r \<in> A \<Longrightarrow> sys_step A s A (snd (run_handler h e r s))"
| handler: "sys_step A s A (get_transaction_handler s)"
| start: "sys_step A s A (start_processing s)"
| stop: "sys_step A s A (stop_processing s)"

inductive sys_steps :: "cref set \<Rightarrow> txn_sys \<Rightarrow> cref set \<Rightarrow> txn_sys \<Rightarrow> bool" where
  refl: "sys_steps A s A s"
| step: "sys_steps A s B t \<Longrightarrow> sys_step B t C u \<Longrightarrow> sys_steps A s C u"

text \<open>A fresh system: nothing queued or recorded, every account at its default.\<close>

definition fresh_sys :: "int \<Rightarrow> (cref \<Rightarrow> txn_context) \<Rightarrow> txn_sys" where
  "fresh_sys n heap = init_coordinator n empty_store heap empty_bank"

definition sys_inv :: "cref set \<Rightarrow> txn_sys \<Rightarrow> bool" where
  "sys_inv A s \<longleftrightarrow>
     co_inv s \<and> solvent s \<and> trail_agrees s
   \<and> distinct (co_queue s) \<and> set (co_queue s) \<subseteq> A
   \<and> (\<forall>r\<in>A. 0 \<le> dval (cx_amount (co_ctx s r)))
   \<and> (\<forall>r\<in>set (co_queue s). cx_state (co_ctx s r) = PENDING)
   \<and> (\<forall>t r. dget (co_completed s) t = Some r \<longrightarrow>
        r \<in> A \<and> cx_state (co_ctx s r) = COMPLETED \<and> r \<notin> set (co_queue s))"

lemma sys_inv_fresh: "sys_inv {} (fresh_sys n heap)"
  by (simp add: sys_inv_def fresh_sys_def co_inv_init es_wf_empty)
     (simp add: init_coordinator_def solvent_init empty_bank_def trail_agrees_def empty_store_def)

lemma place_ctx_frame [simp]:
  "co_queue (place_ctx r c s) = co_queue s" "co_events (place_ctx r c s) = co_events s"
  "co_completed (place_ctx r c s) = co_completed s" "co_maxsize (place_ctx r c s) = co_maxsize s"
  "co_world (place_ctx r c s) = co_world s" "co_stats (place_ctx r c s) = co_stats s"
  "co_ctx (place_ctx r c s) = (co_ctx s)(r := c)" "co_worker (place_ctx r c s) = co_worker s"
  "co_stop (place_ctx r c s) = co_stop s" "co_handlers (place_ctx r c s) = co_handlers s"
  by (simp_all add: place_ctx_def)

lemma place_ctx_ledger [simp]:
  "solvent (place_ctx r c s) = solvent s" "trail_agrees (place_ctx r c s) = trail_agrees s"
  "co_inv (place_ctx r c s) = co_inv s"
  by (rule ledger_cong; simp)+ (simp add: co_inv_def)

text \<open>A put: the context joins the queue or, the queue being full, fails; the ledger is untouched.\<close>

lemma put_ledger:
  "solvent (snd (submit_put e r s)) = solvent s"
  "trail_agrees (snd (submit_put e r s)) = trail_agrees s"
  by (auto simp: submit_put_def Let_def solvent_frame)

lemma put_frame:
  "co_completed (snd (submit_put e r s)) = co_completed s"
  "r' \<noteq> r \<Longrightarrow> co_ctx (snd (submit_put e r s)) r' = co_ctx s r'"
  "cx_amount (co_ctx (snd (submit_put e r s)) r) = cx_amount (co_ctx s r)"
  "co_queue (snd (submit_put e r s)) = (if queue_full s then co_queue s else co_queue s @ [r])"
  "\<not> queue_full s \<Longrightarrow> cx_state (co_ctx (snd (submit_put e r s)) r) = cx_state (co_ctx s r)"
  by (auto simp: submit_put_def Let_def frame_simps queue_full_def)

text \<open>A step that changes the ledger soundly and at most the context \<open>r\<close> keeps the invariant.\<close>

lemma sys_inv_local:
  assumes "sys_inv A s" "co_inv t" "solvent t" "trail_agrees t" "distinct (co_queue t)"
    and q: "\<And>x. x \<in> set (co_queue t) \<Longrightarrow> x \<noteq> r \<Longrightarrow> x \<in> set (co_queue s)"
    and other: "\<And>x. x \<noteq> r \<Longrightarrow> co_ctx t x = co_ctx s x"
    and amt: "0 \<le> dval (cx_amount (co_ctx t r))"
    and pend: "r \<in> set (co_queue t) \<Longrightarrow> cx_state (co_ctx t r) = PENDING"
    and cmp: "\<And>k x. dget (co_completed t) k = Some x \<Longrightarrow>
      (x = r \<and> cx_state (co_ctx t r) = COMPLETED \<and> r \<notin> set (co_queue t))
      \<or> (x \<noteq> r \<and> dget (co_completed s) k = Some x)"
  shows "sys_inv (insert r A) t"
proof -
  have s: "set (co_queue s) \<subseteq> A" "\<And>x. x \<in> A \<Longrightarrow> 0 \<le> dval (cx_amount (co_ctx s x))"
    "\<And>x. x \<in> set (co_queue s) \<Longrightarrow> cx_state (co_ctx s x) = PENDING"
    "\<And>k x. dget (co_completed s) k = Some x \<Longrightarrow>
        x \<in> A \<and> cx_state (co_ctx s x) = COMPLETED \<and> x \<notin> set (co_queue s)"
    using assms(1) by (auto simp: sys_inv_def)
  have "set (co_queue t) \<subseteq> insert r A" using q s(1) by blast
  moreover have "\<forall>x\<in>insert r A. 0 \<le> dval (cx_amount (co_ctx t x))"
    using amt other s(2) by (metis insertE)
  moreover have "\<forall>x\<in>set (co_queue t). cx_state (co_ctx t x) = PENDING"
    using pend other q s(3) by metis
  moreover have "x \<in> insert r A \<and> cx_state (co_ctx t x) = COMPLETED \<and> x \<notin> set (co_queue t)"
    if "dget (co_completed t) k = Some x" for k x
    using cmp [OF that] s(4) other q by (metis insertCI)
  ultimately show ?thesis using assms(2-5) by (auto simp: sys_inv_def)
qed

lemma sys_inv_put:
  assumes "sys_inv A s" "r \<notin> A" "cx_state c = PENDING" "0 \<le> dval (cx_amount c)"
  shows "sys_inv (insert r A) (snd (submit_put e r (place_ctx r c s)))"
proof (rule sys_inv_local [OF assms(1)])
  show "co_inv (snd (submit_put e r (place_ctx r c s)))"
    using assms(1) by (auto simp: sys_inv_def intro: co_inv_put)
qed (use assms in \<open>auto simp: sys_inv_def put_ledger put_frame split: if_splits\<close>)

lemma sys_inv_tick:
  assumes "sys_inv A s"
  shows "sys_inv A (worker_tick run_handler e s)"
proof -
  let ?t = "worker_tick run_handler e s"
  have led: "solvent ?t" "trail_agrees ?t" "co_inv ?t"
    using assms tick_ledger [of s e] th.co_inv_tick [of s e] by (auto simp: sys_inv_def)
  show ?thesis
  proof (cases "co_worker s \<and> \<not> co_stop s \<and> co_queue s \<noteq> []")
    case True
    then obtain r q where q: "co_queue s = r # q" by (cases "co_queue s") auto
    have t: "after_round r q s ?t" using True q by (simp add: th.tick_busy)
    have r: "r \<in> A" "r \<notin> set q" using assms q by (auto simp: sys_inv_def)
    have "sys_inv (insert r A) ?t"
      by (rule sys_inv_local [OF assms led(3,1,2)])
         (use assms t q r in \<open>auto simp: sys_inv_def after_round_def split: if_splits\<close>)
    with r show ?thesis by (simp add: insert_absorb)
  next
    case False
    then have "?t = s \<or> ?t = s\<lparr>co_worker := False\<rparr>"
      by (auto simp: worker_tick_def worker_round_def)
    with assms led show ?thesis by (auto simp: sys_inv_def)
  qed
qed

lemma sys_inv_direct:
  assumes "sys_inv A s" "r \<in> A"
  shows "sys_inv A (snd (run_handler h e r s))"
proof -
  obtain x s' where r: "run_handler h e r s = (x, s')" by fastforce
  have "co_admin s' = co_admin s" by (rule th.run_admin [OF r])
  moreover have "es_wf (co_events s')" using assms th.run_wf [OF r] by (simp add: sys_inv_def co_inv_def)
  ultimately show ?thesis
    using assms solvent_handler [OF _ _ r] trail_handler [OF _ r]
    by (auto simp: r sys_inv_def co_inv_def co_admin_def)
qed

lemma sys_inv_cong:
  assumes "co_world s' = co_world s" "co_events s' = co_events s" "co_queue s' = co_queue s"
    "co_maxsize s' = co_maxsize s" "co_stats s' = co_stats s" "co_ctx s' = co_ctx s"
    "co_completed s' = co_completed s"
  shows "sys_inv A s' = sys_inv A s"
  using assms ledger_cong [of s' s] by (simp add: sys_inv_def co_inv_def)

lemma get_handler_ledger:
  "sys_inv A s \<Longrightarrow> sys_inv A (get_transaction_handler s)"
  by (auto simp: sys_inv_def co_inv_def solvent_def trail_agrees_def get_account_balance_def
      get_buying_power_def get_transaction_handler_def init_handler_def register_handler_def)

lemma sys_inv_step: "sys_step A s B t \<Longrightarrow> sys_inv A s \<Longrightarrow> sys_inv B t"
proof (induction rule: sys_step.induct)
  case (track r A s)
  have "sys_inv A (submit_track r s) = sys_inv A s"
    by (rule sys_inv_cong) (simp_all add: submit_track_def)
  with track show ?case by simp
next
  case (start A s)
  have "sys_inv A (start_processing s) = sys_inv A s"
    by (rule sys_inv_cong) (simp_all add: start_processing_def)
  with start show ?case by simp
next
  case (stop A s)
  have "sys_inv A (stop_processing s) = sys_inv A s"
    by (rule sys_inv_cong) (simp_all add: stop_processing_def)
  with stop show ?case by simp
qed (simp_all add: sys_inv_put sys_inv_tick sys_inv_direct get_handler_ledger)

lemma sys_inv_steps: "sys_steps A s B t \<Longrightarrow> sys_inv A s \<Longrightarrow> sys_inv B t"
  by (induction rule: sys_steps.induct) (auto intro: sys_inv_step)

lemma sys_steps_trans: "sys_steps B t C u \<Longrightarrow> sys_steps A s B t \<Longrightarrow> sys_steps A s C u"
  by (induction rule: sys_steps.induct) (auto intro: sys_steps.step)

inductive_cases sys_step_elim: "sys_step A s B t"
inductive_simps sys_steps_from: "sys_steps A s B t"

section \<open>The adapter is a sequence of steps\<close>

lemma submit_not_full:
  assumes "\<not> queue_full s"
  shows "\<exists>tid. submit_transaction e r s = (Ok tid, submit_track r (snd (submit_put e r s)))"
  using assms
  by (cases "cx_id (co_ctx s r) = ''''")
     (simp_all add: submit_transaction_def submit_put_def Let_def queue_full_def frame_simps)

lemma get_handler_place:
  "get_transaction_handler (place_ctx r c s) = place_ctx r c (get_transaction_handler s)"
  by (simp add: get_transaction_handler_def place_ctx_def init_handler_def register_handler_def)

lemma submit_track_steps:
  assumes "r \<notin> A" "cx_state c = PENDING" "0 \<le> dval (cx_amount c)"
  shows "sys_steps A s (insert r A) (snd (submit_transaction e r (get_transaction_handler (place_ctx r c s))))"
proof -
  have a: "sys_steps A s A (get_transaction_handler s)"
    by (rule sys_steps.step [OF sys_steps.refl sys_step.handler])
  let ?t = "snd (submit_put e r (get_transaction_handler (place_ctx r c s)))"
  have b: "sys_steps A s (insert r A) ?t"
    unfolding get_handler_place by (rule sys_steps.step [OF a sys_step.put [OF assms]])
  show ?thesis
    using b sys_steps.step [OF b sys_step.track [of r "insert r A" ?t]]
    by (auto simp: submit_transaction_def split: prod.split sum.split)
qed

text \<open>A created context satisfies what a put asks of it.\<close>

lemma new_context_simps [simp]:
  "cx_state (new_context t u ty amt f d desc m now) = PENDING"
  "cx_amount (new_context t u ty amt f d desc m now) = amt"
  "cx_from (new_context t u ty amt f d desc m now) = f"
  "cx_to (new_context t u ty amt f d desc m now) = d"
  "cx_type (new_context t u ty amt f d desc m now) = ty"
  "cx_id (new_context t u ty amt f d desc m now) = t"
  by (simp_all add: new_context_def)

lemma adapter_transfer_steps:
  assumes "r \<notin> A" "0 \<le> dval amt"
  shows "sys_steps A s (insert r A) (snd (safe_transfer e r f d amt u desc s))"
proof -
  let ?c = "new_context (uuid e 0) u ''transfer'' amt (Some f) (Some d) desc [] (clock e 0)"
  let ?t = "submit_transaction (later 1 e) r (get_transaction_handler (place_ctx r ?c s))"
  have t: "sys_steps A s (insert r A) (snd ?t)"
    by (rule submit_track_steps) (use assms in simp_all)
  show ?thesis
    using t sys_steps.step [OF t sys_step.direct [of r "insert r A" "snd ?t" HTransfer "later 9 e"]]
    by (cases ?t; cases "handle_transfer (later 9 e) r (snd ?t)")
       (auto simp: safe_transfer_def Let_def split: sum.split)
qed

section \<open>Double processing\<close>

text \<open>What the parts of a call leave in place.\<close>

lemma put_more:
  "co_worker (snd (submit_put e r s)) = co_worker s" "co_stop (snd (submit_put e r s)) = co_stop s"
  "co_handlers (snd (submit_put e r s)) = co_handlers s"
  "get_account_balance a (snd (submit_put e r s)) = get_account_balance a s"
  "cx_type (co_ctx (snd (submit_put e r s)) r) = cx_type (co_ctx s r)"
  "cx_from (co_ctx (snd (submit_put e r s)) r) = cx_from (co_ctx s r)"
  "cx_to (co_ctx (snd (submit_put e r s)) r) = cx_to (co_ctx s r)"
  by (auto simp: submit_put_def Let_def frame_simps get_account_balance_def mark_failed_def)

lemma track_frame [simp]:
  "co_worker (submit_track r s) = co_worker s" "co_stop (submit_track r s) = co_stop s"
  "co_handlers (submit_track r s) = co_handlers s" "co_queue (submit_track r s) = co_queue s"
  "get_account_balance a (submit_track r s) = get_account_balance a s"
  "co_ctx (submit_track r s) = co_ctx s"
  by (simp_all add: submit_track_def get_account_balance_def)

lemma get_handler_frame [simp]:
  "co_worker (get_transaction_handler s) = co_worker s" "co_stop (get_transaction_handler s) = co_stop s"
  "co_queue (get_transaction_handler s) = co_queue s" "co_maxsize (get_transaction_handler s) = co_maxsize s"
  "get_account_balance a (get_transaction_handler s) = get_account_balance a s"
  "co_ctx (get_transaction_handler s) = co_ctx s"
  by (simp_all add: get_transaction_handler_def init_handler_def register_handler_def
      get_account_balance_def)

lemma get_balance_place [simp]: "get_account_balance a (place_ctx r c s) = get_account_balance a s"
  by (simp add: get_account_balance_def)

text \<open>The worker's round on a waiting transfer moves the money as the handler does.\<close>

lemma finish_balance [simp]:
  "get_account_balance a (finish_ok e r s) = get_account_balance a s"
  by (simp add: get_account_balance_def finish_ok_def Let_def frame_simps)

lemma tick_transfer:
  assumes "co_queue s = r # q" "co_worker s" "\<not> co_stop s"
    and "dget (co_handlers s) ''transfer'' = Some HTransfer"
    and "cx_type (co_ctx s r) = ''transfer''"
    and "cx_from (co_ctx s r) = Some f" "cx_to (co_ctx s r) = Some d"
    and "\<not> dec_less (get_account_balance f s) (cx_amount (co_ctx s r))"
  shows "get_account_balance a (worker_tick run_handler e s) =
     get_account_balance a
         (update_account_balance d (dec_add (get_account_balance d s) (cx_amount (co_ctx s r)))
           (update_account_balance f (dec_sub (get_account_balance f s) (cx_amount (co_ctx s r))) s))"
proof -
  define s2 where "s2 = log_event e (processing_event (uuid e 0) (clock e 1)
      (mark_processing (clock e 0) (co_ctx s r))) (upd_ctx r (mark_processing (clock e 0)) (s\<lparr>co_queue := q\<rparr>))"
  have s2: "co_ctx s2 r = mark_processing (clock e 0) (co_ctx s r)" "co_handlers s2 = co_handlers s"
    "get_account_balance x s2 = get_account_balance x s" for x
    by (simp_all add: s2_def frame_simps get_account_balance_def)
  have ok: "fst (handle_transfer (later 10 e) r s2) = Ok ()"
    using assms by (simp add: handle_transfer_def s2 Let_def)
  obtain s3 where s3: "handle_transfer (later 10 e) r s2 = (Ok (), s3)"
    using ok by (cases "handle_transfer (later 10 e) r s2") auto
  have "worker_tick run_handler e s = finish_ok e r s3"
    using assms s3 s2(1,2)
    by (simp add: worker_tick_def worker_round_def process_transaction_def Let_def call_handler_def
        s2_def frame_simps mark_processing_def)
  moreover have "get_account_balance a s3 = get_account_balance a
         (update_account_balance d (dec_add (get_account_balance d s) (cx_amount (co_ctx s r)))
           (update_account_balance f (dec_sub (get_account_balance f s) (cx_amount (co_ctx s r))) s2))"
    using transfer_ok_balance [OF ok, of f d a] assms s2 s3 by simp
  ultimately show ?thesis by (simp add: bal.get_put s2)
qed

section \<open>Properties\<close>

text \<open>A fresh system with a running worker, and a context for it.\<close>

definition heap0 :: "cref \<Rightarrow> txn_context" where
  "heap0 r = new_context ''t'' 7 ''transfer'' (Dec 10000 (-2)) (Some 1) (Some 2) '''' [] 0"

definition live0 :: txn_sys where
  "live0 = start_processing (fresh_sys 10000 heap0)"

lemma live0_simps [simp]:
  "co_worker live0" "\<not> co_stop live0" "co_queue live0 = []" "co_maxsize live0 = 10000"
  "get_account_balance a live0 = Dec 100000 (-2)"
  "dget (co_handlers (get_transaction_handler live0)) ''transfer'' = Some HTransfer"
  by (simp_all add: live0_def start_processing_def fresh_sys_def init_coordinator_def empty_bank_def
      get_account_balance_def get_transaction_handler_def init_handler_def register_handler_def)

lemma live0_reach: "sys_steps {} (fresh_sys 10000 heap0) {} live0"
  unfolding live0_def by (rule sys_steps.step [OF sys_steps.refl sys_step.start])





text \<open>C12: progress: a running worker that gets one round per waiting transaction empties the queue; each
  transaction that was waiting ends completed or failed, the contexts of all others are
  untouched, and the event log only grew.\<close>

theorem queue_drains:
  assumes "co_worker s" "\<not> co_stop s" "length (co_queue s) \<le> length es"
  shows "let s' = fold (worker_tick run_handler) es s
     in get_queue_size s' = 0
      \<and> (\<forall>r. if r \<in> set (co_queue s) then cx_state (co_ctx s' r) \<in> {COMPLETED, FAILED}
             else co_ctx s' r = co_ctx s r)
      \<and> prefix (es_events (co_events s)) (es_events (co_events s'))"
  using th.drain [OF assms] by (simp add: Let_def get_queue_size_def)

theorem queue_drains_witness:
  "get_queue_size (fold (worker_tick run_handler) [env0, env0]
     (snd (submit_put env0 0 (place_ctx 0 (heap0 0) live0)))) = 0"
  using queue_drains [of "snd (submit_put env0 0 (place_ctx 0 (heap0 0) live0))" "[env0, env0]"]
  by (simp add: Let_def put_frame put_more queue_full_def)

text \<open>C11: the adapter's transfer is carried out twice when the worker is running: \<open>safe_transfer\<close> queues the
  transaction and also calls the handler itself; the worker's next round then moves the same
  amount again. With funds for both, two accounts end up shifted by twice the amount although one
  transfer was requested and reported.\<close>

theorem safe_transfer_moves_twice:
  assumes "co_worker s" "\<not> co_stop s" "co_queue s = []" "0 < co_maxsize s"
    and "dget (co_handlers (get_transaction_handler s)) ''transfer'' = Some HTransfer"
    and "f \<noteq> d" "get_account_balance f s = Dec x k" "get_account_balance d s = Dec y k"
    and "0 \<le> a" "2 * a \<le> x" "x < 10 ^ 27" "\<bar>y\<bar> < 10 ^ 27"
  shows "let (res, s1) = safe_transfer e r f d (Dec a k) u desc s;
             s2 = worker_tick run_handler e' s1
         in tr_success res
          \<and> get_account_balance f s1 = Dec (x - a) k \<and> get_account_balance d s1 = Dec (y + a) k
          \<and> get_account_balance f s2 = Dec (x - 2 * a) k
          \<and> get_account_balance d s2 = Dec (y + 2 * a) k"
proof -
  define c where "c = new_context (uuid e 0) u ''transfer'' (Dec a k) (Some f) (Some d) desc [] (clock e 0)"
  define t where "t = snd (submit_transaction (later 1 e) r (get_transaction_handler (place_ctx r c s)))"
  define s1 where "s1 = snd (handle_transfer (later 9 e) r t)"
  have full: "\<not> queue_full (get_transaction_handler (place_ctx r c s))"
    using assms by (simp add: queue_full_def)
  from submit_not_full [OF this, of "later 1 e" r]
  have sub: "\<exists>tid. submit_transaction (later 1 e) r (get_transaction_handler (place_ctx r c s)) = (Ok tid, t)"
    and t': "t = submit_track r (snd (submit_put (later 1 e) r (get_transaction_handler (place_ctx r c s))))"
    by (auto simp: t_def)
  have t: "co_worker t" "\<not> co_stop t" "co_queue t = [r]" "co_handlers t = co_handlers (get_transaction_handler s)"
    "cx_type (co_ctx t r) = ''transfer''" "cx_from (co_ctx t r) = Some f" "cx_to (co_ctx t r) = Some d"
    "cx_amount (co_ctx t r) = Dec a k" "\<And>b. get_account_balance b t = get_account_balance b s"
    using assms full by (simp_all add: t' put_more put_frame c_def get_handler_place)
  have lt: "\<not> dec_less (Dec x k) (Dec a k)" "\<not> dec_less (Dec (x - a) k) (Dec a k)"
    using assms by (simp_all add: dec_same_expo)
  have ok: "fst (handle_transfer (later 9 e) r t) = Ok ()"
    using assms t lt by (simp add: handle_transfer_def Let_def)
  have adm: "co_admin s1 = co_admin t"
    using th.run_admin [of HTransfer "later 9 e" r t "fst (handle_transfer (later 9 e) r t)" s1]
    by (simp add: s1_def)
  have b1: "get_account_balance f s1 = Dec (x - a) k" "get_account_balance d s1 = Dec (y + a) k"
    using transfer_ok_balance [OF ok t(6,7)] assms t by (simp_all add: s1_def dec_same_expo)
  have "tr_success (fst (safe_transfer e r f d (Dec a k) u desc s))
      \<and> snd (safe_transfer e r f d (Dec a k) u desc s) = s1"
    using sub ok unfolding safe_transfer_def Let_def c_def [symmetric] s1_def
    by (cases "handle_transfer (later 9 e) r t") auto
  moreover have "get_account_balance z (worker_tick run_handler e' s1) = get_account_balance z
      (update_account_balance d (dec_add (Dec (y + a) k) (Dec a k))
        (update_account_balance f (dec_sub (Dec (x - a) k) (Dec a k)) s1))" for z
    using tick_transfer [of s1 r "[]" f d z e'] adm t assms(5) b1 lt by (simp add: co_admin_def)
  ultimately show ?thesis
    using assms b1 by (simp add: Let_def split_beta dec_same_expo)
qed

theorem safe_transfer_moves_twice_witness:
  "get_account_balance 1 (worker_tick run_handler env0
      (snd (safe_transfer env0 0 1 2 (Dec 30000 (-2)) 7 ''rent'' live0))) = Dec 40000 (-2)"
  using safe_transfer_moves_twice [of live0 1 2 100000 "-2" 100000 30000 env0 0 7 "''rent''" env0]
  by (simp add: Let_def split_beta)

text \<open>a transaction whose handler raises is recorded as failed twice: one worker round appends the
  processing event and then two failure events with the same message, the failure is counted
  once, the processed count does not move, and the transaction stays in the in-flight table.\<close>

theorem failed_round_logs_twice:
  assumes "co_queue s = r # q"
    and "fst (process_transaction run_handler e r (s\<lparr>co_queue := q\<rparr>)) = Inl err"
  shows "let s' = worker_round run_handler e s; tid = cx_id (co_ctx s r)
         in map (\<lambda>ev. (ev_type ev, ev_txn ev, ev_error ev)) (es_events (co_events s'))
            = map (\<lambda>ev. (ev_type ev, ev_txn ev, ev_error ev)) (es_events (co_events s))
              @ [(TRANSFER_INITIATED, tid, None), (TRANSFER_FAILED, tid, Some (err_str err)),
                 (TRANSFER_FAILED, tid, Some (err_str err))]
          \<and> total_failed (co_stats s') = total_failed (co_stats s) + 1
          \<and> total_processed (co_stats s') = total_processed (co_stats s)
          \<and> co_transactions s' = co_transactions s"
proof (cases rule: th.process_cases [of e r "s\<lparr>co_queue := q\<rparr>"])
  case (ok s3)
  with assms show ?thesis by simp
next
  case (failed err' s2)
  have [simp]: "ev_error (processing_event i t c) = None" "ev_error (failure_event i t m c) = Some m"
    "ev_txn (processing_event i t c) = cx_id c" "ev_txn (failure_event i t m c) = cx_id c" for i t c m
    by (simp_all add: processing_event_def failure_event_def new_event_def)
  from failed assms show ?thesis
    by (simp add: worker_round_def finish_failed_def Let_def frame_simps)
qed

text \<open>A system with one queued transaction and no handler registered.\<close>

definition dead0 :: txn_sys where
  "dead0 = live0\<lparr>co_queue := [0]\<rparr>"

theorem failed_round_logs_twice_witness:
  "total_failed (co_stats (worker_round run_handler env0 dead0)) = total_failed (co_stats dead0) + 1"
  using failed_round_logs_twice [of dead0 0 "[]" env0
      "ValueError ''No handler for transaction type: transfer''"]
  by (simp add: dead0_def live0_def start_processing_def fresh_sys_def init_coordinator_def Let_def
      process_transaction_def call_handler_def frame_simps heap0_def mark_processing_def)

end
