(* ===== verification/Saga_Pattern.thy ===== *)
theory Saga_Pattern
  imports PyDecimal
begin

text \<open>
  The saga orchestrator (\<open>backend/app/services/saga_pattern.py\<close>): steps with retries, compensation
  in reverse order, the dead letter queue, retry of a saga.

  A step's action and compensation are functions of the state \<open>'w\<close> they act on (what they read
  of the saga is the request data, fixed when it is created), returning a value or an exception.
  Step objects are shared by \<open>steps\<close> and \<open>completed_steps\<close>: the model keeps the objects in
  \<open>sg_steps\<close> and the completed ones as indices. A saga object is identified by its id, so the dead
  letter queue holds ids. The \<open>except\<close> branch of \<open>execute\<close> cannot be reached: the two methods it
  guards catch every exception of the callables, so it has no counterpart here.
\<close>

section \<open>Steps and sagas\<close>

datatype saga_status = SG_PENDING | SG_IN_PROGRESS | SG_COMPLETED | SG_COMPENSATING | SG_FAILED
  | SG_ROLLED_BACK

datatype step_status = ST_PENDING | ST_EXECUTING | ST_COMPLETED | ST_FAILED | ST_COMPENSATING
  | ST_COMPENSATED

record 'w saga_step =
  ss_id :: string
  ss_name :: string
  ss_action :: "'w \<Rightarrow> pyval result \<times> 'w"
  ss_compensation :: "'w \<Rightarrow> unit result \<times> 'w"
  ss_timeout :: int
  ss_max_retries :: int
  ss_retry_delay :: int
  ss_status :: step_status
  ss_attempt :: int
  ss_error :: "string option"
  ss_result :: "pyval option"
  ss_timestamp :: "time option"

record 'w saga =
  sg_id :: string
  sg_user :: int
  sg_type :: string
  sg_amount :: decimal
  sg_meta :: "(string \<times> pyval) list"
  sg_created :: time
  sg_started :: "time option"
  sg_completed_at :: "time option"
  sg_status :: saga_status
  sg_steps :: "'w saga_step list"
  sg_done :: "nat list"

record 'w orchestrator =
  or_sagas :: "(string, 'w saga) dict"
  or_dead :: "string list"
  or_world :: 'w

definition create_saga ::
    "env \<Rightarrow> int \<Rightarrow> string \<Rightarrow> decimal \<Rightarrow> (string \<times> pyval) list \<Rightarrow> 'w orchestrator
     \<Rightarrow> string \<times> 'w orchestrator" where
  "create_saga e uid ty amt meta s =
     (let sid = uuid e 0;
          sg = \<lparr>sg_id = sid, sg_user = uid, sg_type = ty, sg_amount = amt, sg_meta = meta,
                sg_created = clock e 0, sg_started = None, sg_completed_at = None,
                sg_status = SG_PENDING, sg_steps = [], sg_done = []\<rparr>
      in (sid, s\<lparr>or_sagas := dset sid sg (or_sagas s)\<rparr>))"

definition put_saga :: "'w saga \<Rightarrow> 'w orchestrator \<Rightarrow> 'w orchestrator" where
  "put_saga sg s = s\<lparr>or_sagas := dset (sg_id sg) sg (or_sagas s)\<rparr>"

definition saga_not_found :: "string \<Rightarrow> py_error" where
  "saga_not_found sid = ValueError (''Saga '' @ sid @ '' not found'')"

definition new_step ::
    "string \<Rightarrow> string \<Rightarrow> ('w \<Rightarrow> pyval result \<times> 'w) \<Rightarrow> ('w \<Rightarrow> unit result \<times> 'w) \<Rightarrow> int \<Rightarrow> int
     \<Rightarrow> 'w saga_step" where
  "new_step i nm act cmp timeout retries =
     \<lparr>ss_id = i, ss_name = nm, ss_action = act, ss_compensation = cmp, ss_timeout = timeout,
      ss_max_retries = retries, ss_retry_delay = 1, ss_status = ST_PENDING, ss_attempt = 0,
      ss_error = None, ss_result = None, ss_timestamp = None\<rparr>"

definition add_step ::
    "env \<Rightarrow> string \<Rightarrow> string \<Rightarrow> ('w \<Rightarrow> pyval result \<times> 'w) \<Rightarrow> ('w \<Rightarrow> unit result \<times> 'w) \<Rightarrow> int \<Rightarrow> int
     \<Rightarrow> 'w orchestrator \<Rightarrow> 'w saga_step result \<times> 'w orchestrator" where
  "add_step e sid nm act cmp timeout retries s =
     (case dget (or_sagas s) sid of
        None \<Rightarrow> (Err (saga_not_found sid), s)
      | Some sg \<Rightarrow>
          (let st = new_step (uuid e 0) nm act cmp timeout retries
           in (Ok st, s\<lparr>or_sagas := dset sid (sg\<lparr>sg_steps := sg_steps sg @ [st]\<rparr>) (or_sagas s)\<rparr>)))"

text \<open>The attempts of a step: \<open>k\<close> are left, the next is number \<open>i\<close> (from 0).\<close>

fun attempts :: "nat \<Rightarrow> nat \<Rightarrow> 'w saga_step \<Rightarrow> 'w \<Rightarrow> bool \<times> 'w saga_step \<times> 'w" where
  "attempts 0 i st w = (False, st, w)"
| "attempts (Suc k) i st w =
     (let st1 = st\<lparr>ss_attempt := int i + 1\<rparr>
      in case ss_action st1 w of
           (Inr v, w') \<Rightarrow> (True, st1\<lparr>ss_status := ST_COMPLETED, ss_result := Some v\<rparr>, w')
         | (Inl err, w') \<Rightarrow>
             (let st2 = st1\<lparr>ss_error := Some (err_str err)\<rparr>
              in if k = 0 then (False, st2\<lparr>ss_status := ST_FAILED\<rparr>, w')
                 else attempts k (Suc i) st2 w'))"

definition execute_step :: "time \<Rightarrow> 'w saga_step \<Rightarrow> 'w \<Rightarrow> bool \<times> 'w saga_step \<times> 'w" where
  "execute_step now st w =
     attempts (nat (ss_max_retries st)) 0
       (st\<lparr>ss_status := ST_EXECUTING, ss_timestamp := Some now\<rparr>) w"

text \<open>
  \<open>_compensate\<close> on the indices still to be compensated, in the order given; the flag says whether
  all of them were.
\<close>

fun compensate :: "nat list \<Rightarrow> 'w saga_step list \<Rightarrow> 'w \<Rightarrow> bool \<times> 'w saga_step list \<times> 'w" where
  "compensate [] sts w = (True, sts, w)"
| "compensate (i # is) sts w =
     (let st = (sts ! i)\<lparr>ss_status := ST_COMPENSATING\<rparr>
      in case ss_compensation st w of
           (Inr u, w') \<Rightarrow> compensate is (sts[i := st\<lparr>ss_status := ST_COMPENSATED\<rparr>]) w'
         | (Inl err, w') \<Rightarrow> (False, sts[i := st], w'))"

definition compensate_saga :: "time \<Rightarrow> 'w saga \<Rightarrow> 'w orchestrator \<Rightarrow> 'w orchestrator" where
  "compensate_saga now sg s =
     (case compensate (rev (sg_done sg)) (sg_steps sg) (or_world s) of
        (ok, sts, w) \<Rightarrow>
          (if ok
           then put_saga (sg\<lparr>sg_steps := sts, sg_status := SG_ROLLED_BACK, sg_completed_at := Some now\<rparr>)
                  (s\<lparr>or_world := w\<rparr>)
           else put_saga (sg\<lparr>sg_steps := sts, sg_status := SG_FAILED\<rparr>)
                  (s\<lparr>or_world := w, or_dead := or_dead s @ [sg_id sg]\<rparr>)))"

text \<open>
  The loop of \<open>execute\<close>: \<open>n\<close> steps are left, the next is at index \<open>i\<close>; returns whether all were
  executed.
\<close>

fun run_steps :: "env \<Rightarrow> nat \<Rightarrow> nat \<Rightarrow> 'w saga \<Rightarrow> 'w \<Rightarrow> bool \<times> 'w saga \<times> 'w" where
  "run_steps e 0 i sg w = (True, sg, w)"
| "run_steps e (Suc n) i sg w =
     (case execute_step (clock e i) (sg_steps sg ! i) w of
        (ok, st, w') \<Rightarrow>
          (let sg' = sg\<lparr>sg_steps := (sg_steps sg)[i := st]\<rparr>
           in if ok then run_steps e n (Suc i) (sg'\<lparr>sg_done := sg_done sg' @ [i]\<rparr>) w'
              else (False, sg', w')))"

definition execute :: "env \<Rightarrow> string \<Rightarrow> 'w orchestrator \<Rightarrow> bool result \<times> 'w orchestrator" where
  "execute e sid s =
     (case dget (or_sagas s) sid of
        None \<Rightarrow> (Err (saga_not_found sid), s)
      | Some sg0 \<Rightarrow>
          (let sg = sg0\<lparr>sg_status := SG_IN_PROGRESS, sg_started := Some (clock e 0)\<rparr>
           in case run_steps (later 1 e) (length (sg_steps sg)) 0 sg (or_world s) of
                (ok, sg', w) \<Rightarrow>
                  (let s' = s\<lparr>or_world := w\<rparr>; now = clock e (2 + length (sg_steps sg))
                   in if ok
                      then (Ok True, put_saga (sg'\<lparr>sg_status := SG_COMPLETED,
                                                   sg_completed_at := Some now\<rparr>) s')
                      else (Ok False, compensate_saga now (sg'\<lparr>sg_status := SG_COMPENSATING\<rparr>) s'))))"

definition get_saga :: "'w orchestrator \<Rightarrow> string \<Rightarrow> 'w saga option" where
  "get_saga s sid = dget (or_sagas s) sid"

definition get_deadletter :: "'w orchestrator \<Rightarrow> 'w saga option list" where
  "get_deadletter s = map (dget (or_sagas s)) (or_dead s)"

definition reset_step :: "'w saga_step \<Rightarrow> 'w saga_step" where
  "reset_step st = st\<lparr>ss_status := ST_PENDING, ss_attempt := 0, ss_error := None, ss_result := None\<rparr>"

definition retry_saga :: "env \<Rightarrow> string \<Rightarrow> 'w orchestrator \<Rightarrow> bool result \<times> 'w orchestrator" where
  "retry_saga e sid s =
     (case dget (or_sagas s) sid of
        None \<Rightarrow> (Err (saga_not_found sid), s)
      | Some sg \<Rightarrow>
          (let sg' = sg\<lparr>sg_status := SG_PENDING, sg_started := None, sg_completed_at := None,
                        sg_done := [], sg_steps := map reset_step (sg_steps sg)\<rparr>
           in execute e sid (put_saga sg' (s\<lparr>or_dead := filter (\<lambda>x. x \<noteq> sid) (or_dead s)\<rparr>))))"

record saga_stats =
  sv_total :: nat
  sv_completed :: nat
  sv_failed :: nat
  sv_deadletter :: nat

definition saga_statistics :: "'w orchestrator \<Rightarrow> saga_stats" where
  "saga_statistics s =
     (let sgs = map snd (or_sagas s)
      in \<lparr>sv_total = length sgs,
          sv_completed = length (filter (\<lambda>sg. sg_status sg = SG_COMPLETED) sgs),
          sv_failed = length (filter (\<lambda>sg. sg_status sg = SG_FAILED) sgs),
          sv_deadletter = length (or_dead s)\<rparr>)"

section \<open>Attempts\<close>

text \<open>A step keeps what it is; only its progress changes.\<close>

definition same_step :: "'w saga_step \<Rightarrow> 'w saga_step \<Rightarrow> bool" where
  "same_step a b \<longleftrightarrow>
     ss_id a = ss_id b \<and> ss_name a = ss_name b \<and> ss_action a = ss_action b
   \<and> ss_compensation a = ss_compensation b \<and> ss_max_retries a = ss_max_retries b"

lemma same_step_refl [simp]: "same_step a a"
  by (simp add: same_step_def)

lemma same_step_upd [simp]:
  "same_step (a\<lparr>ss_status := x\<rparr>) b = same_step a b" "same_step (a\<lparr>ss_attempt := y\<rparr>) b = same_step a b"
  "same_step (a\<lparr>ss_error := z\<rparr>) b = same_step a b" "same_step (a\<lparr>ss_result := r\<rparr>) b = same_step a b"
  "same_step (a\<lparr>ss_timestamp := t\<rparr>) b = same_step a b"
  "same_step b (a\<lparr>ss_status := x\<rparr>) = same_step b a" "same_step b (a\<lparr>ss_attempt := y\<rparr>) = same_step b a"
  "same_step b (a\<lparr>ss_error := z\<rparr>) = same_step b a" "same_step b (a\<lparr>ss_result := r\<rparr>) = same_step b a"
  "same_step b (a\<lparr>ss_timestamp := t\<rparr>) = same_step b a"
  by (simp_all add: same_step_def)

lemma same_step_fields:
  assumes "same_step a b"
  shows "ss_action a = ss_action b" "ss_compensation a = ss_compensation b"
    "ss_max_retries a = ss_max_retries b"
  using assms by (simp_all add: same_step_def)

lemma same_step_status [simp]: "same_step (xs[i := (xs ! i)\<lparr>ss_status := x\<rparr>] ! j) (xs ! j)"
  by (cases "i < length xs"; cases "j = i") (simp_all add: list_update_beyond)

lemma same_step_sym: "same_step a b \<Longrightarrow> same_step b a"
  by (simp add: same_step_def)

lemma same_step_trans: "same_step a b \<Longrightarrow> same_step b c \<Longrightarrow> same_step a c"
  by (simp add: same_step_def)

lemma attempts_spec:
  assumes "attempts k i st w = (ok, st', w')"
  shows "same_step st' st \<and> (ok \<longrightarrow> ss_status st' = ST_COMPLETED \<and> ss_result st' \<noteq> None)
    \<and> (\<not> ok \<longrightarrow> 0 < k \<longrightarrow> ss_status st' = ST_FAILED \<and> ss_error st' \<noteq> None)
    \<and> (0 < k \<longrightarrow> int i < ss_attempt st' \<and> ss_attempt st' \<le> int (i + k))"
  using assms
proof (induction k arbitrary: i st w)
  case (Suc k)
  obtain x w1 where a: "ss_action st w = (x, w1)" by fastforce
  show ?case
  proof (cases "isl x \<and> k \<noteq> 0")
    case True
    then obtain err where x: "x = Inl err" by (cases x) auto
    from Suc.prems a x True
    have "attempts k (Suc i) (st\<lparr>ss_attempt := int i + 1, ss_error := Some (err_str err)\<rparr>) w1 = (ok, st', w')"
      by simp
    from Suc.IH [OF this] True show ?thesis by auto
  next
    case False
    with Suc.prems a show ?thesis by (cases x) auto
  qed
qed simp

lemma execute_step_spec:
  assumes "execute_step now st w = (ok, st', w')"
  shows "same_step st' st" and "ok \<Longrightarrow> ss_status st' = ST_COMPLETED"
    and "\<not> ok \<Longrightarrow> 0 < ss_max_retries st \<Longrightarrow> ss_status st' = ST_FAILED"
    and "0 < ss_max_retries st \<Longrightarrow> 0 < ss_attempt st' \<and> ss_attempt st' \<le> ss_max_retries st"
  using attempts_spec [OF assms [unfolded execute_step_def]] by auto

section \<open>The forward run\<close>

text \<open>
  What \<open>run_steps\<close> did: it completed the steps at \<open>i, \<dots>, i + k - 1\<close>, in order, and changed
  nothing but the progress of steps.
\<close>

definition progressed :: "nat \<Rightarrow> nat \<Rightarrow> 'w saga \<Rightarrow> 'w saga \<Rightarrow> bool" where
  "progressed i k sg sg' \<longleftrightarrow>
     sg_id sg' = sg_id sg \<and> length (sg_steps sg') = length (sg_steps sg)
   \<and> sg_done sg' = sg_done sg @ [i..<i + k]
   \<and> (\<forall>j < length (sg_steps sg). same_step (sg_steps sg' ! j) (sg_steps sg ! j))
   \<and> (\<forall>j. i \<le> j \<and> j < i + k \<longrightarrow> ss_status (sg_steps sg' ! j) = ST_COMPLETED)
   \<and> (\<forall>j < i. j < length (sg_steps sg) \<longrightarrow> sg_steps sg' ! j = sg_steps sg ! j)"

lemma run_steps_spec:
  assumes "run_steps e n i sg w = (ok, sg', w')" "i + n = length (sg_steps sg)"
  shows "\<exists>k \<le> n. progressed i k sg sg' \<and> (ok \<longleftrightarrow> k = n)
    \<and> (\<not> ok \<longrightarrow> 0 < ss_max_retries (sg_steps sg ! (i + k))
          \<longrightarrow> ss_status (sg_steps sg' ! (i + k)) = ST_FAILED)"
  using assms
proof (induction n arbitrary: i sg w)
  case 0
  then show ?case by (auto simp: progressed_def)
next
  case (Suc n)
  obtain b st w1 where x: "execute_step (clock e i) (sg_steps sg ! i) w = (b, st, w1)"
    by (metis prod_cases3)
  note sp = execute_step_spec [OF x]
  have len: "i < length (sg_steps sg)" using Suc.prems by simp
  let ?sg1 = "sg\<lparr>sg_steps := (sg_steps sg)[i := st]\<rparr>"
  show ?case
  proof (cases b)
    case True
    let ?sg2 = "?sg1\<lparr>sg_done := sg_done ?sg1 @ [i]\<rparr>"
    from Suc.prems x True have r: "run_steps e n (Suc i) ?sg2 w1 = (ok, sg', w')" by simp
    from Suc.IH [OF r] Suc.prems obtain k where k: "k \<le> n" "progressed (Suc i) k ?sg2 sg'"
      "ok \<longleftrightarrow> k = n"
      "\<not> ok \<longrightarrow> 0 < ss_max_retries (sg_steps ?sg2 ! (Suc i + k))
        \<longrightarrow> ss_status (sg_steps sg' ! (Suc i + k)) = ST_FAILED" by auto
    have same: "same_step (sg_steps sg' ! j) (sg_steps sg ! j)" if "j < length (sg_steps sg)" for j
    proof -
      have "same_step (sg_steps sg' ! j) (sg_steps ?sg2 ! j)"
        using k(2) that by (simp add: progressed_def)
      with sp(1) show ?thesis by (cases "j = i") (auto intro: same_step_trans simp: len)
    qed
    have st_i: "ss_status (sg_steps sg' ! i) = ST_COMPLETED"
      using k(2) sp(2) True len by (simp add: progressed_def)
    have dn: "sg_done sg' = sg_done sg @ [i..<i + Suc k]"
      using k(2) by (simp add: progressed_def upt_conv_Cons)
    have comp: "ss_status (sg_steps sg' ! j) = ST_COMPLETED" if "i \<le> j" "j < i + Suc k" for j
      using k(2) st_i that by (cases "j = i") (simp_all add: progressed_def)
    have "progressed i (Suc k) sg sg'"
      unfolding progressed_def using k(2) same dn comp by (auto simp: progressed_def)
    with k show ?thesis by (intro exI [of _ "Suc k"]) auto
  next
    case False
    with Suc.prems x have "ok = False" "sg' = ?sg1" by auto
    with sp False len show ?thesis
      by (intro exI [of _ 0]) (auto simp: progressed_def nth_list_update)
  qed
qed

section \<open>The backward run\<close>

lemma compensate_spec:
  assumes "compensate is sts w = (ok, sts', w')"
  shows "length sts' = length sts \<and> (\<forall>j < length sts. same_step (sts' ! j) (sts ! j))
    \<and> (\<forall>j. j \<notin> set is \<longrightarrow> sts' ! j = sts ! j)
    \<and> (ok \<longrightarrow> (\<forall>j \<in> set is. j < length sts \<longrightarrow> ss_status (sts' ! j) = ST_COMPENSATED))"
  using assms
proof (induction "is" arbitrary: sts w)
  case (Cons i "is")
  let ?st = "(sts ! i)\<lparr>ss_status := ST_COMPENSATING\<rparr>"
  obtain x w1 where c: "ss_compensation (sts ! i) w = (x, w1)" by fastforce
  show ?case
  proof (cases x)
    case (Inl err)
    with Cons.prems c have "ok = False" "sts' = sts[i := ?st]" by auto
    then show ?thesis by auto
  next
    case (Inr u)
    let ?sts1 = "sts[i := ?st\<lparr>ss_status := ST_COMPENSATED\<rparr>]"
    from Cons.prems c Inr have r: "compensate is ?sts1 w1 = (ok, sts', w')" by simp
    note ih = Cons.IH [OF r]
    have "same_step (sts' ! j) (sts ! j)" if "j < length sts" for j
    proof -
      have "same_step (sts' ! j) (?sts1 ! j)" using ih that by simp
      then show ?thesis using that by (cases "j = i") simp_all
    qed
    moreover have "ss_status (sts' ! i) = ST_COMPENSATED" if ok "i < length sts"
      using ih that by (cases "i \<in> set is") auto
    ultimately show ?thesis using ih by auto
  qed
qed simp

lemma compensate_append:
  "compensate (xs @ ys) sts w =
     (case compensate xs sts w of
        (ok, sts', w') \<Rightarrow> if ok then compensate ys sts' w' else (False, sts', w'))"
  by (induction xs arbitrary: sts w) (auto simp: Let_def split: sum.splits prod.splits)

text \<open>
  A step is undoable with respect to what \<open>view\<close> shows of the state: an attempt that fails shows
  nothing, and after one that succeeds the compensation succeeds and brings the view back.
\<close>

definition undoable :: "('w \<Rightarrow> 'v) \<Rightarrow> 'w saga_step \<Rightarrow> bool" where
  "undoable view st \<longleftrightarrow>
     (\<forall>w err w'. ss_action st w = (Inl err, w') \<longrightarrow> view w' = view w)
   \<and> (\<forall>w v w' w2. ss_action st w = (Inr v, w') \<longrightarrow> view w2 = view w'
        \<longrightarrow> fst (ss_compensation st w2) = Inr () \<and> view (snd (ss_compensation st w2)) = view w)"

lemma undoable_upd [simp]:
  "undoable view (a\<lparr>ss_status := x\<rparr>) = undoable view a" "undoable view (a\<lparr>ss_attempt := y\<rparr>) = undoable view a"
  "undoable view (a\<lparr>ss_error := z\<rparr>) = undoable view a" "undoable view (a\<lparr>ss_timestamp := t\<rparr>) = undoable view a"
  by (simp_all add: undoable_def)

lemma attempts_undo:
  assumes "attempts k i st w = (ok, st', w')" "undoable view st"
  shows "(\<not> ok \<longrightarrow> view w' = view w)
    \<and> (ok \<longrightarrow> (\<forall>w2. view w2 = view w' \<longrightarrow>
          fst (ss_compensation st w2) = Inr () \<and> view (snd (ss_compensation st w2)) = view w))"
  using assms
proof (induction k arbitrary: i st w)
  case (Suc k)
  obtain x w1 where a: "ss_action st w = (x, w1)" by fastforce
  show ?case
  proof (cases x)
    case (Inl err)
    have v: "view w1 = view w" using Suc.prems(2) a Inl by (simp add: undoable_def)
    show ?thesis
    proof (cases "k = 0")
      case False
      let ?st = "st\<lparr>ss_attempt := int i + 1, ss_error := Some (err_str err)\<rparr>"
      from Suc.prems(1) a Inl False have r: "attempts k (Suc i) ?st w1 = (ok, st', w')" by simp
      from Suc.IH [OF r] Suc.prems(2) v show ?thesis by simp
    qed (use Suc.prems(1) a Inl v in auto)
  next
    case (Inr v)
    with Suc.prems a show ?thesis by (auto simp: undoable_def)
  qed
qed simp

text \<open>Compensating what a forward run completed brings the view back to where the run began.\<close>

lemma run_steps_undo:
  assumes "run_steps e n i sg w = (False, sg', w')" "i + n = length (sg_steps sg)"
    and "\<forall>st \<in> set (sg_steps sg). undoable view st"
  shows "\<exists>k < n. sg_done sg' = sg_done sg @ [i..<i + k] \<and>
    (\<forall>sts w2. length sts = length (sg_steps sg) \<longrightarrow> view w2 = view w' \<longrightarrow>
       (\<forall>j < length sts. same_step (sts ! j) (sg_steps sg ! j)) \<longrightarrow>
       (\<exists>sts' w3. compensate (rev [i..<i + k]) sts w2 = (True, sts', w3) \<and> view w3 = view w))"
  using assms
proof (induction n arbitrary: i sg w)
  case (Suc n)
  obtain b st w1 where x: "execute_step (clock e i) (sg_steps sg ! i) w = (b, st, w1)"
    by (metis prod_cases3)
  have len: "i < length (sg_steps sg)" using Suc.prems by simp
  then have und: "undoable view (sg_steps sg ! i)" using Suc.prems by simp
  note sp = execute_step_spec [OF x]
  note un = attempts_undo [OF x [unfolded execute_step_def], of view, simplified, OF und]
  let ?sg1 = "sg\<lparr>sg_steps := (sg_steps sg)[i := st]\<rparr>"
  show ?case
  proof (cases b)
    case True
    let ?sg2 = "?sg1\<lparr>sg_done := sg_done ?sg1 @ [i]\<rparr>"
    from Suc.prems x True have r: "run_steps e n (Suc i) ?sg2 w1 = (False, sg', w')" by simp
    have eq2: "same_step (sg_steps ?sg2 ! j) (sg_steps sg ! j)" if "j < length (sg_steps sg)" for j
      using sp(1) that by (cases "j = i") simp_all
    have und_st: "undoable view st"
      using und same_step_fields [OF sp(1)] by (simp add: undoable_def)
    have u2: "\<forall>st \<in> set (sg_steps ?sg2). undoable view st"
      using Suc.prems(3) und_st set_update_subset_insert [of "sg_steps sg" i st] by auto
    obtain k where k: "k < n" "sg_done sg' = sg_done sg @ [i] @ [Suc i..<Suc i + k]"
      and inner: "\<And>sts w2. length sts = length (sg_steps sg) \<Longrightarrow> view w2 = view w' \<Longrightarrow>
        (\<And>j. j < length sts \<Longrightarrow> same_step (sts ! j) (sg_steps ?sg2 ! j)) \<Longrightarrow>
        \<exists>sts' w3. compensate (rev [Suc i..<Suc i + k]) sts w2 = (True, sts', w3) \<and> view w3 = view w1"
      using Suc.IH [OF r _ u2] Suc.prems(2) by auto
    have "\<exists>sts' w3. compensate (rev [i..<i + Suc k]) sts w2 = (True, sts', w3) \<and> view w3 = view w"
      if l: "length sts = length (sg_steps sg)" and v: "view w2 = view w'" and s: "\<forall>j < length sts. same_step (sts ! j) (sg_steps sg ! j)"
      for sts :: "'a saga_step list" and w2
    proof -
      have "same_step (sts ! j) (sg_steps ?sg2 ! j)" if "j < length sts" for j
        using same_step_trans [OF s [rule_format] same_step_sym [OF eq2]] that l by simp
      from inner [OF l v this] obtain sts1 w3 where
        c: "compensate (rev [Suc i..<Suc i + k]) sts w2 = (True, sts1, w3)" "view w3 = view w1" by blast
      have "same_step (sts1 ! i) (sts ! i)" using compensate_spec [OF c(1)] len l by simp
      with s l len have "ss_compensation (sts1 ! i) = ss_compensation (sg_steps sg ! i)"
        by (simp add: same_step_def)
      moreover have "fst (ss_compensation (sg_steps sg ! i) w3) = Inr ()"
        "view (snd (ss_compensation (sg_steps sg ! i) w3)) = view w"
        using un True c(2) by auto
      ultimately obtain w4 where "ss_compensation (sts1 ! i) w3 = (Inr (), w4)" "view w4 = view w"
        by (metis prod.collapse)
      moreover have "rev [i..<i + Suc k] = rev [Suc i..<Suc i + k] @ [i]"
        by (simp add: upt_conv_Cons)
      ultimately show ?thesis using c(1) by (simp add: compensate_append)
    qed
    with k show ?thesis by (intro exI [of _ "Suc k"]) (simp add: upt_conv_Cons)
  next
    case False
    with Suc.prems x un show ?thesis by (intro exI [of _ 0]) auto
  qed
qed simp

section \<open>Invariant\<close>

text \<open>A saga is kept under its id, and what it lists as completed are steps of its own.\<close>

definition or_inv :: "'w orchestrator \<Rightarrow> bool" where
  "or_inv s \<longleftrightarrow> (\<forall>sid sg. dget (or_sagas s) sid = Some sg \<longrightarrow>
     sg_id sg = sid \<and> (\<forall>i \<in> set (sg_done sg). i < length (sg_steps sg)))"

lemma or_inv_dset [inv_intros]:
  assumes "or_inv s" "sg_id sg = sid" "\<forall>i \<in> set (sg_done sg). i < length (sg_steps sg)"
  shows "or_inv (s\<lparr>or_sagas := dset sid sg (or_sagas s)\<rparr>)"
  using assms by (simp add: or_inv_def)

lemma or_inv_cong: "or_sagas s' = or_sagas s \<Longrightarrow> or_inv s' = or_inv s"
  by (simp add: or_inv_def)

lemma put_saga_inv [inv_intros]:
  assumes "or_inv s" "\<forall>i \<in> set (sg_done sg). i < length (sg_steps sg)"
  shows "or_inv (put_saga sg s)"
  using or_inv_dset [OF assms(1) refl assms(2)] by (simp add: put_saga_def)

lemma put_saga_sel [simp]:
  "or_sagas (put_saga sg s) = dset (sg_id sg) sg (or_sagas s)"
  "or_dead (put_saga sg s) = or_dead s" "or_world (put_saga sg s) = or_world s"
  by (simp_all add: put_saga_def)

text \<open>What \<open>execute\<close> leaves, whatever the steps do.\<close>

lemma execute_cases:
  assumes "or_inv s" "dget (or_sagas s) sid = Some sg" "execute e sid s = (r, s')"
  obtains sg' k where "dget (or_sagas s') sid = Some sg'" "sg_id sg' = sid"
    "length (sg_steps sg') = length (sg_steps sg)"
    "\<forall>j < length (sg_steps sg). same_step (sg_steps sg' ! j) (sg_steps sg ! j)"
    "\<forall>x. x \<noteq> sid \<longrightarrow> dget (or_sagas s') x = dget (or_sagas s) x"
    "k \<le> length (sg_steps sg)" "sg_done sg' = sg_done sg @ [0..<k]"
    "r = Ok (k = length (sg_steps sg))"
    "k = length (sg_steps sg) \<longrightarrow> sg_status sg' = SG_COMPLETED \<and> or_dead s' = or_dead s
       \<and> (\<forall>j < k. ss_status (sg_steps sg' ! j) = ST_COMPLETED)"
    "k < length (sg_steps sg) \<longrightarrow>
       (sg_status sg' = SG_ROLLED_BACK \<and> or_dead s' = or_dead s
          \<and> (\<forall>j \<in> set (sg_done sg'). ss_status (sg_steps sg' ! j) = ST_COMPENSATED))
     \<or> (sg_status sg' = SG_FAILED \<and> or_dead s' = or_dead s @ [sid])"
proof -
  let ?sg = "sg\<lparr>sg_status := SG_IN_PROGRESS, sg_started := Some (clock e 0)\<rparr>"
  let ?n = "length (sg_steps sg)"
  let ?now = "clock e (2 + ?n)"
  have id: "sg_id sg = sid" and dn: "\<forall>i \<in> set (sg_done sg). i < ?n"
    using assms(1,2) by (auto simp: or_inv_def)
  obtain ok sg1 w where run: "run_steps (later 1 e) ?n 0 ?sg (or_world s) = (ok, sg1, w)"
    by (metis prod_cases3)
  from run_steps_spec [OF run] obtain k where k: "k \<le> ?n" "progressed 0 k ?sg sg1" "ok \<longleftrightarrow> k = ?n"
    by auto
  note p = k(2) [unfolded progressed_def, simplified]
  show thesis
  proof (cases ok)
    case True
    let ?sg2 = "sg1\<lparr>sg_status := SG_COMPLETED, sg_completed_at := Some ?now\<rparr>"
    have "r = Ok True" "s' = put_saga ?sg2 (s\<lparr>or_world := w\<rparr>)"
      using assms(2,3) run True by (simp_all add: execute_def Let_def)
    with p k True id show thesis by (intro that [of ?sg2 ?n]) auto
  next
    case False
    let ?sg2 = "sg1\<lparr>sg_status := SG_COMPENSATING\<rparr>"
    have r: "r = Ok False" and s': "s' = compensate_saga ?now ?sg2 (s\<lparr>or_world := w\<rparr>)"
      using assms(2,3) run False by (simp_all add: execute_def Let_def)
    obtain c sts w' where c: "compensate (rev (sg_done sg1)) (sg_steps sg1) w = (c, sts, w')"
      by (metis prod_cases3)
    note cs = compensate_spec [OF c]
    have ss: "same_step (sts ! j) (sg_steps sg ! j)" if "j < ?n" for j
      using same_step_trans [of "sts ! j" "sg_steps sg1 ! j"] cs p that by simp
    have lt: "\<forall>j \<in> set (sg_done sg1). j < length (sg_steps sg1)" using p dn k(1) by auto
    have kn: "k < ?n" using k False by simp
    show thesis
    proof (cases c)
      case True
      have s'': "s' = put_saga (?sg2\<lparr>sg_steps := sts, sg_status := SG_ROLLED_BACK, sg_completed_at := Some ?now\<rparr>)
            (s\<lparr>or_world := w'\<rparr>)"
        using s' c True by (simp add: compensate_saga_def)
      show thesis
        by (rule that [of "?sg2\<lparr>sg_steps := sts, sg_status := SG_ROLLED_BACK, sg_completed_at := Some ?now\<rparr>" k])
          (use s'' p r id kn ss cs lt True in auto)
    next
      case False
      have s'': "s' = put_saga (?sg2\<lparr>sg_steps := sts, sg_status := SG_FAILED\<rparr>)
            (s\<lparr>or_world := w', or_dead := or_dead s @ [sg_id sg1]\<rparr>)"
        using s' c False by (simp add: compensate_saga_def)
      show thesis
        by (rule that [of "?sg2\<lparr>sg_steps := sts, sg_status := SG_FAILED\<rparr>" k])
          (use s'' p r id kn ss cs lt in auto)
    qed
  qed
qed

lemma execute_inv:
  assumes "or_inv s"
  shows "or_inv (snd (execute e sid s))"
proof (cases "dget (or_sagas s) sid")
  case (Some sg)
  obtain r s' where x: "execute e sid s = (r, s')" by fastforce
  have old: "\<forall>i \<in> set (sg_done sg). i < length (sg_steps sg)" using assms Some by (simp add: or_inv_def)
  obtain sg' k where new: "dget (or_sagas s') sid = Some sg'" "sg_id sg' = sid"
    "length (sg_steps sg') = length (sg_steps sg)"
    "\<forall>x. x \<noteq> sid \<longrightarrow> dget (or_sagas s') x = dget (or_sagas s) x"
    "k \<le> length (sg_steps sg)" "sg_done sg' = sg_done sg @ [0..<k]"
    by (rule execute_cases [OF assms Some x])
  have "sg_id t = y \<and> (\<forall>i \<in> set (sg_done t). i < length (sg_steps t))"
    if "dget (or_sagas s') y = Some t" for y t
    using that new old assms by (cases "y = sid") (auto simp: or_inv_def)
  with x show ?thesis by (simp add: or_inv_def)
qed (simp add: assms execute_def)

text \<open>The operations of the orchestrator, and a run of them.\<close>

datatype 'w saga_op =
    OpCreate env int string decimal "(string \<times> pyval) list"
  | OpAddStep env string string "'w \<Rightarrow> pyval result \<times> 'w" "'w \<Rightarrow> unit result \<times> 'w" int int
  | OpExecute env string
  | OpRetry env string

fun saga_do :: "'w saga_op \<Rightarrow> 'w orchestrator \<Rightarrow> 'w orchestrator" where
  "saga_do (OpCreate e uid ty amt meta) s = snd (create_saga e uid ty amt meta s)"
| "saga_do (OpAddStep e sid nm act cmp timeout retries) s = snd (add_step e sid nm act cmp timeout retries s)"
| "saga_do (OpExecute e sid) s = snd (execute e sid s)"
| "saga_do (OpRetry e sid) s = snd (retry_saga e sid s)"

lemma retry_inv: "or_inv s \<Longrightarrow> or_inv (snd (retry_saga e sid s))"
proof (cases "dget (or_sagas s) sid")
  case (Some sg)
  let ?s = "s\<lparr>or_dead := filter (\<lambda>x. x \<noteq> sid) (or_dead s)\<rparr>"
  let ?sg = "sg\<lparr>sg_status := SG_PENDING, sg_started := None, sg_completed_at := None,
    sg_done := [], sg_steps := map reset_step (sg_steps sg)\<rparr>"
  assume "or_inv s"
  then have "or_inv ?s" by (simp add: or_inv_def)
  then have "or_inv (put_saga ?sg ?s)" by (rule put_saga_inv) simp
  from execute_inv [OF this] Some show ?thesis by (simp add: retry_saga_def Let_def)
qed (simp add: retry_saga_def)

lemma create_saga_inv: "or_inv s \<Longrightarrow> or_inv (snd (create_saga e uid ty amt meta s))"
  by (simp add: or_inv_def create_saga_def Let_def)

lemma saga_do_inv: "or_inv s \<Longrightarrow> or_inv (saga_do a s)"
proof (cases a)
  case (OpAddStep e sid nm act cmp timeout retries)
  moreover assume "or_inv s"
  ultimately show ?thesis
    by (auto simp: or_inv_def add_step_def Let_def less_SucI split: option.split)
qed (auto intro: execute_inv retry_inv create_saga_inv)

interpretation saga_run: preserved saga_do or_inv
  by unfold_locales (rule saga_do_inv)

definition init_orchestrator :: "'w \<Rightarrow> 'w orchestrator" where
  "init_orchestrator w = \<lparr>or_sagas = [], or_dead = [], or_world = w\<rparr>"

lemma init_or_inv: "or_inv (init_orchestrator w)"
  by (simp add: or_inv_def init_orchestrator_def)

section \<open>Properties\<close>

text \<open>Execution of a saga is decided by the first step that exhausts its attempts. In any state
  reached from an empty orchestrator by any operations, executing a saga that has not run returns
  true exactly when all its steps completed, and then the saga is COMPLETED; otherwise it returns
  false with the completed steps a proper prefix of its steps, and the saga is either ROLLED_BACK
  with each of those steps COMPENSATED, or FAILED and added to the dead letter queue. The other
  sagas are untouched.\<close>

theorem saga_outcome:
  assumes "s = fold saga_do ops (init_orchestrator w)" "get_saga s sid = Some sg" "sg_done sg = []"
    and "execute e sid s = (r, s')"
  shows "\<exists>sg' k. get_saga s' sid = Some sg' \<and> k \<le> length (sg_steps sg) \<and> sg_done sg' = [0..<k]
    \<and> r = Ok (k = length (sg_steps sg))
    \<and> (if k = length (sg_steps sg)
       then sg_status sg' = SG_COMPLETED \<and> or_dead s' = or_dead s
          \<and> (\<forall>j < k. ss_status (sg_steps sg' ! j) = ST_COMPLETED)
       else (sg_status sg' = SG_ROLLED_BACK \<and> or_dead s' = or_dead s
               \<and> (\<forall>j < k. ss_status (sg_steps sg' ! j) = ST_COMPENSATED))
          \<or> (sg_status sg' = SG_FAILED \<and> or_dead s' = or_dead s @ [sid]))
    \<and> (\<forall>x. x \<noteq> sid \<longrightarrow> get_saga s' x = get_saga s x)"
proof -
  have inv: "or_inv s" unfolding assms(1) by (rule saga_run.run_inv) (rule init_or_inv)
  obtain sg' k where f: "dget (or_sagas s') sid = Some sg'"
    "\<forall>x. x \<noteq> sid \<longrightarrow> dget (or_sagas s') x = dget (or_sagas s) x"
    "k \<le> length (sg_steps sg)" "sg_done sg' = sg_done sg @ [0..<k]" "r = Ok (k = length (sg_steps sg))"
    and ok: "k = length (sg_steps sg) \<longrightarrow> sg_status sg' = SG_COMPLETED \<and> or_dead s' = or_dead s
       \<and> (\<forall>j < k. ss_status (sg_steps sg' ! j) = ST_COMPLETED)"
    and bad: "k < length (sg_steps sg) \<longrightarrow>
       (sg_status sg' = SG_ROLLED_BACK \<and> or_dead s' = or_dead s
          \<and> (\<forall>j \<in> set (sg_done sg'). ss_status (sg_steps sg' ! j) = ST_COMPENSATED))
     \<or> (sg_status sg' = SG_FAILED \<and> or_dead s' = or_dead s @ [sid])"
    by (rule execute_cases [OF inv assms(2) [unfolded get_saga_def] assms(4)])
  have "if k = length (sg_steps sg)
       then sg_status sg' = SG_COMPLETED \<and> or_dead s' = or_dead s
          \<and> (\<forall>j < k. ss_status (sg_steps sg' ! j) = ST_COMPLETED)
       else (sg_status sg' = SG_ROLLED_BACK \<and> or_dead s' = or_dead s
               \<and> (\<forall>j < k. ss_status (sg_steps sg' ! j) = ST_COMPENSATED))
          \<or> (sg_status sg' = SG_FAILED \<and> or_dead s' = or_dead s @ [sid])"
    using ok bad f(3,4) assms(3) by (cases "k = length (sg_steps sg)") (simp_all add: Ball_def)
  with f assms(3) show ?thesis unfolding get_saga_def by (intro exI [of _ sg'] exI [of _ k]) simp
qed

text \<open>A step for concrete runs: it adds \<open>n\<close> to a counter and its compensation subtracts it.\<close>

definition adding :: "int \<Rightarrow> int \<Rightarrow> pyval result \<times> int" where
  "adding n w = (Ok VNone, w + n)"

definition taking :: "int \<Rightarrow> int \<Rightarrow> unit result \<times> int" where
  "taking n w = (Ok (), w - n)"

definition raising :: "int \<Rightarrow> pyval result \<times> int" where
  "raising w = (Err (ValueError ''no''), w)"

definition two_step_ops :: "int saga_op list" where
  "two_step_ops = [OpCreate env0 1 ''trade'' (Dec 5 0) [],
     OpAddStep env0 ''u0'' ''reserve'' (adding 5) (taking 5) 30 3,
     OpAddStep env0 ''u0'' ''order'' raising (taking 0) 30 2]"

lemma two_step_state:
  "fold saga_do two_step_ops (init_orchestrator 100) =
     \<lparr>or_sagas = [(''u0'', \<lparr>sg_id = ''u0'', sg_user = 1, sg_type = ''trade'', sg_amount = Dec 5 0,
        sg_meta = [], sg_created = 0, sg_started = None, sg_completed_at = None,
        sg_status = SG_PENDING,
        sg_steps = [new_step ''u0'' ''reserve'' (adding 5) (taking 5) 30 3,
                    new_step ''u0'' ''order'' raising (taking 0) 30 2], sg_done = []\<rparr>)],
      or_dead = [], or_world = 100\<rparr>"
  by (simp add: two_step_ops_def init_orchestrator_def create_saga_def add_step_def Let_def)

lemma saga_outcome_witness:
  "get_saga (snd (execute env0 ''u0'' (fold saga_do two_step_ops (init_orchestrator 100)))) ''u0'' \<noteq> None"
  using saga_outcome [OF refl, of two_step_ops 100 "''u0''" _ env0
      "fst (execute env0 ''u0'' (fold saga_do two_step_ops (init_orchestrator 100)))"
      "snd (execute env0 ''u0'' (fold saga_do two_step_ops (init_orchestrator 100)))"]
  by (auto simp: two_step_state get_saga_def)



text \<open>A step whose action never fails, and what the actions of a list of steps do to the state.\<close>

definition never_fails :: "'w saga_step \<Rightarrow> bool" where
  "never_fails st \<longleftrightarrow> 0 < ss_max_retries st \<and> (\<forall>w. \<not> isl (fst (ss_action st w)))"

definition all_actions :: "'w saga_step list \<Rightarrow> 'w \<Rightarrow> 'w" where
  "all_actions sts w = fold (\<lambda>st w. snd (ss_action st w)) sts w"

lemma never_fails_step:
  assumes "never_fails st" and same: "same_step (st'::'w saga_step) st"
  shows "\<exists>st''. execute_step now st' w = (True, st'', snd (ss_action st w)) \<and> same_step st'' st"
proof -
  obtain m where m: "nat (ss_max_retries st) = Suc m"
    using assms(1) by (metis never_fails_def gr0_conv_Suc zero_less_nat_eq)
  have "\<not> isl (fst (ss_action st w))" using assms(1) by (simp add: never_fails_def)
  then obtain v w' where "ss_action st w = (Inr v, w')"
    by (metis isl_def prod.collapse sum.exhaust_sel sum.collapse(2))
  then show ?thesis using m same same_step_fields [OF same] by (simp add: execute_step_def)
qed

lemma run_steps_never_fails:
  assumes "i + n = length (sg_steps sg)"
    and "\<forall>j < length sts. never_fails (sts ! j)" "length sts = length (sg_steps sg)"
    and "\<forall>j < length sts. same_step (sg_steps sg ! j) (sts ! j)"
  shows "\<exists>sg'. run_steps e n i sg w = (True, sg', all_actions (drop i sts) w)"
  using assms
proof (induction n arbitrary: i sg w)
  case (Suc n)
  have i: "i < length sts" using Suc.prems by simp
  obtain st where x: "execute_step (clock e i) (sg_steps sg ! i) w = (True, st, snd (ss_action (sts ! i) w))"
    and s: "same_step st (sts ! i)"
    using never_fails_step Suc.prems(2,4) i by meson
  let ?sg = "sg\<lparr>sg_steps := (sg_steps sg)[i := st], sg_done := sg_done sg @ [i]\<rparr>"
  have "\<forall>j < length sts. same_step (sg_steps ?sg ! j) (sts ! j)"
    using Suc.prems(3,4) s i by (auto simp: nth_list_update simp del: same_step_upd)
  then have "\<exists>sg'. run_steps e n (Suc i) ?sg (snd (ss_action (sts ! i) w))
      = (True, sg', all_actions (drop (Suc i) sts) (snd (ss_action (sts ! i) w)))"
    using Suc.prems by (intro Suc.IH) simp_all
  then show ?case using x i by (simp add: all_actions_def Cons_nth_drop_Suc [symmetric])
qed (simp add: all_actions_def)

text \<open>Retrying does not look at the saga's status: with steps that do not fail, \<open>retry_saga\<close> runs
  every action again, from the first, also on a saga that is already COMPLETED, whose effects are
  then applied twice.\<close>

theorem retry_repeats_actions:
  assumes "get_saga s sid = Some sg" "sg_id sg = sid" "\<forall>st \<in> set (sg_steps sg). never_fails st"
  shows "fst (retry_saga e sid s) = Ok True
    \<and> or_world (snd (retry_saga e sid s)) = all_actions (sg_steps sg) (or_world s)"
proof -
  let ?sg = "sg\<lparr>sg_completed_at := None, sg_done := [], sg_steps := map reset_step (sg_steps sg),
    sg_status := SG_IN_PROGRESS, sg_started := Some (clock e 0)\<rparr>"
  have "\<exists>sg'. run_steps (later 1 e) (length (sg_steps sg)) 0 ?sg (or_world s)
      = (True, sg', all_actions (drop 0 (sg_steps sg)) (or_world s))"
    using assms(3) by (intro run_steps_never_fails) (auto simp: reset_step_def)
  then show ?thesis using assms(1,2)
    by (auto simp: retry_saga_def execute_def get_saga_def Let_def)
qed

lemma retry_repeats_actions_witness:
  "let s = fold saga_do [OpCreate env0 1 ''buy'' (Dec 5 0) [],
             OpAddStep env0 ''u0'' ''add'' (adding 5) (taking 5) 30 3, OpExecute env0 ''u0'']
             (init_orchestrator 100)
   in or_world s = 105 \<and> or_world (snd (retry_saga env0 ''u0'' s)) = 110"
proof -
  define s where "s = fold saga_do [OpCreate env0 1 ''buy'' (Dec 5 0) [],
      OpAddStep env0 ''u0'' ''add'' (adding 5) (taking 5) 30 3, OpExecute env0 ''u0''] (init_orchestrator 100)"
  obtain sg where sg: "get_saga s ''u0'' = Some sg" "sg_id sg = ''u0''" "or_world s = 105"
    "map ss_action (sg_steps sg) = [adding 5]" "map ss_max_retries (sg_steps sg) = [3]"
    by (simp add: s_def init_orchestrator_def create_saga_def add_step_def Let_def get_saga_def
        execute_def execute_step_def new_step_def adding_def numeral_3_eq_3)
  then obtain st where "sg_steps sg = [st]" "ss_action st = adding 5" "ss_max_retries st = 3" by auto
  moreover from this have "never_fails st" by (simp add: never_fails_def adding_def)
  ultimately show ?thesis
    using retry_repeats_actions [OF sg(1,2), of env0] sg(3)
    unfolding s_def [symmetric] Let_def by (simp add: all_actions_def adding_def)
qed

text \<open>A step makes between one and \<open>max_retries\<close> attempts and ends COMPLETED or FAILED; with
  \<open>max_retries\<close> 0 or negative its action is never called and it stays EXECUTING.\<close>

theorem step_attempts_bounded:
  assumes "execute_step now st w = (ok, st', w')"
  shows "(if 0 < ss_max_retries st
      then 1 \<le> ss_attempt st' \<and> ss_attempt st' \<le> ss_max_retries st
         \<and> ss_status st' = (if ok then ST_COMPLETED else ST_FAILED)
      else \<not> ok \<and> w' = w \<and> ss_status st' = ST_EXECUTING)"
proof (cases "0 < ss_max_retries st")
  case True
  with execute_step_spec [OF assms] show ?thesis by (cases ok) auto
next
  case False
  with assms show ?thesis by (auto simp: execute_step_def)
qed

lemma step_attempts_bounded_witness:
  "ss_attempt (fst (snd (execute_step 7 (new_step ''u'' ''order'' raising (taking 0) 30 2) 0))) \<le> 2"
  using step_attempts_bounded [of 7 "new_step ''u'' ''order'' raising (taking 0) 30 2" 0
      "fst (execute_step 7 (new_step ''u'' ''order'' raising (taking 0) 30 2) 0)"
      "fst (snd (execute_step 7 (new_step ''u'' ''order'' raising (taking 0) 30 2) 0))"
      "snd (snd (execute_step 7 (new_step ''u'' ''order'' raising (taking 0) 30 2) 0))"]
  by (simp add: new_step_def)

end
