(* ===== verification/Micro_Saga.thy ===== *)
theory Micro_Saga
  imports Prelude
begin

text \<open>
  The saga of the microservices (\<open>services/core/saga.py\<close>): steps that retry themselves by
  recursion, best-effort compensation, the registry of sagas.

  As in \<open>saga_pattern.py\<close> the actions are functions of the state they act on. A saga object is
  identified by its id in the registry. \<open>get_status\<close> only formats, so the queries return the sagas
  themselves. The \<open>except\<close> of \<open>Saga.execute\<close> cannot be reached, since a step's \<open>execute\<close> and
  \<open>compensate\<close> catch every exception. An operation threads its environment, because the number of
  clock readings depends on the retries.
\<close>

section \<open>Steps\<close>

datatype ms_status = MS_PENDING | MS_EXECUTING | MS_COMPLETED | MS_FAILED | MS_COMPENSATING
  | MS_COMPENSATED

record 'w ms_step =
  mst_name :: string
  mst_action :: "'w \<Rightarrow> pyval result \<times> 'w"
  mst_compensation :: "(pyval \<Rightarrow> 'w \<Rightarrow> unit result \<times> 'w) option"
  mst_retry_count :: int
  mst_max_retries :: int
  mst_status :: ms_status
  mst_result :: pyval
  mst_error :: "string option"
  mst_started :: "time option"
  mst_completed :: "time option"

definition new_ms_step ::
    "string \<Rightarrow> ('w \<Rightarrow> pyval result \<times> 'w) \<Rightarrow> (pyval \<Rightarrow> 'w \<Rightarrow> unit result \<times> 'w) option \<Rightarrow> int
     \<Rightarrow> 'w ms_step" where
  "new_ms_step nm act cmp retries =
     \<lparr>mst_name = nm, mst_action = act, mst_compensation = cmp, mst_retry_count = 0,
      mst_max_retries = retries, mst_status = MS_PENDING, mst_result = VNone, mst_error = None,
      mst_started = None, mst_completed = None\<rparr>"

text \<open>\<open>SagaStep.execute\<close>; the recursion ends because each retry raises the count.\<close>

function ms_step_execute :: "env \<Rightarrow> 'w ms_step \<Rightarrow> 'w \<Rightarrow> bool \<times> 'w ms_step \<times> 'w \<times> env" where
  "ms_step_execute e st w =
     (let st1 = st\<lparr>mst_status := MS_EXECUTING, mst_started := Some (clock e 0)\<rparr>
      in case mst_action st w of
           (Inr v, w') \<Rightarrow>
             (True, st1\<lparr>mst_result := v, mst_status := MS_COMPLETED, mst_completed := Some (clock e 1)\<rparr>,
              w', later 2 e)
         | (Inl err, w') \<Rightarrow>
             (if mst_retry_count st < mst_max_retries st
              then ms_step_execute (later 1 e)
                     (st1\<lparr>mst_error := Some (err_str err), mst_retry_count := mst_retry_count st + 1\<rparr>) w'
              else (False, st1\<lparr>mst_error := Some (err_str err), mst_status := MS_FAILED\<rparr>, w', later 1 e)))"
  by pat_completeness auto
termination
  by (relation "measure (\<lambda>(e, st, w). nat (mst_max_retries st - mst_retry_count st))") auto

declare ms_step_execute.simps [simp del]

definition ms_step_compensate :: "env \<Rightarrow> 'w ms_step \<Rightarrow> 'w \<Rightarrow> bool \<times> 'w ms_step \<times> 'w \<times> env" where
  "ms_step_compensate e st w =
     (case mst_compensation st of
        None \<Rightarrow> (True, st, w, e)
      | Some cmp \<Rightarrow>
          (let st1 = st\<lparr>mst_status := MS_COMPENSATING\<rparr>
           in case cmp (mst_result st) w of
                (Inr u, w') \<Rightarrow>
                  (True, st1\<lparr>mst_status := MS_COMPENSATED, mst_completed := Some (clock e 0)\<rparr>, w', later 1 e)
              | (Inl err, w') \<Rightarrow>
                  (False, st1\<lparr>mst_error := Some (''Compensation failed: '' @ err_str err)\<rparr>, w', e)))"

section \<open>Sagas\<close>

record 'w ms_saga =
  ms_id :: string
  ms_steps :: "'w ms_step list"
  ms_state :: ms_status
  ms_started :: "time option"
  ms_completed :: "time option"
  ms_last_error :: "string option"

text \<open>\<open>saga_id or str(uuid.uuid4())\<close>: an empty id counts as none.\<close>

definition new_ms_saga :: "env \<Rightarrow> string option \<Rightarrow> 'w ms_saga" where
  "new_ms_saga e sid =
     \<lparr>ms_id = (case sid of Some (c # cs) \<Rightarrow> c # cs | _ \<Rightarrow> uuid e 0), ms_steps = [],
      ms_state = MS_PENDING, ms_started = None, ms_completed = None, ms_last_error = None\<rparr>"

definition ms_add_step ::
    "string \<Rightarrow> ('w \<Rightarrow> pyval result \<times> 'w) \<Rightarrow> (pyval \<Rightarrow> 'w \<Rightarrow> unit result \<times> 'w) option \<Rightarrow> int
     \<Rightarrow> 'w ms_saga \<Rightarrow> 'w ms_saga" where
  "ms_add_step nm act cmp retries sg = sg\<lparr>ms_steps := ms_steps sg @ [new_ms_step nm act cmp retries]\<rparr>"

text \<open>\<open>_compensate\<close> over the indices of the completed steps, last first; its result is ignored.\<close>

fun ms_compensate_steps :: "env \<Rightarrow> nat list \<Rightarrow> 'w ms_step list \<Rightarrow> 'w \<Rightarrow> 'w ms_step list \<times> 'w \<times> env" where
  "ms_compensate_steps e [] sts w = (sts, w, e)"
| "ms_compensate_steps e (i # is) sts w =
     (case ms_step_compensate e (sts ! i) w of
        (ok, st, w', e') \<Rightarrow> ms_compensate_steps e' is (sts[i := st]) w')"

definition ms_compensate :: "env \<Rightarrow> nat list \<Rightarrow> 'w ms_saga \<Rightarrow> 'w \<Rightarrow> 'w ms_saga \<times> 'w \<times> env" where
  "ms_compensate e dn sg w =
     (case ms_compensate_steps e (rev dn) (ms_steps sg) w of
        (sts, w', e') \<Rightarrow>
          (sg\<lparr>ms_steps := sts, ms_state := MS_COMPENSATED, ms_completed := Some (clock e' 0)\<rparr>, w', later 1 e'))"

text \<open>The loop of \<open>Saga.execute\<close>: \<open>n\<close> steps are left, the next at index \<open>i\<close>; those before are complete.\<close>

fun ms_run :: "env \<Rightarrow> nat \<Rightarrow> nat \<Rightarrow> 'w ms_saga \<Rightarrow> 'w \<Rightarrow> bool \<times> 'w ms_saga \<times> 'w" where
  "ms_run e 0 i sg w = (True, sg\<lparr>ms_state := MS_COMPLETED, ms_completed := Some (clock e 0)\<rparr>, w)"
| "ms_run e (Suc n) i sg w =
     (case ms_step_execute e (ms_steps sg ! i) w of
        (ok, st, w', e') \<Rightarrow>
          (let sg' = sg\<lparr>ms_steps := (ms_steps sg)[i := st]\<rparr>
           in if ok then ms_run e' n (Suc i) sg' w'
              else case ms_compensate e' [0..<i] (sg'\<lparr>ms_state := MS_FAILED, ms_last_error := mst_error st\<rparr>) w' of
                     (sg'', w'', _) \<Rightarrow> (False, sg'', w'')))"

definition ms_execute :: "env \<Rightarrow> 'w ms_saga \<Rightarrow> 'w \<Rightarrow> bool \<times> 'w ms_saga \<times> 'w" where
  "ms_execute e sg w =
     ms_run (later 1 e) (length (ms_steps sg)) 0
       (sg\<lparr>ms_state := MS_EXECUTING, ms_started := Some (clock e 0)\<rparr>) w"

section \<open>The registry\<close>

record 'w ms_orchestrator =
  mo_sagas :: "(string, 'w ms_saga) dict"
  mo_world :: 'w

definition init_ms :: "'w \<Rightarrow> 'w ms_orchestrator" where
  "init_ms w = \<lparr>mo_sagas = [], mo_world = w\<rparr>"

definition ms_create_saga :: "env \<Rightarrow> string option \<Rightarrow> 'w ms_orchestrator \<Rightarrow> string \<times> 'w ms_orchestrator" where
  "ms_create_saga e sid s =
     (let sg = new_ms_saga e sid in (ms_id sg, s\<lparr>mo_sagas := dset (ms_id sg) sg (mo_sagas s)\<rparr>))"

definition ms_execute_saga :: "env \<Rightarrow> string \<Rightarrow> 'w ms_orchestrator \<Rightarrow> bool option \<times> 'w ms_orchestrator" where
  "ms_execute_saga e sid s =
     (case dget (mo_sagas s) sid of
        None \<Rightarrow> (None, s)
      | Some sg \<Rightarrow> (case ms_execute e sg (mo_world s) of
          (ok, sg', w) \<Rightarrow> (Some ok, s\<lparr>mo_sagas := dset sid sg' (mo_sagas s), mo_world := w\<rparr>)))"

definition ms_get_saga :: "'w ms_orchestrator \<Rightarrow> string \<Rightarrow> 'w ms_saga option" where
  "ms_get_saga s sid = dget (mo_sagas s) sid"

definition ms_get_all :: "'w ms_orchestrator \<Rightarrow> 'w ms_saga list" where
  "ms_get_all s = map snd (mo_sagas s)"

definition ms_get_failed :: "'w ms_orchestrator \<Rightarrow> 'w ms_saga list" where
  "ms_get_failed s = filter (\<lambda>sg. ms_state sg = MS_FAILED) (map snd (mo_sagas s))"

text \<open>The operations on the registry: creating, adding a step to a registered saga, executing one.\<close>

datatype 'w ms_op =
    MsCreate env "string option"
  | MsAdd string string "'w \<Rightarrow> pyval result \<times> 'w" "(pyval \<Rightarrow> 'w \<Rightarrow> unit result \<times> 'w) option" int
  | MsExecute env string

fun ms_do :: "'w ms_op \<Rightarrow> 'w ms_orchestrator \<Rightarrow> 'w ms_orchestrator" where
  "ms_do (MsCreate e sid) s = snd (ms_create_saga e sid s)"
| "ms_do (MsAdd sid nm act cmp retries) s =
     (case dget (mo_sagas s) sid of
        None \<Rightarrow> s
      | Some sg \<Rightarrow> s\<lparr>mo_sagas := dset sid (ms_add_step nm act cmp retries sg) (mo_sagas s)\<rparr>)"
| "ms_do (MsExecute e sid) s = snd (ms_execute_saga e sid s)"

section \<open>Steps: attempts\<close>

lemma ms_step_execute_spec:
  assumes "ms_step_execute e st w = (ok, st', w', e')"
  shows "mst_action st' = mst_action st \<and> mst_compensation st' = mst_compensation st
    \<and> mst_status st' = (if ok then MS_COMPLETED else MS_FAILED) \<and> mst_retry_count st \<le> mst_retry_count st'
    \<and> mst_max_retries st' = mst_max_retries st \<and> (\<not> ok \<longrightarrow> mst_error st' \<noteq> None)"
  using assms
proof (induction e st w rule: ms_step_execute.induct)
  case (1 e st w)
  obtain x w1 where a: "mst_action st w = (x, w1)" by fastforce
  show ?case
  proof (cases "isl x \<and> mst_retry_count st < mst_max_retries st")
    case True
    then obtain err where x: "x = Inl err" by (cases x) auto
    from 1(2) a x True
    have r: "ms_step_execute (later 1 e) (st\<lparr>mst_status := MS_EXECUTING, mst_started := Some (clock e 0),
        mst_error := Some (err_str err), mst_retry_count := mst_retry_count st + 1\<rparr>) w1 = (ok, st', w', e')"
      by (subst (asm) ms_step_execute.simps) simp
    from 1(1) [OF refl a [symmetric] x conjunct2 [OF True]] r show ?thesis by simp
  next
    case False
    with 1(2) a show ?thesis
      by (subst (asm) ms_step_execute.simps) (cases x, auto)
  qed
qed

text \<open>An action that always fails is called once more than the retries left, counted from 0.\<close>

lemma failing_action_runs:
  assumes "\<forall>w. isl (fst (mst_action st w))"
  shows "\<exists>st' e'. ms_step_execute e st w =
    (False, st', ((\<lambda>w. snd (mst_action st w)) ^^ Suc (nat (mst_max_retries st - mst_retry_count st))) w, e')
    \<and> mst_retry_count st' = max (mst_retry_count st) (mst_max_retries st)"
  using assms
proof (induction e st w rule: ms_step_execute.induct)
  case (1 e st w)
  obtain err w1 where a: "mst_action st w = (Inl err, w1)"
    using 1(2) by (metis isl_def prod.collapse)
  show ?case
  proof (cases "mst_retry_count st < mst_max_retries st")
    case True
    let ?st = "st\<lparr>mst_status := MS_EXECUTING, mst_started := Some (clock e 0),
        mst_error := Some (err_str err), mst_retry_count := mst_retry_count st + 1\<rparr>"
    have n: "nat (mst_max_retries st - mst_retry_count st)
        = Suc (nat (mst_max_retries st - (mst_retry_count st + 1)))" using True by simp
    have "\<exists>st' e'. ms_step_execute (later 1 e) ?st w1 =
      (False, st', ((\<lambda>w. snd (mst_action ?st w)) ^^ Suc (nat (mst_max_retries ?st - mst_retry_count ?st))) w1, e')
      \<and> mst_retry_count st' = max (mst_retry_count ?st) (mst_max_retries ?st)"
      by (rule 1(1) [OF refl a [symmetric] refl True]) (use 1(2) in simp)
    then show ?thesis using a True n
      by (subst ms_step_execute.simps) (auto simp: funpow_swap1 simp del: funpow.simps
          simp: funpow_Suc_right)
  next
    case False
    with a show ?thesis by (subst ms_step_execute.simps) (auto simp: max_def)
  qed
qed

section \<open>A reference: nested undo\<close>

text \<open>
  What a saga is meant to do, as nested blocks: run the step, then the rest; if the rest fails,
  run the step's compensation on the step's result, whatever becomes of it, and fail too. A step
  tries its action once and as often again as it has retries left.
\<close>

fun attempt :: "nat \<Rightarrow> ('w \<Rightarrow> pyval result \<times> 'w) \<Rightarrow> 'w \<Rightarrow> pyval result \<times> 'w" where
  "attempt 0 act w = act w"
| "attempt (Suc k) act w =
     (case act w of (Inl err, w') \<Rightarrow> attempt k act w' | (Inr v, w') \<Rightarrow> (Inr v, w'))"

definition undo_with :: "(pyval \<Rightarrow> 'w \<Rightarrow> unit result \<times> 'w) option \<Rightarrow> pyval \<Rightarrow> 'w \<Rightarrow> 'w" where
  "undo_with cmp v w = (case cmp of None \<Rightarrow> w | Some c \<Rightarrow> snd (c v w))"

fun ms_ref :: "'w ms_step list \<Rightarrow> 'w \<Rightarrow> bool \<times> 'w" where
  "ms_ref [] w = (True, w)"
| "ms_ref (st # sts) w =
     (case attempt (nat (mst_max_retries st - mst_retry_count st)) (mst_action st) w of
        (Inl err, w1) \<Rightarrow> (False, w1)
      | (Inr v, w1) \<Rightarrow> (case ms_ref sts w1 of
           (True, w2) \<Rightarrow> (True, w2)
         | (False, w2) \<Rightarrow> (False, undo_with (mst_compensation st) v w2)))"

lemma step_execute_attempt:
  assumes "ms_step_execute e st w = (ok, st', w', e')"
  shows "\<exists>err. attempt (nat (mst_max_retries st - mst_retry_count st)) (mst_action st) w
    = (if ok then Inr (mst_result st') else Inl err, w')"
  using assms
proof (induction e st w rule: ms_step_execute.induct)
  case (1 e st w)
  obtain x w1 where a: "mst_action st w = (x, w1)" by fastforce
  show ?case
  proof (cases "isl x \<and> mst_retry_count st < mst_max_retries st")
    case True
    then obtain err where x: "x = Inl err" by (cases x) auto
    have n: "nat (mst_max_retries st - mst_retry_count st)
        = Suc (nat (mst_max_retries st - (mst_retry_count st + 1)))" using conjunct2 [OF True] by simp
    from 1(2) a x True
    have r: "ms_step_execute (later 1 e) (st\<lparr>mst_status := MS_EXECUTING, mst_started := Some (clock e 0),
        mst_error := Some (err_str err), mst_retry_count := mst_retry_count st + 1\<rparr>) w1 = (ok, st', w', e')"
      by (subst (asm) ms_step_execute.simps) simp
    from 1(1) [OF refl a [symmetric] x conjunct2 [OF True]] r a x n show ?thesis by simp
  next
    case False
    with 1(2) a show ?thesis
      by (subst (asm) ms_step_execute.simps, cases x,
          auto, cases "nat (mst_max_retries st - mst_retry_count st)", auto)
  qed
qed

lemma ms_step_compensate_spec:
  assumes "ms_step_compensate e st w = (ok, st', w', e')"
  shows "w' = undo_with (mst_compensation st) (mst_result st) w \<and> mst_result st' = mst_result st
    \<and> mst_compensation st' = mst_compensation st"
  using assms by (auto simp: ms_step_compensate_def undo_with_def Let_def
      split: option.splits prod.splits sum.splits)

definition undo_step :: "'w ms_step \<Rightarrow> 'w \<Rightarrow> 'w" where
  "undo_step st = undo_with (mst_compensation st) (mst_result st)"

lemma ms_compensate_steps_spec:
  assumes "ms_compensate_steps e is sts w = (sts', w', e')" "distinct is"
  shows "w' = fold (\<lambda>i. undo_step (sts ! i)) is w \<and> length sts' = length sts"
  using assms
proof (induction "is" arbitrary: e sts w)
  case (Cons i "is")
  obtain ok st w1 e1 where c: "ms_step_compensate e (sts ! i) w = (ok, st, w1, e1)"
    by (metis prod_cases4)
  from Cons.prems c have r: "ms_compensate_steps e1 is (sts[i := st]) w1 = (sts', w', e')" by simp
  have "fold (\<lambda>j. undo_step (sts[i := st] ! j)) is w1 = fold (\<lambda>j. undo_step (sts ! j)) is w1"
    using Cons.prems(2) by (intro fold_cong) (auto, metis nth_list_update_neq)
  with Cons.IH [OF r] Cons.prems(2) ms_step_compensate_spec [OF c] show ?case
    by (simp add: undo_step_def)
qed simp

lemma map_nth_take: "i \<le> length xs \<Longrightarrow> map ((!) xs) [0..<i] = take i xs"
  by (intro nth_equalityI) simp_all

lemma ms_compensate_spec:
  assumes "ms_compensate e [0..<i] sg w = (sg', w', e')" "i \<le> length (ms_steps sg)"
  shows "w' = fold undo_step (rev (take i (ms_steps sg))) w \<and> ms_state sg' = MS_COMPENSATED
    \<and> ms_id sg' = ms_id sg \<and> length (ms_steps sg') = length (ms_steps sg)"
proof -
  obtain sts w1 e1 where c: "ms_compensate_steps e (rev [0..<i]) (ms_steps sg) w = (sts, w1, e1)"
    by (metis prod_cases3)
  have "fold (\<lambda>j. undo_step (ms_steps sg ! j)) (rev [0..<i]) w
      = fold undo_step (map ((!) (ms_steps sg)) (rev [0..<i])) w"
    by (simp add: fold_map comp_def)
  also have "map ((!) (ms_steps sg)) (rev [0..<i]) = rev (take i (ms_steps sg))"
    using map_nth_take [OF assms(2)] by (simp add: rev_map [symmetric])
  finally show ?thesis using ms_compensate_steps_spec [OF c] assms c
    by (auto simp: ms_compensate_def)
qed

text \<open>The loop from index \<open>i\<close>, against the reference on the steps from there.\<close>

lemma ms_run_ref:
  assumes "ms_run e n i sg w = (ok, sg', w')" "i + n = length (ms_steps sg)"
  shows "ms_state sg' = (if ok then MS_COMPLETED else MS_COMPENSATED) \<and> ms_id sg' = ms_id sg
    \<and> (\<exists>w1. ms_ref (drop i (ms_steps sg)) w = (ok, w1)
        \<and> w' = (if ok then w1 else fold undo_step (rev (take i (ms_steps sg))) w1))"
  using assms
proof (induction n arbitrary: e i sg w)
  case (Suc n)
  let ?st = "ms_steps sg ! i"
  have i: "i < length (ms_steps sg)" using Suc.prems by simp
  obtain b st w1 e1 where x: "ms_step_execute e ?st w = (b, st, w1, e1)" by (metis prod_cases4)
  obtain err where at: "attempt (nat (mst_max_retries ?st - mst_retry_count ?st)) (mst_action ?st) w
      = (if b then Inr (mst_result st) else Inl err, w1)" using step_execute_attempt [OF x] by blast
  have d: "drop i (ms_steps sg) = ?st # drop (Suc i) (ms_steps sg)"
    using i by (simp add: Cons_nth_drop_Suc)
  let ?sg = "sg\<lparr>ms_steps := (ms_steps sg)[i := st]\<rparr>"
  show ?case
  proof (cases b)
    case True
    from Suc.prems(1) x True have r: "ms_run e1 n (Suc i) ?sg w1 = (ok, sg', w')" by simp
    have ih: "ms_state sg' = (if ok then MS_COMPLETED else MS_COMPENSATED) \<and> ms_id sg' = ms_id sg
      \<and> (\<exists>w2. ms_ref (drop (Suc i) (ms_steps sg)) w1 = (ok, w2)
        \<and> w' = (if ok then w2 else fold undo_step (rev (take (Suc i) (ms_steps ?sg))) w2))"
      using Suc.IH [OF r] Suc.prems(2) by simp
    have t: "take (Suc i) (ms_steps ?sg) = take i (ms_steps sg) @ [st]"
      using i by (simp add: take_Suc_conv_app_nth)
    have "undo_step st = undo_with (mst_compensation ?st) (mst_result st)"
      using ms_step_execute_spec [OF x] by (simp add: undo_step_def)
    with ih d at True t show ?thesis by (auto simp: split: if_splits)
  next
    case False
    obtain sg2 w2 e2 where c: "ms_compensate e1 [0..<i]
        (?sg\<lparr>ms_state := MS_FAILED, ms_last_error := mst_error st\<rparr>) w1 = (sg2, w2, e2)"
      by (metis prod_cases3)
    from Suc.prems(1) x False c have "ok = False" "sg' = sg2" "w' = w2" by auto
    with ms_compensate_spec [OF c] i d at False show ?thesis by simp
  qed
qed auto

lemma ms_execute_spec:
  assumes "ms_execute e sg w = (ok, sg', w')"
  shows "(ok, w') = ms_ref (ms_steps sg) w \<and> ms_id sg' = ms_id sg
    \<and> ms_state sg' = (if ok then MS_COMPLETED else MS_COMPENSATED)"
  using ms_run_ref [OF assms [unfolded ms_execute_def]] by auto

section \<open>Properties\<close>

text \<open>C23: Executing a saga, with its loop over steps, its retries by recursion and its
  compensation of the completed steps in reverse order, does to the state exactly what nested
  blocks with undo do, and returns the same verdict. In particular a compensation that raises does
  not keep the earlier ones from running.\<close>

theorem ms_execute_refines:
  "(fst (ms_execute e sg w), snd (snd (ms_execute e sg w))) = ms_ref (ms_steps sg) w"
  using ms_execute_spec [of e sg w "fst (ms_execute e sg w)" "fst (snd (ms_execute e sg w))"
      "snd (snd (ms_execute e sg w))"] by simp

text \<open>No saga of the registry is FAILED.\<close>

definition ms_inv :: "'w ms_orchestrator \<Rightarrow> bool" where
  "ms_inv s \<longleftrightarrow> (\<forall>(sid, sg) \<in> set (mo_sagas s). ms_state sg \<noteq> MS_FAILED)"

lemma ms_inv_dset:
  assumes "ms_inv s" "ms_state sg \<noteq> MS_FAILED"
  shows "ms_inv (s\<lparr>mo_sagas := dset sid sg (mo_sagas s)\<rparr>)"
  using assms set_dset [of sid sg "mo_sagas s"] by (auto simp: ms_inv_def)

lemma ms_do_inv: "ms_inv s \<Longrightarrow> ms_inv (ms_do a s)"
proof (cases a)
  case (MsAdd sid nm act cmp retries)
  assume inv: "ms_inv s"
  show ?thesis
  proof (cases "dget (mo_sagas s) sid")
    case (Some sg)
    then have "ms_state sg \<noteq> MS_FAILED" using inv map_of_SomeD by (fastforce simp: ms_inv_def)
    with ms_inv_dset [OF inv] MsAdd Some show ?thesis by (simp add: ms_add_step_def)
  qed (use MsAdd inv in simp)
next
  case (MsExecute e sid)
  assume inv: "ms_inv s"
  show ?thesis
  proof (cases "dget (mo_sagas s) sid")
    case (Some sg)
    obtain ok sg' w where x: "ms_execute e sg (mo_world s) = (ok, sg', w)" by (metis prod_cases3)
    have "ms_state sg' \<noteq> MS_FAILED" using ms_execute_spec [OF x] by simp
    from ms_inv_dset [OF inv this] have "ms_inv (s\<lparr>mo_sagas := dset sid sg' (mo_sagas s), mo_world := w\<rparr>)"
      by (simp add: ms_inv_def)
    with MsExecute Some x show ?thesis by (simp add: ms_execute_saga_def)
  qed (use MsExecute inv in \<open>simp add: ms_execute_saga_def\<close>)
qed (auto simp: ms_create_saga_def Let_def new_ms_saga_def intro: ms_inv_dset)

interpretation ms_run: preserved ms_do ms_inv
  by unfold_locales (rule ms_do_inv)

text \<open>The list of failed sagas is always empty: whatever sagas were created and executed, and
  however many of them failed, \<open>get_failed_sagas\<close> returns nothing, because a saga that fails ends
  COMPENSATED even when compensations raised.\<close>

theorem failed_sagas_never_listed:
  "ms_get_failed (fold ms_do ops (init_ms w)) = []"
proof -
  have "ms_inv (fold ms_do ops (init_ms w))"
    by (rule ms_run.run_inv) (simp add: ms_inv_def init_ms_def)
  then show ?thesis by (auto simp: ms_get_failed_def ms_inv_def filter_empty_conv)
qed

text \<open>An action that always fails is called \<open>max_retries + 1\<close> times when its step is fresh, so once
  more than \<open>max_retries\<close>, but only once when the step is executed again, since the retry count is not
  reset; the step ends FAILED both times.\<close>

theorem failing_step_attempts:
  assumes "\<forall>w. isl (fst (mst_action st w))" "mst_retry_count st = 0" "0 \<le> mst_max_retries st"
    and "ms_step_execute e st w = (ok, st1, w1, e1)"
    and "ms_step_execute e' st1 w1 = (ok', st2, w2, e2)"
  shows "\<not> ok \<and> w1 = ((\<lambda>w. snd (mst_action st w)) ^^ nat (mst_max_retries st + 1)) w
    \<and> \<not> ok' \<and> w2 = snd (mst_action st w1)
    \<and> mst_status st1 = MS_FAILED \<and> mst_status st2 = MS_FAILED"
proof -
  have f1: "\<not> ok \<and> w1 = ((\<lambda>w. snd (mst_action st w)) ^^ Suc (nat (mst_max_retries st))) w
    \<and> mst_retry_count st1 = mst_max_retries st"
    using failing_action_runs [OF assms(1), of e w] assms(2,3,4) by (simp add: max_def)
  note s1 = ms_step_execute_spec [OF assms(4)] and s2 = ms_step_execute_spec [OF assms(5)]
  have "\<forall>w. isl (fst (mst_action st1 w))" using assms(1) s1 by simp
  from failing_action_runs [OF this, of e' w1] f1 s1 assms(5)
  have "\<not> ok' \<and> w2 = snd (mst_action st w1)" by simp
  with f1 s1 s2 assms(3) show ?thesis by (simp add: nat_add_distrib)
qed

text \<open>A failing action that counts its calls, for a concrete run.\<close>

definition counting_failure :: "int \<Rightarrow> pyval result \<times> int" where
  "counting_failure w = (Err (ValueError ''down''), w + 1)"

lemma failing_step_attempts_witness:
  "let st = new_ms_step ''charge'' counting_failure None 3;
       (ok, st1, w1, e1) = ms_step_execute env0 st 0
   in w1 = 4"
proof -
  define st where "st = new_ms_step ''charge'' counting_failure None 3"
  obtain ok st1 w1 e1 where x: "ms_step_execute env0 st 0 = (ok, st1, w1, e1)" by (metis prod_cases4)
  obtain ok' st2 w2 e2 where y: "ms_step_execute env0 st1 w1 = (ok', st2, w2, e2)" by (metis prod_cases4)
  have "w1 = ((\<lambda>w. w + 1) ^^ nat (3 + 1)) 0"
    using failing_step_attempts [OF _ _ _ x y] by (simp add: st_def new_ms_step_def counting_failure_def)
  then show ?thesis using x by (simp add: st_def numeral_eq_Suc)
qed

end
