(* ===== verification/Circuit_Breaker.thy ===== *)
theory Circuit_Breaker
  imports Prelude
begin

text \<open>
  The circuit breaker of the microservices (\<open>services/core/circuit_breaker.py\<close>) and its manager.

  A call is two atomic steps, since other coroutines run while the protected function is awaited:
  \<open>call_start\<close> reads the state and admits or rejects, \<open>call_finish\<close> reports the outcome. The inductive
  relation \<open>cb_step\<close> interleaves the starts and finishes of any number of calls with queries and
  resets. \<open>expected_exception\<close> is a predicate on exceptions. Time spans compare as microseconds.
\<close>

section \<open>The breaker\<close>

datatype cb_mode = CLOSED | OPEN | HALF_OPEN

fun cb_mode_value :: "cb_mode \<Rightarrow> string" where
  "cb_mode_value CLOSED = ''closed''"
| "cb_mode_value OPEN = ''open''"
| "cb_mode_value HALF_OPEN = ''half_open''"

record breaker =
  cb_name :: string
  cb_threshold :: int
  cb_timeout :: int
  cb_expected :: "py_error \<Rightarrow> bool"
  cb_max_calls :: "int option"
  cb_state :: cb_mode
  cb_failures :: int
  cb_successes :: int
  cb_last_failure :: "time option"
  cb_changed :: time
  cb_calls :: int

definition new_breaker ::
    "time \<Rightarrow> string \<Rightarrow> int \<Rightarrow> int \<Rightarrow> (py_error \<Rightarrow> bool) \<Rightarrow> int option \<Rightarrow> breaker" where
  "new_breaker now nm threshold timeout expected mx =
     \<lparr>cb_name = nm, cb_threshold = threshold, cb_timeout = timeout, cb_expected = expected,
      cb_max_calls = mx, cb_state = CLOSED, cb_failures = 0, cb_successes = 0,
      cb_last_failure = None, cb_changed = now, cb_calls = 0\<rparr>"

definition should_attempt_reset :: "time \<Rightarrow> breaker \<Rightarrow> bool" where
  "should_attempt_reset now b =
     (case cb_last_failure b of None \<Rightarrow> False | Some t \<Rightarrow> seconds (cb_timeout b) \<le> now - t)"

text \<open>The property \<open>state\<close>: reading it may move the breaker to HALF_OPEN.\<close>

definition read_state :: "time \<Rightarrow> breaker \<Rightarrow> cb_mode \<times> breaker" where
  "read_state now b =
     (if cb_state b = OPEN \<and> should_attempt_reset now b
      then (HALF_OPEN, b\<lparr>cb_state := HALF_OPEN, cb_successes := 0\<rparr>)
      else (cb_state b, b))"

text \<open>\<open>if self.max_concurrent_calls and ...\<close>: no limit, and a limit of 0, admit everything.\<close>

definition calls_exhausted :: "breaker \<Rightarrow> bool" where
  "calls_exhausted b =
     (case cb_max_calls b of None \<Rightarrow> False | Some m \<Rightarrow> m \<noteq> 0 \<and> m \<le> cb_calls b)"

definition breaker_open :: "string \<Rightarrow> py_error" where
  "breaker_open m = CustomError ''CircuitBreakerException'' m"

definition call_start :: "time \<Rightarrow> breaker \<Rightarrow> unit result \<times> breaker" where
  "call_start now b =
     (case read_state now b of (st, b1) \<Rightarrow>
        if st = OPEN
        then (Err (breaker_open (''Circuit breaker '' @ quoted (cb_name b) @ '' is OPEN'')), b1)
        else if calls_exhausted b1
        then (Err (breaker_open (''Circuit breaker '' @ quoted (cb_name b) @ '' max concurrent calls exceeded'')), b1)
        else (Ok (), b1\<lparr>cb_calls := cb_calls b1 + 1\<rparr>))"

definition on_success :: "time \<Rightarrow> breaker \<Rightarrow> breaker" where
  "on_success now b =
     (let b1 = b\<lparr>cb_failures := 0\<rparr>
      in if cb_state b = HALF_OPEN
         then (let b2 = b1\<lparr>cb_successes := cb_successes b + 1\<rparr>
               in if 2 \<le> cb_successes b2 then b2\<lparr>cb_state := CLOSED, cb_changed := now\<rparr> else b2)
         else b1)"

definition on_failure :: "env \<Rightarrow> breaker \<Rightarrow> breaker" where
  "on_failure e b =
     (let b1 = b\<lparr>cb_failures := cb_failures b + 1, cb_last_failure := Some (clock e 0)\<rparr>
      in if cb_state b = HALF_OPEN \<or> cb_threshold b \<le> cb_failures b1
         then b1\<lparr>cb_state := OPEN, cb_changed := clock e 1\<rparr> else b1)"

text \<open>
  The end of a call whose function returned or raised: an exception that is not expected counts
  neither way; the \<open>finally\<close> always gives the slot back.
\<close>

definition call_finish :: "env \<Rightarrow> 'a result \<Rightarrow> breaker \<Rightarrow> breaker" where
  "call_finish e r b =
     (let b1 = (case r of
                  Inr v \<Rightarrow> on_success (clock e 0) b
                | Inl err \<Rightarrow> if cb_expected b err then on_failure e b else b)
      in b1\<lparr>cb_calls := cb_calls b1 - 1\<rparr>)"

text \<open>A whole call when nothing else runs meanwhile, on a function that acts on a state.\<close>

definition cb_call :: "env \<Rightarrow> ('w \<Rightarrow> 'a result \<times> 'w) \<Rightarrow> breaker \<Rightarrow> 'w \<Rightarrow> 'a result \<times> breaker \<times> 'w" where
  "cb_call e f b w =
     (case call_start (clock e 0) b of
        (Inl err, b1) \<Rightarrow> (Inl err, b1, w)
      | (Inr u, b1) \<Rightarrow> (case f w of (r, w') \<Rightarrow> (r, call_finish (later 1 e) r b1, w')))"

record breaker_info =
  bi_name :: string
  bi_state :: string
  bi_failures :: int
  bi_successes :: int
  bi_calls :: int
  bi_last_failure :: "time option"
  bi_changed :: time
  bi_retry :: time

definition get_state_info :: "env \<Rightarrow> breaker \<Rightarrow> breaker_info \<times> breaker" where
  "get_state_info e b =
     (case read_state (clock e 0) b of (st, b1) \<Rightarrow>
        (\<lparr>bi_name = cb_name b1, bi_state = cb_mode_value st, bi_failures = cb_failures b1,
          bi_successes = cb_successes b1, bi_calls = cb_calls b1,
          bi_last_failure = cb_last_failure b1, bi_changed = cb_changed b1,
          bi_retry = (case cb_last_failure b1 of None \<Rightarrow> 0
            | Some t \<Rightarrow> seconds (cb_timeout b1) - (clock e 1 - t))\<rparr>, b1))"

section \<open>The manager\<close>

type_synonym breakers = "(string, breaker) dict"

definition get_or_create ::
    "time \<Rightarrow> string \<Rightarrow> int \<Rightarrow> int \<Rightarrow> (py_error \<Rightarrow> bool) \<Rightarrow> int option \<Rightarrow> breakers \<Rightarrow> breaker \<times> breakers" where
  "get_or_create now nm threshold timeout expected mx m =
     (case dget m nm of
        Some b \<Rightarrow> (b, m)
      | None \<Rightarrow> (let b = new_breaker now nm threshold timeout expected mx in (b, dset nm b m)))"

definition get_breaker :: "breakers \<Rightarrow> string \<Rightarrow> breaker option" where
  "get_breaker m nm = dget m nm"

fun get_all_states :: "env \<Rightarrow> breakers \<Rightarrow> (string, breaker_info) dict \<times> breakers" where
  "get_all_states e [] = ([], [])"
| "get_all_states e ((nm, b) # m) =
     (case get_state_info e b of (i, b1) \<Rightarrow>
        (case get_all_states (later 2 e) m of (is, m1) \<Rightarrow> ((nm, i) # is, (nm, b1) # m1)))"

definition reset_breaker :: "breaker \<Rightarrow> breaker" where
  "reset_breaker b = b\<lparr>cb_state := CLOSED, cb_failures := 0\<rparr>"

definition reset_named :: "string \<Rightarrow> breakers \<Rightarrow> bool \<times> breakers" where
  "reset_named nm m =
     (case dget m nm of Some b \<Rightarrow> (True, dset nm (reset_breaker b) m) | None \<Rightarrow> (False, m))"

definition reset_all :: "breakers \<Rightarrow> breakers" where
  "reset_all m = map (\<lambda>(nm, b). (nm, reset_breaker b)) m"

section \<open>Calls in flight\<close>

text \<open>
  A breaker with the calls that were admitted and have not ended: a rejected call leaves no call in
  flight, an admitted one gets a ticket, and any call in flight may end next, with any outcome.
\<close>

inductive cb_step :: "breaker \<times> nat list \<Rightarrow> breaker \<times> nat list \<Rightarrow> bool" where
  cb_admit: "call_start now b = (Ok (), b') \<Longrightarrow> cb_step (b, fl) (b', t # fl)"
| cb_reject: "call_start now b = (Err err, b') \<Longrightarrow> cb_step (b, fl) (b', fl)"
| cb_finish: "t \<in> set fl \<Longrightarrow> cb_step (b, fl) (call_finish e (r :: pyval result) b, remove1 t fl)"
| cb_query: "cb_step (b, fl) (snd (get_state_info e b), fl)"
| cb_reset: "cb_step (b, fl) (reset_breaker b, fl)"

inductive cb_reach :: "breaker \<Rightarrow> breaker \<times> nat list \<Rightarrow> bool" for b0 where
  cb_init: "cb_reach b0 (b0, [])"
| cb_more: "cb_reach b0 s \<Longrightarrow> cb_step s s' \<Longrightarrow> cb_reach b0 s'"

inductive_cases cb_stepE: "cb_step (b, fl) s'"

section \<open>Lemmas\<close>

lemma read_state_cases:
  obtains "cb_state b = OPEN" "should_attempt_reset now b"
    "read_state now b = (HALF_OPEN, b\<lparr>cb_state := HALF_OPEN, cb_successes := 0\<rparr>)"
  | "cb_state b \<noteq> OPEN \<or> \<not> should_attempt_reset now b" "read_state now b = (cb_state b, b)"
  by (cases "cb_state b = OPEN \<and> should_attempt_reset now b") (auto simp: read_state_def)

text \<open>The configuration never changes.\<close>

definition same_config :: "breaker \<Rightarrow> breaker \<Rightarrow> bool" where
  "same_config a b \<longleftrightarrow> cb_name a = cb_name b \<and> cb_threshold a = cb_threshold b
     \<and> cb_timeout a = cb_timeout b \<and> cb_max_calls a = cb_max_calls b"

lemma cb_config [simp]:
  "same_config (snd (read_state now b)) b" "same_config (on_success now b) b"
  "same_config (on_failure e b) b" "same_config (reset_breaker b) b"
  "same_config (call_finish e r b) b" "same_config (snd (call_start now b)) b"
  "same_config (snd (get_state_info e b)) b"
  by (simp_all add: same_config_def read_state_def on_success_def on_failure_def reset_breaker_def
      call_finish_def call_start_def get_state_info_def Let_def split: sum.split)

text \<open>
  What every reachable breaker satisfies: its counter of calls is the number of calls in flight and
  within the limit; when it is OPEN the time of a failure is known, so it can recover; CLOSED means
  fewer consecutive failures than the threshold; HALF_OPEN means it lacks at least one success.
\<close>

definition cb_inv :: "breaker \<times> nat list \<Rightarrow> bool" where
  "cb_inv s = (case s of (b, fl) \<Rightarrow>
     cb_calls b = int (length fl)
   \<and> (\<forall>m. cb_max_calls b = Some m \<longrightarrow> 0 < m \<longrightarrow> cb_calls b \<le> m)
   \<and> (cb_state b = OPEN \<longrightarrow> cb_last_failure b \<noteq> None)
   \<and> (cb_state b = CLOSED \<longrightarrow> cb_failures b < max 1 (cb_threshold b))
   \<and> (cb_state b = HALF_OPEN \<longrightarrow> cb_successes b \<le> 1) \<and> 0 \<le> cb_failures b)"

lemma call_start_inv:
  assumes "cb_inv (b, fl)" "call_start now b = (r, b')"
  shows "cb_inv (b', (case r of Inl _ \<Rightarrow> fl | Inr _ \<Rightarrow> t # fl))"
  using read_state_cases [of b now] assms
  by cases (auto simp: call_start_def cb_inv_def calls_exhausted_def split: if_splits option.splits)

lemma call_finish_inv:
  assumes "cb_inv (b, fl)" "t \<in> set fl"
  shows "cb_inv (call_finish e r b, remove1 t fl)"
proof -
  have "int (length (remove1 t fl)) = int (length fl) - 1"
    using length_pos_if_in_set [OF assms(2)] by (simp add: length_remove1 assms(2) int_ops(6))
  then show ?thesis using assms(1)
    by (cases "cb_state b")
       (auto simp: call_finish_def cb_inv_def on_success_def on_failure_def Let_def max_def
          split: sum.splits)
qed

lemma cb_step_inv:
  assumes "cb_step s s'" "cb_inv s"
  shows "cb_inv s'"
  using assms
proof (induction rule: cb_step.induct)
  case (cb_admit now b b' fl t)
  from call_start_inv [OF cb_admit(2,1), of t] show ?case by simp
next
  case (cb_reject now b err b' fl)
  from call_start_inv [OF cb_reject(2,1)] show ?case by simp
next
  case (cb_finish t fl b e r)
  from call_finish_inv [OF cb_finish(2,1)] show ?case by blast
next
  case (cb_query b fl e)
  then show ?case by (auto simp: get_state_info_def read_state_def cb_inv_def)
next
  case (cb_reset b fl)
  then show ?case by (auto simp: reset_breaker_def cb_inv_def)
qed

lemma cb_reach_inv:
  assumes "cb_reach (new_breaker now nm threshold timeout expected mx) s"
  shows "cb_inv s"
  using assms by induction (auto simp: cb_inv_def new_breaker_def dest: cb_step_inv)

text \<open>The outcomes reported to a breaker, with their times; \<open>True\<close> is an expected failure.\<close>

fun report :: "env \<times> bool \<Rightarrow> breaker \<Rightarrow> breaker" where
  "report (e, failed) b = (if failed then on_failure e b else on_success (clock e 0) b)"

definition trailing :: "bool list \<Rightarrow> nat" where
  "trailing xs = length (takeWhile id (rev xs))"

lemma trailing_snoc: "trailing (xs @ [x]) = (if x then Suc (trailing xs) else 0)"
  by (simp add: trailing_def)

lemma report_run:
  assumes "0 < threshold" and b0_def: "b0 = new_breaker now nm threshold timeout expected mx"
  shows "cb_failures (fold report xs b0) = int (trailing (map snd xs))
    \<and> cb_threshold (fold report xs b0) = threshold
    \<and> cb_state (fold report xs b0) =
        (if \<exists>p. prefix p (map snd xs) \<and> threshold \<le> int (trailing p) then OPEN else CLOSED)"
proof (induction xs rule: rev_induct)
  case Nil
  then show ?case using assms(1) by (simp add: b0_def new_breaker_def trailing_def)
next
  case (snoc x xs)
  obtain e f where x: "x = (e, f)" by fastforce
  have sp: "(\<exists>p. prefix p (map snd (xs @ [x])) \<and> threshold \<le> int (trailing p)) \<longleftrightarrow>
      (\<exists>p. prefix p (map snd xs) \<and> threshold \<le> int (trailing p))
      \<or> (f \<and> threshold \<le> int (Suc (trailing (map snd xs))))"
  proof -
    have "threshold \<le> int (trailing (map snd xs @ [f])) \<longleftrightarrow> f \<and> threshold \<le> int (Suc (trailing (map snd xs)))"
      using assms(1) by (simp add: trailing_snoc)
    then show ?thesis by (simp only: map_append x list.map snd_conv prefix_snoc) blast
  qed
  let ?b = "fold report xs b0"
  have f': "cb_failures (report x ?b) = int (trailing (map snd (xs @ [x])))"
    "cb_threshold (report x ?b) = threshold"
    using snoc by (auto simp: x trailing_snoc on_failure_def on_success_def Let_def)
  have "cb_state (report x ?b) = (if f \<and> threshold \<le> int (Suc (trailing (map snd xs))) then OPEN else cb_state ?b)"
    using snoc by (auto simp: x on_failure_def on_success_def Let_def split: if_splits)
  with snoc sp f' show ?case by simp
qed

section \<open>Properties\<close>

text \<open>C24: In any interleaving of admitted calls, rejections, ends of calls in any order and with any
  outcome, queries and resets, the breaker counts exactly the calls in flight, never lets more run
  than its positive limit, and is never OPEN without a failure time, so never OPEN for ever; CLOSED
  means fewer counted failures than the threshold.\<close>

theorem breaker_safe:
  assumes "cb_reach (new_breaker now nm threshold timeout expected mx) (b, fl)"
  shows "cb_calls b = int (length fl)
    \<and> (case cb_max_calls b of None \<Rightarrow> True | Some m \<Rightarrow> m \<le> 0 \<or> int (length fl) \<le> m)
    \<and> (cb_state b = OPEN \<longrightarrow> cb_last_failure b \<noteq> None)
    \<and> (cb_state b = CLOSED \<longrightarrow> cb_failures b < max 1 (cb_threshold b))"
  using cb_reach_inv [OF assms] by (auto simp: cb_inv_def split: option.split)

lemma breaker_safe_witness:
  "cb_calls (snd (call_start 7 (new_breaker 0 ''db'' 2 60 (\<lambda>_. True) (Some 1)))) = 1"
proof -
  let ?b = "snd (call_start 7 (new_breaker 0 ''db'' 2 60 (\<lambda>_. True) (Some 1)))"
  have s: "call_start 7 (new_breaker 0 ''db'' 2 60 (\<lambda>_. True) (Some 1)) = (Ok (), ?b)"
    by (simp add: call_start_def new_breaker_def read_state_def calls_exhausted_def)
  have "cb_reach (new_breaker 0 ''db'' 2 60 (\<lambda>_. True) (Some 1)) (?b, [0])"
    by (rule cb_more [OF cb_init]) (rule cb_admit [OF s])
  from breaker_safe [OF this] show ?thesis by simp
qed

text \<open>A breaker trips exactly on consecutive failures: after any outcomes reported to a new breaker
  it is OPEN if and only if at some point the last \<open>failure_threshold\<close> outcomes were all expected
  failures, and otherwise it is CLOSED; one success resets the count.\<close>

theorem opens_iff_consecutive_failures:
  assumes "0 < threshold"
  shows "cb_state (fold report xs (new_breaker now nm threshold timeout expected mx)) =
    (if \<exists>p. prefix p (map snd xs) \<and> threshold \<le> int (trailing p) then OPEN else CLOSED)"
  using report_run [OF assms refl] by blast

lemma opens_iff_consecutive_failures_witness:
  "cb_state (fold report [(env0, True), (env0, False), (env0, True), (env0, True)]
     (new_breaker 0 ''db'' 2 60 (\<lambda>_. True) None)) = OPEN"
  using opens_iff_consecutive_failures [of 2 "[(env0, True), (env0, False), (env0, True), (env0, True)]"
      0 "''db''" 60 "\<lambda>_. True" None]
  by (simp add: on_failure_def on_success_def new_breaker_def Let_def)

text \<open>While OPEN, a call is rejected without running its function and without changing breaker or
  state exactly when less than the recovery timeout has passed since the last failure; after that the
  next call runs the function, as a probe in state HALF_OPEN when the limit on calls allows it.\<close>

theorem open_rejects_until_timeout:
  assumes "cb_state b = OPEN" "cb_last_failure b = Some t"
  shows "(if clock e 0 - t < seconds (cb_timeout b)
      then cb_call e f b w =
        (Err (breaker_open (''Circuit breaker '' @ quoted (cb_name b) @ '' is OPEN'')), b, w)
      else cb_state (snd (call_start (clock e 0) b)) = HALF_OPEN
         \<and> (\<not> calls_exhausted b \<longrightarrow> fst (cb_call e f b w) = fst (f w) \<and> snd (snd (cb_call e f b w)) = snd (f w)))"
  using assms by (auto simp: cb_call_def call_start_def read_state_def should_attempt_reset_def
      calls_exhausted_def split: prod.split option.split)

lemma open_rejects_until_timeout_witness:
  "let b = report (env0, True) (new_breaker 0 ''db'' 1 60 (\<lambda>_. True) None)
   in snd (snd (cb_call env0 (\<lambda>w. (Ok VNone, w + 1)) b (5::int))) = 5"
  using open_rejects_until_timeout [of "report (env0, True) (new_breaker 0 ''db'' 1 60 (\<lambda>_. True) None)" 0
      env0 "\<lambda>w. (Ok VNone, w + 1)" "5::int"]
  by (simp add: on_failure_def new_breaker_def Let_def)

text \<open>Recovery: a breaker that just went HALF_OPEN closes after exactly two successes in a row and
  reopens on the first expected failure, whatever its threshold; an exception that is not expected
  changes neither, only giving the slot back.\<close>

theorem half_open_recovery:
  assumes "read_state now b = (HALF_OPEN, h)" "cb_state b = OPEN"
  shows "cb_state (on_success t1 h) = HALF_OPEN
    \<and> cb_state (on_success t2 (on_success t1 h)) = CLOSED
    \<and> cb_state (on_failure e h) = OPEN \<and> cb_state (on_failure e (on_success t1 h)) = OPEN
    \<and> (\<not> cb_expected h err \<longrightarrow> call_finish e (Err err) h = h\<lparr>cb_calls := cb_calls h - 1\<rparr>)"
  using assms by (auto simp: read_state_def on_success_def on_failure_def call_finish_def Let_def
      split: if_splits)

lemma half_open_recovery_witness:
  "let b = report (env0, True) (new_breaker 0 ''db'' 1 60 (\<lambda>_. True) None);
       h = snd (read_state (seconds 60) b)
   in cb_state (on_success 8 (on_success 7 h)) = CLOSED"
  using half_open_recovery [of "seconds 60" "report (env0, True) (new_breaker 0 ''db'' 1 60 (\<lambda>_. True) None)"
      "snd (read_state (seconds 60) (report (env0, True) (new_breaker 0 ''db'' 1 60 (\<lambda>_. True) None)))" 7 8]
  by (simp add: on_failure_def new_breaker_def Let_def read_state_def should_attempt_reset_def)

end
