(* ===== verification/Service_Registry.thy ===== *)
theory Service_Registry
  imports Prelude
begin

text \<open>
  Service discovery and health of the microservices: the registry
  (\<open>services/core/service_registry.py\<close>), the health checks of a service
  (\<open>services/core/health_check.py\<close>) and what the gateway decides from them
  (\<open>services/api_gateway/gateway.py\<close>: API keys, overall health).

  Every method of the registry holds its lock for its whole body, so operations are atomic. The
  instances of a service live in one list only, so updating an instance in place is updating that
  list. A health check is a function of a state \<open>'w\<close>; the built-in checks only query a database, a
  client or the machine and are instances of that parameter.
\<close>

section \<open>The registry\<close>

record service_instance =
  si_service :: string
  si_id :: string
  si_host :: string
  si_port :: int
  si_health_url :: string
  si_api_key :: string
  si_healthy :: bool
  si_heartbeat :: time
  si_meta :: "(string \<times> pyval) list"

record service_registry =
  sr_services :: "(string, service_instance list) dict"
  sr_timeout :: int

definition init_registry :: "int \<Rightarrow> service_registry" where
  "init_registry timeout = \<lparr>sr_services = [], sr_timeout = timeout\<rparr>"

definition base_url :: "service_instance \<Rightarrow> string" where
  "base_url i = ''http://'' @ si_host i @ '':'' @ str_int (si_port i)"

definition instances_of :: "service_registry \<Rightarrow> string \<Rightarrow> service_instance list" where
  "instances_of r sv = dget_or (sr_services r) sv []"

definition set_instances :: "string \<Rightarrow> service_instance list \<Rightarrow> service_registry \<Rightarrow> service_registry" where
  "set_instances sv is r = r\<lparr>sr_services := dset sv is (sr_services r)\<rparr>"

definition register ::
    "time \<Rightarrow> string \<Rightarrow> string \<Rightarrow> string \<Rightarrow> int \<Rightarrow> string \<Rightarrow> string \<Rightarrow> (string \<times> pyval) list
     \<Rightarrow> service_registry \<Rightarrow> service_instance \<times> service_registry" where
  "register now sv iid host port url key meta r =
     (let i = \<lparr>si_service = sv, si_id = iid, si_host = host, si_port = port, si_health_url = url,
               si_api_key = key, si_healthy = True, si_heartbeat = now, si_meta = meta\<rparr>
      in (i, set_instances sv (filter (\<lambda>s. si_id s \<noteq> iid) (instances_of r sv) @ [i]) r))"

definition deregister :: "string \<Rightarrow> string \<Rightarrow> service_registry \<Rightarrow> bool \<times> service_registry" where
  "deregister sv iid r =
     (case dget (sr_services r) sv of
        None \<Rightarrow> (False, r)
      | Some is \<Rightarrow>
          (let is' = filter (\<lambda>s. si_id s \<noteq> iid) is
           in (length is' < length is, set_instances sv is' r)))"

definition get_instance :: "string \<Rightarrow> bool \<Rightarrow> service_registry \<Rightarrow> service_instance option" where
  "get_instance sv load_balanced r =
     (case filter si_healthy (instances_of r sv) of
        [] \<Rightarrow> None
      | i # _ \<Rightarrow> if load_balanced then Some i else Some i)"

definition get_all_instances :: "string \<Rightarrow> service_registry \<Rightarrow> service_instance list" where
  "get_all_instances sv r = instances_of r sv"

text \<open>The loops of \<open>heartbeat\<close> and \<open>mark_unhealthy\<close> stop at the first instance with the id.\<close>

fun update_first ::
    "string \<Rightarrow> (service_instance \<Rightarrow> service_instance) \<Rightarrow> service_instance list
     \<Rightarrow> bool \<times> service_instance list" where
  "update_first iid f [] = (False, [])"
| "update_first iid f (i # is) =
     (if si_id i = iid then (True, f i # is)
      else case update_first iid f is of (b, is') \<Rightarrow> (b, i # is'))"

definition heartbeat :: "time \<Rightarrow> string \<Rightarrow> string \<Rightarrow> service_registry \<Rightarrow> bool \<times> service_registry" where
  "heartbeat now sv iid r =
     (case dget (sr_services r) sv of
        None \<Rightarrow> (False, r)
      | Some is \<Rightarrow> (case update_first iid (\<lambda>i. i\<lparr>si_heartbeat := now, si_healthy := True\<rparr>) is of
          (b, is') \<Rightarrow> (b, set_instances sv is' r)))"

definition mark_unhealthy :: "string \<Rightarrow> string \<Rightarrow> service_registry \<Rightarrow> bool \<times> service_registry" where
  "mark_unhealthy sv iid r =
     (case dget (sr_services r) sv of
        None \<Rightarrow> (False, r)
      | Some is \<Rightarrow> (case update_first iid (\<lambda>i. i\<lparr>si_healthy := False\<rparr>) is of
          (b, is') \<Rightarrow> (b, set_instances sv is' r)))"

definition fresh_instance :: "time \<Rightarrow> service_registry \<Rightarrow> service_instance \<Rightarrow> bool" where
  "fresh_instance now r i = (now - si_heartbeat i < seconds (sr_timeout r))"

definition check_stale_instances :: "time \<Rightarrow> service_registry \<Rightarrow> service_registry" where
  "check_stale_instances now r =
     r\<lparr>sr_services := map (\<lambda>(sv, is). (sv, filter (fresh_instance now r) is)) (sr_services r)\<rparr>"

record service_status =
  sx_total :: nat
  sx_healthy :: nat
  sx_instances :: "(string \<times> string \<times> bool \<times> time) list"

definition get_registry_status :: "service_registry \<Rightarrow> (string, service_status) dict" where
  "get_registry_status r =
     map (\<lambda>(sv, is). (sv, \<lparr>sx_total = length is, sx_healthy = length (filter si_healthy is),
        sx_instances = map (\<lambda>s. (si_id s, base_url s, si_healthy s, si_heartbeat s)) is\<rparr>))
       (sr_services r)"

section \<open>Health checks of a service\<close>

record 'w health_check =
  hc_name :: string
  hc_description :: string
  hc_check :: "'w \<Rightarrow> bool result \<times> 'w"
  hc_healthy :: bool
  hc_error :: string
  hc_last :: "time option"

definition new_check :: "string \<Rightarrow> ('w \<Rightarrow> bool result \<times> 'w) \<Rightarrow> string \<Rightarrow> 'w health_check" where
  "new_check nm f descr =
     \<lparr>hc_name = nm, hc_description = descr, hc_check = f, hc_healthy = True, hc_error = '''',
      hc_last = None\<rparr>"

definition run_check :: "time \<Rightarrow> 'w health_check \<Rightarrow> 'w \<Rightarrow> 'w health_check \<times> 'w" where
  "run_check now c w =
     (case hc_check c w of
        (Inr b, w') \<Rightarrow> (c\<lparr>hc_healthy := b, hc_error := '''', hc_last := Some now\<rparr>, w')
      | (Inl err, w') \<Rightarrow> (c\<lparr>hc_healthy := False, hc_error := err_str err, hc_last := Some now\<rparr>, w'))"

record 'w health_checker =
  hk_service :: string
  hk_checks :: "(string, 'w health_check) dict"
  hk_healthy :: bool

definition register_check :: "'w health_check \<Rightarrow> 'w health_checker \<Rightarrow> 'w health_checker" where
  "register_check c h = h\<lparr>hk_checks := dset (hc_name c) c (hk_checks h)\<rparr>"

definition register_callable_check ::
    "string \<Rightarrow> ('w \<Rightarrow> bool result \<times> 'w) \<Rightarrow> string \<Rightarrow> 'w health_checker \<Rightarrow> 'w health_checker" where
  "register_callable_check nm f descr h = register_check (new_check nm f descr) h"

fun run_checks ::
    "env \<Rightarrow> (string, 'w health_check) dict \<Rightarrow> 'w \<Rightarrow> (string, 'w health_check) dict \<times> 'w" where
  "run_checks e [] w = ([], w)"
| "run_checks e ((k, c) # cs) w =
     (case run_check (clock e 0) c w of
        (c', w1) \<Rightarrow> (case run_checks (later 1 e) cs w1 of (cs', w2) \<Rightarrow> ((k, c') # cs', w2)))"

text \<open>\<open>run_all_checks\<close>: whether all were healthy, the checks with their results, the state.\<close>

definition run_all_checks :: "env \<Rightarrow> 'w health_checker \<Rightarrow> 'w \<Rightarrow> bool \<times> 'w health_checker \<times> 'w" where
  "run_all_checks e h w =
     (case run_checks e (hk_checks h) w of
        (cs, w') \<Rightarrow>
          (let ok = list_all (\<lambda>(k, c). hc_healthy c) cs
           in (ok, h\<lparr>hk_checks := cs, hk_healthy := ok\<rparr>, w')))"

section \<open>The gateway\<close>

text \<open>\<open>validate_api_key\<close>: the header, the list of allowed keys and the gateway's own.\<close>

definition validate_api_key :: "string list \<Rightarrow> string \<Rightarrow> string option \<Rightarrow> string result" where
  "validate_api_key allowed own header =
     (case header of
        None \<Rightarrow> Err (HTTPException 401 ''Missing X-API-Key header'')
      | Some key \<Rightarrow>
          if key = [] then Err (HTTPException 401 ''Missing X-API-Key header'')
          else if key \<notin> set allowed \<and> key \<noteq> own then Err (HTTPException 403 ''Invalid API key'')
          else Ok key)"

text \<open>\<open>/health\<close>: the status code and the status.\<close>

definition gateway_health :: "env \<Rightarrow> service_registry \<Rightarrow> 'w health_checker \<Rightarrow> 'w \<Rightarrow> nat \<times> string" where
  "gateway_health e r h w =
     (case run_all_checks e h w of
        (ok, _, _) \<Rightarrow>
          (if ok \<and> list_all (\<lambda>(sv, st). 0 < sx_healthy st) (get_registry_status r)
           then (200, ''healthy'') else (503, ''degraded'')))"

section \<open>Invariant and lookup\<close>

text \<open>An instance is listed under its own service, and an id once per service.\<close>

definition sr_inv :: "service_registry \<Rightarrow> bool" where
  "sr_inv r \<longleftrightarrow> dict_ok (sr_services r) \<and>
     (\<forall>sv is. dget (sr_services r) sv = Some is \<longrightarrow>
        distinct (map si_id is) \<and> (\<forall>i \<in> set is. si_service i = sv))"

text \<open>The abstract registry: a partial map from service and id to the instance.\<close>

definition lookup_instance :: "service_registry \<Rightarrow> string \<Rightarrow> string \<Rightarrow> service_instance option" where
  "lookup_instance r sv iid = find (\<lambda>i. si_id i = iid) (instances_of r sv)"

lemma instances_set [simp]:
  "instances_of (set_instances sv is r) sv' = (if sv' = sv then is else instances_of r sv')"
  "sr_timeout (set_instances sv is r) = sr_timeout r"
  by (simp_all add: instances_of_def set_instances_def)

lemma instances_inv:
  assumes "sr_inv r"
  shows "distinct (map si_id (instances_of r sv)) \<and> (\<forall>i \<in> set (instances_of r sv). si_service i = sv)"
  using assms by (cases "dget (sr_services r) sv") (auto simp: sr_inv_def instances_of_def dget_or_def)

lemma set_instances_inv [inv_intros]:
  assumes "sr_inv r" "distinct (map si_id is)" "\<forall>i \<in> set is. si_service i = sv"
  shows "sr_inv (set_instances sv is r)"
  using assms by (auto simp: sr_inv_def set_instances_def)

lemma distinct_map_filter: "distinct (map f xs) \<Longrightarrow> distinct (map f (filter P xs))"
  by (induction xs) auto

lemma update_first_map:
  assumes "distinct (map si_id is)"
  shows "update_first iid f is = (\<exists>i \<in> set is. si_id i = iid, map (\<lambda>i. if si_id i = iid then f i else i) is)"
  using assms
proof (induction "is")
  case (Cons i "is")
  then show ?case by (cases "si_id i = iid") (auto intro!: map_idI [symmetric] simp: image_iff)
qed simp

lemma find_filter_ne:
  "find (\<lambda>i. si_id i = x) (filter (\<lambda>i. si_id i \<noteq> y) is) = (if x = y then None else find (\<lambda>i. si_id i = x) is)"
  by (induction "is") auto

lemma find_append: "find P (xs @ ys) = (case find P xs of None \<Rightarrow> find P ys | Some z \<Rightarrow> Some z)"
  by (induction xs) auto

lemma find_map_upd:
  assumes "\<And>i. si_id (f i) = si_id i"
  shows "find (\<lambda>i. si_id i = x) (map (\<lambda>i. if si_id i = y then f i else i) is)
    = (if x = y then map_option f (find (\<lambda>i. si_id i = x) is) else find (\<lambda>i. si_id i = x) is)"
  using assms by (induction "is") auto

text \<open>The operations that change the registry.\<close>

datatype sr_op =
    SrRegister time string string string int string string "(string \<times> pyval) list"
  | SrDeregister string string
  | SrHeartbeat time string string
  | SrUnhealthy string string
  | SrSweep time

fun sr_do :: "sr_op \<Rightarrow> service_registry \<Rightarrow> service_registry" where
  "sr_do (SrRegister now sv iid host port url key meta) r = snd (register now sv iid host port url key meta r)"
| "sr_do (SrDeregister sv iid) r = snd (deregister sv iid r)"
| "sr_do (SrHeartbeat now sv iid) r = snd (heartbeat now sv iid r)"
| "sr_do (SrUnhealthy sv iid) r = snd (mark_unhealthy sv iid r)"
| "sr_do (SrSweep now) r = check_stale_instances now r"

lemma register_inv [inv_intros]: "sr_inv r \<Longrightarrow> sr_inv (snd (register now sv iid host port url key meta r))"
  unfolding register_def Let_def snd_conv
  by (rule set_instances_inv) (auto simp: instances_inv distinct_map_filter)

lemma deregister_inv [inv_intros]: "sr_inv r \<Longrightarrow> sr_inv (snd (deregister sv iid r))"
  by (auto simp: deregister_def Let_def sr_inv_def set_instances_def distinct_map_filter split: option.split)

lemma update_first_inv:
  assumes "sr_inv r" "dget (sr_services r) sv = Some is" "update_first iid f is = (b, is')"
    and "\<And>i. si_id (f i) = si_id i \<and> si_service (f i) = si_service i"
  shows "sr_inv (set_instances sv is' r)"
proof (rule set_instances_inv [OF assms(1)])
  have d: "distinct (map si_id is)" "\<forall>i \<in> set is. si_service i = sv"
    using assms(1,2) by (auto simp: sr_inv_def)
  have is': "is' = map (\<lambda>i. if si_id i = iid then f i else i) is"
    using assms(3) update_first_map [OF d(1)] by simp
  have "map si_id is' = map si_id is" using assms(4) by (simp add: is')
  with d show "distinct (map si_id is')" by simp
  show "\<forall>i \<in> set is'. si_service i = sv" using d assms(4) by (auto simp: is')
qed

lemma heartbeat_inv [inv_intros]: "sr_inv r \<Longrightarrow> sr_inv (snd (heartbeat now sv iid r))"
  by (auto simp: heartbeat_def split: option.split prod.split intro: update_first_inv)

lemma mark_unhealthy_inv [inv_intros]: "sr_inv r \<Longrightarrow> sr_inv (snd (mark_unhealthy sv iid r))"
  by (auto simp: mark_unhealthy_def split: option.split prod.split intro: update_first_inv)

lemma sweep_dget:
  "dget (sr_services (check_stale_instances now r)) sv = map_option (filter (fresh_instance now r)) (dget (sr_services r) sv)"
  by (simp add: check_stale_instances_def map_of_map)

lemma sweep_inv [inv_intros]: "sr_inv r \<Longrightarrow> sr_inv (check_stale_instances now r)"
  unfolding sr_inv_def sweep_dget
  by (auto simp: dict_ok_def check_stale_instances_def comp_def case_prod_beta distinct_map_filter)

lemma sr_do_inv: "sr_inv r \<Longrightarrow> sr_inv (sr_do a r)"
  by (cases a) (simp_all add: inv_intros)

interpretation sr: preserved sr_do sr_inv
  by unfold_locales (rule sr_do_inv)

lemma init_sr_inv: "sr_inv (init_registry t)"
  by (simp add: sr_inv_def init_registry_def)

lemma reachable_sr_inv: "sr_inv (fold sr_do ops (init_registry t))"
  by (rule sr.run_inv) (rule init_sr_inv)

section \<open>Properties\<close>

lemma lookup_set:
  "lookup_instance (set_instances sv is r) sv' iid' =
     (if sv' = sv then find (\<lambda>i. si_id i = iid') is else lookup_instance r sv' iid')"
  by (simp add: lookup_instance_def)

lemma fst_register:
  "fst (register now sv iid host port url key meta r) =
     \<lparr>si_service = sv, si_id = iid, si_host = host, si_port = port, si_health_url = url,
      si_api_key = key, si_healthy = True, si_heartbeat = now, si_meta = meta\<rparr>"
  by (simp add: register_def Let_def)

lemma lookup_register:
  "lookup_instance (snd (register now sv iid host port url key meta r)) sv' iid' =
     (if sv' = sv \<and> iid' = iid then Some (fst (register now sv iid host port url key meta r))
      else lookup_instance r sv' iid')"
  by (auto simp: register_def Let_def lookup_set find_append find_filter_ne lookup_instance_def
      split: option.split)

lemma instances_of_None: "dget (sr_services r) sv = None \<Longrightarrow> instances_of r sv = []"
  by (simp add: instances_of_def dget_or_def)

lemma instances_of_Some: "dget (sr_services r) sv = Some is \<Longrightarrow> instances_of r sv = is"
  by (simp add: instances_of_def dget_or_def)

lemma lookup_deregister:
  "lookup_instance (snd (deregister sv iid r)) sv' iid' =
     (if sv' = sv \<and> iid' = iid then None else lookup_instance r sv' iid')"
  by (cases "dget (sr_services r) sv")
     (auto simp: deregister_def Let_def lookup_set find_filter_ne lookup_instance_def
        instances_of_None instances_of_Some)

lemma lookup_update_first:
  assumes "sr_inv r" "dget (sr_services r) sv = Some is" "\<And>i. si_id (f i) = si_id i"
  shows "lookup_instance (set_instances sv (snd (update_first iid f is)) r) sv' iid' =
    (if sv' = sv \<and> iid' = iid then map_option f (lookup_instance r sv iid) else lookup_instance r sv' iid')"
proof -
  have "distinct (map si_id is)" using assms(1,2) by (simp add: sr_inv_def)
  from update_first_map [OF this] find_map_upd [of f, OF assms(3)] instances_of_Some [OF assms(2)]
  show ?thesis by (simp add: lookup_set lookup_instance_def)
qed

lemma lookup_heartbeat:
  assumes "sr_inv r"
  shows "lookup_instance (snd (heartbeat now sv iid r)) sv' iid' =
     (if sv' = sv \<and> iid' = iid
      then map_option (\<lambda>i. i\<lparr>si_heartbeat := now, si_healthy := True\<rparr>) (lookup_instance r sv iid)
      else lookup_instance r sv' iid')"
proof (cases "dget (sr_services r) sv")
  case (Some "is")
  from lookup_update_first [OF assms this, of "\<lambda>i. i\<lparr>si_heartbeat := now, si_healthy := True\<rparr>" iid]
  show ?thesis using Some by (simp add: heartbeat_def split: prod.split) (metis snd_conv)
qed (auto simp: heartbeat_def lookup_instance_def instances_of_None)

lemma lookup_mark_unhealthy:
  assumes "sr_inv r"
  shows "lookup_instance (snd (mark_unhealthy sv iid r)) sv' iid' =
     (if sv' = sv \<and> iid' = iid then map_option (\<lambda>i. i\<lparr>si_healthy := False\<rparr>) (lookup_instance r sv iid)
      else lookup_instance r sv' iid')"
proof (cases "dget (sr_services r) sv")
  case (Some "is")
  from lookup_update_first [OF assms this, of "\<lambda>i. i\<lparr>si_healthy := False\<rparr>" iid]
  show ?thesis using Some by (simp add: mark_unhealthy_def split: prod.split) (metis snd_conv)
qed (auto simp: mark_unhealthy_def lookup_instance_def instances_of_None)

lemma find_distinct_filter:
  assumes "distinct (map si_id is)"
  shows "find (\<lambda>i. si_id i = x) (filter P is) =
    (case find (\<lambda>i. si_id i = x) is of None \<Rightarrow> None | Some i \<Rightarrow> if P i then Some i else None)"
  using assms
proof (induction "is")
  case (Cons a "is")
  have "find (\<lambda>i. si_id i = si_id a) is = None" using Cons.prems by (auto simp: find_None_iff image_iff)
  with Cons show ?case by (cases "si_id a = x"; cases "P a") simp_all
qed simp

lemma lookup_sweep:
  assumes "sr_inv r"
  shows "lookup_instance (check_stale_instances now r) sv iid =
    (case lookup_instance r sv iid of None \<Rightarrow> None
     | Some i \<Rightarrow> if fresh_instance now r i then Some i else None)"
proof (cases "dget (sr_services r) sv")
  case None
  then show ?thesis using sweep_dget [of now r sv] by (simp add: lookup_instance_def instances_of_None)
next
  case (Some "is")
  then have d: "distinct (map si_id is)" using assms by (simp add: sr_inv_def)
  have "instances_of (check_stale_instances now r) sv = filter (fresh_instance now r) is"
    using sweep_dget [of now r sv] Some by (simp add: instances_of_Some)
  with find_distinct_filter [OF d] Some show ?thesis by (simp add: lookup_instance_def instances_of_Some)
qed

text \<open>
  The specification of the registry: what each operation does to the map from service and id to
  instance.
\<close>

type_synonym registry_map = "string \<times> string \<Rightarrow> service_instance option"

definition registry_map :: "service_registry \<Rightarrow> registry_map" where
  "registry_map r = (\<lambda>(sv, iid). lookup_instance r sv iid)"

fun spec_do :: "int \<Rightarrow> sr_op \<Rightarrow> registry_map \<Rightarrow> registry_map" where
  "spec_do t (SrRegister now sv iid host port url key meta) m =
     m((sv, iid) \<mapsto> \<lparr>si_service = sv, si_id = iid, si_host = host, si_port = port, si_health_url = url,
        si_api_key = key, si_healthy = True, si_heartbeat = now, si_meta = meta\<rparr>)"
| "spec_do t (SrDeregister sv iid) m = m((sv, iid) := None)"
| "spec_do t (SrHeartbeat now sv iid) m =
     m((sv, iid) := map_option (\<lambda>i. i\<lparr>si_heartbeat := now, si_healthy := True\<rparr>) (m (sv, iid)))"
| "spec_do t (SrUnhealthy sv iid) m =
     m((sv, iid) := map_option (\<lambda>i. i\<lparr>si_healthy := False\<rparr>) (m (sv, iid)))"
| "spec_do t (SrSweep now) m =
     (\<lambda>k. case m k of None \<Rightarrow> None
        | Some i \<Rightarrow> if now - si_heartbeat i < seconds t then Some i else None)"

lemma sr_timeout_do [simp]: "sr_timeout (sr_do a r) = sr_timeout r"
  by (cases a) (auto simp: register_def deregister_def heartbeat_def mark_unhealthy_def
      check_stale_instances_def Let_def split: option.split prod.split)

lemma sr_do_refines:
  assumes "sr_inv r"
  shows "registry_map (sr_do a r) = spec_do (sr_timeout r) a (registry_map r)"
  using assms
  by (cases a) (auto simp: registry_map_def fun_eq_iff lookup_register lookup_deregister
      lookup_heartbeat lookup_mark_unhealthy lookup_sweep fresh_instance_def fst_register
      split: option.split)

lemma sr_run_refines:
  "sr_inv r \<Longrightarrow> registry_map (fold sr_do ops r) = fold (spec_do (sr_timeout r)) ops (registry_map r)
    \<and> sr_timeout (fold sr_do ops r) = sr_timeout r"
  by (induction ops arbitrary: r) (simp_all add: sr_do_refines sr_do_inv)

text \<open>C25: The registry is a map from service and instance id to the instance. Any sequence of
  registrations, deregistrations, heartbeats, markings and sweeps of stale instances, on the lists
  per service, does what the same operations do on that map: a registration replaces the entry, a
  heartbeat refreshes and heals it, a sweep drops exactly the entries whose last heartbeat is at
  least the timeout old.\<close>

theorem registry_refines_map:
  "registry_map (fold sr_do ops (init_registry t)) = fold (spec_do t) ops (\<lambda>_. None)"
proof -
  have "registry_map (init_registry t) = (\<lambda>_. None)"
    by (auto simp: registry_map_def init_registry_def lookup_instance_def instances_of_def)
  with sr_run_refines [OF init_sr_inv, of ops t] show ?thesis by (simp add: init_registry_def)
qed

lemma find_case_filter: "(case filter P xs of [] \<Rightarrow> None | x # _ \<Rightarrow> Some x) = find P xs"
  by (induction xs) auto

lemma get_instance_find: "get_instance sv lb r = find si_healthy (instances_of r sv)"
  unfolding find_case_filter [symmetric] by (simp add: get_instance_def cong: list.case_cong)

text \<open>Routing: after any operations \<open>get_instance\<close> returns an instance exactly when the service has
  a healthy one registered, and what it returns is healthy, registered and of that service; it is the
  same one with and without load balancing, so the same instance gets every request.\<close>

theorem routing_sound:
  assumes "r = fold sr_do ops (init_registry t)"
  shows "(get_instance sv lb r \<noteq> None \<longleftrightarrow> (\<exists>i \<in> set (get_all_instances sv r). si_healthy i))
    \<and> (\<forall>i. get_instance sv lb r = Some i \<longrightarrow>
          si_healthy i \<and> si_service i = sv \<and> lookup_instance r sv (si_id i) = Some i)
    \<and> get_instance sv True r = get_instance sv False r"
proof -
  have inv: "distinct (map si_id (instances_of r sv)) \<and> (\<forall>i \<in> set (instances_of r sv). si_service i = sv)"
    unfolding assms by (rule instances_inv [OF reachable_sr_inv])
  have find: "find (\<lambda>j. si_id j = si_id i) is = Some i" if "distinct (map si_id is)" "i \<in> set is" for i "is"
    using that by (induction "is") auto
  have "si_healthy i \<and> si_service i = sv \<and> lookup_instance r sv (si_id i) = Some i"
    if "get_instance sv lb r = Some i" for i
  proof -
    have "i \<in> set (filter si_healthy (instances_of r sv))"
      using that unfolding get_instance_find by (auto simp: find_Some_iff)
    with inv find [of "instances_of r sv" i] show ?thesis by (simp add: lookup_instance_def)
  qed
  moreover have "get_instance sv lb r \<noteq> None \<longleftrightarrow> (\<exists>i \<in> set (get_all_instances sv r). si_healthy i)"
    unfolding get_instance_find get_all_instances_def by (auto simp: find_None_iff)
  moreover have "get_instance sv True r = get_instance sv False r"
    by (simp only: get_instance_find)
  ultimately show ?thesis by blast
qed

lemma routing_sound_witness:
  "get_instance ''auth'' True (fold sr_do [SrRegister 0 ''auth'' ''a1'' ''h'' 80 ''/h'' ''k'' []] (init_registry 30))
    \<noteq> None"
  using conjunct1 [OF routing_sound [OF refl, of "''auth''" True
      "[SrRegister 0 ''auth'' ''a1'' ''h'' 80 ''/h'' ''k'' []]" 30]]
  by (simp add: get_all_instances_def register_def Let_def del: not_None_eq)

lemma run_checks_spec:
  "run_checks e cs w = (cs', w') \<Longrightarrow> map fst cs' = map fst cs \<and> length cs' = length cs"
  by (induction e cs w arbitrary: cs' w' rule: run_checks.induct) (auto split: prod.splits)

text \<open>The gateway answers 200 exactly when its own checks pass and every service of the registry has a healthy instance; a service whose last instance deregistered or
  went stale stays in the registry with no instance, so from then on the gateway answers 503 until an
  instance of that service registers again.\<close>

theorem gateway_degraded_after_deregister:
  assumes "dget (sr_services r) sv = Some [i]" "sr_inv r"
  shows "(fst (gateway_health e r h w) = 200 \<longleftrightarrow> fst (run_all_checks e h w)
        \<and> (\<forall>(sv, is) \<in> set (sr_services r). \<exists>i \<in> set is. si_healthy i))
    \<and> gateway_health e (snd (deregister sv (si_id i) r)) h w = (503, ''degraded'')
    \<and> (\<not> fresh_instance now r i \<longrightarrow>
         gateway_health e (check_stale_instances now r) h w = (503, ''degraded''))"
proof -
  have empty: "gateway_health e r' h w = (503, ''degraded'')" if "dget (sr_services r') sv = Some []" for r'
  proof -
    have "(sv, []) \<in> set (sr_services r')" using that by (rule map_of_SomeD)
    then have "\<not> list_all (\<lambda>(sv, st). 0 < sx_healthy st) (get_registry_status r')"
      unfolding list_all_iff get_registry_status_def by force
    then show ?thesis by (simp add: gateway_health_def split: prod.split)
  qed
  have "fst (gateway_health e r h w) = 200 \<longleftrightarrow> fst (run_all_checks e h w)
      \<and> list_all (\<lambda>(sv, st). 0 < sx_healthy st) (get_registry_status r)"
    by (simp add: gateway_health_def split: prod.split)
  moreover have "list_all (\<lambda>(sv, st). 0 < sx_healthy st) (get_registry_status r)
      \<longleftrightarrow> (\<forall>(sv, is) \<in> set (sr_services r). \<exists>i \<in> set is. si_healthy i)"
    by (fastforce simp: list_all_iff get_registry_status_def filter_empty_conv)
  moreover have "dget (sr_services (snd (deregister sv (si_id i) r))) sv = Some []"
    using assms by (simp add: deregister_def Let_def set_instances_def)
  moreover have "dget (sr_services (check_stale_instances now r)) sv = Some []" if "\<not> fresh_instance now r i"
    using that assms by (simp add: sweep_dget)
  ultimately show ?thesis using empty by simp
qed

lemma gateway_degraded_after_deregister_witness:
  "gateway_health env0 (snd (deregister ''auth'' ''a1''
     (snd (register 0 ''auth'' ''a1'' ''h'' 80 ''/h'' ''k'' [] (init_registry 30)))))
     \<lparr>hk_service = ''api-gateway'', hk_checks = [], hk_healthy = True\<rparr> () = (503, ''degraded'')"
proof -
  let ?r = "snd (register 0 ''auth'' ''a1'' ''h'' 80 ''/h'' ''k'' [] (init_registry 30))"
  let ?i = "fst (register 0 ''auth'' ''a1'' ''h'' 80 ''/h'' ''k'' [] (init_registry 30))"
  have "dget (sr_services ?r) ''auth'' = Some [?i]"
    by (simp add: register_def Let_def set_instances_def init_registry_def instances_of_def)
  from gateway_degraded_after_deregister [OF this register_inv [OF init_sr_inv],
      of env0 "\<lparr>hk_service = ''api-gateway'', hk_checks = [], hk_healthy = True\<rparr>" "()"]
  show ?thesis by (simp add: fst_register)
qed

end
