(* ===== verification/PyJson.thy ===== *)
theory PyJson
  imports Prelude "HOL-Library.Char_ord" "HOL-Library.List_Lexorder"
begin

text \<open>
  What the modelled code uses of Python's \<open>json.dumps(value, sort_keys=True)\<close>, of the truth of a value
  and of its use as a dictionary key. Characters are those of Isabelle's strings, code points below
  256, and the output is ASCII, as with Python's default \<open>ensure_ascii\<close>.
\<close>

fun truthy :: "pyval \<Rightarrow> bool" where
  "truthy VNone = False"
| "truthy (VBool b) = b"
| "truthy (VInt i) = (i \<noteq> 0)"
| "truthy (VStr s) = (s \<noteq> '''')"
| "truthy (VList xs) = (xs \<noteq> [])"
| "truthy (VDict d) = (d \<noteq> [])"

text \<open>A list or a dictionary cannot be a key; \<open>True\<close> and \<open>1\<close> are the same key.\<close>

fun hashable :: "pyval \<Rightarrow> bool" where
  "hashable (VList xs) = False"
| "hashable (VDict d) = False"
| "hashable v = True"

fun dkey :: "pyval \<Rightarrow> pyval" where
  "dkey (VBool b) = VInt (if b then 1 else 0)"
| "dkey v = v"

text \<open>\<open>str.lower\<close> and \<open>str.upper\<close> on code points below 256 whose image is below 256.\<close>

definition lower_char :: "char \<Rightarrow> char" where
  "lower_char c =
     (let n = of_char c :: nat
      in if 65 \<le> n \<and> n \<le> 90 \<or> 192 \<le> n \<and> n \<le> 222 \<and> n \<noteq> 215 then char_of (n + 32) else c)"

definition py_lower :: "string \<Rightarrow> string" where
  "py_lower s = map lower_char s"

definition upper_char :: "char \<Rightarrow> char" where
  "upper_char c =
     (let n = of_char c :: nat
      in if 97 \<le> n \<and> n \<le> 122 \<or> 224 \<le> n \<and> n \<le> 254 \<and> n \<noteq> 247 then char_of (n - 32) else c)"

definition py_upper :: "string \<Rightarrow> string" where
  "py_upper s = map upper_char s"

text \<open>\<open>s.strip()\<close>.\<close>

definition blank :: "char \<Rightarrow> bool" where
  "blank c = (let n = of_char c :: nat in n = 32 \<or> 9 \<le> n \<and> n \<le> 13 \<or> 28 \<le> n \<and> n \<le> 31 \<or> n = 133 \<or> n = 160)"

definition py_strip :: "string \<Rightarrow> string" where
  "py_strip s = rev (dropWhile blank (rev (dropWhile blank s)))"

text \<open>
  \<open>int(s)\<close>: blanks around it, a sign, digits that single underscores may separate. Texts of more than 4300
  digits, which it refuses, are read.
\<close>

definition digit_value :: "char \<Rightarrow> int option" where
  "digit_value c = (let n = of_char c :: int in if 48 \<le> n \<and> n \<le> 57 then Some (n - 48) else None)"

fun parse_digits :: "string \<Rightarrow> int \<Rightarrow> int option" where
  "parse_digits [] acc = Some acc"
| "parse_digits (c # cs) acc =
     (case digit_value c of None \<Rightarrow> None | Some d \<Rightarrow> parse_digits cs (10 * acc + d))"

definition underscores_ok :: "string \<Rightarrow> bool" where
  "underscores_ok s \<longleftrightarrow> s \<noteq> [] \<and> hd s \<noteq> CHR ''_'' \<and> last s \<noteq> CHR ''_'' \<and>
     list_all (\<lambda>(a, b). a \<noteq> CHR ''_'' \<or> b \<noteq> CHR ''_'') (zip s (tl s))"

definition parse_unsigned :: "string \<Rightarrow> int option" where
  "parse_unsigned s = (if underscores_ok s then parse_digits (filter (\<lambda>c. c \<noteq> CHR ''_'') s) 0 else None)"

definition parse_int :: "string \<Rightarrow> int option" where
  "parse_int s =
     (case py_strip s of
        [] \<Rightarrow> None
      | c # cs \<Rightarrow> if c = CHR ''-'' then map_option uminus (parse_unsigned cs)
                  else parse_unsigned (if c = CHR ''+'' then cs else c # cs))"

lemma digit_value_char: "0 \<le> n \<Longrightarrow> n < 10 \<Longrightarrow> digit_value (digit_char n) = Some n"
  by (simp add: digit_value_def digit_char_def)

lemma parse_digits_append:
  "parse_digits (s @ t) acc = (case parse_digits s acc of None \<Rightarrow> None | Some a \<Rightarrow> parse_digits t a)"
  by (induction s arbitrary: acc) (auto split: option.split)

lemma parse_str_nat: "0 \<le> n \<Longrightarrow> parse_digits (str_nat n) 0 = Some n"
proof (induction n rule: str_nat.induct)
  case (1 n)
  show ?case
  proof (cases "n < 10")
    case True
    with 1 show ?thesis by (simp add: str_nat.simps [of n] digit_value_char)
  next
    case False
    with 1 have "parse_digits (str_nat (n div 10)) 0 = Some (n div 10)" by simp
    then show ?thesis using False
      by (simp add: str_nat.simps [of n] parse_digits_append digit_value_char)
  qed
qed

lemma str_nat_digits: "0 \<le> n \<Longrightarrow> c \<in> set (str_nat n) \<Longrightarrow> digit_value c \<noteq> None"
proof (induction n rule: str_nat.induct)
  case (1 n)
  then show ?case
    by (cases "n < 10") (auto simp: str_nat.simps [of n] digit_value_char)
qed

lemma digit_plain: "digit_value c \<noteq> None \<Longrightarrow> \<not> blank c \<and> c \<noteq> CHR ''_'' \<and> c \<noteq> CHR ''-'' \<and> c \<noteq> CHR ''+''"
proof -
  have "(of_char c :: int) = int (of_char c)" by (rule of_nat_of_char [symmetric])
  then show "digit_value c \<noteq> None \<Longrightarrow> ?thesis"
    by (auto simp: digit_value_def blank_def Let_def split: if_splits)
qed

lemma strip_plain: "s \<noteq> [] \<Longrightarrow> \<not> blank (hd s) \<Longrightarrow> \<not> blank (last s) \<Longrightarrow> py_strip s = s"
proof -
  assume a: "s \<noteq> []" "\<not> blank (hd s)" "\<not> blank (last s)"
  then have "dropWhile blank s = s" "dropWhile blank (rev s) = rev s"
    by (cases s; simp) (cases s rule: rev_cases; use a in simp)
  then show ?thesis by (simp add: py_strip_def)
qed

lemma parse_unsigned_digits:
  assumes "\<And>c. c \<in> set s \<Longrightarrow> digit_value c \<noteq> None" "s \<noteq> []"
  shows "parse_unsigned s = parse_digits s 0"
proof -
  have p: "c \<noteq> CHR ''_''" if "c \<in> set s" for c using digit_plain [OF assms(1) [OF that]] by simp
  then have "filter (\<lambda>c. c \<noteq> CHR ''_'') s = s" by (simp add: filter_id_conv)
  moreover have "list_all (\<lambda>(a, b). a \<noteq> CHR ''_'' \<or> b \<noteq> CHR ''_'') (zip s (tl s))"
    using p by (auto simp: list_all_iff dest: set_zip_leftD)
  ultimately show ?thesis using p assms(2) by (simp add: parse_unsigned_def underscores_ok_def)
qed

lemma parse_str_int: "parse_int (str_int n) = Some n"
proof -
  have d: "\<And>c. c \<in> set (str_nat \<bar>n\<bar>) \<Longrightarrow> digit_value c \<noteq> None" using str_nat_digits [of "\<bar>n\<bar>"] by simp
  obtain c cs where s: "str_nat \<bar>n\<bar> = c # cs" by (cases "str_nat \<bar>n\<bar>") auto
  have u: "parse_unsigned (str_nat \<bar>n\<bar>) = Some \<bar>n\<bar>"
    using parse_unsigned_digits [OF d, of "str_nat \<bar>n\<bar>"] s parse_str_nat [of "\<bar>n\<bar>"] by simp
  have l: "\<not> blank (last (str_nat \<bar>n\<bar>))" "\<not> blank c" "c \<noteq> CHR ''-''" "c \<noteq> CHR ''+''"
    using digit_plain [OF d] s by auto
  have m: "\<not> blank (CHR ''-'')" by (simp add: blank_def)
  have "py_strip (str_int n) = str_int n"
    using l m s by (intro strip_plain) (auto simp: str_int_def)
  then show ?thesis using u s l by (auto simp: parse_int_def str_int_def)
qed

definition hex_char :: "nat \<Rightarrow> char" where
  "hex_char n = char_of (if n < 10 then 48 + n else 87 + n)"

definition json_char :: "char \<Rightarrow> string" where
  "json_char c =
     (let n = of_char c :: nat in
      if n = 34 then [char_of (92::nat), c]
      else if n = 92 then [char_of (92::nat), c]
      else if n = 10 then char_of (92::nat) # ''n''
      else if n = 13 then char_of (92::nat) # ''r''
      else if n = 9 then char_of (92::nat) # ''t''
      else if n = 8 then char_of (92::nat) # ''b''
      else if n = 12 then char_of (92::nat) # ''f''
      else if 32 \<le> n \<and> n < 127 then [c]
      else char_of (92::nat) # ''u00'' @ [hex_char (n div 16), hex_char (n mod 16)])"

definition json_string :: "string \<Rightarrow> string" where
  "json_string s = [char_of (34::nat)] @ concat (map json_char s) @ [char_of (34::nat)]"

fun commas :: "string list \<Rightarrow> string" where
  "commas [] = ''''"
| "commas [s] = s"
| "commas (s # ss) = s @ '', '' @ commas ss"

text \<open>
  \<open>repr\<close> and \<open>str\<close> of a value: a string is quoted with double quotes when it contains a single quote
  and no double quote, and what is not printable is escaped.
\<close>

definition repr_char :: "char \<Rightarrow> char \<Rightarrow> string" where
  "repr_char q c =
     (let n = of_char c :: nat in
      if c = q \<or> n = 92 then [char_of (92::nat), c]
      else if n = 10 then char_of (92::nat) # ''n''
      else if n = 13 then char_of (92::nat) # ''r''
      else if n = 9 then char_of (92::nat) # ''t''
      else if n < 32 \<or> 127 \<le> n \<and> n \<le> 160 \<or> n = 173
      then char_of (92::nat) # ''x'' @ [hex_char (n div 16), hex_char (n mod 16)]
      else [c])"

definition repr_string :: "string \<Rightarrow> string" where
  "repr_string s =
     (let q = (if char_of (39::nat) \<in> set s \<and> char_of (34::nat) \<notin> set s then char_of (34::nat)
               else char_of (39::nat))
      in [q] @ concat (map (repr_char q) s) @ [q])"

fun py_repr :: "pyval \<Rightarrow> string" where
  "py_repr VNone = ''None''"
| "py_repr (VBool b) = (if b then ''True'' else ''False'')"
| "py_repr (VInt i) = str_int i"
| "py_repr (VStr s) = repr_string s"
| "py_repr (VList vs) = ''['' @ commas (map py_repr vs) @ '']''"
| "py_repr (VDict d) =
     ''{'' @ commas (map (\<lambda>(k, t). repr_string k @ '': '' @ t) (map (\<lambda>(k, v). (k, py_repr v)) d)) @ ''}''"

fun py_str :: "pyval \<Rightarrow> string" where
  "py_str (VStr s) = s"
| "py_str v = py_repr v"

fun json_dumps :: "pyval \<Rightarrow> string" where
  "json_dumps VNone = ''null''"
| "json_dumps (VBool b) = (if b then ''true'' else ''false'')"
| "json_dumps (VInt i) = str_int i"
| "json_dumps (VStr s) = json_string s"
| "json_dumps (VList vs) = ''['' @ commas (map json_dumps vs) @ '']''"
| "json_dumps (VDict d) =
     ''{'' @ commas (map (\<lambda>(k, t). json_string k @ '': '' @ t)
               (sort_key fst (map (\<lambda>(k, v). (k, json_dumps v)) d))) @ ''}''"

end
