(* ===== verification/Event_Log.thy ===== *)
theory Event_Log
  imports PyJson
begin

text \<open>
  The event log with its hash chain (\<open>backend/app/services/event_sourcing.py\<close>): appending, the
  indexes, replay, snapshots, verification.

  An event is a dictionary of Python values. The digest \<open>sha\<close> (\<open>hashlib.sha256(...).hexdigest()\<close>) is a
  parameter; nothing is assumed of it, so what the chain detects is stated up to a collision that the
  theorem exhibits. An unhashable value under an indexed key raises \<open>TypeError\<close> after the event is
  already in the log.
\<close>

type_synonym event = "(string, pyval) dict"
type_synonym index = "(pyval, nat list) dict"

section \<open>The log\<close>

datatype snapshot_type = ACCOUNT_STATE | TRANSACTION_STATE | USER_PORTFOLIO

record event_snapshot =
  sn_id :: string
  sn_tx :: string
  sn_user :: int
  sn_type :: snapshot_type
  sn_time :: time
  sn_state :: "(string, pyval) dict"
  sn_count :: nat
  sn_checksum :: string

record event_log =
  el_events :: "event list"
  el_snapshots :: "(string, event_snapshot) dict"
  el_hashes :: "string list"
  el_by_tx :: index
  el_by_user :: index
  el_by_account :: index
  el_by_type :: index

definition empty_log :: event_log where
  "empty_log = \<lparr>el_events = [], el_snapshots = [], el_hashes = [], el_by_tx = [], el_by_user = [],
     el_by_account = [], el_by_type = []\<rparr>"

definition event_json :: "event \<Rightarrow> string" where
  "event_json ev = json_dumps (VDict ev)"

definition falsy_at :: "string \<Rightarrow> event \<Rightarrow> bool" where
  "falsy_at k ev = (case dget ev k of None \<Rightarrow> True | Some v \<Rightarrow> \<not> truthy v)"

text \<open>The event as it is stored; \<open>fmt\<close> formats a clock reading (\<open>datetime.isoformat\<close>).\<close>

definition complete_event :: "(time \<Rightarrow> string) \<Rightarrow> env \<Rightarrow> event \<Rightarrow> event" where
  "complete_event fmt e ev =
     (let ev1 = (if falsy_at ''event_id'' ev then dset ''event_id'' (VStr (uuid e 0)) ev else ev)
      in if falsy_at ''timestamp'' ev1 then dset ''timestamp'' (VStr (fmt (clock e 0))) ev1 else ev1)"

definition unhashable :: "pyval \<Rightarrow> py_error" where
  "unhashable v = TypeError (''unhashable type: '' @ (case v of VList _ \<Rightarrow> ''list'' | _ \<Rightarrow> ''dict''))"

text \<open>One of the four blocks of \<open>_update_indexes\<close>, for the event at position \<open>i\<close>.\<close>

definition index_event :: "string \<Rightarrow> event \<Rightarrow> nat \<Rightarrow> index \<Rightarrow> index result" where
  "index_event field ev i ix =
     (case dget ev field of
        None \<Rightarrow> Ok ix
      | Some v \<Rightarrow>
          if hashable v then Ok (dset (dkey v) (dget_or ix (dkey v) [] @ [i]) ix) else Err (unhashable v))"

definition update_indexes :: "event \<Rightarrow> event_log \<Rightarrow> unit result \<times> event_log" where
  "update_indexes ev l =
     (let i = length (el_events l) - 1 in
      case index_event ''transaction_id'' ev i (el_by_tx l) of
        Inl err \<Rightarrow> (Err err, l)
      | Inr ix1 \<Rightarrow>
          let l1 = l\<lparr>el_by_tx := ix1\<rparr> in
          (case index_event ''user_id'' ev i (el_by_user l1) of
             Inl err \<Rightarrow> (Err err, l1)
           | Inr ix2 \<Rightarrow>
               let l2 = l1\<lparr>el_by_user := ix2\<rparr> in
               (case index_event ''from_account_id'' ev i (el_by_account l2) of
                  Inl err \<Rightarrow> (Err err, l2)
                | Inr ix3 \<Rightarrow>
                    let l3 = l2\<lparr>el_by_account := ix3\<rparr> in
                    (case index_event ''event_type'' ev i (el_by_type l3) of
                       Inl err \<Rightarrow> (Err err, l3)
                     | Inr ix4 \<Rightarrow> (Ok (), l3\<lparr>el_by_type := ix4\<rparr>)))))"

definition last_hash :: "string list \<Rightarrow> string" where
  "last_hash hs = (if hs = [] then ''0'' else last hs)"

definition log_append ::
    "(string \<Rightarrow> string) \<Rightarrow> (time \<Rightarrow> string) \<Rightarrow> env \<Rightarrow> event \<Rightarrow> event_log \<Rightarrow> string result \<times> event_log" where
  "log_append sha fmt e ev l =
     (let ev' = complete_event fmt e ev;
          h = sha (last_hash (el_hashes l) @ event_json ev')
      in case update_indexes ev' (l\<lparr>el_events := el_events l @ [ev'], el_hashes := el_hashes l @ [h]\<rparr>) of
           (Inl err, l') \<Rightarrow> (Err err, l')
         | (Inr u, l') \<Rightarrow> (Ok h, l'))"

definition get_events :: "string \<Rightarrow> event_log \<Rightarrow> event list" where
  "get_events tx l = map (\<lambda>i. el_events l ! i) (dget_or (el_by_tx l) (VStr tx) [])"

section \<open>Replay\<close>

text \<open>
  The reconstructed state: its four entries, and whatever other entries the caller's function adds.
\<close>

record replay_result =
  rr_tx :: string
  rr_events :: "(pyval \<times> pyval \<times> pyval) list"
  rr_status :: pyval
  rr_changes :: "(pyval \<times> pyval) list"
  rr_extra :: "(string, pyval) dict"

abbreviation eget :: "event \<Rightarrow> string \<Rightarrow> pyval" where
  "eget ev k \<equiv> dget_or ev k VNone"

definition replay_one :: "event \<Rightarrow> replay_result \<Rightarrow> replay_result" where
  "replay_one ev st =
     (let st1 = st\<lparr>rr_events := rr_events st @ [(eget ev ''event_type'', eget ev ''timestamp'', eget ev ''status'')]\<rparr>;
          st2 = (case dget ev ''status'' of Some v \<Rightarrow> st1\<lparr>rr_status := v\<rparr> | None \<Rightarrow> st1)
      in if eget ev ''event_type'' = VStr ''balance_modified''
         then st2\<lparr>rr_changes := rr_changes st2 @ [(eget ev ''amount'', eget ev ''timestamp'')]\<rparr>
         else st2)"

fun replay_all ::
    "(event \<Rightarrow> replay_result \<Rightarrow> replay_result result) option \<Rightarrow> event list \<Rightarrow> replay_result
     \<Rightarrow> replay_result result" where
  "replay_all fn [] st = Ok st"
| "replay_all fn (ev # evs) st =
     (case fn of
        None \<Rightarrow> replay_all fn evs (replay_one ev st)
      | Some f \<Rightarrow> (case f ev (replay_one ev st) of
            Inl err \<Rightarrow> Err err
          | Inr st' \<Rightarrow> replay_all fn evs st'))"

definition replay_error :: "string \<Rightarrow> py_error" where
  "replay_error m = CustomError ''ReplayError'' m"

definition init_replay :: "string \<Rightarrow> replay_result" where
  "init_replay tx = \<lparr>rr_tx = tx, rr_events = [], rr_status = VStr ''initial'', rr_changes = [], rr_extra = []\<rparr>"

definition replay ::
    "string \<Rightarrow> (event \<Rightarrow> replay_result \<Rightarrow> replay_result result) option \<Rightarrow> event_log
     \<Rightarrow> replay_result result" where
  "replay tx fn l =
     (let evs = get_events tx l in
      if evs = [] then Err (replay_error (''No events found for transaction '' @ tx))
      else case replay_all fn evs (init_replay tx) of
             Inl err \<Rightarrow> Err (replay_error (''Failed to replay transaction '' @ tx @ '': '' @ err_str err))
           | Inr st \<Rightarrow> Ok st)"

section \<open>Snapshots\<close>

definition create_snapshot ::
    "(string \<Rightarrow> string) \<Rightarrow> env \<Rightarrow> string \<Rightarrow> int \<Rightarrow> snapshot_type \<Rightarrow> (string, pyval) dict \<Rightarrow> event_log
     \<Rightarrow> event_snapshot \<times> event_log" where
  "create_snapshot sha e tx uid ty st l =
     (let sn = \<lparr>sn_id = uuid e 0, sn_tx = tx, sn_user = uid, sn_type = ty, sn_time = clock e 0,
                sn_state = st, sn_count = length (el_events l), sn_checksum = sha (event_json st)\<rparr>
      in (sn, l\<lparr>el_snapshots := dset (sn_id sn) sn (el_snapshots l)\<rparr>))"

definition get_snapshot :: "string \<Rightarrow> event_log \<Rightarrow> event_snapshot option" where
  "get_snapshot sid l = dget (el_snapshots l) sid"

definition verify_snapshot :: "(string \<Rightarrow> string) \<Rightarrow> event_snapshot \<Rightarrow> bool" where
  "verify_snapshot sha sn = (sn_checksum sn = sha (event_json (sn_state sn)))"

section \<open>Verification\<close>

text \<open>
  The loop from position \<open>i\<close>, with the hash before it; a missing hash raises \<open>IndexError\<close>. The issues
  are kept as positions, \<open>issue_text\<close> is their message.
\<close>

fun verify_from :: "(string \<Rightarrow> string) \<Rightarrow> nat \<Rightarrow> string \<Rightarrow> event list \<Rightarrow> string list \<Rightarrow> nat list result" where
  "verify_from sha i prev [] hs = Ok []"
| "verify_from sha i prev (ev # evs) [] = Err (IndexError ''list index out of range'')"
| "verify_from sha i prev (ev # evs) (h # hs) =
     (case verify_from sha (Suc i) h evs hs of
        Inl err \<Rightarrow> Err err
      | Inr is \<Rightarrow> Ok (if h \<noteq> sha (prev @ event_json ev) then i # is else is))"

definition issue_text :: "nat \<Rightarrow> string" where
  "issue_text i = ''Event '' @ str_int (int i) @ '' hash mismatch''"

definition verify_integrity :: "(string \<Rightarrow> string) \<Rightarrow> event_log \<Rightarrow> (bool \<times> string list) result" where
  "verify_integrity sha l =
     (case verify_from sha 0 ''0'' (el_events l) (el_hashes l) of
        Inl err \<Rightarrow> Err err
      | Inr is \<Rightarrow> Ok (is = [], map issue_text is))"

text \<open>The events \<open>export_audit_trail\<close> writes out when no dates are given.\<close>

definition user_trail :: "int \<Rightarrow> event_log \<Rightarrow> event list" where
  "user_trail uid l = map (\<lambda>i. el_events l ! i) (dget_or (el_by_user l) (VInt uid) [])"

record log_stats =
  lx_events :: nat
  lx_snapshots :: nat
  lx_transactions :: nat
  lx_users :: nat
  lx_accounts :: nat
  lx_types :: nat
  lx_oldest :: pyval
  lx_newest :: pyval

definition log_statistics :: "event_log \<Rightarrow> log_stats" where
  "log_statistics l =
     \<lparr>lx_events = length (el_events l), lx_snapshots = length (el_snapshots l),
      lx_transactions = length (el_by_tx l), lx_users = length (el_by_user l),
      lx_accounts = length (el_by_account l), lx_types = length (el_by_type l),
      lx_oldest = (if el_events l = [] then VNone else eget (hd (el_events l)) ''timestamp''),
      lx_newest = (if el_events l = [] then VNone else eget (last (el_events l)) ''timestamp'')\<rparr>"

section \<open>Operations\<close>

datatype log_op =
    LogAppend env event
  | LogSnapshot env string int snapshot_type "(string, pyval) dict"

fun log_do :: "(string \<Rightarrow> string) \<Rightarrow> (time \<Rightarrow> string) \<Rightarrow> log_op \<Rightarrow> event_log \<Rightarrow> event_log" where
  "log_do sha fmt (LogAppend e ev) l = snd (log_append sha fmt e ev l)"
| "log_do sha fmt (LogSnapshot e tx uid ty st) l = snd (create_snapshot sha e tx uid ty st l)"

lemma update_indexes_frame [frame_simps]:
  "el_events (snd (update_indexes ev l)) = el_events l" "el_hashes (snd (update_indexes ev l)) = el_hashes l"
  "el_snapshots (snd (update_indexes ev l)) = el_snapshots l"
  by (simp_all add: update_indexes_def Let_def split: sum.split)

lemma snd_case_result:
  "snd (case x of (Inl err, l') \<Rightarrow> (Inl err, l') | (Inr u, l') \<Rightarrow> (Inr h, l')) = snd x"
  by (simp split: prod.split sum.split)

lemma log_append_frame [frame_simps]:
  "el_events (snd (log_append sha fmt e ev l)) = el_events l @ [complete_event fmt e ev]"
  "el_hashes (snd (log_append sha fmt e ev l)) =
     el_hashes l @ [sha (last_hash (el_hashes l) @ event_json (complete_event fmt e ev))]"
  by (simp_all add: log_append_def Let_def snd_case_result frame_simps)

lemma create_snapshot_frame [frame_simps]:
  "el_events (snd (create_snapshot sha e tx uid ty st l)) = el_events l"
  "el_hashes (snd (create_snapshot sha e tx uid ty st l)) = el_hashes l"
  "el_by_tx (snd (create_snapshot sha e tx uid ty st l)) = el_by_tx l"
  by (simp_all add: create_snapshot_def Let_def)

text \<open>The events and their hashes are logs that only grow.\<close>

interpretation el_log: append_only "log_do sha fmt" el_events for sha fmt
proof unfold_locales
  show "prefix (el_events s) (el_events (log_do sha fmt a s))" for s a
    by (cases a) (simp_all add: frame_simps)
qed

interpretation el_chain: append_only "log_do sha fmt" el_hashes for sha fmt
proof unfold_locales
  show "prefix (el_hashes s) (el_hashes (log_do sha fmt a s))" for s a
    by (cases a) (simp_all add: frame_simps)
qed

section \<open>The hash chain\<close>

fun chain :: "(string \<Rightarrow> string) \<Rightarrow> string \<Rightarrow> event list \<Rightarrow> string list" where
  "chain sha prev [] = []"
| "chain sha prev (ev # evs) = (let h = sha (prev @ event_json ev) in h # chain sha h evs)"

lemma length_chain [simp]: "length (chain sha prev evs) = length evs"
  by (induction evs arbitrary: prev) (simp_all add: Let_def)

lemma chain_snoc:
  "chain sha prev (evs @ [ev]) = chain sha prev evs @ [sha (last (prev # chain sha prev evs) @ event_json ev)]"
  by (induction evs arbitrary: prev) (simp_all add: Let_def)

lemma chain_snoc0:
  "chain sha ''0'' (evs @ [ev]) = chain sha ''0'' evs @ [sha (last_hash (chain sha ''0'' evs) @ event_json ev)]"
  by (simp add: chain_snoc last_hash_def)

text \<open>What an honest log keeps: the hashes are the chain of its events.\<close>

definition log_inv :: "(string \<Rightarrow> string) \<Rightarrow> event_log \<Rightarrow> bool" where
  "log_inv sha l \<longleftrightarrow> el_hashes l = chain sha ''0'' (el_events l)
     \<and> (\<forall>tx. dget_or (el_by_tx l) (VStr tx) [] =
          filter (\<lambda>i. dget (el_events l ! i) ''transaction_id'' = Some (VStr tx)) [0..<length (el_events l)])"

lemma dkey_str: "dkey v = VStr s \<longleftrightarrow> v = VStr s"
  by (cases v) auto

lemma update_by_tx:
  "el_by_tx (snd (update_indexes ev l)) =
     (case index_event ''transaction_id'' ev (length (el_events l) - 1) (el_by_tx l) of
        Inl err \<Rightarrow> el_by_tx l | Inr ix \<Rightarrow> ix)"
  by (simp add: update_indexes_def Let_def split: sum.split)

lemma index_event_lookup:
  "dget_or (case index_event f ev i ix of Inl err \<Rightarrow> ix | Inr ix' \<Rightarrow> ix') (VStr tx) [] =
     dget_or ix (VStr tx) [] @ (if dget ev f = Some (VStr tx) then [i] else [])"
proof (cases "dget ev f")
  case (Some v)
  then show ?thesis by (cases v) (auto simp: index_event_def)
qed (simp add: index_event_def)

lemma append_by_tx:
  "dget_or (el_by_tx (snd (log_append sha fmt e ev l))) (VStr tx) [] =
     dget_or (el_by_tx l) (VStr tx) []
       @ (if dget (complete_event fmt e ev) ''transaction_id'' = Some (VStr tx) then [length (el_events l)] else [])"
  by (simp add: log_append_def Let_def snd_case_result update_by_tx index_event_lookup
      cong: sum.case_cong)

lemma log_do_inv: "log_inv sha l \<Longrightarrow> log_inv sha (log_do sha fmt a l)"
proof (cases a)
  case (LogAppend e ev)
  assume inv: "log_inv sha l"
  have "filter (\<lambda>i. dget ((el_events l @ [x]) ! i) ''transaction_id'' = Some (VStr tx)) [0..<length (el_events l)]
      = filter (\<lambda>i. dget (el_events l ! i) ''transaction_id'' = Some (VStr tx)) [0..<length (el_events l)]" for x tx
    by (rule filter_cong) (auto simp: nth_append)
  with inv LogAppend show ?thesis
    by (simp add: log_inv_def frame_simps chain_snoc0 append_by_tx)
qed (simp add: log_inv_def frame_simps)

interpretation el_inv: preserved "log_do sha fmt" "log_inv sha" for sha fmt
  by unfold_locales (rule log_do_inv)

lemma reachable_log_inv: "log_inv sha (fold (log_do sha fmt) ops empty_log)"
  by (rule el_inv.run_inv) (simp add: log_inv_def empty_log_def)

text \<open>Verification lists the positions whose stored hash is not that of the stored one before it.\<close>

lemma verify_from_spec:
  "length evs \<le> length hs \<Longrightarrow>
   verify_from sha i prev evs hs =
     Ok (map ((+) i) (filter (\<lambda>j. hs ! j \<noteq> sha ((prev # hs) ! j @ event_json (evs ! j))) [0..<length evs]))"
proof (induction sha i prev evs hs rule: verify_from.induct)
  case (3 sha i prev ev evs h hs)
  have "[0..<length (ev # evs)] = 0 # map Suc [0..<length evs]"
    by (simp add: upt_conv_Cons map_Suc_upt del: upt_Suc)
  with 3 show ?case by (simp add: filter_map comp_def del: upt_Suc)
qed simp_all

lemma chain_nth:
  "j < length evs \<Longrightarrow>
   chain sha prev evs ! j = sha ((prev # chain sha prev evs) ! j @ event_json (evs ! j))"
proof (induction evs arbitrary: prev j)
  case (Cons ev evs)
  then show ?case by (cases j) (simp_all add: Let_def)
qed simp

lemma verify_against_chain:
  assumes "length evs' \<le> length evs"
  shows "verify_from sha 0 ''0'' evs' (chain sha ''0'' evs) =
    Ok (filter (\<lambda>j. sha ((''0'' # chain sha ''0'' evs) ! j @ event_json (evs ! j))
                 \<noteq> sha ((''0'' # chain sha ''0'' evs) ! j @ event_json (evs' ! j))) [0..<length evs'])"
proof -
  have "map ((+) 0) xs = xs" for xs :: "nat list" by (simp add: map_idI)
  moreover have "filter (\<lambda>j. chain sha ''0'' evs ! j \<noteq> sha ((''0'' # chain sha ''0'' evs) ! j @ event_json (evs' ! j))) [0..<length evs']
    = filter (\<lambda>j. sha ((''0'' # chain sha ''0'' evs) ! j @ event_json (evs ! j))
        \<noteq> sha ((''0'' # chain sha ''0'' evs) ! j @ event_json (evs' ! j))) [0..<length evs']"
    using assms by (intro filter_cong) (auto simp: chain_nth)
  ultimately show ?thesis using verify_from_spec [of evs' "chain sha ''0'' evs" sha 0 "''0''"] assms by simp
qed

section \<open>Properties\<close>

text \<open>C26: The log is tamper-evident. After any operations, if stored events are altered behind the log's
  back and the stored hashes are not, \<open>verify_integrity\<close> does not raise, and each position it lists
  holds an event whose JSON text changed; a position it does not list holds an event whose text is
  unchanged, or the two texts give a collision of the digest. In particular the untouched log
  verifies.\<close>

theorem log_tamper_evident:
  assumes "l = fold (log_do sha fmt) ops empty_log" "length evs' = length (el_events l)"
  shows "\<exists>is. verify_integrity sha (l\<lparr>el_events := evs'\<rparr>) = Ok (is = [], map issue_text is)
    \<and> (\<forall>j \<in> set is. j < length evs' \<and> event_json (evs' ! j) \<noteq> event_json (el_events l ! j))
    \<and> (\<forall>j < length evs'. j \<notin> set is \<longrightarrow> event_json (evs' ! j) = event_json (el_events l ! j)
         \<or> (\<exists>p. p @ event_json (evs' ! j) \<noteq> p @ event_json (el_events l ! j)
               \<and> sha (p @ event_json (evs' ! j)) = sha (p @ event_json (el_events l ! j))))"
proof -
  have c: "el_hashes l = chain sha ''0'' (el_events l)"
    using reachable_log_inv [of sha fmt ops] assms(1) by (simp add: log_inv_def)
  let ?p = "\<lambda>j. (''0'' # chain sha ''0'' (el_events l)) ! j"
  let ?is = "filter (\<lambda>j. sha (?p j @ event_json (el_events l ! j)) \<noteq> sha (?p j @ event_json (evs' ! j))) [0..<length evs']"
  have "verify_integrity sha (l\<lparr>el_events := evs'\<rparr>) = Ok (?is = [], map issue_text ?is)"
    using verify_against_chain [of evs' "el_events l" sha] assms(2) by (simp add: verify_integrity_def c)
  moreover have "\<forall>j \<in> set ?is. j < length evs' \<and> event_json (evs' ! j) \<noteq> event_json (el_events l ! j)"
    by auto
  moreover have "\<forall>j < length evs'. j \<notin> set ?is \<longrightarrow> event_json (evs' ! j) = event_json (el_events l ! j)
         \<or> (\<exists>p. p @ event_json (evs' ! j) \<noteq> p @ event_json (el_events l ! j)
               \<and> sha (p @ event_json (evs' ! j)) = sha (p @ event_json (el_events l ! j)))"
  proof (intro allI impI)
    fix j assume "j < length evs'" "j \<notin> set ?is"
    then have "sha (?p j @ event_json (evs' ! j)) = sha (?p j @ event_json (el_events l ! j))" by simp
    then show "event_json (evs' ! j) = event_json (el_events l ! j)
         \<or> (\<exists>p. p @ event_json (evs' ! j) \<noteq> p @ event_json (el_events l ! j)
               \<and> sha (p @ event_json (evs' ! j)) = sha (p @ event_json (el_events l ! j)))"
      by (cases "event_json (evs' ! j) = event_json (el_events l ! j)") (auto intro: exI [of _ "?p j"])
  qed
  ultimately show ?thesis by blast
qed

text \<open>Two appended events and the altered second one, for concrete runs; the digest is the text itself.\<close>

definition pay_event :: "int \<Rightarrow> event" where
  "pay_event n = [(''event_id'', VStr ''e''), (''timestamp'', VStr ''t''),
     (''transaction_id'', VStr ''T''), (''amount'', VInt n), (''status'', VStr ''done'')]"

definition two_events :: "log_op list" where
  "two_events = [LogAppend env0 (pay_event 5), LogAppend env0 (pay_event 7)]"

lemma two_events_log:
  "el_events (fold (log_do id (\<lambda>t. ''t'')) two_events empty_log) = [pay_event 5, pay_event 7]"
  "el_by_tx (fold (log_do id (\<lambda>t. ''t'')) two_events empty_log) = [(VStr ''T'', [0, 1])]"
  by (code_simp, code_simp)

lemma log_tamper_evident_witness:
  "\<exists>is. verify_integrity id (fold (log_do id (\<lambda>t. ''t'')) two_events empty_log
      \<lparr>el_events := [pay_event 5, pay_event 700]\<rparr>) = Ok (is = [], map issue_text is)"
  using log_tamper_evident [OF refl, of "[pay_event 5, pay_event 700]" id "\<lambda>t. ''t''" two_events]
  by (auto simp: two_events_log)

text \<open>What the chain does not see: removing the last events, however many, leaves a log that
  verifies without an issue although its hashes outnumber its events; and any events whatsoever verify
  once the hashes are recomputed over them, since the digest is not keyed.\<close>

theorem truncation_unnoticed:
  assumes "l = fold (log_do sha fmt) ops empty_log"
  shows "verify_integrity sha (l\<lparr>el_events := take n (el_events l)\<rparr>) = Ok (True, [])
    \<and> verify_integrity sha (l\<lparr>el_events := evs, el_hashes := chain sha ''0'' evs\<rparr>) = Ok (True, [])"
proof -
  have c: "el_hashes l = chain sha ''0'' (el_events l)"
    using reachable_log_inv [of sha fmt ops] assms by (simp add: log_inv_def)
  have "verify_from sha 0 ''0'' (take n (el_events l)) (chain sha ''0'' (el_events l)) = Ok []"
    by (subst verify_against_chain) (auto simp: filter_empty_conv)
  moreover have "verify_from sha 0 ''0'' evs (chain sha ''0'' evs) = Ok []"
    by (subst verify_against_chain) auto
  ultimately show ?thesis by (simp add: verify_integrity_def c)
qed

lemma truncation_unnoticed_witness:
  "verify_integrity id (fold (log_do id (\<lambda>t. ''t'')) two_events empty_log\<lparr>el_events := [pay_event 5]\<rparr>)
     = Ok (True, [])"
  using truncation_unnoticed [OF refl, where sha = id and fmt = "\<lambda>t. ''t''" and ops = two_events and n = 1]
  by (simp add: two_events_log)

lemma map_filter_nth: "map ((!) xs) (filter (\<lambda>i. P (xs ! i)) [0..<length xs]) = filter P xs"
proof -
  have "map ((!) xs) (filter (P \<circ> (!) xs) [0..<length xs]) = filter P (map ((!) xs) [0..<length xs])"
    by (rule filter_map [symmetric])
  then show ?thesis by (simp add: map_nth comp_def)
qed

text \<open>The events of a transaction.\<close>

definition tx_events :: "string \<Rightarrow> event list \<Rightarrow> event list" where
  "tx_events tx evs = filter (\<lambda>ev. dget ev ''transaction_id'' = Some (VStr tx)) evs"

lemma get_events_exact: "log_inv sha l \<Longrightarrow> get_events tx l = tx_events tx (el_events l)"
  using map_filter_nth [of "el_events l" "\<lambda>ev. dget ev ''transaction_id'' = Some (VStr tx)"]
  by (simp add: get_events_def log_inv_def tx_events_def)

text \<open>What a replay computes from the events: the last status they carry, the balance changes.\<close>

definition last_status :: "event list \<Rightarrow> pyval" where
  "last_status evs = last (VStr ''initial'' # map (\<lambda>ev. eget ev ''status'') (filter (\<lambda>ev. has_key ev ''status'') evs))"

definition changes_of :: "event list \<Rightarrow> (pyval \<times> pyval) list" where
  "changes_of evs = map (\<lambda>ev. (eget ev ''amount'', eget ev ''timestamp''))
     (filter (\<lambda>ev. eget ev ''event_type'' = VStr ''balance_modified'') evs)"

lemma replay_all_none:
  "replay_all None evs st = Ok (st\<lparr>rr_events := rr_events st
        @ map (\<lambda>ev. (eget ev ''event_type'', eget ev ''timestamp'', eget ev ''status'')) evs,
      rr_status := last (rr_status st # map (\<lambda>ev. eget ev ''status'') (filter (\<lambda>ev. has_key ev ''status'') evs)),
      rr_changes := rr_changes st @ changes_of evs\<rparr>)"
proof (induction evs arbitrary: st)
  case (Cons ev evs)
  then show ?case
    by (cases "dget ev ''status''") (simp_all add: replay_one_def Let_def changes_of_def has_key_def dget_or_def)
qed (simp add: changes_of_def)

text \<open>Replay reads exactly the transaction's events, in the order they were appended, also when
  other events raised \<open>TypeError\<close> on being indexed: it fails exactly when there is none, and otherwise
  returns one timeline entry per event, the last status any of them carries (\<open>initial\<close> if none does)
  and the amounts of those that modify a balance.\<close>

theorem replay_faithful:
  assumes "l = fold (log_do sha fmt) ops empty_log"
  shows "get_events tx l = tx_events tx (el_events l)
    \<and> replay tx None l =
       (let evs = tx_events tx (el_events l) in
        if evs = [] then Err (replay_error (''No events found for transaction '' @ tx))
        else Ok \<lparr>rr_tx = tx,
          rr_events = map (\<lambda>ev. (eget ev ''event_type'', eget ev ''timestamp'', eget ev ''status'')) evs,
          rr_status = last_status evs, rr_changes = changes_of evs, rr_extra = []\<rparr>)"
  using get_events_exact [OF reachable_log_inv [of sha fmt ops], of tx]
  by (simp add: assms replay_def Let_def replay_all_none init_replay_def last_status_def)

lemma replay_faithful_witness:
  "\<exists>st. replay ''T'' None (fold (log_do id (\<lambda>t. ''t'')) two_events empty_log) = Ok st
     \<and> rr_status st = VStr ''done'' \<and> length (rr_events st) = 2"
  using replay_faithful [OF refl, of "''T''" id "\<lambda>t. ''t''" two_events]
  by (simp add: two_events_log tx_events_def last_status_def pay_event_def has_key_def dget_or_def Let_def)

end
