(* ===== verification/Event_Streaming.thy ===== *)
theory Event_Streaming
  imports Prelude "HOL-Library.Product_Lexorder" "HOL-Library.Multiset"
begin

text \<open>
  The event stream (\<open>backend/app/services/event_streaming.py\<close>): deduplication, the ordered buffer, the
  store with its retention policy, the service that captures events and feeds subscribers.

  An event keeps the fields the code reads: the optional \<open>tx_\<close>, \<open>amt_\<close> and \<open>acc_\<close> fields are those
  its class has, the amount as the text an f-string gives. Timestamps carry a time zone. The digest
  \<open>sha\<close>, the text of a time \<open>fmt\<close> and the day of a time \<open>day\<close> are parameters, as is the construction of
  an event by its pydantic class (\<open>event_schemas.py\<close>), which may raise. The comparison of a
  \<open>datetime\<close> with a \<open>date\<close> in the retention policy raises \<open>TypeError\<close>, so the monthly aggregation
  behind it cannot run and the model has none.
\<close>

section \<open>Events\<close>

record stream_event =
  se_id :: string
  se_type :: string
  se_user :: int
  se_time :: time
  se_seq :: "int option"
  se_tx :: "int option"
  se_amount :: "string option"
  se_account :: "int option"

section \<open>The buffer\<close>

record event_buffer =
  sb_window :: int
  sb_buffer :: "(int, stream_event list) dict"
  sb_marks :: "(int, time) dict"

definition add_event :: "time \<Rightarrow> stream_event \<Rightarrow> event_buffer \<Rightarrow> (bool \<times> string option) \<times> event_buffer" where
  "add_event now ev b =
     (if se_time ev < now - seconds (sb_window b * 2) then ((False, Some ''event_too_old''), b)
      else (let uid = se_user ev in
        ((True, None),
         b\<lparr>sb_buffer := dset uid (dget_or (sb_buffer b) uid [] @ [ev]) (sb_buffer b),
           sb_marks := (case dget (sb_marks b) uid of
              None \<Rightarrow> dset uid (se_time ev) (sb_marks b)
            | Some m \<Rightarrow> dset uid (max m (se_time ev)) (sb_marks b))\<rparr>)))"

definition order_key :: "stream_event \<Rightarrow> time \<times> int" where
  "order_key ev = (se_time ev, case se_seq ev of None \<Rightarrow> 0 | Some n \<Rightarrow> n)"

definition get_ordered_events :: "int \<Rightarrow> int \<Rightarrow> event_buffer \<Rightarrow> stream_event list \<times> event_buffer" where
  "get_ordered_events uid limit b =
     (case dget (sb_buffer b) uid of
        None \<Rightarrow> ([], b)
      | Some evs \<Rightarrow>
          (let sorted_evs = sort_key order_key evs
           in (py_take limit sorted_evs, b\<lparr>sb_buffer := dset uid (py_drop limit sorted_evs) (sb_buffer b)\<rparr>)))"

definition cleanup_old_events :: "time \<Rightarrow> event_buffer \<Rightarrow> event_buffer" where
  "cleanup_old_events now b =
     b\<lparr>sb_buffer := filter (\<lambda>(uid, evs). evs \<noteq> [])
         (map (\<lambda>(uid, evs). (uid, filter (\<lambda>ev. now - seconds (sb_window b * 2) \<le> se_time ev) evs))
           (sb_buffer b))\<rparr>"

section \<open>Deduplication\<close>

record deduplicator =
  sd_ttl :: int
  sd_seen :: "(string, time) dict"
  sd_hashes :: "(string, time) dict"

fun joined :: "string \<Rightarrow> string list \<Rightarrow> string" where
  "joined sep [] = ''''"
| "joined sep [s] = s"
| "joined sep (s # ss) = s @ sep @ joined sep ss"

definition key_fields :: "(time \<Rightarrow> string) \<Rightarrow> stream_event \<Rightarrow> string list" where
  "key_fields fmt ev =
     [str_int (se_user ev), se_type ev, fmt (se_time ev)]
     @ (case se_tx ev of None \<Rightarrow> [] | Some t \<Rightarrow> [''tx_'' @ str_int t])
     @ (case se_amount ev of None \<Rightarrow> [] | Some a \<Rightarrow> [''amt_'' @ a])
     @ (case se_account ev of None \<Rightarrow> [] | Some a \<Rightarrow> [''acc_'' @ str_int a])"

definition content_hash :: "(string \<Rightarrow> string) \<Rightarrow> (time \<Rightarrow> string) \<Rightarrow> stream_event \<Rightarrow> string" where
  "content_hash sha fmt ev = sha (joined ''|'' (key_fields fmt ev))"

definition is_duplicate ::
    "(string \<Rightarrow> string) \<Rightarrow> (time \<Rightarrow> string) \<Rightarrow> time \<Rightarrow> stream_event \<Rightarrow> deduplicator
     \<Rightarrow> (bool \<times> string option) \<times> deduplicator" where
  "is_duplicate sha fmt now ev d =
     (if has_key (sd_seen d) (se_id ev) then ((True, Some ''duplicate_event_id''), d)
      else (let h = content_hash sha fmt ev;
                mark = d\<lparr>sd_seen := dset (se_id ev) now (sd_seen d), sd_hashes := dset h now (sd_hashes d)\<rparr>
            in case dget (sd_hashes d) h of
                 Some t \<Rightarrow> if now - t < seconds 60 then ((True, Some ''duplicate_content''), d)
                           else ((False, None), mark)
               | None \<Rightarrow> ((False, None), mark)))"

definition cleanup_old_entries :: "time \<Rightarrow> deduplicator \<Rightarrow> deduplicator" where
  "cleanup_old_entries now d =
     d\<lparr>sd_seen := filter (\<lambda>(k, t). now - seconds (sd_ttl d) \<le> t) (sd_seen d),
       sd_hashes := filter (\<lambda>(k, t). now - seconds (sd_ttl d) \<le> t) (sd_hashes d)\<rparr>"

section \<open>The store and its retention policy\<close>

record daily_aggregate =
  da_date :: string
  da_users :: "(int, (string, nat) dict) dict"
  da_counts :: "(string, nat) dict"
  da_total :: nat

record stream_store =
  xs_detailed :: "(stream_event \<times> time) list"
  xs_daily :: "(string, daily_aggregate) dict"
  xs_last :: time

definition store_event :: "time \<Rightarrow> stream_event \<Rightarrow> stream_store \<Rightarrow> stream_store" where
  "store_event now ev x = x\<lparr>xs_detailed := xs_detailed x @ [(ev, now)]\<rparr>"

text \<open>\<open>EventStore.get_events\<close>: an empty list of types counts as none; newest first, ties in order.\<close>

definition query_events ::
    "int option \<Rightarrow> string list option \<Rightarrow> time option \<Rightarrow> time option \<Rightarrow> int \<Rightarrow> stream_store
     \<Rightarrow> (stream_event \<times> time) list" where
  "query_events uid types start stop limit x =
     (let sel = filter (\<lambda>(ev, at).
            (case uid of None \<Rightarrow> True | Some u \<Rightarrow> se_user ev = u)
          \<and> (case types of None \<Rightarrow> True | Some [] \<Rightarrow> True | Some ts \<Rightarrow> se_type ev \<in> set ts)
          \<and> (case start of None \<Rightarrow> True | Some t \<Rightarrow> t \<le> se_time ev)
          \<and> (case stop of None \<Rightarrow> True | Some t \<Rightarrow> se_time ev \<le> t)) (xs_detailed x)
      in py_take limit (rev (sort_key (\<lambda>(ev, at). se_time ev) (rev sel))))"

definition bump :: "string \<Rightarrow> (string, nat) dict \<Rightarrow> (string, nat) dict" where
  "bump k d = dset k (dget_or d k 0 + 1) d"

text \<open>The body of the loop that aggregates an old event into its day.\<close>

definition aggregate_event :: "(time \<Rightarrow> string) \<Rightarrow> stream_event \<Rightarrow> (string, daily_aggregate) dict
     \<Rightarrow> (string, daily_aggregate) dict" where
  "aggregate_event day ev ds =
     (let k = day (se_time ev);
          agg = dget_or ds k \<lparr>da_date = k, da_users = [], da_counts = [], da_total = 0\<rparr>
      in dset k (agg\<lparr>da_users := dset (se_user ev) (bump (se_type ev) (dget_or (da_users agg) (se_user ev) []))
                                   (da_users agg),
                     da_counts := bump (se_type ev) (da_counts agg), da_total := da_total agg + 1\<rparr>) ds)"

text \<open>\<open>datetime.fromisoformat(k) < cutoff_daily.date()\<close>\<close>

definition datetime_lt_date :: "string \<Rightarrow> bool result" where
  "datetime_lt_date k = Err (TypeError ''can't compare datetime.datetime to datetime.date'')"

fun select_daily :: "(string, daily_aggregate) dict \<Rightarrow> (string, daily_aggregate) dict result" where
  "select_daily [] = Ok []"
| "select_daily ((k, a) # ds) =
     (case datetime_lt_date k of
        Inl err \<Rightarrow> Err err
      | Inr b \<Rightarrow> (case select_daily ds of
            Inl err \<Rightarrow> Err err
          | Inr sel \<Rightarrow> Ok (if b then (k, a) # sel else sel)))"

definition apply_retention_policy :: "(time \<Rightarrow> string) \<Rightarrow> time \<Rightarrow> stream_store \<Rightarrow> unit result \<times> stream_store" where
  "apply_retention_policy day now x =
     (if now - xs_last x < seconds 3600 then (Ok (), x)
      else
        let cutoff = now - seconds (90 * 86400);
            old = filter (\<lambda>(ev, at). se_time ev < cutoff) (xs_detailed x);
            daily = fold (\<lambda>(ev, at). aggregate_event day ev) old (xs_daily x);
            x1 = x\<lparr>xs_daily := daily, xs_detailed := filter (\<lambda>(ev, at). cutoff \<le> se_time ev) (xs_detailed x)\<rparr>
        in case select_daily daily of
             Inl err \<Rightarrow> (Err err, x1)
           | Inr sel \<Rightarrow> (Ok (), x1\<lparr>xs_daily := filter (\<lambda>(k, a). k \<notin> set (map fst sel)) daily, xs_last := now\<rparr>))"

section \<open>The service\<close>

record stream_service =
  ev_buffer :: event_buffer
  ev_dedup :: deduplicator
  ev_store :: stream_store
  ev_seq :: "(int, int) dict"
  ev_subs :: "(nat \<times> stream_event list) list"
  ev_next :: nat

definition init_stream :: "time \<Rightarrow> stream_service" where
  "init_stream now =
     \<lparr>ev_buffer = \<lparr>sb_window = 300, sb_buffer = [], sb_marks = []\<rparr>,
      ev_dedup = \<lparr>sd_ttl = 3600, sd_seen = [], sd_hashes = []\<rparr>,
      ev_store = \<lparr>xs_detailed = [], xs_daily = [], xs_last = now\<rparr>,
      ev_seq = [], ev_subs = [], ev_next = 0\<rparr>"

text \<open>\<open>put_nowait\<close> on a queue of at most 100 events; a full one drops the event.\<close>

definition notify_one :: "stream_event \<Rightarrow> stream_event list \<Rightarrow> stream_event list" where
  "notify_one ev q = (if length q < 100 then q @ [ev] else q)"

definition notify_subscribers :: "stream_event \<Rightarrow> stream_service \<Rightarrow> stream_service" where
  "notify_subscribers ev s = s\<lparr>ev_subs := map (\<lambda>(i, q). (i, notify_one ev q)) (ev_subs s)\<rparr>"

definition subscribe :: "stream_service \<Rightarrow> nat \<times> stream_service" where
  "subscribe s = (ev_next s, s\<lparr>ev_subs := ev_subs s @ [(ev_next s, [])], ev_next := Suc (ev_next s)\<rparr>)"

definition unsubscribe :: "nat \<Rightarrow> stream_service \<Rightarrow> stream_service" where
  "unsubscribe i s = s\<lparr>ev_subs := filter (\<lambda>(j, q). j \<noteq> i) (ev_subs s)\<rparr>"

text \<open>
  What a pydantic class makes of a call: from the id, the type, the user, the sequence number and the
  rest of the data \<open>'d\<close>, an event or an exception.
\<close>

type_synonym 'd schema = "string \<Rightarrow> string \<Rightarrow> int \<Rightarrow> int \<Rightarrow> 'd \<Rightarrow> stream_event result"

definition reason_text :: "string \<Rightarrow> string option \<Rightarrow> string" where
  "reason_text what r = what @ '': '' @ (case r of None \<Rightarrow> ''None'' | Some t \<Rightarrow> t)"

definition capture_event ::
    "'d schema \<Rightarrow> (string \<Rightarrow> string) \<Rightarrow> (time \<Rightarrow> string) \<Rightarrow> env \<Rightarrow> string \<Rightarrow> int \<Rightarrow> 'd \<Rightarrow> stream_service
     \<Rightarrow> (bool \<times> string option) \<times> stream_service" where
  "capture_event mk sha fmt e ty uid data s =
     (let n = dget_or (ev_seq s) uid 0 + 1;
          s1 = s\<lparr>ev_seq := dset uid n (ev_seq s)\<rparr>
      in case mk (uuid e 0) ty uid n data of
           Inl err \<Rightarrow> ((False, Some (err_str err)), s1)
         | Inr ev \<Rightarrow>
             (case is_duplicate sha fmt (clock e 0) ev (ev_dedup s1) of
                ((dup, why), d) \<Rightarrow>
                  (if dup then ((False, Some (reason_text ''duplicate'' why)), s1)
                   else
                     let s2 = s1\<lparr>ev_dedup := d\<rparr> in
                     case add_event (clock e 1) ev (ev_buffer s2) of
                       ((ok, skip), b) \<Rightarrow>
                         if \<not> ok then ((False, Some (reason_text ''skipped'' skip)), s2)
                         else ((True, None),
                           notify_subscribers ev
                             (s2\<lparr>ev_buffer := b, ev_store := store_event (clock e 2) ev (ev_store s2)\<rparr>)))))"

definition stream_get_events ::
    "int \<Rightarrow> string list option \<Rightarrow> time option \<Rightarrow> time option \<Rightarrow> int \<Rightarrow> stream_service
     \<Rightarrow> (stream_event \<times> time) list" where
  "stream_get_events uid types start stop limit s =
     query_events (Some uid) types start stop limit (ev_store s)"

text \<open>One turn of \<open>_periodic_cleanup\<close>; it logs what the retention policy raises and goes on.\<close>

definition periodic_cleanup :: "(time \<Rightarrow> string) \<Rightarrow> env \<Rightarrow> stream_service \<Rightarrow> stream_service" where
  "periodic_cleanup day e s =
     s\<lparr>ev_buffer := cleanup_old_events (clock e 0) (ev_buffer s),
       ev_dedup := cleanup_old_entries (clock e 1) (ev_dedup s),
       ev_store := snd (apply_retention_policy day (clock e 2) (ev_store s))\<rparr>"

section \<open>Capturing\<close>

text \<open>Whether the deduplicator lets an event pass at a time.\<close>

definition is_new :: "(string \<Rightarrow> string) \<Rightarrow> (time \<Rightarrow> string) \<Rightarrow> time \<Rightarrow> stream_event \<Rightarrow> deduplicator \<Rightarrow> bool" where
  "is_new sha fmt now ev d \<longleftrightarrow> \<not> has_key (sd_seen d) (se_id ev)
     \<and> (case dget (sd_hashes d) (content_hash sha fmt ev) of None \<Rightarrow> True | Some t \<Rightarrow> seconds 60 \<le> now - t)"

lemma is_duplicate_new:
  "fst (fst (is_duplicate sha fmt now ev d)) \<longleftrightarrow> \<not> is_new sha fmt now ev d"
  "is_new sha fmt now ev d \<Longrightarrow> is_duplicate sha fmt now ev d =
     ((False, None), d\<lparr>sd_seen := dset (se_id ev) now (sd_seen d),
                       sd_hashes := dset (content_hash sha fmt ev) now (sd_hashes d)\<rparr>)"
  by (auto simp: is_duplicate_def is_new_def Let_def split: option.splits)

lemma add_event_ok:
  "fst (fst (add_event now ev b)) \<longleftrightarrow> now - seconds (sb_window b * 2) \<le> se_time ev"
  "now - seconds (sb_window b * 2) \<le> se_time ev \<Longrightarrow>
   dget_or (sb_buffer (snd (add_event now ev b))) uid [] =
     dget_or (sb_buffer b) uid [] @ (if uid = se_user ev then [ev] else [])"
  by (auto simp: add_event_def Let_def)

lemma notify_frame [frame_simps]:
  "ev_store (notify_subscribers ev s) = ev_store s" "ev_dedup (notify_subscribers ev s) = ev_dedup s"
  "ev_buffer (notify_subscribers ev s) = ev_buffer s" "ev_seq (notify_subscribers ev s) = ev_seq s"
  "map fst (ev_subs (notify_subscribers ev s)) = map fst (ev_subs s)"
  by (simp_all add: notify_subscribers_def comp_def case_prod_beta)

text \<open>The three ways a capture ends.\<close>

lemma capture_cases:
  assumes "capture_event mk sha fmt e ty uid data s = ((ok, why), s')"
  obtains (rejected) "\<not> ok" "ev_store s' = ev_store s" "ev_buffer s' = ev_buffer s" "ev_subs s' = ev_subs s"
      "ev_seq s' = dset uid (dget_or (ev_seq s) uid 0 + 1) (ev_seq s)"
      "\<forall>k. has_key (sd_seen (ev_dedup s)) k \<longrightarrow> has_key (sd_seen (ev_dedup s')) k"
      "\<forall>ev. mk (uuid e 0) ty uid (dget_or (ev_seq s) uid 0 + 1) data = Ok ev \<longrightarrow>
         \<not> (is_new sha fmt (clock e 0) ev (ev_dedup s)
             \<and> clock e 1 - seconds (sb_window (ev_buffer s) * 2) \<le> se_time ev)"
  | (accepted) ev where "ok" "mk (uuid e 0) ty uid (dget_or (ev_seq s) uid 0 + 1) data = Ok ev"
      "is_new sha fmt (clock e 0) ev (ev_dedup s)"
      "clock e 1 - seconds (sb_window (ev_buffer s) * 2) \<le> se_time ev"
      "ev_store s' = store_event (clock e 2) ev (ev_store s)"
      "ev_buffer s' = snd (add_event (clock e 1) ev (ev_buffer s))"
      "ev_subs s' = map (\<lambda>(i, q). (i, notify_one ev q)) (ev_subs s)"
      "ev_seq s' = dset uid (dget_or (ev_seq s) uid 0 + 1) (ev_seq s)"
      "sd_seen (ev_dedup s') = dset (se_id ev) (clock e 0) (sd_seen (ev_dedup s))"
proof (cases "mk (uuid e 0) ty uid (dget_or (ev_seq s) uid 0 + 1) data")
  case (Inl err)
  with assms show thesis by (intro rejected) (auto simp: capture_event_def Let_def)
next
  case (Inr ev)
  let ?d = "is_duplicate sha fmt (clock e 0) ev (ev_dedup s)"
  let ?b = "add_event (clock e 1) ev (ev_buffer s)"
  show thesis
  proof (cases "is_new sha fmt (clock e 0) ev (ev_dedup s)")
    case False
    then have "fst (fst ?d)" using is_duplicate_new(1) by blast
    then obtain w d where "?d = ((True, w), d)" by (metis prod.collapse)
    with assms Inr False show thesis by (intro rejected) (auto simp: capture_event_def Let_def)
  next
    case True
    note d = is_duplicate_new(2) [OF True]
    show thesis
    proof (cases "clock e 1 - seconds (sb_window (ev_buffer s) * 2) \<le> se_time ev")
      case False
      then have "\<not> fst (fst ?b)" using add_event_ok(1) by blast
      then obtain w b where "?b = ((False, w), b)" by (metis prod.collapse)
      with assms Inr d False show thesis by (intro rejected) (auto simp: capture_event_def Let_def)
    next
      case in_window: True
      then have "fst (fst ?b)" using add_event_ok(1) by blast
      then obtain w b where "?b = ((True, w), b)" by (metis prod.collapse)
      with assms Inr d True in_window show thesis
        by (intro accepted [of ev]) (auto simp: capture_event_def Let_def notify_subscribers_def)
    qed
  qed
qed

section \<open>Runs of captures\<close>

text \<open>
  A run of captures, each with its environment, type, user and data, between two cleanups.
\<close>

definition capture_all ::
    "'d schema \<Rightarrow> (string \<Rightarrow> string) \<Rightarrow> (time \<Rightarrow> string) \<Rightarrow> (env \<times> string \<times> int \<times> 'd) list
     \<Rightarrow> stream_service \<Rightarrow> stream_service" where
  "capture_all mk sha fmt cs s = fold (\<lambda>(e, ty, uid, data) s. snd (capture_event mk sha fmt e ty uid data s)) cs s"

text \<open>The classes put the id, user and sequence number they are given into the event.\<close>

definition schema_ok :: "'d schema \<Rightarrow> bool" where
  "schema_ok mk \<longleftrightarrow> (\<forall>i ty uid n d ev. mk i ty uid n d = Ok ev \<longrightarrow>
     se_id ev = i \<and> se_user ev = uid \<and> se_seq ev = Some n)"

definition user_seqs :: "int \<Rightarrow> (stream_event \<times> time) list \<Rightarrow> int list" where
  "user_seqs uid xs = map (the \<circ> se_seq \<circ> fst) (filter (\<lambda>(ev, at). se_user ev = uid) xs)"

lemma user_seqs_append: "user_seqs uid (xs @ ys) = user_seqs uid xs @ user_seqs uid ys"
  by (simp add: user_seqs_def)

text \<open>Ids in the store are distinct and known; a user's numbers rise and stay below the counter.\<close>

definition stream_inv :: "stream_service \<Rightarrow> bool" where
  "stream_inv s \<longleftrightarrow>
     distinct (map (se_id \<circ> fst) (xs_detailed (ev_store s)))
   \<and> (\<forall>x \<in> set (xs_detailed (ev_store s)). has_key (sd_seen (ev_dedup s)) (se_id (fst x)))
   \<and> (\<forall>uid. sorted_wrt (<) (user_seqs uid (xs_detailed (ev_store s)))
        \<and> (\<forall>n \<in> set (user_seqs uid (xs_detailed (ev_store s))). n \<le> dget_or (ev_seq s) uid 0))"

lemma capture_inv:
  assumes "stream_inv s" "schema_ok mk"
  shows "stream_inv (snd (capture_event mk sha fmt e ty uid data s))"
proof -
  obtain ok why s' where x: "capture_event mk sha fmt e ty uid data s = ((ok, why), s')"
    by (metis prod.collapse)
  from x have "stream_inv s'"
  proof (cases rule: capture_cases)
    case rejected
    have "dget_or (ev_seq s) u 0 \<le> dget_or (ev_seq s') u 0" for u by (simp add: rejected(5))
    then have "n \<le> dget_or (ev_seq s') u 0" if "n \<in> set (user_seqs u (xs_detailed (ev_store s)))" for u n
      using assms(1) that unfolding stream_inv_def by (meson order_trans)
    then show ?thesis using assms(1) rejected(6) unfolding stream_inv_def rejected(2) by blast
  next
    case (accepted ev)
    have ev: "se_user ev = uid" "se_seq ev = Some (dget_or (ev_seq s) uid 0 + 1)"
      using assms(2) accepted(2) unfolding schema_ok_def by blast+
    have new: "\<not> has_key (sd_seen (ev_dedup s)) (se_id ev)" using accepted(3) by (simp add: is_new_def)
    have st: "xs_detailed (ev_store s') = xs_detailed (ev_store s) @ [(ev, clock e 2)]"
      by (simp add: accepted(5) store_event_def)
    have "user_seqs u [(ev, clock e 2)] = (if u = uid then [dget_or (ev_seq s) uid 0 + 1] else [])" for u
      by (simp add: user_seqs_def ev)
    then have sq: "user_seqs u (xs_detailed (ev_store s')) = user_seqs u (xs_detailed (ev_store s))
        @ (if u = uid then [dget_or (ev_seq s) uid 0 + 1] else [])" for u
      by (simp add: st user_seqs_append)
    have "sorted_wrt (<) (user_seqs u (xs_detailed (ev_store s')))
        \<and> (\<forall>n \<in> set (user_seqs u (xs_detailed (ev_store s'))). n \<le> dget_or (ev_seq s') u 0)" for u
      using assms(1) unfolding stream_inv_def sq accepted(8)
      by (cases "u = uid") (fastforce simp: sorted_wrt_append)+
    moreover have "distinct (map (se_id \<circ> fst) (xs_detailed (ev_store s')))"
      using assms(1) new by (auto simp: stream_inv_def st)
    ultimately show ?thesis using assms(1) by (auto simp: stream_inv_def st accepted(9))
  qed
  with x show ?thesis by simp
qed

lemma capture_all_inv:
  "stream_inv s \<Longrightarrow> schema_ok mk \<Longrightarrow> stream_inv (capture_all mk sha fmt cs s)"
  unfolding capture_all_def
  by (induction cs arbitrary: s) (auto intro: capture_inv)

section \<open>Properties\<close>

text \<open>A capture either accepts the event everywhere or leaves no trace of it: it is accepted
  exactly when its class builds it, its id is new, no event of the same content was accepted less than
  60 seconds ago and its time is within twice the window; then it is stored once, buffered once for its
  user and put on the queue of each subscriber that is not full; otherwise store, buffer and queues are
  unchanged. Either way the user's sequence counter advances.\<close>

theorem capture_all_or_nothing:
  assumes "capture_event mk sha fmt e ty uid data s = ((ok, why), s')"
  shows "dget_or (ev_seq s') uid 0 = dget_or (ev_seq s) uid 0 + 1
    \<and> (ok \<longleftrightarrow> (\<exists>ev. mk (uuid e 0) ty uid (dget_or (ev_seq s) uid 0 + 1) data = Ok ev
          \<and> is_new sha fmt (clock e 0) ev (ev_dedup s)
          \<and> clock e 1 - seconds (sb_window (ev_buffer s) * 2) \<le> se_time ev))
    \<and> (if ok
       then \<exists>ev. xs_detailed (ev_store s') = xs_detailed (ev_store s) @ [(ev, clock e 2)]
          \<and> (\<forall>u. dget_or (sb_buffer (ev_buffer s')) u [] =
                dget_or (sb_buffer (ev_buffer s)) u [] @ (if u = se_user ev then [ev] else []))
          \<and> ev_subs s' = map (\<lambda>(i, q). (i, notify_one ev q)) (ev_subs s)
       else ev_store s' = ev_store s \<and> ev_buffer s' = ev_buffer s \<and> ev_subs s' = ev_subs s)"
  using assms
proof (cases rule: capture_cases)
  case rejected
  then show ?thesis by auto
next
  case (accepted ev)
  have "\<exists>ev. xs_detailed (ev_store s') = xs_detailed (ev_store s) @ [(ev, clock e 2)]
          \<and> (\<forall>u. dget_or (sb_buffer (ev_buffer s')) u [] =
                dget_or (sb_buffer (ev_buffer s)) u [] @ (if u = se_user ev then [ev] else []))
          \<and> ev_subs s' = map (\<lambda>(i, q). (i, notify_one ev q)) (ev_subs s)"
    unfolding accepted(6) using add_event_ok(2) [OF accepted(4)]
    by (intro exI [of _ ev]) (simp add: accepted(5,7) store_event_def)
  then show ?thesis using accepted(1-4,8) by auto
qed

text \<open>A class for concrete runs: a transaction of the given amount at the given time.\<close>

definition plain_event :: "(string \<times> time) schema" where
  "plain_event i ty uid n d =
     Ok \<lparr>se_id = i, se_type = ty, se_user = uid, se_time = snd d, se_seq = Some n, se_tx = Some 7,
         se_amount = Some (fst d), se_account = None\<rparr>"

lemma capture_all_or_nothing_witness:
  "ev_store (snd (capture_event plain_event id (\<lambda>t. ''t'') (later 1 env0) ''deposit.made'' 1 (''5'', 0)
     (snd (capture_event plain_event id (\<lambda>t. ''t'') env0 ''deposit.made'' 1 (''5'', 0) (init_stream 0)))))
   = ev_store (snd (capture_event plain_event id (\<lambda>t. ''t'') env0 ''deposit.made'' 1 (''5'', 0) (init_stream 0)))"
proof -
  let ?s = "snd (capture_event plain_event id (\<lambda>t. ''t'') env0 ''deposit.made'' 1 (''5'', 0) (init_stream 0))"
  let ?c = "capture_event plain_event id (\<lambda>t. ''t'') (later 1 env0) ''deposit.made'' 1 (''5'', 0) ?s"
  have no: "\<not> fst (fst ?c)" by code_simp
  obtain ok w s2 where c: "?c = ((ok, w), s2)" by (metis prod.collapse)
  with no have "\<not> ok" by simp
  with capture_all_or_nothing [OF c] have "ev_store s2 = ev_store ?s" by simp
  then show ?thesis unfolding c snd_conv .
qed

text \<open>Between two cleanups the store never holds two events of the same id, whatever ids the
  captures draw, and the sequence numbers of a user's events are strictly increasing in the order they
  were stored.\<close>

theorem stored_events_distinct:
  assumes "schema_ok mk" "s = capture_all mk sha fmt cs (init_stream now)"
  shows "distinct (map (se_id \<circ> fst) (xs_detailed (ev_store s)))
    \<and> sorted_wrt (<) (user_seqs uid (xs_detailed (ev_store s)))"
proof -
  have "stream_inv (init_stream now)" by (simp add: stream_inv_def init_stream_def user_seqs_def)
  from capture_all_inv [OF this assms(1)] show ?thesis unfolding assms(2) stream_inv_def by blast
qed

lemma stored_events_distinct_witness:
  "distinct (map (se_id \<circ> fst) (xs_detailed (ev_store (capture_all plain_event id (\<lambda>t. ''t'')
     [(env0, ''a'', 1, (''5'', 0)), (env0, ''b'', 1, (''6'', 0))] (init_stream 0)))))"
  using stored_events_distinct [OF _ refl, of plain_event id "\<lambda>t. ''t''"
      "[(env0, ''a'', 1, (''5'', 0)), (env0, ''b'', 1, (''6'', 0))]" 0 1]
  by (simp add: schema_ok_def plain_event_def)

text \<open>Reading a user's buffer returns the events in order of time and sequence number, removes
  exactly what it returns, and leaves nothing behind that is ordered before what it returned; no event
  is lost or duplicated, whatever order they arrived in.\<close>

theorem ordered_delivery:
  assumes "get_ordered_events uid limit b = (out, b')"
  shows "sorted (map order_key (out @ dget_or (sb_buffer b') uid []))
    \<and> mset out + mset (dget_or (sb_buffer b') uid []) = mset (dget_or (sb_buffer b) uid [])
    \<and> (\<forall>u. u \<noteq> uid \<longrightarrow> dget (sb_buffer b') u = dget (sb_buffer b) u)"
proof (cases "dget (sb_buffer b) uid")
  case (Some evs)
  let ?s = "sort_key order_key evs"
  have o: "out = py_take limit ?s" "b' = b\<lparr>sb_buffer := dset uid (py_drop limit ?s) (sb_buffer b)\<rparr>"
    using assms Some by (auto simp: get_ordered_events_def Let_def)
  have "mset out + mset (py_drop limit ?s) = mset evs"
    unfolding o(1) mset_append [symmetric] by simp
  moreover have "sorted (map order_key (out @ py_drop limit ?s))"
    unfolding o(1) py_take_drop by simp
  ultimately show ?thesis by (simp add: o(2) Some dget_or_def)
qed (use assms in \<open>auto simp: get_ordered_events_def dget_or_def\<close>)

lemma ordered_delivery_witness:
  "sorted (map order_key (fst (get_ordered_events 1 100
     (ev_buffer (capture_all plain_event id (\<lambda>t. ''t'')
        [(env0, ''a'', 1, (''5'', 3)), (later 1 env0, ''b'', 1, (''6'', 2))] (init_stream 0))))))"
  using ordered_delivery [OF prod.collapse [symmetric], of 1 100
      "ev_buffer (capture_all plain_event id (\<lambda>t. ''t'')
        [(env0, ''a'', 1, (''5'', 3)), (later 1 env0, ''b'', 1, (''6'', 2))] (init_stream 0))"]
  by (simp add: sorted_append del: capture_all_def)

text \<open>The events a store accounts for: those it holds and those its daily aggregates count.\<close>

definition accounted :: "stream_store \<Rightarrow> nat" where
  "accounted x = length (xs_detailed x) + sum_list (map (da_total \<circ> snd) (xs_daily x))"

lemma sum_dset:
  fixes f :: "'v \<Rightarrow> nat"
  assumes "f (dget_or d k z) + 1 = f v" "f z = 0"
  shows "sum_list (map (f \<circ> snd) (dset k v d)) = sum_list (map (f \<circ> snd) d) + 1"
  using assms by (induction d) (auto simp: dget_or_def)

lemma aggregate_total:
  "sum_list (map (da_total \<circ> snd) (aggregate_event day ev ds)) = sum_list (map (da_total \<circ> snd) ds) + 1"
  unfolding aggregate_event_def Let_def
  by (rule sum_dset [where z = "\<lparr>da_date = day (se_time ev), da_users = [], da_counts = [], da_total = 0\<rparr>"])
     simp_all

lemma aggregate_all_total:
  "sum_list (map (da_total \<circ> snd) (fold (\<lambda>(ev, at). aggregate_event day ev) old ds))
     = sum_list (map (da_total \<circ> snd) ds) + length old"
  by (induction old arbitrary: ds) (auto simp: aggregate_total simp del: map_map)

lemma aggregate_nonempty: "aggregate_event day ev ds \<noteq> []"
  unfolding aggregate_event_def Let_def by (rule dset_nonempty)

lemma aggregate_all_nonempty:
  "ds \<noteq> [] \<or> old \<noteq> [] \<Longrightarrow> fold (\<lambda>(ev, at). aggregate_event day ev) old ds \<noteq> []"
  by (induction old arbitrary: ds) (auto simp: aggregate_nonempty)

lemma select_daily_cases:
  "select_daily ds = (if ds = [] then Ok [] else Err (TypeError ''can't compare datetime.datetime to datetime.date''))"
  by (cases ds) (auto simp: datetime_lt_date_def)

lemma length_split:
  "length (filter (\<lambda>(ev, at). se_time ev < c) xs) + length (filter (\<lambda>(ev, at). c \<le> se_time ev) xs) = length xs"
  by (induction xs) auto

text \<open>The retention policy never loses count of an event: also when it raises, the events kept plus
  those counted in daily aggregates are as many as before. But it raises \<open>TypeError\<close> on every run that
  is due and finds an event older than 90 days or a daily aggregate, and the aggregate then stays, so
  from its first old event on every due run raises: no aggregate ever ages out, none is ever made
  monthly and the time of the last cleanup stays put.\<close>

theorem retention_policy_raises:
  "accounted (snd (apply_retention_policy day now x)) = accounted x
   \<and> (seconds 3600 \<le> now - xs_last x \<longrightarrow>
       (\<exists>(ev, at) \<in> set (xs_detailed x). se_time ev < now - seconds (90 * 86400)) \<or> xs_daily x \<noteq> [] \<longrightarrow>
       fst (apply_retention_policy day now x) =
         Err (TypeError ''can't compare datetime.datetime to datetime.date'')
       \<and> xs_daily (snd (apply_retention_policy day now x)) \<noteq> []
       \<and> xs_last (snd (apply_retention_policy day now x)) = xs_last x)"
proof -
  let ?c = "now - seconds (90 * 86400)"
  let ?old = "filter (\<lambda>(ev, at). se_time ev < ?c) (xs_detailed x)"
  let ?new = "filter (\<lambda>(ev, at). ?c \<le> se_time ev) (xs_detailed x)"
  let ?d = "fold (\<lambda>(ev, at). aggregate_event day ev) ?old (xs_daily x)"
  have len: "length ?old + length ?new = length (xs_detailed x)"
    by (rule length_split)
  have tot: "sum_list (map (da_total \<circ> snd) ?d) + length ?new = accounted x"
    using len by (simp add: aggregate_all_total accounted_def)
  have ne: "?d \<noteq> []"
    if "(\<exists>(ev, at) \<in> set (xs_detailed x). se_time ev < ?c) \<or> xs_daily x \<noteq> []"
    using that by (intro aggregate_all_nonempty) (fastforce simp: filter_empty_conv)
  show ?thesis
  proof (cases "now - xs_last x < seconds 3600")
    case False
    then have "apply_retention_policy day now x =
      (if ?d = [] then (Ok (), x\<lparr>xs_detailed := ?new, xs_daily := [], xs_last := now\<rparr>)
       else (Err (TypeError ''can't compare datetime.datetime to datetime.date''),
             x\<lparr>xs_detailed := ?new, xs_daily := ?d\<rparr>))"
      by (simp add: apply_retention_policy_def Let_def select_daily_cases)
    with tot ne show ?thesis by (auto simp: accounted_def)
  qed (simp add: apply_retention_policy_def)
qed

lemma retention_policy_raises_witness:
  "fst (apply_retention_policy (\<lambda>t. ''2024-01-01'') (seconds (91 * 86400))
      (store_event 0 \<lparr>se_id = ''e'', se_type = ''a'', se_user = 1, se_time = 0, se_seq = None, se_tx = None,
          se_amount = None, se_account = None\<rparr> \<lparr>xs_detailed = [], xs_daily = [], xs_last = 0\<rparr>))
    = Err (TypeError ''can't compare datetime.datetime to datetime.date'')"
  using retention_policy_raises [of "\<lambda>t. ''2024-01-01''" "seconds (91 * 86400)"
      "store_event 0 \<lparr>se_id = ''e'', se_type = ''a'', se_user = 1, se_time = 0, se_seq = None, se_tx = None,
          se_amount = None, se_account = None\<rparr> \<lparr>xs_detailed = [], xs_daily = [], xs_last = 0\<rparr>"]
  by (simp add: store_event_def)

end
