(* ===== verification/Audit_Logger.thy ===== *)
theory Audit_Logger
  imports PyJson PyDecimal
begin

text \<open>
  The audit log (\<open>backend/app/services/audit_logger.py\<close>): sanitising, logging with severities and
  rotation, the trail of a user, the security summary, the export.

  Times are microseconds; amounts are the rational values of the source's floats. A request is the
  host of its client and its headers. The alert for critical events is empty in the source, the JSON
  text of the export is left out.
\<close>

section \<open>Events and entries\<close>

datatype audit_type =
    AE_LOGIN_SUCCESS | AE_LOGIN_FAILURE | AE_LOGOUT | AE_PASSWORD_CHANGE | AE_MFA_ENABLED
  | AE_MFA_DISABLED | AE_MFA_VERIFICATION | AE_ACCOUNT_CREATED | AE_ACCOUNT_UPDATED
  | AE_ACCOUNT_DELETED | AE_ACCOUNT_LOCKED | AE_ACCOUNT_UNLOCKED | AE_TRANSACTION_CREATED
  | AE_TRANSACTION_UPDATED | AE_TRANSACTION_DELETED | AE_TRANSFER_INITIATED
  | AE_TRANSFER_COMPLETED | AE_TRANSFER_FAILED | AE_PAYMENT_INITIATED
  | AE_PAYMENT_COMPLETED | AE_PAYMENT_FAILED | AE_PAYMENT_METHOD_ADDED
  | AE_PAYMENT_METHOD_DELETED | AE_SUSPICIOUS_ACTIVITY | AE_RATE_LIMIT_EXCEEDED
  | AE_INVALID_ACCESS_ATTEMPT | AE_PERMISSION_DENIED | AE_DATA_BREACH_ATTEMPT
  | AE_USER_CREATED | AE_USER_UPDATED | AE_USER_DELETED | AE_ROLE_CHANGED
  | AE_SETTINGS_CHANGED | AE_DATA_EXPORT | AE_DATA_IMPORT | AE_REPORT_GENERATED
  | AE_SENSITIVE_DATA_ACCESSED

fun audit_type_value :: "audit_type \<Rightarrow> string" where
  "audit_type_value AE_LOGIN_SUCCESS = ''login_success''"
| "audit_type_value AE_LOGIN_FAILURE = ''login_failure''"
| "audit_type_value AE_LOGOUT = ''logout''"
| "audit_type_value AE_PASSWORD_CHANGE = ''password_change''"
| "audit_type_value AE_MFA_ENABLED = ''mfa_enabled''"
| "audit_type_value AE_MFA_DISABLED = ''mfa_disabled''"
| "audit_type_value AE_MFA_VERIFICATION = ''mfa_verification''"
| "audit_type_value AE_ACCOUNT_CREATED = ''account_created''"
| "audit_type_value AE_ACCOUNT_UPDATED = ''account_updated''"
| "audit_type_value AE_ACCOUNT_DELETED = ''account_deleted''"
| "audit_type_value AE_ACCOUNT_LOCKED = ''account_locked''"
| "audit_type_value AE_ACCOUNT_UNLOCKED = ''account_unlocked''"
| "audit_type_value AE_TRANSACTION_CREATED = ''transaction_created''"
| "audit_type_value AE_TRANSACTION_UPDATED = ''transaction_updated''"
| "audit_type_value AE_TRANSACTION_DELETED = ''transaction_deleted''"
| "audit_type_value AE_TRANSFER_INITIATED = ''transfer_initiated''"
| "audit_type_value AE_TRANSFER_COMPLETED = ''transfer_completed''"
| "audit_type_value AE_TRANSFER_FAILED = ''transfer_failed''"
| "audit_type_value AE_PAYMENT_INITIATED = ''payment_initiated''"
| "audit_type_value AE_PAYMENT_COMPLETED = ''payment_completed''"
| "audit_type_value AE_PAYMENT_FAILED = ''payment_failed''"
| "audit_type_value AE_PAYMENT_METHOD_ADDED = ''payment_method_added''"
| "audit_type_value AE_PAYMENT_METHOD_DELETED = ''payment_method_deleted''"
| "audit_type_value AE_SUSPICIOUS_ACTIVITY = ''suspicious_activity''"
| "audit_type_value AE_RATE_LIMIT_EXCEEDED = ''rate_limit_exceeded''"
| "audit_type_value AE_INVALID_ACCESS_ATTEMPT = ''invalid_access_attempt''"
| "audit_type_value AE_PERMISSION_DENIED = ''permission_denied''"
| "audit_type_value AE_DATA_BREACH_ATTEMPT = ''data_breach_attempt''"
| "audit_type_value AE_USER_CREATED = ''user_created''"
| "audit_type_value AE_USER_UPDATED = ''user_updated''"
| "audit_type_value AE_USER_DELETED = ''user_deleted''"
| "audit_type_value AE_ROLE_CHANGED = ''role_changed''"
| "audit_type_value AE_SETTINGS_CHANGED = ''settings_changed''"
| "audit_type_value AE_DATA_EXPORT = ''data_export''"
| "audit_type_value AE_DATA_IMPORT = ''data_import''"
| "audit_type_value AE_REPORT_GENERATED = ''report_generated''"
| "audit_type_value AE_SENSITIVE_DATA_ACCESSED = ''sensitive_data_accessed''"

datatype severity = SV_LOW | SV_MEDIUM | SV_HIGH | SV_CRITICAL

fun severity_value :: "severity \<Rightarrow> string" where
  "severity_value SV_LOW = ''low''"
| "severity_value SV_MEDIUM = ''medium''"
| "severity_value SV_HIGH = ''high''"
| "severity_value SV_CRITICAL = ''critical''"

text \<open>\<open>event_severity_map\<close> with the default of \<open>log_event\<close>.\<close>

fun event_severity :: "audit_type \<Rightarrow> severity" where
  "event_severity AE_LOGIN_FAILURE = SV_HIGH"
| "event_severity AE_SUSPICIOUS_ACTIVITY = SV_CRITICAL"
| "event_severity AE_DATA_BREACH_ATTEMPT = SV_CRITICAL"
| "event_severity AE_INVALID_ACCESS_ATTEMPT = SV_HIGH"
| "event_severity AE_PERMISSION_DENIED = SV_MEDIUM"
| "event_severity AE_TRANSFER_INITIATED = SV_HIGH"
| "event_severity AE_PAYMENT_INITIATED = SV_HIGH"
| "event_severity AE_TRANSACTION_CREATED = SV_MEDIUM"
| "event_severity _ = SV_LOW"

record http_request =
  rq_host :: "string option"
  rq_headers :: "(string, string) dict"

type_synonym client_info = "(string, string option) dict"

record audit_entry =
  au_id :: string
  au_timestamp :: time
  au_type :: string
  au_severity :: string
  au_success :: bool
  au_user :: "int option"
  au_session :: "string option"
  au_target :: "int option"
  au_account :: "int option"
  au_amount :: "rat option"
  au_error :: "string option"
  au_client :: client_info
  au_details :: "(string \<times> pyval) list"
  au_created :: time

record audit_logger =
  al_logs :: "audit_entry list"
  al_max :: int

definition init_audit :: audit_logger where
  "init_audit = \<lparr>al_logs = [], al_max = 10000\<rparr>"

definition get_client_info :: "http_request option \<Rightarrow> client_info" where
  "get_client_info r =
     (case r of
        None \<Rightarrow> [(''ip_address'', Some ''unknown''), (''user_agent'', Some ''unknown''), (''referer'', None),
                 (''x_forwarded_for'', None)]
      | Some q \<Rightarrow>
          [(''ip_address'', Some (case rq_host q of None \<Rightarrow> ''unknown'' | Some h \<Rightarrow> h)),
           (''user_agent'', Some (dget_or (rq_headers q) ''user-agent'' ''unknown'')),
           (''referer'', dget (rq_headers q) ''referer''),
           (''x_forwarded_for'', dget (rq_headers q) ''x-forwarded-for''),
           (''x_real_ip'', dget (rq_headers q) ''x-real-ip''),
           (''accept_language'', dget (rq_headers q) ''accept-language''),
           (''host'', dget (rq_headers q) ''host'')])"

section \<open>Sanitising\<close>

definition sensitive_fields :: "string list" where
  "sensitive_fields = [''password'', ''password_hash'', ''secret'', ''token'', ''ssn'', ''tax_id'',
     ''account_number'', ''routing_number'', ''card_number'', ''cvv'', ''pin'']"

definition sensitive_key :: "string \<Rightarrow> bool" where
  "sensitive_key k = (py_lower k \<in> set sensitive_fields)"

definition masked_key :: "string \<Rightarrow> bool" where
  "masked_key k = (py_lower k = ''account_number'' \<or> py_lower k = ''card_number'')"

definition mask_value :: "string \<Rightarrow> pyval \<Rightarrow> pyval" where
  "mask_value k v =
     (if masked_key k
      then VStr (if 4 \<le> length (py_str v) then ''****'' @ py_drop (- 4) (py_str v) else ''****'')
      else VStr ''[REDACTED]'')"

fun sanitize :: "(string \<times> pyval) list \<Rightarrow> (string \<times> pyval) list"
  and sanitize_value :: "pyval \<Rightarrow> pyval"
  and sanitize_items :: "pyval list \<Rightarrow> pyval list" where
  "sanitize [] = []"
| "sanitize ((k, v) # d) = (k, if sensitive_key k then mask_value k v else sanitize_value v) # sanitize d"
| "sanitize_value (VDict d) = VDict (sanitize d)"
| "sanitize_value (VList xs) = VList (sanitize_items xs)"
| "sanitize_value v = v"
| "sanitize_items [] = []"
| "sanitize_items (VDict d # xs) = VDict (sanitize d) # sanitize_items xs"
| "sanitize_items (x # xs) = x # sanitize_items xs"

section \<open>Logging\<close>

text \<open>The arguments of \<open>log_event\<close>; \<open>lg_severity\<close> None takes the severity of the type.\<close>

record log_args =
  lg_type :: audit_type
  lg_user :: "int option"
  lg_session :: "string option"
  lg_request :: "http_request option"
  lg_details :: "(string \<times> pyval) list"
  lg_severity :: "severity option"
  lg_amount :: "rat option"
  lg_account :: "int option"
  lg_target :: "int option"
  lg_success :: bool
  lg_error :: "string option"

definition default_args :: "audit_type \<Rightarrow> log_args" where
  "default_args ty = \<lparr>lg_type = ty, lg_user = None, lg_session = None, lg_request = None, lg_details = [],
     lg_severity = None, lg_amount = None, lg_account = None, lg_target = None, lg_success = True,
     lg_error = None\<rparr>"

definition new_entry :: "env \<Rightarrow> log_args \<Rightarrow> audit_logger \<Rightarrow> audit_entry" where
  "new_entry e a l =
     \<lparr>au_id = str_int (clock e 0) @ ''-'' @ str_int (int (length (al_logs l))),
      au_timestamp = clock e 1, au_type = audit_type_value (lg_type a),
      au_severity = severity_value (case lg_severity a of None \<Rightarrow> event_severity (lg_type a) | Some s \<Rightarrow> s),
      au_success = lg_success a, au_user = lg_user a, au_session = lg_session a, au_target = lg_target a,
      au_account = lg_account a, au_amount = lg_amount a, au_error = lg_error a,
      au_client = get_client_info (lg_request a), au_details = sanitize (lg_details a),
      au_created = clock e 2\<rparr>"

definition log_event :: "env \<Rightarrow> log_args \<Rightarrow> audit_logger \<Rightarrow> string \<times> audit_logger" where
  "log_event e a l =
     (let en = new_entry e a l;
          logs = al_logs l @ [en]
      in (au_id en,
          l\<lparr>al_logs := (if al_max l < int (length logs) then py_drop (- al_max l div 2) logs else logs)\<rparr>))"

definition log_financial_transaction ::
    "env \<Rightarrow> int \<Rightarrow> string \<Rightarrow> rat \<Rightarrow> int \<Rightarrow> http_request option \<Rightarrow> (string \<times> pyval) list \<Rightarrow> audit_logger
     \<Rightarrow> string \<times> audit_logger" where
  "log_financial_transaction e uid ty amt acc req details l =
     log_event e (default_args AE_TRANSACTION_CREATED
       \<lparr>lg_user := Some uid, lg_account := Some acc, lg_amount := Some amt, lg_request := req,
        lg_details := fold (\<lambda>(k, v). dset k v) details [(''transaction_type'', VStr ty)],
        lg_severity := Some (if 10000 < amt then SV_HIGH else SV_MEDIUM)\<rparr>) l"

definition log_transfer ::
    "env \<Rightarrow> int \<Rightarrow> int \<Rightarrow> int \<Rightarrow> rat \<Rightarrow> http_request option \<Rightarrow> bool \<Rightarrow> string option \<Rightarrow> audit_logger
     \<Rightarrow> string \<times> audit_logger" where
  "log_transfer e uid src dst amt req ok err l =
     log_event e (default_args (if ok then AE_TRANSFER_COMPLETED else AE_TRANSFER_FAILED)
       \<lparr>lg_user := Some uid, lg_account := Some src, lg_amount := Some amt, lg_request := req,
        lg_success := ok, lg_error := err,
        lg_details := [(''from_account_id'', VInt src), (''to_account_id'', VInt dst),
                       (''transfer_type'', VStr ''internal'')],
        lg_severity := Some SV_HIGH\<rparr>) l"

definition log_authentication ::
    "env \<Rightarrow> audit_type \<Rightarrow> int option \<Rightarrow> string option \<Rightarrow> http_request option \<Rightarrow> bool \<Rightarrow> string option
     \<Rightarrow> bool \<Rightarrow> audit_logger \<Rightarrow> string \<times> audit_logger" where
  "log_authentication e ty uid name req ok why mfa l =
     log_event e (default_args ty
       \<lparr>lg_user := uid, lg_request := req, lg_success := ok, lg_error := why,
        lg_details := [(''username'', case name of None \<Rightarrow> VNone | Some s \<Rightarrow> VStr s), (''mfa_used'', VBool mfa),
                       (''authentication_method'', VStr (''password'' @ (if mfa then ''+mfa'' else [])))],
        lg_severity := Some (if ok then SV_MEDIUM else SV_HIGH)\<rparr>) l"

definition log_security_event ::
    "env \<Rightarrow> audit_type \<Rightarrow> int option \<Rightarrow> http_request option \<Rightarrow> (string \<times> pyval) list \<Rightarrow> severity
     \<Rightarrow> audit_logger \<Rightarrow> string \<times> audit_logger" where
  "log_security_event e ty uid req details sev l =
     log_event e (default_args ty
       \<lparr>lg_user := uid, lg_request := req, lg_details := details, lg_severity := Some sev,
        lg_success := False\<rparr>) l"

section \<open>Queries\<close>

text \<open>A bound given as \<open>None\<close> or 0 is no bound.\<close>

definition from_time :: "time option \<Rightarrow> time \<Rightarrow> bool" where
  "from_time t c = (case t of None \<Rightarrow> True | Some b \<Rightarrow> b = 0 \<or> b \<le> c)"

definition until_time :: "time option \<Rightarrow> time \<Rightarrow> bool" where
  "until_time t c = (case t of None \<Rightarrow> True | Some b \<Rightarrow> b = 0 \<or> c \<le> b)"

definition trail_match :: "int \<Rightarrow> time option \<Rightarrow> time option \<Rightarrow> audit_type list option \<Rightarrow> audit_entry \<Rightarrow> bool" where
  "trail_match uid t0 t1 types en \<longleftrightarrow> au_user en = Some uid \<and> from_time t0 (au_created en)
     \<and> until_time t1 (au_created en)
     \<and> (case types of None \<Rightarrow> True | Some ts \<Rightarrow> ts = [] \<or> au_type en \<in> audit_type_value ` set ts)"

text \<open>The loop of \<open>get_user_audit_trail\<close>: the limit is tested after an entry has been taken.\<close>

fun trail_loop :: "(audit_entry \<Rightarrow> bool) \<Rightarrow> int \<Rightarrow> audit_entry list \<Rightarrow> audit_entry list \<Rightarrow> audit_entry list" where
  "trail_loop p limit [] acc = acc"
| "trail_loop p limit (en # ens) acc =
     (if \<not> p en then trail_loop p limit ens acc
      else (let acc' = acc @ [en]
            in if limit \<le> int (length acc') then acc' else trail_loop p limit ens acc'))"

definition get_user_audit_trail ::
    "int \<Rightarrow> time option \<Rightarrow> time option \<Rightarrow> audit_type list option \<Rightarrow> int \<Rightarrow> audit_logger
     \<Rightarrow> audit_entry list" where
  "get_user_audit_trail uid t0 t1 types limit l =
     trail_loop (trail_match uid t0 t1 types) limit (rev (al_logs l)) []"

record security_summary =
  su_hours :: int
  su_total :: nat
  su_failed :: nat
  su_suspicious :: nat
  su_rate :: nat
  su_high :: nat
  su_ips :: nat
  su_at :: time

text \<open>The counters of the loop: failed logins, suspicious, rate limits, high values.\<close>

fun summary_loop :: "time \<Rightarrow> audit_entry list \<Rightarrow> nat \<times> nat \<times> nat \<times> nat \<Rightarrow> (nat \<times> nat \<times> nat \<times> nat) result" where
  "summary_loop since [] c = Ok c"
| "summary_loop since (en # ens) (f, s, r, h) =
     (if au_created en < since then summary_loop since ens (f, s, r, h)
      else if au_type en = ''login_failure'' then summary_loop since ens (f + 1, s, r, h)
      else if au_type en = ''suspicious_activity'' then summary_loop since ens (f, s + 1, r, h)
      else if au_type en = ''rate_limit_exceeded'' then summary_loop since ens (f, s, r + 1, h)
      else case au_amount en of
             None \<Rightarrow> Err (TypeError (quoted ''>'' @ '' not supported between instances of ''
                          @ quoted ''NoneType'' @ '' and '' @ quoted ''int''))
           | Some a \<Rightarrow> summary_loop since ens (f, s, r, if 10000 < a then h + 1 else h))"

definition get_security_summary :: "env \<Rightarrow> int \<Rightarrow> audit_logger \<Rightarrow> security_summary result" where
  "get_security_summary e hours l =
     (let since = clock e 0 - seconds (hours * 3600);
          recent = filter (\<lambda>en. since \<le> au_created en) (al_logs l)
      in case summary_loop since (al_logs l) (0, 0, 0, 0) of
           Inl err \<Rightarrow> Err err
         | Inr (f, s, r, h) \<Rightarrow>
             Ok \<lparr>su_hours = hours, su_total = length recent, su_failed = f, su_suspicious = s, su_rate = r,
                 su_high = h,
                 su_ips = length (remdups (map (\<lambda>en. dget_or (au_client en) ''ip_address'' None) recent)),
                 su_at = clock e 1\<rparr>)"

text \<open>The entries \<open>export_audit_logs\<close> writes; a user id of 0 is no filter.\<close>

definition export_audit_logs ::
    "time option \<Rightarrow> time option \<Rightarrow> int option \<Rightarrow> string \<Rightarrow> audit_logger \<Rightarrow> audit_entry list result" where
  "export_audit_logs t0 t1 uid fmt l =
     (let sel = filter (\<lambda>en. from_time t0 (au_created en) \<and> until_time t1 (au_created en)
            \<and> (case uid of None \<Rightarrow> True | Some u \<Rightarrow> u = 0 \<or> au_user en = Some u)) (al_logs l)
      in if py_lower fmt = ''json'' then Ok sel
         else Err (ValueError (''Unsupported export format: '' @ fmt)))"

section \<open>What the log can reveal\<close>

text \<open>
  Two details that differ only in what must not be revealed: a redacted value is arbitrary, an account
  or card number agrees in what its mask shows, dictionaries are compared inside, also as items of a
  list, everything else is equal.
\<close>

inductive same_public :: "(string \<times> pyval) list \<Rightarrow> (string \<times> pyval) list \<Rightarrow> bool"
  and same_value :: "pyval \<Rightarrow> pyval \<Rightarrow> bool"
  and same_items :: "pyval list \<Rightarrow> pyval list \<Rightarrow> bool" where
  sp_nil: "same_public [] []"
| sp_secret: "sensitive_key k \<Longrightarrow> \<not> masked_key k \<Longrightarrow> same_public d d' \<Longrightarrow> same_public ((k, v) # d) ((k, v') # d')"
| sp_masked: "sensitive_key k \<Longrightarrow> masked_key k \<Longrightarrow> mask_value k v = mask_value k v' \<Longrightarrow> same_public d d'
    \<Longrightarrow> same_public ((k, v) # d) ((k, v') # d')"
| sp_plain: "\<not> sensitive_key k \<Longrightarrow> same_value v v' \<Longrightarrow> same_public d d' \<Longrightarrow> same_public ((k, v) # d) ((k, v') # d')"
| sv_refl: "same_value v v"
| sv_dict: "same_public d d' \<Longrightarrow> same_value (VDict d) (VDict d')"
| sv_list: "same_items xs ys \<Longrightarrow> same_value (VList xs) (VList ys)"
| si_nil: "same_items [] []"
| si_dict: "same_public d d' \<Longrightarrow> same_items xs ys \<Longrightarrow> same_items (VDict d # xs) (VDict d' # ys)"
| si_eq: "same_items xs ys \<Longrightarrow> same_items (x # xs) (x # ys)"

lemma sanitize_item_eq: "sanitize_items xs = sanitize_items ys \<Longrightarrow> sanitize_items (x # xs) = sanitize_items (x # ys)"
  by (cases x) simp_all

lemma sanitize_public:
  "same_public d d' \<Longrightarrow> sanitize d = sanitize d'"
  "same_value v v' \<Longrightarrow> sanitize_value v = sanitize_value v'"
  "same_items xs ys \<Longrightarrow> sanitize_items xs = sanitize_items ys"
proof (induction rule: same_public_same_value_same_items.inducts)
  case (si_eq xs ys x)
  show ?case by (rule sanitize_item_eq [OF si_eq(2)])
qed (simp_all add: mask_value_def)

section \<open>Rotation\<close>

lemma log_event_logs:
  assumes "0 < al_max l"
  shows "al_max (snd (log_event e a l)) = al_max l"
    and "al_logs (snd (log_event e a l)) =
      (if al_max l < int (length (al_logs l)) + 1
       then drop (length (al_logs l) + 1 - nat ((al_max l + 1) div 2)) (al_logs l @ [new_entry e a l])
       else al_logs l @ [new_entry e a l])"
proof -
  have "- ((- al_max l) div 2) = (al_max l + 1) div 2" by linarith
  moreover have "\<not> 0 \<le> (- al_max l) div 2" using assms by linarith
  ultimately show "al_logs (snd (log_event e a l)) =
      (if al_max l < int (length (al_logs l)) + 1
       then drop (length (al_logs l) + 1 - nat ((al_max l + 1) div 2)) (al_logs l @ [new_entry e a l])
       else al_logs l @ [new_entry e a l])"
    by (simp add: log_event_def Let_def py_drop_def del: drop_append)
qed (simp add: log_event_def Let_def)

lemma log_event_keeps:
  assumes "0 < al_max l" "int (length (al_logs l)) \<le> al_max l"
  shows "int (length (al_logs (snd (log_event e a l)))) \<le> al_max l"
    and "suffix (al_logs (snd (log_event e a l))) (al_logs l @ [new_entry e a l])"
    and "min (length (al_logs l) + 1) (nat ((al_max l + 1) div 2)) \<le> length (al_logs (snd (log_event e a l)))"
proof -
  note logs = log_event_logs(2) [OF assms(1), of e a]
  show "int (length (al_logs (snd (log_event e a l)))) \<le> al_max l"
    and "min (length (al_logs l) + 1) (nat ((al_max l + 1) div 2)) \<le> length (al_logs (snd (log_event e a l)))"
    using assms by (auto simp: logs simp del: drop_append)
  show "suffix (al_logs (snd (log_event e a l))) (al_logs l @ [new_entry e a l])"
    by (simp add: logs suffix_drop del: drop_append suffix_snoc)
qed

section \<open>Trail and summary\<close>

lemma trail_loop_spec:
  assumes "int (length acc) < max 1 limit"
  shows "trail_loop p limit ens acc = take (nat (max 1 limit)) (acc @ filter p ens)"
  using assms
proof (induction p limit ens acc rule: trail_loop.induct)
  case (2 p limit en ens acc)
  show ?case
  proof (cases "p en \<and> limit \<le> int (length acc + 1)")
    case True
    with 2(3) have "max 1 limit = int (length (acc @ [en]))" by (auto simp: max_def split: if_splits)
    then have "nat (max 1 limit) = length (acc @ [en])" by simp
    with True show ?thesis by (simp add: Let_def)
  next
    case False
    with 2 show ?thesis by (auto simp: Let_def)
  qed
qed simp

lemma summary_loop_err:
  "(\<exists>err. summary_loop since ens c = Err err) \<longleftrightarrow>
   (\<exists>en \<in> set ens. since \<le> au_created en \<and> au_amount en = None
      \<and> au_type en \<notin> {''login_failure'', ''suspicious_activity'', ''rate_limit_exceeded''})"
proof (induction since ens c rule: summary_loop.induct)
  case (2 since en ens f s r h)
  show ?case
  proof (cases "au_created en < since \<or> au_type en = ''login_failure'' \<or> au_type en = ''suspicious_activity''
      \<or> au_type en = ''rate_limit_exceeded'' \<or> au_amount en \<noteq> None")
    case True
    with 2 show ?thesis by auto
  next
    case False
    then show ?thesis by auto
  qed
qed simp

section \<open>Properties\<close>



text \<open>Rotation is bounded and recent: a log that is within its limit stays within it, ends with the
  new entry, is a suffix of the old log and the new entry, and keeps at least half its limit of the
  most recent entries (5,000 of 10,000).\<close>

theorem audit_rotation:
  assumes "0 < al_max l" "int (length (al_logs l)) \<le> al_max l" "log_event e a l = (i, l')"
  shows "int (length (al_logs l')) \<le> al_max l \<and> last (al_logs l') = new_entry e a l
    \<and> al_max l' = al_max l
    \<and> suffix (al_logs l') (al_logs l @ [new_entry e a l])
    \<and> min (length (al_logs l) + 1) (nat ((al_max l + 1) div 2)) \<le> length (al_logs l')"
proof -
  have l': "l' = snd (log_event e a l)" using assms(3) by simp
  note k = log_event_keeps [OF assms(1,2), of e a, folded l']
  have "1 \<le> nat ((al_max l + 1) div 2)" using assms(1) by linarith
  then have "al_logs l' \<noteq> []" using k(3) by (cases "al_logs l'") auto
  then have "last (al_logs l') = last (al_logs l @ [new_entry e a l])"
    using k(2) by (metis suffix_def last_appendR)
  with k show ?thesis using log_event_logs(1) [OF assms(1)] l' by simp
qed

lemma audit_rotation_witness:
  "length (al_logs (snd (log_event env0 (default_args AE_LOGOUT) init_audit))) \<le> 10000"
  using audit_rotation [of init_audit env0 "default_args AE_LOGOUT"
      "fst (log_event env0 (default_args AE_LOGOUT) init_audit)"
      "snd (log_event env0 (default_args AE_LOGOUT) init_audit)"]
  by (simp add: init_audit_def)

text \<open>The trail of a user is the most recent matching entries first, at most the limit of them, and
  at least one if any matches, even for a limit of 0 or less.\<close>

theorem audit_trail_exact:
  "get_user_audit_trail uid t0 t1 types limit l =
     take (nat (max 1 limit)) (filter (trail_match uid t0 t1 types) (rev (al_logs l)))"
  unfolding get_user_audit_trail_def by (subst trail_loop_spec) simp_all

text \<open>The security summary raises exactly when the window holds an entry without an amount that is
  not a failed login, a suspicious activity or a rate limit; so it raises for a whole window after any
  login, since \<open>log_authentication\<close> never gives an amount.\<close>

theorem security_summary_raises:
  assumes "log_authentication e AE_LOGIN_SUCCESS uid name req ok why mfa l = (i, l')"
    and "0 < al_max l" "int (length (al_logs l)) \<le> al_max l"
    and "clock e' 0 - seconds (hours * 3600) \<le> clock e 2"
  shows "(\<exists>err. get_security_summary e' hours l' = Err err)
    \<and> ((\<exists>err. get_security_summary e' hours l = Err err) \<longleftrightarrow>
        (\<exists>en \<in> set (al_logs l). clock e' 0 - seconds (hours * 3600) \<le> au_created en \<and> au_amount en = None
           \<and> au_type en \<notin> {''login_failure'', ''suspicious_activity'', ''rate_limit_exceeded''}))"
proof -
  have iff: "(\<exists>err. get_security_summary e' hours m = Err err) \<longleftrightarrow>
        (\<exists>en \<in> set (al_logs m). clock e' 0 - seconds (hours * 3600) \<le> au_created en \<and> au_amount en = None
           \<and> au_type en \<notin> {''login_failure'', ''suspicious_activity'', ''rate_limit_exceeded''})" for m
    unfolding summary_loop_err [where c = "(0, 0, 0, 0)", symmetric] get_security_summary_def Let_def
    by (auto split: sum.split)
  define a where "a = default_args AE_LOGIN_SUCCESS
       \<lparr>lg_user := uid, lg_request := req, lg_success := ok, lg_error := why,
        lg_details := [(''username'', case name of None \<Rightarrow> VNone | Some s \<Rightarrow> VStr s), (''mfa_used'', VBool mfa),
                       (''authentication_method'', VStr (''password'' @ (if mfa then ''+mfa'' else [])))],
        lg_severity := Some (if ok then SV_MEDIUM else SV_HIGH)\<rparr>"
  have a: "l' = snd (log_event e a l)" "lg_type a = AE_LOGIN_SUCCESS" "lg_amount a = None"
    using assms(1) by (simp_all add: a_def log_authentication_def default_args_def)
  note k = log_event_keeps(2,3) [OF assms(2,3), of e a, folded a(1)]
  have "1 \<le> nat ((al_max l + 1) div 2)" using assms(2) by linarith
  then have "al_logs l' \<noteq> []" using k(2) by (cases "al_logs l'") auto
  then have "new_entry e a l \<in> set (al_logs l')"
    using k(1) by (metis suffix_def last_appendR last_in_set last_snoc)
  moreover have "au_created (new_entry e a l) = clock e 2" "au_amount (new_entry e a l) = None"
    "au_type (new_entry e a l) = ''login_success''"
    by (simp_all add: new_entry_def a)
  ultimately have "\<exists>err. get_security_summary e' hours l' = Err err"
    using assms(4) unfolding iff by (intro bexI [of _ "new_entry e a l"]) simp_all
  with iff [of l] show ?thesis by blast
qed

lemma security_summary_raises_witness:
  "\<exists>err. get_security_summary env0 24
     (snd (log_authentication env0 AE_LOGIN_SUCCESS (Some 1) (Some ''ann'') None True None False init_audit)) = Err err"
  using security_summary_raises [OF prod.collapse [symmetric], of init_audit env0 24 env0 "Some 1"
      "Some ''ann''" None True None False]
  by (simp add: init_audit_def)

end
