(* ===== verification/Session_Manager.thy ===== *)
theory Session_Manager
  imports Audit_Logger
begin

text \<open>
  Sessions with a limit on concurrent logins (\<open>backend/app/utils/enhanced_session_manager.py\<close>), over
  the audit log they write to.

  A set of session ids is a list without duplicates whose order stands for the arbitrary order in which
  Python walks the set. The device object of a login is shared by its session and the user's device
  table, and outlives the session: the objects are kept in \<open>sm_devs\<close> under the id of the session they
  were made for, and session and table refer to them by that id. Tokens are not empty. The digest
  \<open>sha\<close> is a parameter; the dictionaries for the API are not modelled.
\<close>

section \<open>Devices and sessions\<close>

record device =
  dv_agent :: string
  dv_ip :: string
  dv_print :: string
  dv_first :: time
  dv_last :: time

record session =
  us_id :: string
  us_user :: int
  us_name :: string
  us_dev :: string
  us_created :: time
  us_last :: time
  us_active :: bool
  us_count :: int
  us_warned :: bool

record session_manager =
  sm_sessions :: "(string, session) dict"
  sm_users :: "(int, string list) dict"
  sm_devices :: "(int, (string, string) dict) dict"
  sm_devs :: "string \<Rightarrow> device"
  sm_max :: nat
  sm_idle :: int
  sm_absolute :: int
  sm_max_devices :: nat
  sm_audit :: audit_logger

definition no_device :: device where
  "no_device = \<lparr>dv_agent = [], dv_ip = [], dv_print = [], dv_first = 0, dv_last = 0\<rparr>"

definition init_sessions :: "audit_logger \<Rightarrow> session_manager" where
  "init_sessions l = \<lparr>sm_sessions = [], sm_users = [], sm_devices = [], sm_devs = (\<lambda>_. no_device),
     sm_max = 3, sm_idle = 3600, sm_absolute = 28800, sm_max_devices = 5, sm_audit = l\<rparr>"

definition fingerprint :: "(string \<Rightarrow> string) \<Rightarrow> string \<Rightarrow> string \<Rightarrow> string" where
  "fingerprint sha ua ip = take 16 (sha (ua @ '':'' @ ip))"

text \<open>The client's address; with no header and no client, \<open>request.client.host\<close> raises.\<close>

definition client_ip :: "http_request \<Rightarrow> string result" where
  "client_ip q =
     (let direct = (case rq_host q of
            None \<Rightarrow> Err (CustomError ''AttributeError'' (quoted ''NoneType'' @ '' object has no attribute '' @ quoted ''host''))
          | Some h \<Rightarrow> Ok h);
          real = (case dget (rq_headers q) ''x-real-ip'' of
            Some (c # cs) \<Rightarrow> Ok (c # cs)
          | _ \<Rightarrow> direct)
      in case dget (rq_headers q) ''x-forwarded-for'' of
           Some (c # cs) \<Rightarrow> Ok (py_strip (takeWhile (\<lambda>x. x \<noteq> CHR '','') (c # cs)))
         | _ \<Rightarrow> real)"

definition get_device_info :: "(string \<Rightarrow> string) \<Rightarrow> env \<Rightarrow> http_request \<Rightarrow> device result" where
  "get_device_info sha e q =
     (case client_ip q of
        Inl err \<Rightarrow> Err err
      | Inr ip \<Rightarrow>
          (let ua = dget_or (rq_headers q) ''user-agent'' ''unknown''
           in Ok \<lparr>dv_agent = ua, dv_ip = ip, dv_print = fingerprint sha ua ip, dv_first = clock e 0,
                  dv_last = clock e 1\<rparr>))"

definition is_suspicious_login :: "int \<Rightarrow> device \<Rightarrow> session_manager \<Rightarrow> bool" where
  "is_suspicious_login uid d s =
     (case dget (sm_devices s) uid of
        None \<Rightarrow> False
      | Some ds \<Rightarrow> \<not> has_key ds (dv_print d) \<and> dv_ip d \<notin> set (map (\<lambda>(fp, r). dv_ip (sm_devs s r)) ds))"

definition sessions_of :: "session_manager \<Rightarrow> int \<Rightarrow> string list" where
  "sessions_of s uid = dget_or (sm_users s) uid []"

section \<open>Ending sessions\<close>

definition terminate_session :: "env \<Rightarrow> string \<Rightarrow> string \<Rightarrow> session_manager \<Rightarrow> session_manager" where
  "terminate_session e reason sid s =
     (case dget (sm_sessions s) sid of
        None \<Rightarrow> s
      | Some x \<Rightarrow>
          (let users = (if has_key (sm_users s) (us_user x)
                 then dset (us_user x) (filter (\<lambda>i. i \<noteq> sid) (sessions_of s (us_user x))) (sm_users s)
                 else sm_users s);
               args = default_args AE_LOGOUT
                 \<lparr>lg_user := Some (us_user x),
                  lg_details := [(''session_id'', VStr sid), (''termination_reason'', VStr reason),
                    (''session_duration'', VInt (whole_seconds (clock e 0 - us_created x))),
                    (''initiated_by'', VStr (if reason = ''manual'' then ''user'' else ''system''))]\<rparr>
           in s\<lparr>sm_users := users, sm_audit := snd (log_event (later 1 e) args (sm_audit s)),
                sm_sessions := ddel sid (sm_sessions s)\<rparr>))"

fun terminate_many :: "env \<Rightarrow> string \<Rightarrow> string list \<Rightarrow> session_manager \<Rightarrow> session_manager" where
  "terminate_many e reason [] s = s"
| "terminate_many e reason (sid # sids) s =
     terminate_many (later 4 e) reason sids (terminate_session e reason sid s)"

definition terminate_all_user_sessions :: "env \<Rightarrow> int \<Rightarrow> string option \<Rightarrow> session_manager \<Rightarrow> session_manager" where
  "terminate_all_user_sessions e uid except s =
     (case dget (sm_users s) uid of
        None \<Rightarrow> s
      | Some ids \<Rightarrow>
          terminate_many e ''user_requested''
            (case except of Some (c # cs) \<Rightarrow> filter (\<lambda>i. i \<noteq> c # cs) ids | _ \<Rightarrow> ids) s)"

definition session_expired :: "time \<Rightarrow> session_manager \<Rightarrow> session \<Rightarrow> bool" where
  "session_expired now s x =
     (seconds (sm_idle s) < now - us_last x \<or> seconds (sm_absolute s) < now - us_created x)"

definition cleanup_expired_sessions :: "env \<Rightarrow> session_manager \<Rightarrow> session_manager" where
  "cleanup_expired_sessions e s =
     terminate_many (later 1 e) ''expired''
       (map fst (filter (\<lambda>(sid, x). session_expired (clock e 0) s x) (sm_sessions s))) s"

section \<open>Starting sessions\<close>

text \<open>The loop for the oldest session: strictly older replaces.\<close>

fun oldest_session :: "(string, session) dict \<Rightarrow> string list \<Rightarrow> (string \<times> time) option \<Rightarrow> (string \<times> time) option" where
  "oldest_session d [] best = best"
| "oldest_session d (sid # sids) best =
     oldest_session d sids
       (case dget d sid of
          None \<Rightarrow> best
        | Some x \<Rightarrow> (case best of
            None \<Rightarrow> Some (sid, us_created x)
          | Some (b, t) \<Rightarrow> if us_created x < t then Some (sid, us_created x) else best))"

definition handle_concurrent_login ::
    "env \<Rightarrow> int \<Rightarrow> string list \<Rightarrow> http_request \<Rightarrow> session_manager \<Rightarrow> session_manager" where
  "handle_concurrent_login e uid ids q s =
     (let l = snd (log_security_event e AE_SUSPICIOUS_ACTIVITY (Some uid) (Some q)
            [(''reason'', VStr ''concurrent_login_limit_exceeded''), (''existing_sessions'', VInt (int (length ids))),
             (''limit'', VInt (int (sm_max s)))] SV_MEDIUM (sm_audit s));
          s1 = s\<lparr>sm_audit := l\<rparr>
      in case oldest_session (sm_sessions s1) ids None of
           None \<Rightarrow> s1
         | Some (sid, t) \<Rightarrow> terminate_session (later 3 e) ''concurrent_login_limit'' sid s1)"

text \<open>\<open>sorted(..., reverse=True)\<close> keeps ties in order.\<close>

definition cleanup_old_devices :: "int \<Rightarrow> session_manager \<Rightarrow> session_manager" where
  "cleanup_old_devices uid s =
     (case dget (sm_devices s) uid of
        None \<Rightarrow> s
      | Some ds \<Rightarrow>
          if length ds \<le> sm_max_devices s then s
          else s\<lparr>sm_devices := dset uid (take (sm_max_devices s)
                   (rev (sort_key (\<lambda>(fp, r). dv_last (sm_devs s r)) (rev ds)))) (sm_devices s)\<rparr>)"

text \<open>The session and device tables after a login, before it is logged.\<close>

definition store_session :: "env \<Rightarrow> int \<Rightarrow> string \<Rightarrow> device \<Rightarrow> session_manager \<Rightarrow> session_manager" where
  "store_session e uid name d s =
     (let sid = uuid e 0;
          x = \<lparr>us_id = sid, us_user = uid, us_name = name, us_dev = sid, us_created = clock e 0,
               us_last = clock e 1, us_active = True, us_count = 1, us_warned = False\<rparr>;
          ids = sessions_of s uid;
          s1 = s\<lparr>sm_sessions := dset sid x (sm_sessions s),
                 sm_users := dset uid (if sid \<in> set ids then ids else ids @ [sid]) (sm_users s),
                 sm_devs := (sm_devs s)(sid := d),
                 sm_devices := dset uid (dset (dv_print d) sid (dget_or (sm_devices s) uid [])) (sm_devices s)\<rparr>
      in if sm_max_devices s < length (dget_or (sm_devices s1) uid []) then cleanup_old_devices uid s1 else s1)"

text \<open>
  \<open>create_session\<close>. Its last call passes \<open>details\<close> to \<open>log_authentication\<close>, which has no such
  parameter, so it raises after everything has been stored.
\<close>

definition unexpected_details :: py_error where
  "unexpected_details = TypeError (''AuditLogger.log_authentication() got an unexpected keyword argument ''
     @ quoted ''details'')"

definition create_session ::
    "(string \<Rightarrow> string) \<Rightarrow> env \<Rightarrow> int \<Rightarrow> string \<Rightarrow> http_request \<Rightarrow> session_manager
     \<Rightarrow> string result \<times> session_manager" where
  "create_session sha e uid name q s =
     (case get_device_info sha e q of
        Inl err \<Rightarrow> (Err err, s)
      | Inr d \<Rightarrow>
          (let s1 = (if is_suspicious_login uid d s
                 then s\<lparr>sm_audit := snd (log_security_event (later 2 e) AE_SUSPICIOUS_ACTIVITY (Some uid) (Some q)
                        [(''reason'', VStr ''login_from_new_device_and_location''),
                         (''device_fingerprint'', VStr (dv_print d)), (''ip_address'', VStr (dv_ip d))]
                        SV_HIGH (sm_audit s))\<rparr>
                 else s);
               s2 = cleanup_expired_sessions (later 5 e) s1;
               k = 6 + 4 * length (sm_sessions s1);
               s3 = (if sm_max s2 \<le> length (sessions_of s2 uid)
                     then handle_concurrent_login (later k e) uid (sessions_of s2 uid) q s2 else s2);
               s4 = store_session (later (k + 7) e) uid name d s3
           in (Err unexpected_details, s4)))"

section \<open>Using sessions\<close>

definition touch :: "env \<Rightarrow> string \<Rightarrow> session \<Rightarrow> session_manager \<Rightarrow> session_manager" where
  "touch e sid x s =
     s\<lparr>sm_sessions := dset sid (x\<lparr>us_last := clock e 0\<rparr>) (sm_sessions s),
       sm_devs := (sm_devs s)(us_dev x := (sm_devs s (us_dev x))\<lparr>dv_last := clock e 1\<rparr>)\<rparr>"

definition get_session ::
    "(string \<Rightarrow> string) \<Rightarrow> env \<Rightarrow> string \<Rightarrow> http_request option \<Rightarrow> session_manager
     \<Rightarrow> session option result \<times> session_manager" where
  "get_session sha e sid req s =
     (case dget (sm_sessions s) sid of
        None \<Rightarrow> (Ok None, s)
      | Some x \<Rightarrow>
          if seconds (sm_idle s) < clock e 0 - us_last x
          then (Ok None, terminate_session (later 1 e) ''inactivity_timeout'' sid s)
          else if seconds (sm_absolute s) < clock e 0 - us_created x
          then (Ok None, terminate_session (later 1 e) ''absolute_timeout'' sid s)
          else
            let s1 = touch (later 1 e) sid x s;
                x1 = x\<lparr>us_last := clock e 1\<rparr>
            in case req of
                 None \<Rightarrow> (Ok (Some x1), s1)
               | Some q \<Rightarrow> (case get_device_info sha (later 3 e) q of
                   Inl err \<Rightarrow> (Err err, s1)
                 | Inr d \<Rightarrow>
                     if dv_print d \<noteq> dv_print (sm_devs s1 (us_dev x1))
                     then (Ok None, terminate_session (later 8 e) ''device_mismatch'' sid
                       (s1\<lparr>sm_audit := snd (log_security_event (later 5 e) AE_SUSPICIOUS_ACTIVITY
                          (Some (us_user x1)) (Some q)
                          [(''reason'', VStr ''device_fingerprint_mismatch''),
                           (''session_device'', VStr (dv_print (sm_devs s1 (us_dev x1)))),
                           (''current_device'', VStr (dv_print d))] SV_CRITICAL (sm_audit s1))\<rparr>))
                     else (Ok (Some x1), s1)))"

text \<open>The sessions \<open>get_user_sessions\<close> describes; it drops ids of sessions that are not active.\<close>

definition get_user_sessions :: "int \<Rightarrow> session_manager \<Rightarrow> session list \<times> session_manager" where
  "get_user_sessions uid s =
     (case dget (sm_users s) uid of
        None \<Rightarrow> ([], s)
      | Some ids \<Rightarrow>
          (let found = List.map_filter (dget (sm_sessions s)) ids;
               dead = (\<lambda>i. case dget (sm_sessions s) i of None \<Rightarrow> False | Some x \<Rightarrow> \<not> us_active x)
           in (filter us_active found,
               s\<lparr>sm_users := dset uid (filter (\<lambda>i. \<not> dead i) ids) (sm_users s)\<rparr>)))"

record session_summary =
  sy_active :: nat
  sy_devices :: nat
  sy_recent :: nat
  sy_suspicious :: nat
  sy_last_login :: time

definition session_security_summary :: "env \<Rightarrow> int \<Rightarrow> session_manager \<Rightarrow> session_summary" where
  "session_security_summary e uid s =
     (let recent = get_user_audit_trail uid (Some (clock e 0 - seconds 86400)) None None 50 (sm_audit s);
          logins = map (us_created \<circ> snd) (filter (\<lambda>(i, x). us_user x = uid) (sm_sessions s))
      in \<lparr>sy_active = length (sessions_of s uid), sy_devices = length (dget_or (sm_devices s) uid []),
          sy_recent = length recent,
          sy_suspicious = length (filter (\<lambda>en. au_severity en \<in> {''high'', ''critical''}) recent),
          sy_last_login = (if logins = [] then 0 else Max (set logins))\<rparr>)"

section \<open>Invariant\<close>

text \<open>
  The tables agree: a session is listed under its user and nowhere else, every listed id is a session
  of that user, and no one has too many of them.
\<close>

definition sm_core :: "session_manager \<Rightarrow> bool" where
  "sm_core s \<longleftrightarrow>
     (\<forall>sid x. dget (sm_sessions s) sid = Some x \<longrightarrow>
        us_id x = sid \<and> us_active x \<and> sid \<in> set (sessions_of s (us_user x)))
   \<and> (\<forall>uid. distinct (sessions_of s uid))
   \<and> (\<forall>uid. \<forall>sid \<in> set (sessions_of s uid). \<exists>x. dget (sm_sessions s) sid = Some x \<and> us_user x = uid)"

definition sm_bound :: "session_manager \<Rightarrow> bool" where
  "sm_bound s \<longleftrightarrow> 0 < sm_max s \<and> 0 < sm_max_devices s
   \<and> (\<forall>uid. length (sessions_of s uid) \<le> sm_max s)
   \<and> (\<forall>uid. length (dget_or (sm_devices s) uid []) \<le> sm_max_devices s)"

lemma sm_coreD:
  assumes "sm_core s"
  shows "dget (sm_sessions s) sid = Some x \<Longrightarrow> us_id x = sid \<and> us_active x \<and> sid \<in> set (sessions_of s (us_user x))"
    and "distinct (sessions_of s uid)"
    and "sid \<in> set (sessions_of s uid) \<Longrightarrow> \<exists>x. dget (sm_sessions s) sid = Some x \<and> us_user x = uid"
  using assms by (auto simp: sm_core_def)

lemma sessions_of_upd [simp]:
  "sessions_of (s\<lparr>sm_sessions := a\<rparr>) uid = sessions_of s uid" "sessions_of (s\<lparr>sm_audit := b\<rparr>) uid = sessions_of s uid"
  "sessions_of (s\<lparr>sm_devs := c\<rparr>) uid = sessions_of s uid" "sessions_of (s\<lparr>sm_devices := d\<rparr>) uid = sessions_of s uid"
  by (simp_all add: sessions_of_def)

lemma sm_inv_cong:
  assumes "sm_sessions s' = sm_sessions s" "sm_users s' = sm_users s"
  shows "sm_core s' = sm_core s"
  using assms by (simp add: sm_core_def sessions_of_def)

lemma terminate_frame [frame_simps]:
  "sm_sessions (terminate_session e r sid s) = ddel sid (sm_sessions s)"
  "sm_devices (terminate_session e r sid s) = sm_devices s" "sm_devs (terminate_session e r sid s) = sm_devs s"
  "sm_max (terminate_session e r sid s) = sm_max s" "sm_max_devices (terminate_session e r sid s) = sm_max_devices s"
  "sm_idle (terminate_session e r sid s) = sm_idle s" "sm_absolute (terminate_session e r sid s) = sm_absolute s"
proof -
  have "ddel sid d = d" if "dget d sid = None" for d :: "(string, session) dict"
    using that by (induction d) (auto split: if_splits)
  then show "sm_sessions (terminate_session e r sid s) = ddel sid (sm_sessions s)"
    by (auto simp: terminate_session_def Let_def split: option.split)
qed (simp_all add: terminate_session_def Let_def split: option.split)

lemma terminate_sessions_of:
  assumes "sm_core s"
  shows "sessions_of (terminate_session e r sid s) uid = filter (\<lambda>i. i \<noteq> sid) (sessions_of s uid)"
proof (cases "dget (sm_sessions s) sid")
  case None
  then have "sid \<notin> set (sessions_of s uid)" using sm_coreD(3) [OF assms] by fastforce
  then have "filter (\<lambda>i. i \<noteq> sid) (sessions_of s uid) = sessions_of s uid" by (auto intro: filter_True)
  with None show ?thesis by (simp add: terminate_session_def)
next
  case (Some x)
  show ?thesis
  proof (cases "uid = us_user x")
    case True
    have "has_key (sm_users s) (us_user x)"
      using sm_coreD(1) [OF assms Some]
      by (cases "dget (sm_users s) (us_user x)") (auto simp: sessions_of_def dget_or_def has_key_def)
    with Some True show ?thesis by (simp add: terminate_session_def Let_def sessions_of_def)
  next
    case False
    then have "sid \<notin> set (sessions_of s uid)" using sm_coreD(3) [OF assms] Some by fastforce
    then have "filter (\<lambda>i. i \<noteq> sid) (sessions_of s uid) = sessions_of s uid" by (auto intro: filter_True)
    with Some False show ?thesis by (simp add: terminate_session_def Let_def sessions_of_def)
  qed
qed

lemma terminate_core [inv_intros]: "sm_core s \<Longrightarrow> sm_core (terminate_session e r sid s)"
  unfolding sm_core_def [of "terminate_session e r sid s"]
  by (auto simp: terminate_sessions_of frame_simps dest: sm_coreD split: if_splits
      intro: distinct_filter sm_coreD(2))

lemma terminate_bound [inv_intros]: "sm_core s \<Longrightarrow> sm_bound s \<Longrightarrow> sm_bound (terminate_session e r sid s)"
  by (auto simp: sm_bound_def terminate_sessions_of frame_simps intro: order_trans [OF length_filter_le])

lemma terminate_many_inv:
  assumes "sm_core s" "sm_bound s"
  shows "sm_core (terminate_many e r ids s) \<and> sm_bound (terminate_many e r ids s)"
  using assms by (induction ids arbitrary: e s) (auto intro: inv_intros)

lemma terminate_many_sessions:
  "dget (sm_sessions (terminate_many e r ids s)) sid = (if sid \<in> set ids then None else dget (sm_sessions s) sid)"
  by (induction ids arbitrary: e s) (auto simp: frame_simps)

lemma terminate_many_frame [frame_simps]:
  "sm_max (terminate_many e r ids s) = sm_max s"
  by (induction ids arbitrary: e s) (auto simp: frame_simps)

lemma cleanup_inv:
  "sm_core s \<Longrightarrow> sm_bound s \<Longrightarrow> sm_core (cleanup_expired_sessions e s) \<and> sm_bound (cleanup_expired_sessions e s)"
  unfolding cleanup_expired_sessions_def by (rule terminate_many_inv)

text \<open>The loop for the oldest finds a session whenever there is one.\<close>

lemma oldest_session_mem:
  "oldest_session d ids best = Some (sid, t) \<Longrightarrow> (\<forall>b u. best = Some (b, u) \<longrightarrow> b \<in> X) \<Longrightarrow> set ids \<subseteq> X \<Longrightarrow> sid \<in> X"
  by (induction ids arbitrary: best) (auto split: option.splits if_splits)

lemma oldest_session_some:
  "best \<noteq> None \<or> (\<exists>i \<in> set ids. has_key d i) \<Longrightarrow> oldest_session d ids best \<noteq> None"
proof (induction ids arbitrary: best)
  case (Cons i ids)
  let ?b = "case dget d i of None \<Rightarrow> best
    | Some x \<Rightarrow> (case best of None \<Rightarrow> Some (i, us_created x)
        | Some (b, t) \<Rightarrow> if us_created x < t then Some (i, us_created x) else best)"
  have "?b \<noteq> None \<or> (\<exists>i \<in> set ids. has_key d i)"
    using Cons.prems by (auto simp: has_key_def split: option.splits)
  from Cons.IH [OF this] show ?case by simp
qed auto

lemma concurrent_login_frees:
  assumes "sm_core s" "sm_bound s" "sessions_of s uid \<noteq> []"
  shows "sm_core (handle_concurrent_login e uid (sessions_of s uid) q s)"
    and "sm_bound (handle_concurrent_login e uid (sessions_of s uid) q s)"
    and "length (sessions_of (handle_concurrent_login e uid (sessions_of s uid) q s) uid) < length (sessions_of s uid)"
    and "has_key (sm_sessions (handle_concurrent_login e uid (sessions_of s uid) q s)) i \<Longrightarrow> has_key (sm_sessions s) i"
    and "sm_max (handle_concurrent_login e uid (sessions_of s uid) q s) = sm_max s"
proof -
  let ?l = "snd (log_security_event e AE_SUSPICIOUS_ACTIVITY (Some uid) (Some q)
    [(''reason'', VStr ''concurrent_login_limit_exceeded''), (''existing_sessions'', VInt (int (length (sessions_of s uid)))),
     (''limit'', VInt (int (sm_max s)))] SV_MEDIUM (sm_audit s))"
  let ?s = "s\<lparr>sm_audit := ?l\<rparr>"
  have c: "sm_core ?s" "sm_bound ?s" using assms(1,2) by (simp_all add: sm_core_def sm_bound_def)
  obtain i0 where "i0 \<in> set (sessions_of s uid)" using assms(3) by (cases "sessions_of s uid") auto
  with sm_coreD(3) [OF assms(1)] have "\<exists>i \<in> set (sessions_of s uid). has_key (sm_sessions s) i"
    by (fastforce simp: has_key_def)
  then obtain sid t where o: "oldest_session (sm_sessions s) (sessions_of s uid) None = Some (sid, t)"
    using oldest_session_some [of None "sessions_of s uid" "sm_sessions s"] by fastforce
  then have mem: "sid \<in> set (sessions_of s uid)"
    using oldest_session_mem [OF o, of "set (sessions_of s uid)"] by simp
  have h: "handle_concurrent_login e uid (sessions_of s uid) q s
      = terminate_session (later 3 e) ''concurrent_login_limit'' sid ?s"
    using o by (simp add: handle_concurrent_login_def Let_def)
  show "sm_core (handle_concurrent_login e uid (sessions_of s uid) q s)"
    and "sm_bound (handle_concurrent_login e uid (sessions_of s uid) q s)"
    unfolding h using c by (auto intro: inv_intros)
  show "length (sessions_of (handle_concurrent_login e uid (sessions_of s uid) q s) uid) < length (sessions_of s uid)"
    unfolding h terminate_sessions_of [OF c(1)] using mem by (simp add: length_filter_less)
  show "sm_max (handle_concurrent_login e uid (sessions_of s uid) q s) = sm_max s"
    and "has_key (sm_sessions (handle_concurrent_login e uid (sessions_of s uid) q s)) i \<Longrightarrow> has_key (sm_sessions s) i"
    unfolding h by (simp_all add: frame_simps)
qed

lemma cleanup_devices_frame [frame_simps]:
  "sm_sessions (cleanup_old_devices uid s) = sm_sessions s" "sm_users (cleanup_old_devices uid s) = sm_users s"
  "sm_max (cleanup_old_devices uid s) = sm_max s" "sm_max_devices (cleanup_old_devices uid s) = sm_max_devices s"
  by (simp_all add: cleanup_old_devices_def split: option.split)

lemma cleanup_devices_len:
  "length (dget_or (sm_devices (cleanup_old_devices uid s)) u []) \<le>
     (if u = uid then sm_max_devices s else length (dget_or (sm_devices s) u []))"
  by (auto simp: cleanup_old_devices_def dget_or_def split: option.split)

lemma store_session_inv:
  assumes "sm_core s" "sm_bound s" "\<not> has_key (sm_sessions s) (uuid e 0)"
    and "length (sessions_of s uid) < sm_max s"
  shows "sm_core (store_session e uid name d s)" "sm_bound (store_session e uid name d s)"
    and "\<exists>x. dget (sm_sessions (store_session e uid name d s)) (uuid e 0) = Some x \<and> us_user x = uid"
proof -
  let ?sid = "uuid e 0"
  let ?x = "\<lparr>us_id = ?sid, us_user = uid, us_name = name, us_dev = ?sid, us_created = clock e 0,
               us_last = clock e 1, us_active = True, us_count = 1, us_warned = False\<rparr>"
  let ?t = "store_session e uid name d s"
  have fresh: "?sid \<notin> set (sessions_of s u)" for u
    using sm_coreD(3) [OF assms(1)] assms(3) by (fastforce simp: has_key_def)
  have ss: "sm_sessions ?t = dset ?sid ?x (sm_sessions s)"
    "sm_max ?t = sm_max s" "sm_max_devices ?t = sm_max_devices s"
    by (simp_all add: store_session_def Let_def frame_simps)
  have su: "sessions_of ?t u = (if u = uid then sessions_of s uid @ [?sid] else sessions_of s u)" for u
    using fresh by (simp add: store_session_def Let_def frame_simps sessions_of_def)
  show "sm_core ?t"
    unfolding sm_core_def ss(1) su using sm_coreD [OF assms(1)] fresh
    by (auto simp: dest: sm_coreD(1) [OF assms(1)])
  let ?devs = "dset uid (dset (dv_print d) ?sid (dget_or (sm_devices s) uid [])) (sm_devices s)"
  have dl: "length (dget_or (sm_devices s) u []) \<le> sm_max_devices s" for u
    using assms(2) by (simp add: sm_bound_def)
  have "length (dget_or (sm_devices ?t) u []) \<le> sm_max_devices s" for u
  proof (cases "sm_max_devices s < length (dget_or ?devs uid [])")
    case True
    define t where "t = s\<lparr>sm_sessions := dset ?sid ?x (sm_sessions s),
        sm_users := dset uid (sessions_of s uid @ [?sid]) (sm_users s), sm_devs := (sm_devs s)(?sid := d),
        sm_devices := ?devs\<rparr>"
    have "sm_devices ?t = sm_devices (cleanup_old_devices uid t)"
      using True fresh by (simp add: store_session_def Let_def t_def)
    moreover have "sm_max_devices t = sm_max_devices s" "sm_devices t = ?devs" by (simp_all add: t_def)
    ultimately show ?thesis using cleanup_devices_len [of uid t u] dl [of u] by (auto split: if_splits)
  next
    case False
    then have "sm_devices ?t = ?devs" by (simp add: store_session_def Let_def)
    with False dl [of u] show ?thesis by (simp split: if_splits)
  qed
  with assms(2,4) show "sm_bound ?t" by (simp add: sm_bound_def ss su)
  show "\<exists>x. dget (sm_sessions ?t) ?sid = Some x \<and> us_user x = uid" by (simp add: ss)
qed

text \<open>A login with a fresh token: it raises, and leaves a session behind.\<close>

lemma cleanup_fresh:
  "\<not> has_key (sm_sessions s) i \<Longrightarrow> \<not> has_key (sm_sessions (cleanup_expired_sessions e s)) i"
  by (simp add: cleanup_expired_sessions_def has_key_def terminate_many_sessions)

lemma create_session_inv:
  assumes "sm_core s" "sm_bound s" "\<forall>n. \<not> has_key (sm_sessions s) (uuid e n)" "client_ip q = Ok ip"
    and "create_session sha e uid name q s = (r, s')"
  shows "r = Err unexpected_details" "sm_core s'" "sm_bound s'"
    and "\<exists>sid x. \<not> has_key (sm_sessions s) sid \<and> dget (sm_sessions s') sid = Some x \<and> us_user x = uid"
proof -
  obtain d where d: "get_device_info sha e q = Ok d" using assms(4) by (simp add: get_device_info_def Let_def)
  define s1 where "s1 = (if is_suspicious_login uid d s
       then s\<lparr>sm_audit := snd (log_security_event (later 2 e) AE_SUSPICIOUS_ACTIVITY (Some uid) (Some q)
              [(''reason'', VStr ''login_from_new_device_and_location''),
               (''device_fingerprint'', VStr (dv_print d)), (''ip_address'', VStr (dv_ip d))]
              SV_HIGH (sm_audit s))\<rparr>
       else s)"
  define s2 where "s2 = cleanup_expired_sessions (later 5 e) s1"
  define k where "k = 6 + 4 * length (sm_sessions s1)"
  define s3 where "s3 = (if sm_max s2 \<le> length (sessions_of s2 uid)
       then handle_concurrent_login (later k e) uid (sessions_of s2 uid) q s2 else s2)"
  have rs: "r = Err unexpected_details" "s' = store_session (later (k + 7) e) uid name d s3"
    using assms(5) unfolding create_session_def d sum.case Let_def
    unfolding s1_def [symmetric] unfolding s2_def [symmetric] unfolding k_def [symmetric]
    unfolding s3_def [symmetric] by simp_all
  have i1: "sm_core s1" "sm_bound s1" using assms(1,2) by (simp_all add: s1_def sm_core_def sm_bound_def)
  have f1: "\<not> has_key (sm_sessions s1) (uuid e n)" for n using assms(3) by (simp add: s1_def)
  have i2: "sm_core s2" "sm_bound s2" using cleanup_inv [OF i1] by (simp_all add: s2_def)
  have f2: "\<not> has_key (sm_sessions s2) (uuid e n)" for n
    unfolding s2_def by (rule cleanup_fresh) (rule f1)
  have i3: "sm_core s3 \<and> sm_bound s3 \<and> length (sessions_of s3 uid) < sm_max s3
      \<and> (\<forall>n. \<not> has_key (sm_sessions s3) (uuid e n))"
  proof (cases "sm_max s2 \<le> length (sessions_of s2 uid)")
    case True
    then have "sessions_of s2 uid \<noteq> []" using i2(2) by (auto simp: sm_bound_def)
    note c = concurrent_login_frees [OF i2 this, of "later k e" q]
    have "length (sessions_of s2 uid) \<le> sm_max s2" using i2(2) by (simp add: sm_bound_def)
    with c f2 True show ?thesis by (auto simp: s3_def)
  next
    case False
    with i2 f2 show ?thesis by (simp add: s3_def)
  qed
  have st: "\<not> has_key (sm_sessions s3) (uuid (later (k + 7) e) 0)" using i3 by simp
  note inv = store_session_inv [OF _ _ st, of uid name d, folded rs(2)]
  show "r = Err unexpected_details" by (rule rs(1))
  show "sm_core s'" "sm_bound s'" using inv i3 by simp_all
  show "\<exists>sid x. \<not> has_key (sm_sessions s) sid \<and> dget (sm_sessions s') sid = Some x \<and> us_user x = uid"
    using inv(3) i3 assms(3) by auto
qed

text \<open>Using a session.\<close>

lemma touch_inv:
  assumes "sm_core s" "sm_bound s" "dget (sm_sessions s) sid = Some x"
  shows "sm_core (touch e sid x s) \<and> sm_bound (touch e sid x s)"
proof -
  have "sessions_of (touch e sid x s) u = sessions_of s u" for u
    by (simp add: touch_def sessions_of_def)
  moreover have "sm_sessions (touch e sid x s) = dset sid (x\<lparr>us_last := clock e 0\<rparr>) (sm_sessions s)"
    "sm_max (touch e sid x s) = sm_max s" "sm_max_devices (touch e sid x s) = sm_max_devices s"
    "sm_devices (touch e sid x s) = sm_devices s" by (simp_all add: touch_def)
  ultimately show ?thesis using assms(2,3) sm_coreD [OF assms(1)]
    by (auto simp: sm_core_def sm_bound_def) (metis option.inject)
qed

lemma sm_audit_inv [simp]: "sm_core (s\<lparr>sm_audit := l\<rparr>) = sm_core s" "sm_bound (s\<lparr>sm_audit := l\<rparr>) = sm_bound s"
  by (simp_all add: sm_core_def sm_bound_def)

lemma get_session_inv:
  assumes "sm_core s" "sm_bound s"
  shows "sm_core (snd (get_session sha e sid req s)) \<and> sm_bound (snd (get_session sha e sid req s))"
proof (cases "dget (sm_sessions s) sid")
  case (Some x)
  note t = touch_inv [OF assms Some, of "later 1 e"]
  show ?thesis using assms t Some
    by (simp add: get_session_def Let_def terminate_core terminate_bound split: option.split sum.split)
qed (simp add: get_session_def assms)

lemma get_user_sessions_inv:
  assumes "sm_core s"
  shows "snd (get_user_sessions uid s) = s"
    and "fst (get_user_sessions uid s) = List.map_filter (dget (sm_sessions s)) (sessions_of s uid)"
proof -
  have act: "us_active x" if "dget (sm_sessions s) i = Some x" for i x
    using sm_coreD(1) [OF assms that] by simp
  then have alive: "filter (\<lambda>i. \<not> (case dget (sm_sessions s) i of None \<Rightarrow> False | Some x \<Rightarrow> \<not> us_active x)) ids = ids"
    for ids by (intro filter_True) (auto split: option.split)
  have all: "filter us_active (List.map_filter (dget (sm_sessions s)) ids) = List.map_filter (dget (sm_sessions s)) ids"
    for ids using act by (intro filter_True) (auto simp: List.map_filter_def)
  show "snd (get_user_sessions uid s) = s"
    by (simp add: get_user_sessions_def Let_def alive dset_same split: option.split)
  show "fst (get_user_sessions uid s) = List.map_filter (dget (sm_sessions s)) (sessions_of s uid)"
    by (cases "dget (sm_users s) uid")
       (simp_all add: get_user_sessions_def Let_def all sessions_of_def dget_or_def List.map_filter_simps)
qed

section \<open>Runs\<close>

text \<open>
  The states an empty manager reaches: logins draw tokens no live session has; every other operation
  may come at any time.
\<close>

inductive sm_reach :: "audit_logger \<Rightarrow> (string \<Rightarrow> string) \<Rightarrow> session_manager \<Rightarrow> bool" for l sha where
  sm_init: "sm_reach l sha (init_sessions l)"
| sm_create: "sm_reach l sha s \<Longrightarrow> \<forall>n. \<not> has_key (sm_sessions s) (uuid e n)
    \<Longrightarrow> sm_reach l sha (snd (create_session sha e uid name q s))"
| sm_get: "sm_reach l sha s \<Longrightarrow> sm_reach l sha (snd (get_session sha e sid req s))"
| sm_terminate: "sm_reach l sha s \<Longrightarrow> sm_reach l sha (terminate_session e reason sid s)"
| sm_terminate_all: "sm_reach l sha s \<Longrightarrow> sm_reach l sha (terminate_all_user_sessions e uid except s)"
| sm_list: "sm_reach l sha s \<Longrightarrow> sm_reach l sha (snd (get_user_sessions uid s))"

lemma config_constant:
  "sm_max (terminate_many e r ids s) = sm_max s \<and> sm_max_devices (terminate_many e r ids s) = sm_max_devices s
   \<and> sm_idle (terminate_many e r ids s) = sm_idle s \<and> sm_absolute (terminate_many e r ids s) = sm_absolute s"
  by (induction ids arbitrary: e s) (auto simp: frame_simps)

definition sm_config :: "session_manager \<Rightarrow> nat \<times> nat \<times> int \<times> int" where
  "sm_config s = (sm_max s, sm_max_devices s, sm_idle s, sm_absolute s)"

lemma sm_config_ops [simp]:
  "sm_config (terminate_session e r sid s) = sm_config s" "sm_config (terminate_many e r ids s) = sm_config s"
  "sm_config (cleanup_old_devices uid s) = sm_config s" "sm_config (store_session e uid name d s) = sm_config s"
  "sm_config (cleanup_expired_sessions e s) = sm_config s" "sm_config (s\<lparr>sm_audit := l\<rparr>) = sm_config s"
  "sm_config (touch e sid x s) = sm_config s"
  by (simp_all add: sm_config_def frame_simps config_constant store_session_def Let_def
      cleanup_expired_sessions_def touch_def)
     (simp_all add: cleanup_old_devices_def split: option.split)

lemma sm_config_concurrent [simp]: "sm_config (handle_concurrent_login e uid ids q s) = sm_config s"
  by (simp add: handle_concurrent_login_def Let_def split: option.split prod.split)

lemma sm_config_more [simp]:
  "sm_config (snd (create_session sha e uid name q s)) = sm_config s"
  "sm_config (snd (get_session sha e sid req s)) = sm_config s"
  "sm_config (terminate_all_user_sessions e uid except s) = sm_config s"
  by (simp_all add: create_session_def get_session_def terminate_all_user_sessions_def Let_def
      split: sum.split option.split)

lemma sm_reach_inv:
  assumes "sm_reach l sha s"
  shows "sm_core s \<and> sm_bound s \<and> sm_config s = (3, 5, 3600, 28800)"
  using assms
proof induction
  case sm_init
  show ?case by (simp add: sm_core_def sm_bound_def sessions_of_def init_sessions_def sm_config_def)
next
  case (sm_create s e uid name q)
  then have inv: "sm_core s" "sm_bound s" by auto
  have "sm_core (snd (create_session sha e uid name q s)) \<and> sm_bound (snd (create_session sha e uid name q s))"
  proof (cases "client_ip q")
    case (Inl err)
    then show ?thesis using inv by (simp add: create_session_def get_device_info_def)
  next
    case (Inr ip)
    from create_session_inv(2,3) [OF inv sm_create(2) Inr prod.collapse [symmetric]] show ?thesis by blast
  qed
  with sm_create show ?case by simp
next
  case (sm_get s e sid req)
  then show ?case using get_session_inv by simp
next
  case (sm_terminate s e reason sid)
  then show ?case by (simp add: terminate_core terminate_bound)
next
  case (sm_terminate_all s e uid except)
  then have inv: "sm_core s" "sm_bound s" by auto
  have "sm_core (terminate_all_user_sessions e uid except s) \<and> sm_bound (terminate_all_user_sessions e uid except s)"
    using terminate_many_inv [OF inv] inv by (simp add: terminate_all_user_sessions_def split: option.split)
  with sm_terminate_all show ?case by simp
next
  case (sm_list s uid)
  then show ?case by (simp add: get_user_sessions_inv)
qed

section \<open>Properties\<close>

text \<open>C28: In every reachable state no user has more than three sessions or five remembered devices, every
  session is listed under its own user and no other, every listed id is a live session of that user, and
  the list of a user's sessions is exactly their live sessions.\<close>

theorem sessions_consistent:
  assumes "sm_reach l sha s"
  shows "length (sessions_of s uid) \<le> 3 \<and> length (dget_or (sm_devices s) uid []) \<le> 5
    \<and> set (sessions_of s uid) = {sid. \<exists>x. dget (sm_sessions s) sid = Some x \<and> us_user x = uid}
    \<and> set (fst (get_user_sessions uid s)) = {x. \<exists>sid. dget (sm_sessions s) sid = Some x \<and> us_user x = uid}"
proof -
  note inv = sm_reach_inv [OF assms]
  have ids: "set (sessions_of s uid) = {sid. \<exists>x. dget (sm_sessions s) sid = Some x \<and> us_user x = uid}"
    using inv by (auto dest: sm_coreD(1,3))
  moreover have "set (fst (get_user_sessions uid s)) = {x. \<exists>sid. dget (sm_sessions s) sid = Some x \<and> us_user x = uid}"
    unfolding get_user_sessions_inv(2) [OF conjunct1 [OF inv]] using ids
    by (force simp: List.map_filter_def)
  ultimately show ?thesis using inv unfolding sm_bound_def sm_config_def by auto
qed

text \<open>A request from a known address, for concrete runs.\<close>

definition a_request :: http_request where
  "a_request = \<lparr>rq_host = Some ''10.0.0.1'', rq_headers = [(''user-agent'', ''ff'')]\<rparr>"

lemma sessions_consistent_witness:
  "length (sessions_of (snd (create_session id env0 1 ''ann'' a_request (init_sessions init_audit))) 1) \<le> 3"
proof -
  have "sm_reach init_audit id (snd (create_session id env0 1 ''ann'' a_request (init_sessions init_audit)))"
    by (rule sm_create [OF sm_init]) (simp add: init_sessions_def)
  from sessions_consistent [OF this, of 1] show ?thesis by blast
qed

text \<open>Every login through the session manager fails after it has taken effect: \<open>create_session\<close>
  raises \<open>TypeError\<close>, because it passes \<open>details\<close> to \<open>log_authentication\<close>, but only after it has stored a
  live session whose token the caller never gets (and may have ended the user's oldest session).\<close>

theorem login_always_raises:
  assumes "sm_reach l sha s" "\<forall>n. \<not> has_key (sm_sessions s) (uuid e n)" "client_ip q = Ok ip"
    and "create_session sha e uid name q s = (r, s')"
  shows "r = Err unexpected_details
    \<and> (\<exists>sid x. \<not> has_key (sm_sessions s) sid \<and> dget (sm_sessions s') sid = Some x \<and> us_user x = uid)"
  using create_session_inv [OF _ _ assms(2-4)] sm_reach_inv [OF assms(1)] by blast

lemma login_always_raises_witness:
  "fst (create_session id env0 1 ''ann'' a_request (init_sessions init_audit)) = Err unexpected_details"
proof -
  have "client_ip a_request = Ok ''10.0.0.1''" by (simp add: client_ip_def a_request_def Let_def)
  from login_always_raises [OF sm_init _ this, of init_audit env0 id 1 "''ann''"] show ?thesis
    by (simp add: init_sessions_def prod_eq_iff)
qed

text \<open>A session is only handed out fresh: when \<open>get_session\<close> returns one it is the live session of
  that id, idle for at most the idle limit and no older than the absolute limit, and if a request was
  given its device fingerprint is that of the session; when it returns none, no session of that id is
  left.\<close>

theorem get_session_guards:
  assumes "get_session sha e sid req s = (r, s')"
  shows "(case r of
      Inr (Some y) \<Rightarrow>
        (\<exists>x. dget (sm_sessions s) sid = Some x \<and> y = x\<lparr>us_last := clock e 1\<rparr>
          \<and> clock e 0 - us_last x \<le> seconds (sm_idle s) \<and> clock e 0 - us_created x \<le> seconds (sm_absolute s)
          \<and> dget (sm_sessions s') sid = Some y
          \<and> (\<forall>q. req = Some q \<longrightarrow> (\<exists>ip. client_ip q = Ok ip
                \<and> fingerprint sha (dget_or (rq_headers q) ''user-agent'' ''unknown'') ip = dv_print (sm_devs s (us_dev x)))))
    | Inr None \<Rightarrow> dget (sm_sessions s') sid = None
    | Inl err \<Rightarrow> \<exists>q. req = Some q \<and> client_ip q = Err err)"
proof (cases "dget (sm_sessions s) sid")
  case None
  with assms show ?thesis by (auto simp: get_session_def)
next
  case (Some x)
  let ?s1 = "touch (later 1 e) sid x s"
  have t: "dget (sm_sessions ?s1) sid = Some (x\<lparr>us_last := clock e 1\<rparr>)"
    "dv_print (sm_devs ?s1 (us_dev x)) = dv_print (sm_devs s (us_dev x))" by (simp_all add: touch_def)
  show ?thesis
  proof (cases "seconds (sm_idle s) < clock e 0 - us_last x \<or> seconds (sm_absolute s) < clock e 0 - us_created x")
    case True
    with assms Some show ?thesis by (auto simp: get_session_def Let_def frame_simps split: if_splits)
  next
    case False
    with assms Some t show ?thesis
      by (cases req) (auto simp: get_session_def Let_def frame_simps get_device_info_def
          split: if_splits sum.splits)
  qed
qed

lemma get_session_guards_witness:
  "\<exists>y. fst (get_session id env0 ''u13''
     None (snd (create_session id env0 1 ''ann'' a_request (init_sessions init_audit)))) = Ok (Some y)
     \<and> us_user y = 1"
proof -
  let ?s = "snd (create_session id env0 1 ''ann'' a_request (init_sessions init_audit))"
  let ?r = "get_session id env0 ''u13'' None ?s"
  have u: "uuid env0 13 = ''u13''" by code_simp
  have x: "dget (sm_sessions ?s) ''u13'' = Some \<lparr>us_id = ''u13'', us_user = 1, us_name = ''ann'', us_dev = ''u13'',
     us_created = 13, us_last = 14, us_active = True, us_count = 1, us_warned = False\<rparr>"
    by (simp add: create_session_def get_device_info_def client_ip_def a_request_def Let_def init_sessions_def
        is_suspicious_login_def cleanup_expired_sessions_def sessions_of_def store_session_def u frame_simps)
  have c: "sm_idle ?s = 3600" "sm_absolute ?s = 28800"
    using sm_config_more(1) [of id env0 1 "''ann''" a_request "init_sessions init_audit"]
    by (simp_all add: sm_config_def init_sessions_def)
  have "fst ?r = Ok (Some (\<lparr>us_id = ''u13'', us_user = 1, us_name = ''ann'', us_dev = ''u13'',
     us_created = 13, us_last = 1, us_active = True, us_count = 1, us_warned = False\<rparr>))"
    by (simp add: get_session_def x c Let_def)
  with get_session_guards [OF prod.collapse [symmetric], where sha = id and e = env0 and sid = "''u13''"
      and req = None and s = ?s] show ?thesis by auto
qed

end
