(* ===== verification/Mfa.thy ===== *)
theory Mfa
  imports PyJson "HOL-Library.Multiset"
begin

text \<open>
  Second factors (\<open>backend/app/utils/mfa.py\<close>): setup and confirmation, codes, backup codes, trusted
  devices.

  The TOTP check of pyotp is a parameter \<open>totp secret code window time\<close>, the digest \<open>sha\<close> another; what
  pyotp and \<open>secrets\<close> draw comes from the environment. The QR image of the setup is not modelled.
\<close>

section \<open>State\<close>

record mfa_config =
  mc_enabled :: bool
  mc_secret :: string
  mc_since :: time
  mc_name :: string
  mc_email :: string

record pending_setup =
  pn_user :: int
  pn_secret :: string
  pn_codes :: "string list"
  pn_created :: time
  pn_name :: string
  pn_email :: string

record mfa_manager =
  mf_data :: "(int, mfa_config) dict"
  mf_pending :: "(string, pending_setup) dict"
  mf_trusted :: "(int, string list) dict"
  mf_codes :: "(int, string list) dict"

definition init_mfa :: mfa_manager where
  "init_mfa = \<lparr>mf_data = [], mf_pending = [], mf_trusted = [], mf_codes = []\<rparr>"

definition generate_backup_codes :: "env \<Rightarrow> string list" where
  "generate_backup_codes e = map (\<lambda>k. py_upper (uuid e k)) [0..<10]"

definition mfa_fingerprint :: "(string \<Rightarrow> string) \<Rightarrow> string \<Rightarrow> string \<Rightarrow> string" where
  "mfa_fingerprint sha ua ip = take 16 (sha (ua @ '':'' @ ip))"

definition is_mfa_enabled :: "int \<Rightarrow> mfa_manager \<Rightarrow> bool" where
  "is_mfa_enabled uid m = (case dget (mf_data m) uid of None \<Rightarrow> False | Some c \<Rightarrow> mc_enabled c)"

definition trusted_of :: "mfa_manager \<Rightarrow> int \<Rightarrow> string list" where
  "trusted_of m uid = dget_or (mf_trusted m) uid []"

definition codes_of :: "mfa_manager \<Rightarrow> int \<Rightarrow> string list" where
  "codes_of m uid = dget_or (mf_codes m) uid []"

definition is_device_trusted :: "(string \<Rightarrow> string) \<Rightarrow> int \<Rightarrow> string \<Rightarrow> string \<Rightarrow> mfa_manager \<Rightarrow> bool" where
  "is_device_trusted sha uid ua ip m =
     (if \<not> is_mfa_enabled uid m then True else mfa_fingerprint sha ua ip \<in> set (trusted_of m uid))"

section \<open>Setup\<close>

text \<open>The token, the secret and the backup codes; the caller gets all three.\<close>

definition setup_mfa ::
    "env \<Rightarrow> int \<Rightarrow> string \<Rightarrow> string \<Rightarrow> mfa_manager \<Rightarrow> (string \<times> string \<times> string list) \<times> mfa_manager" where
  "setup_mfa e uid name email m =
     (let secret = uuid e 0; codes = generate_backup_codes (later 1 e); token = uuid e 11
      in ((token, secret, codes),
          m\<lparr>mf_pending := dset token \<lparr>pn_user = uid, pn_secret = secret, pn_codes = codes, pn_created = clock e 0,
              pn_name = name, pn_email = email\<rparr> (mf_pending m)\<rparr>))"

definition verify_and_enable_mfa ::
    "(string \<Rightarrow> string \<Rightarrow> nat \<Rightarrow> time \<Rightarrow> bool) \<Rightarrow> env \<Rightarrow> string \<Rightarrow> string \<Rightarrow> mfa_manager
     \<Rightarrow> bool result \<times> mfa_manager" where
  "verify_and_enable_mfa totp e token code m =
     (case dget (mf_pending m) token of
        None \<Rightarrow> (Err (HTTPException 400 ''Invalid or expired setup token''), m)
      | Some p \<Rightarrow>
          if seconds 900 < clock e 0 - pn_created p
          then (Err (HTTPException 400 ''Setup token has expired. Please restart MFA setup.''),
                m\<lparr>mf_pending := ddel token (mf_pending m)\<rparr>)
          else if \<not> totp (pn_secret p) code 0 (clock e 1)
          then (Err (HTTPException 400 ''Invalid verification code''), m)
          else (Ok True,
                m\<lparr>mf_data := dset (pn_user p) \<lparr>mc_enabled = True, mc_secret = pn_secret p, mc_since = clock e 2,
                    mc_name = pn_name p, mc_email = pn_email p\<rparr> (mf_data m),
                  mf_codes := dset (pn_user p) (pn_codes p) (mf_codes m),
                  mf_pending := ddel token (mf_pending m)\<rparr>))"

section \<open>Verification\<close>

definition mfa_not_enabled :: py_error where
  "mfa_not_enabled = HTTPException 400 ''MFA is not enabled for this user''"

definition verify_totp ::
    "(string \<Rightarrow> string \<Rightarrow> nat \<Rightarrow> time \<Rightarrow> bool) \<Rightarrow> time \<Rightarrow> int \<Rightarrow> string \<Rightarrow> mfa_manager \<Rightarrow> bool result" where
  "verify_totp totp now uid code m =
     (if \<not> is_mfa_enabled uid m then Err mfa_not_enabled
      else case dget (mf_data m) uid of
             None \<Rightarrow> Err (KeyError (str_int uid))
           | Some c \<Rightarrow> Ok (totp (mc_secret c) code 1 now))"

definition verify_backup_code :: "int \<Rightarrow> string \<Rightarrow> mfa_manager \<Rightarrow> bool \<times> mfa_manager" where
  "verify_backup_code uid code m =
     (if \<not> is_mfa_enabled uid m then (False, m)
      else if py_upper code \<in> set (codes_of m uid)
      then (True, m\<lparr>mf_codes := dset uid (remove1 (py_upper code) (codes_of m uid)) (mf_codes m)\<rparr>)
      else (False, m))"

definition generate_new_backup_codes :: "env \<Rightarrow> int \<Rightarrow> mfa_manager \<Rightarrow> string list result \<times> mfa_manager" where
  "generate_new_backup_codes e uid m =
     (if \<not> is_mfa_enabled uid m then (Err mfa_not_enabled, m)
      else (let codes = generate_backup_codes e in (Ok codes, m\<lparr>mf_codes := dset uid codes (mf_codes m)\<rparr>)))"

section \<open>Trusted devices\<close>

definition trusted_entry :: "string \<Rightarrow> int \<Rightarrow> string" where
  "trusted_entry fp expiry = fp @ '':'' @ str_int expiry"

definition trust_device ::
    "(string \<Rightarrow> string) \<Rightarrow> time \<Rightarrow> int \<Rightarrow> string \<Rightarrow> string \<Rightarrow> int \<Rightarrow> mfa_manager \<Rightarrow> mfa_manager" where
  "trust_device sha now uid ua ip days m =
     (let fp = mfa_fingerprint sha ua ip
      in m\<lparr>mf_trusted := dset uid (filter (\<lambda>d. \<not> prefix (fp @ '':'') d) (trusted_of m uid)
             @ [trusted_entry fp (whole_seconds (now + seconds (days * 86400)))]) (mf_trusted m)\<rparr>)"

definition revoke_device_trust :: "(string \<Rightarrow> string) \<Rightarrow> int \<Rightarrow> string \<Rightarrow> string \<Rightarrow> mfa_manager \<Rightarrow> mfa_manager" where
  "revoke_device_trust sha uid ua ip m =
     (if has_key (mf_trusted m) uid
      then m\<lparr>mf_trusted := dset uid (filter (\<lambda>d. \<not> prefix (mfa_fingerprint sha ua ip @ '':'') d) (trusted_of m uid))
               (mf_trusted m)\<rparr>
      else m)"

definition revoke_all_device_trust :: "int \<Rightarrow> mfa_manager \<Rightarrow> mfa_manager" where
  "revoke_all_device_trust uid m =
     (if has_key (mf_trusted m) uid then m\<lparr>mf_trusted := dset uid [] (mf_trusted m)\<rparr> else m)"

definition disable_mfa :: "int \<Rightarrow> mfa_manager \<Rightarrow> mfa_manager" where
  "disable_mfa uid m =
     m\<lparr>mf_data := ddel uid (mf_data m), mf_codes := ddel uid (mf_codes m), mf_trusted := ddel uid (mf_trusted m)\<rparr>"

record mfa_status =
  mt_enabled :: bool
  mt_since :: "time option"
  mt_trusted :: nat
  mt_codes :: nat

definition get_mfa_status :: "int \<Rightarrow> mfa_manager \<Rightarrow> mfa_status" where
  "get_mfa_status uid m =
     (if \<not> is_mfa_enabled uid m then \<lparr>mt_enabled = False, mt_since = None, mt_trusted = 0, mt_codes = 0\<rparr>
      else \<lparr>mt_enabled = True, mt_since = map_option mc_since (dget (mf_data m) uid),
            mt_trusted = length (trusted_of m uid), mt_codes = length (codes_of m uid)\<rparr>)"

text \<open>\<open>rsplit(':', 1)\<close>: the text after the last colon, if there is one.\<close>

definition after_colon :: "string \<Rightarrow> string option" where
  "after_colon s =
     (if CHR '':'' \<in> set s then Some (rev (takeWhile (\<lambda>c. c \<noteq> CHR '':'') (rev s))) else None)"

definition unexpired :: "time \<Rightarrow> string \<Rightarrow> bool" where
  "unexpired now d =
     (case after_colon d of
        None \<Rightarrow> False
      | Some t \<Rightarrow> (case parse_int t of None \<Rightarrow> False | Some x \<Rightarrow> now < seconds x))"

definition cleanup_expired_devices :: "time \<Rightarrow> mfa_manager \<Rightarrow> mfa_manager" where
  "cleanup_expired_devices now m =
     m\<lparr>mf_trusted := map (\<lambda>(uid, ds). (uid, filter (unexpired now) ds)) (mf_trusted m)\<rparr>"

definition require_mfa_verification :: "(string \<Rightarrow> string) \<Rightarrow> int \<Rightarrow> string \<Rightarrow> string \<Rightarrow> mfa_manager \<Rightarrow> bool" where
  "require_mfa_verification sha uid ua ip m =
     (if \<not> is_mfa_enabled uid m then False else \<not> is_device_trusted sha uid ua ip m)"

section \<open>Operations\<close>

datatype mfa_op =
    MfSetup env int string string
  | MfEnable env string string
  | MfBackup int string
  | MfNewCodes env int
  | MfTrust time int string string int
  | MfRevoke int string string
  | MfRevokeAll int
  | MfDisable int
  | MfCleanup time

fun mfa_do :: "(string \<Rightarrow> string \<Rightarrow> nat \<Rightarrow> time \<Rightarrow> bool) \<Rightarrow> (string \<Rightarrow> string) \<Rightarrow> mfa_op \<Rightarrow> mfa_manager \<Rightarrow> mfa_manager" where
  "mfa_do totp sha (MfSetup e uid name email) m = snd (setup_mfa e uid name email m)"
| "mfa_do totp sha (MfEnable e token code) m = snd (verify_and_enable_mfa totp e token code m)"
| "mfa_do totp sha (MfBackup uid code) m = snd (verify_backup_code uid code m)"
| "mfa_do totp sha (MfNewCodes e uid) m = snd (generate_new_backup_codes e uid m)"
| "mfa_do totp sha (MfTrust now uid ua ip days) m = trust_device sha now uid ua ip days m"
| "mfa_do totp sha (MfRevoke uid ua ip) m = revoke_device_trust sha uid ua ip m"
| "mfa_do totp sha (MfRevokeAll uid) m = revoke_all_device_trust uid m"
| "mfa_do totp sha (MfDisable uid) m = disable_mfa uid m"
| "mfa_do totp sha (MfCleanup now) m = cleanup_expired_devices now m"

text \<open>Every entry of a trusted device is a full fingerprint, a colon and an expiry.\<close>

definition trusted_inv :: "mfa_manager \<Rightarrow> bool" where
  "trusted_inv m \<longleftrightarrow> (\<forall>uid. \<forall>d \<in> set (trusted_of m uid). \<exists>fp x. length fp = 16 \<and> d = trusted_entry fp x)"

lemma trusted_inv_mono:
  "trusted_inv m \<Longrightarrow> (\<And>uid. set (trusted_of m' uid) \<subseteq> set (trusted_of m uid)) \<Longrightarrow> trusted_inv m'"
  unfolding trusted_inv_def by blast

lemma trusted_of_simps [simp]:
  "trusted_of (m\<lparr>mf_data := a\<rparr>) uid = trusted_of m uid" "trusted_of (m\<lparr>mf_pending := b\<rparr>) uid = trusted_of m uid"
  "trusted_of (m\<lparr>mf_codes := c\<rparr>) uid = trusted_of m uid"
  "trusted_of (m\<lparr>mf_trusted := dset u ds (mf_trusted m)\<rparr>) uid = (if uid = u then ds else trusted_of m uid)"
  "trusted_of (m\<lparr>mf_trusted := ddel u (mf_trusted m)\<rparr>) uid = (if uid = u then [] else trusted_of m uid)"
  by (simp_all add: trusted_of_def)

lemma trusted_cleanup: "trusted_of (cleanup_expired_devices now m) uid = filter (unexpired now) (trusted_of m uid)"
  by (auto simp: cleanup_expired_devices_def trusted_of_def dget_or_def map_of_map split: option.split)

lemma trusted_disable: "trusted_of (disable_mfa u m) uid = (if uid = u then [] else trusted_of m uid)"
  by (simp add: disable_mfa_def trusted_of_def)

lemma mfa_do_trusted:
  assumes "\<forall>x. 16 \<le> length (sha x)" "trusted_inv m"
  shows "trusted_inv (mfa_do totp sha a m)"
proof (cases a)
  case (MfTrust now uid ua ip days)
  have "length (mfa_fingerprint sha ua ip) = 16" using assms(1) by (simp add: mfa_fingerprint_def)
  with assms(2) MfTrust show ?thesis by (auto simp: trusted_inv_def trust_device_def Let_def)
qed (use assms(2) in \<open>auto intro!: trusted_inv_mono [OF assms(2)] simp: setup_mfa_def verify_and_enable_mfa_def
      verify_backup_code_def generate_new_backup_codes_def revoke_device_trust_def revoke_all_device_trust_def
      trusted_disable trusted_cleanup Let_def split: option.split if_splits\<close>)

interpretation mf: preserved "mfa_do totp sha" "\<lambda>m. (\<forall>x. 16 \<le> length (sha x)) \<longrightarrow> trusted_inv m" for totp sha
  by unfold_locales (blast intro: mfa_do_trusted)

lemma mfa_run_trusted:
  "\<forall>x. 16 \<le> length (sha x) \<Longrightarrow> trusted_inv (fold (mfa_do totp sha) ops init_mfa)"
  using mf.run_inv [of sha init_mfa totp ops] by (simp add: trusted_inv_def trusted_of_def init_mfa_def)

section \<open>Properties\<close>

text \<open>A trusted device is never recognised. With MFA enabled, no sequence of operations whatsoever,
  trusting the device included, makes \<open>is_device_trusted\<close> true for any device, so the second factor is
  required at every login: the table holds \<open>fingerprint:expiry\<close>, and the bare fingerprint is looked up
  in it.\<close>

theorem trusted_device_never_recognised:
  assumes "\<forall>x. 16 \<le> length (sha x)" "m = fold (mfa_do totp sha) ops init_mfa" "is_mfa_enabled uid m"
  shows "\<not> is_device_trusted sha uid ua ip m \<and> require_mfa_verification sha uid ua ip m"
proof -
  have "mfa_fingerprint sha ua ip \<noteq> d" if "d \<in> set (trusted_of m uid)" for d
  proof -
    have "trusted_inv m" unfolding assms(2) by (rule mfa_run_trusted [OF assms(1)])
    with that obtain fp x where "length fp = 16" "d = trusted_entry fp x"
      unfolding trusted_inv_def by blast
    then have "16 < length d" by (simp add: trusted_entry_def)
    then show ?thesis by (auto simp: mfa_fingerprint_def)
  qed
  with assms(3) show ?thesis by (auto simp: is_device_trusted_def require_mfa_verification_def)
qed

text \<open>A digest of 16 characters and a check that accepts one code, for concrete runs.\<close>

definition toy_sha :: "string \<Rightarrow> string" where
  "toy_sha s = take 16 (s @ replicate 16 CHR ''0'')"

definition toy_totp :: "string \<Rightarrow> string \<Rightarrow> nat \<Rightarrow> time \<Rightarrow> bool" where
  "toy_totp secret code w now = (code = ''123456'')"

lemma trusted_device_never_recognised_witness:
  "\<not> is_device_trusted toy_sha 1 ''ff'' ''10.0.0.1'' (fold (mfa_do toy_totp toy_sha)
     [MfSetup env0 1 ''ann'' ''a@b'', MfEnable env0 ''u11'' ''123456'', MfTrust 0 1 ''ff'' ''10.0.0.1'' 30] init_mfa)"
proof -
  let ?m = "fold (mfa_do toy_totp toy_sha)
     [MfSetup env0 1 ''ann'' ''a@b'', MfEnable env0 ''u11'' ''123456'', MfTrust 0 1 ''ff'' ''10.0.0.1'' 30] init_mfa"
  have "is_mfa_enabled 1 ?m" by code_simp
  moreover have "\<forall>x. 16 \<le> length (toy_sha x)" by (auto simp: toy_sha_def min_def)
  ultimately show ?thesis
    using trusted_device_never_recognised [OF _ refl, of toy_sha 1 toy_totp] by blast
qed

text \<open>Setup: \<open>verify_and_enable_mfa\<close> succeeds exactly for a pending token at most 15 minutes old with
  a code the secret accepts, and then MFA is enabled for the token's user with the codes of the setup
  and the token is spent, so using it again fails; a wrong code leaves everything as it was, and an
  expired token is removed. No other user's factor changes.\<close>

theorem enable_consumes_token:
  assumes "verify_and_enable_mfa totp e token code m = (r, m')"
  shows "(r = Ok True \<longleftrightarrow> (\<exists>p. dget (mf_pending m) token = Some p \<and> clock e 0 - pn_created p \<le> seconds 900
        \<and> totp (pn_secret p) code 0 (clock e 1)))
    \<and> (r = Ok True \<longrightarrow> (\<exists>p. dget (mf_pending m) token = Some p \<and> is_mfa_enabled (pn_user p) m'
          \<and> codes_of m' (pn_user p) = pn_codes p
          \<and> (\<forall>u. u \<noteq> pn_user p \<longrightarrow> is_mfa_enabled u m' = is_mfa_enabled u m \<and> codes_of m' u = codes_of m u))
        \<and> fst (verify_and_enable_mfa totp e2 token code2 m') = Err (HTTPException 400 ''Invalid or expired setup token''))
    \<and> (r \<noteq> Ok True \<longrightarrow> mf_data m' = mf_data m \<and> mf_codes m' = mf_codes m)"
proof (cases "dget (mf_pending m) token")
  case None
  with assms show ?thesis by (auto simp: verify_and_enable_mfa_def)
next
  case (Some p)
  with assms show ?thesis
    by (auto simp: verify_and_enable_mfa_def is_mfa_enabled_def codes_of_def split: if_splits)
qed

lemma enable_consumes_token_witness:
  "fst (verify_and_enable_mfa toy_totp env0 ''u11'' ''123456''
      (snd (verify_and_enable_mfa toy_totp env0 ''u11'' ''123456'' (snd (setup_mfa env0 1 ''ann'' ''a@b'' init_mfa)))))
   = Err (HTTPException 400 ''Invalid or expired setup token'')"
proof -
  let ?m = "snd (setup_mfa env0 1 ''ann'' ''a@b'' init_mfa)"
  have ok: "fst (verify_and_enable_mfa toy_totp env0 ''u11'' ''123456'' ?m) = Ok True" by code_simp
  from enable_consumes_token [OF prod.collapse [symmetric], of toy_totp env0 "''u11''" "''123456''" ?m env0 "''123456''"]
  show ?thesis unfolding ok by blast
qed

text \<open>A backup code is spent by use: it is accepted exactly when MFA is enabled and the code, in upper
  case, is among the user's codes, and then exactly one occurrence of it is gone and nothing else; so
  with distinct codes the same code is refused the second time, and however a user's codes are tried,
  no more attempts succeed than there are codes.\<close>

theorem backup_code_spent:
  assumes "verify_backup_code uid code m = (ok, m')"
  shows "(ok \<longleftrightarrow> is_mfa_enabled uid m \<and> py_upper code \<in> set (codes_of m uid))
    \<and> mset (codes_of m uid) = mset (codes_of m' uid) + (if ok then {#py_upper code#} else {#})
    \<and> (\<forall>u. u \<noteq> uid \<longrightarrow> codes_of m' u = codes_of m u) \<and> mf_data m' = mf_data m
    \<and> (ok \<longrightarrow> distinct (codes_of m uid) \<longrightarrow> \<not> fst (verify_backup_code uid code m'))
    \<and> length (filter id (snd (fold (\<lambda>c (m, rs). let (b, m'') = verify_backup_code uid c m in (m'', b # rs)) cs (m, []))))
       \<le> length (codes_of m uid)"
proof -
  have step: "length (codes_of (snd (verify_backup_code uid c m)) uid)
      + (if fst (verify_backup_code uid c m) then 1 else 0) = length (codes_of m uid)" for c m
    by (auto simp: verify_backup_code_def codes_of_def length_remove1 length_pos_if_in_set
        simp flip: length_greater_0_conv dest: length_pos_if_in_set)
  have run: "length (filter id (snd (fold (\<lambda>c (m, rs). let (b, m'') = verify_backup_code uid c m in (m'', b # rs)) cs (m, rs))))
       \<le> length (filter id rs) + length (codes_of m uid)" for rs
  proof (induction cs arbitrary: m rs)
    case (Cons c cs)
    obtain b m2 where b: "verify_backup_code uid c m = (b, m2)" by fastforce
    from Cons.IH [of m2 "b # rs"] step [of c m] b show ?case by (simp split: if_splits)
  qed simp
  have "(ok \<longleftrightarrow> is_mfa_enabled uid m \<and> py_upper code \<in> set (codes_of m uid))
    \<and> mset (codes_of m uid) = mset (codes_of m' uid) + (if ok then {#py_upper code#} else {#})
    \<and> (\<forall>u. u \<noteq> uid \<longrightarrow> codes_of m' u = codes_of m u) \<and> mf_data m' = mf_data m
    \<and> (ok \<longrightarrow> distinct (codes_of m uid) \<longrightarrow> \<not> fst (verify_backup_code uid code m'))"
    using assms by (auto simp: verify_backup_code_def codes_of_def split: if_splits)
  with run [of "[]"] show ?thesis by auto
qed

lemma backup_code_spent_witness:
  "\<not> fst (verify_backup_code 1 ''u1'' (snd (verify_backup_code 1 ''u1'' (fold (mfa_do toy_totp toy_sha)
     [MfSetup env0 1 ''ann'' ''a@b'', MfEnable env0 ''u11'' ''123456''] init_mfa))))"
proof -
  let ?m = "fold (mfa_do toy_totp toy_sha) [MfSetup env0 1 ''ann'' ''a@b'', MfEnable env0 ''u11'' ''123456''] init_mfa"
  have "fst (verify_backup_code 1 ''u1'' ?m)" "distinct (codes_of ?m 1)" by (code_simp, code_simp)
  with backup_code_spent [OF prod.collapse [symmetric], of 1 "''u1''" ?m] show ?thesis by blast
qed

text \<open>The sweep of trusted devices reads back the expiry it was written with: an entry made by
  \<open>trust_device\<close> is kept exactly while the clock is before its expiry.\<close>

theorem expiry_roundtrip:
  "trusted_entry fp x \<in> set (trusted_of (cleanup_expired_devices now m) uid) \<longleftrightarrow>
     trusted_entry fp x \<in> set (trusted_of m uid) \<and> now < seconds x"
proof -
  have no: "CHR '':'' \<notin> set (str_int x)"
    using str_nat_digits [of x "CHR '':''"] str_nat_digits [of "- x" "CHR '':''"]
    by (auto simp: str_int_def digit_value_def)
  have "rev (takeWhile (\<lambda>c. c \<noteq> CHR '':'') (rev (trusted_entry fp x))) = str_int x"
  proof -
    have "takeWhile (\<lambda>c. c \<noteq> CHR '':'') (rev (str_int x) @ CHR '':'' # rev fp) = rev (str_int x)"
      using no by (subst takeWhile_append2) auto
    then show ?thesis by (simp add: trusted_entry_def)
  qed
  then have "after_colon (trusted_entry fp x) = Some (str_int x)"
    by (simp add: after_colon_def trusted_entry_def)
  then have "unexpired now (trusted_entry fp x) \<longleftrightarrow> now < seconds x"
    by (simp add: unexpired_def parse_str_int)
  then show ?thesis by (auto simp: trusted_cleanup)
qed

end
