(* ===== verification/Aml_Workflow.thy ===== *)
theory Aml_Workflow
  imports Prelude "HOL-Library.Multiset"
begin

text \<open>
  Workflows of the anti-money-laundering service
  (\<open>backend/app/risk_management/aml/services/aml_workflow_service.py\<close>): templates, the life of a
  workflow and its steps, approvals, reassignment, queries, statistics.

  Workflows are kept under their id and updated in place. The entries the service writes into
  \<open>metadata\<close> are fields; the list of pending approvers is one object, shared with the argument of
  \<open>request_approval\<close>, whose later use by the caller is not modelled.
\<close>

section \<open>Workflows\<close>

datatype workflow_type = ALERT_INVESTIGATION | CASE_INVESTIGATION | SAR_PREPARATION
  | KYC_REFRESH | EDD_REVIEW | PERIODIC_REVIEW
  | SANCTIONS_REMEDIATION

fun workflow_type_value :: "workflow_type \<Rightarrow> string" where
  "workflow_type_value ALERT_INVESTIGATION = ''alert_investigation''"
| "workflow_type_value CASE_INVESTIGATION = ''case_investigation''"
| "workflow_type_value SAR_PREPARATION = ''sar_preparation''"
| "workflow_type_value KYC_REFRESH = ''kyc_refresh''"
| "workflow_type_value EDD_REVIEW = ''edd_review''"
| "workflow_type_value PERIODIC_REVIEW = ''periodic_review''"
| "workflow_type_value SANCTIONS_REMEDIATION = ''sanctions_remediation''"

datatype workflow_status = WF_PENDING | WF_IN_PROGRESS | WF_AWAITING_APPROVAL | WF_APPROVED | WF_REJECTED
  | WF_COMPLETED | WF_CANCELLED

fun workflow_status_value :: "workflow_status \<Rightarrow> string" where
  "workflow_status_value WF_PENDING = ''pending''"
| "workflow_status_value WF_IN_PROGRESS = ''in_progress''"
| "workflow_status_value WF_AWAITING_APPROVAL = ''awaiting_approval''"
| "workflow_status_value WF_APPROVED = ''approved''"
| "workflow_status_value WF_REJECTED = ''rejected''"
| "workflow_status_value WF_COMPLETED = ''completed''"
| "workflow_status_value WF_CANCELLED = ''cancelled''"

record workflow_step =
  ws_id :: string
  ws_name :: string
  ws_type :: string
  ws_required :: bool
  ws_order :: int
  ws_status :: string
  ws_completed_at :: "time option"
  ws_completed_by :: "string option"
  ws_result :: "(string \<times> pyval) list option"

definition new_workflow_step :: "string \<Rightarrow> string \<Rightarrow> string \<Rightarrow> bool \<Rightarrow> int \<Rightarrow> workflow_step" where
  "new_workflow_step i nm ty req ord =
     \<lparr>ws_id = i, ws_name = nm, ws_type = ty, ws_required = req, ws_order = ord, ws_status = ''pending'',
      ws_completed_at = None, ws_completed_by = None, ws_result = None\<rparr>"

record approval =
  ap_by :: string
  ap_at :: time
  ap_comments :: "string option"

record workflow =
  wf_id :: string
  wf_type :: workflow_type
  wf_entity :: string
  wf_entity_type :: string
  wf_status :: workflow_status
  wf_steps :: "workflow_step list"
  wf_current :: nat
  wf_created_by :: string
  wf_created :: time
  wf_updated :: time
  wf_completed :: "time option"
  wf_due :: "time option"
  wf_assigned :: "string option"
  wf_approvers :: "string list option"
  wf_requested :: "(string \<times> time) option"
  wf_approvals :: "approval list"
  wf_rejection :: "(string \<times> time \<times> string) option"
  wf_cancellation :: "(string \<times> time \<times> string) option"
  wf_history :: "(string option \<times> string \<times> string \<times> time) list"

type_synonym workflows = "(string, workflow) dict"

text \<open>The templates: id, name and type of each step; its order is its position, from 1.\<close>

fun workflow_template :: "workflow_type \<Rightarrow> (string \<times> string \<times> string) list" where
  "workflow_template ALERT_INVESTIGATION =
     [(''review_alert'', ''Review Alert Details'', ''review''),
      (''gather_info'', ''Gather Additional Information'', ''investigation''),
      (''analyze_transactions'', ''Analyze Transactions'', ''analysis''),
      (''document_findings'', ''Document Findings'', ''documentation''),
      (''make_decision'', ''Make Decision'', ''decision''),
      (''supervisor_review'', ''Supervisor Review'', ''approval'')]"
| "workflow_template CASE_INVESTIGATION =
     [(''case_setup'', ''Case Setup & Planning'', ''setup''),
      (''data_collection'', ''Data Collection'', ''collection''),
      (''analysis'', ''Deep Analysis'', ''analysis''),
      (''network_analysis'', ''Network Analysis'', ''analysis''),
      (''document_findings'', ''Document Findings'', ''documentation''),
      (''risk_assessment'', ''Risk Assessment'', ''assessment''),
      (''recommendation'', ''Prepare Recommendation'', ''decision''),
      (''qc_review'', ''QC Review'', ''review''),
      (''manager_approval'', ''Manager Approval'', ''approval'')]"
| "workflow_template SAR_PREPARATION =
     [(''gather_info'', ''Gather Case Information'', ''collection''),
      (''identify_subjects'', ''Identify Subjects'', ''identification''),
      (''prepare_narrative'', ''Prepare Narrative'', ''documentation''),
      (''compile_transactions'', ''Compile Transactions'', ''compilation''),
      (''qc_review'', ''QC Review'', ''review''),
      (''compliance_approval'', ''Compliance Officer Approval'', ''approval''),
      (''bsa_officer_approval'', ''BSA Officer Approval'', ''approval''),
      (''file_sar'', ''File SAR'', ''filing'')]"
| "workflow_template KYC_REFRESH =
     [(''request_documents'', ''Request Updated Documents'', ''request''),
      (''verify_documents'', ''Verify Documents'', ''verification''),
      (''update_profile'', ''Update Customer Profile'', ''update''),
      (''run_checks'', ''Run KYC Checks'', ''screening''),
      (''risk_assessment'', ''Update Risk Assessment'', ''assessment''),
      (''approval'', ''Approval'', ''approval'')]"
| "workflow_template EDD_REVIEW =
     [(''identify_requirements'', ''Identify EDD Requirements'', ''identification''),
      (''collect_information'', ''Collect Additional Information'', ''collection''),
      (''source_of_funds'', ''Verify Source of Funds'', ''verification''),
      (''source_of_wealth'', ''Verify Source of Wealth'', ''verification''),
      (''adverse_media'', ''Adverse Media Review'', ''review''),
      (''risk_assessment'', ''Enhanced Risk Assessment'', ''assessment''),
      (''recommendation'', ''Prepare Recommendation'', ''decision''),
      (''committee_review'', ''Risk Committee Review'', ''approval'')]"
| "workflow_template PERIODIC_REVIEW =
     [(''gather_data'', ''Gather Review Data'', ''collection''),
      (''activity_review'', ''Review Account Activity'', ''review''),
      (''risk_review'', ''Review Risk Assessment'', ''assessment''),
      (''kyc_validation'', ''Validate KYC Information'', ''validation''),
      (''update_profile'', ''Update Profile if Needed'', ''update''),
      (''approval'', ''Review Approval'', ''approval'')]"
| "workflow_template SANCTIONS_REMEDIATION =
     [(''confirm_match'', ''Confirm Sanctions Match'', ''confirmation''),
      (''freeze_accounts'', ''Freeze Related Accounts'', ''action''),
      (''notify_compliance'', ''Notify Compliance'', ''notification''),
      (''document_exposure'', ''Document Sanctions Exposure'', ''documentation''),
      (''regulatory_report'', ''Prepare Regulatory Report'', ''reporting''),
      (''legal_review'', ''Legal Review'', ''review''),
      (''management_approval'', ''Senior Management Approval'', ''approval''),
      (''file_report'', ''File Regulatory Report'', ''filing'')]"

definition template_steps :: "workflow_type \<Rightarrow> workflow_step list" where
  "template_steps ty =
     map (\<lambda>(k, (i, nm, st)). new_workflow_step i nm st True (int k)) (enumerate 1 (workflow_template ty))"

definition create_workflow ::
    "env \<Rightarrow> workflow_type \<Rightarrow> string \<Rightarrow> string \<Rightarrow> string \<Rightarrow> time option \<Rightarrow> string option \<Rightarrow> workflows
     \<Rightarrow> workflow \<times> workflows" where
  "create_workflow e ty ent enty by due assigned s =
     (let w = \<lparr>wf_id = uuid e 0, wf_type = ty, wf_entity = ent, wf_entity_type = enty, wf_status = WF_PENDING,
               wf_steps = template_steps ty, wf_current = 0, wf_created_by = by, wf_created = clock e 0,
               wf_updated = clock e 1, wf_completed = None,
               wf_due = Some (case due of Some d \<Rightarrow> d | None \<Rightarrow> clock e 2 + seconds (30 * 86400)),
               wf_assigned = assigned, wf_approvers = None, wf_requested = None, wf_approvals = [],
               wf_rejection = None, wf_cancellation = None, wf_history = []\<rparr>
      in (w, dset (wf_id w) w s))"

definition get_workflow :: "workflows \<Rightarrow> string \<Rightarrow> workflow option" where
  "get_workflow s wid = dget s wid"

text \<open>Most operations look the workflow up, change it in place and return it.\<close>

definition change_workflow :: "string \<Rightarrow> (workflow \<Rightarrow> workflow) \<Rightarrow> workflows \<Rightarrow> workflow option \<times> workflows" where
  "change_workflow wid f s =
     (case dget s wid of None \<Rightarrow> (None, s) | Some w \<Rightarrow> (Some (f w), dset wid (f w) s))"

definition set_step :: "nat \<Rightarrow> (workflow_step \<Rightarrow> workflow_step) \<Rightarrow> workflow \<Rightarrow> workflow" where
  "set_step i f w = w\<lparr>wf_steps := (wf_steps w)[i := f (wf_steps w ! i)]\<rparr>"

definition start_in :: "env \<Rightarrow> workflow \<Rightarrow> workflow" where
  "start_in e w =
     (let w1 = w\<lparr>wf_status := WF_IN_PROGRESS\<rparr>;
          w2 = (if wf_steps w \<noteq> [] then set_step 0 (\<lambda>st. st\<lparr>ws_status := ''in_progress''\<rparr>) w1 else w1)
      in w2\<lparr>wf_updated := clock e 0\<rparr>)"

definition start_workflow :: "env \<Rightarrow> string \<Rightarrow> string \<Rightarrow> workflows \<Rightarrow> workflow option \<times> workflows" where
  "start_workflow e wid by = change_workflow wid (start_in e)"

text \<open>The first step with an id, and moving on from position \<open>i\<close>.\<close>

fun find_step :: "string \<Rightarrow> workflow_step list \<Rightarrow> nat option" where
  "find_step sid [] = None"
| "find_step sid (st # sts) = (if ws_id st = sid then Some 0 else map_option Suc (find_step sid sts))"

definition next_step :: "nat \<Rightarrow> workflow \<Rightarrow> workflow" where
  "next_step i w =
     set_step (i + 1) (\<lambda>st. st\<lparr>ws_status := ''in_progress''\<rparr>) (w\<lparr>wf_current := i + 1\<rparr>)"

definition complete_in ::
    "env \<Rightarrow> string \<Rightarrow> string \<Rightarrow> (string \<times> pyval) list option \<Rightarrow> workflow \<Rightarrow> workflow" where
  "complete_in e sid by res w =
     (case find_step sid (wf_steps w) of
        None \<Rightarrow> w
      | Some i \<Rightarrow>
          (let w1 = set_step i (\<lambda>st. st\<lparr>ws_status := ''completed'', ws_completed_at := Some (clock e 0),
                                        ws_completed_by := Some by, ws_result := res\<rparr>) w;
               w2 = (if i + 1 < length (wf_steps w) then next_step i w1
                     else w1\<lparr>wf_status := WF_COMPLETED, wf_completed := Some (clock e 1)\<rparr>)
           in w2\<lparr>wf_updated := clock e 2\<rparr>))"

definition complete_step ::
    "env \<Rightarrow> string \<Rightarrow> string \<Rightarrow> string \<Rightarrow> (string \<times> pyval) list option \<Rightarrow> workflows
     \<Rightarrow> workflow option \<times> workflows" where
  "complete_step e wid sid by res = change_workflow wid (complete_in e sid by res)"

definition skip_step ::
    "env \<Rightarrow> string \<Rightarrow> string \<Rightarrow> string \<Rightarrow> string \<Rightarrow> workflows \<Rightarrow> workflow option result \<times> workflows" where
  "skip_step e wid sid by reason s =
     (case dget s wid of
        None \<Rightarrow> (Ok None, s)
      | Some w \<Rightarrow> (case find_step sid (wf_steps w) of
            None \<Rightarrow> (Ok (Some w), s)
          | Some i \<Rightarrow>
              if ws_required (wf_steps w ! i)
              then (Err (ValueError (''Cannot skip required step: '' @ ws_name (wf_steps w ! i))), s)
              else
                let w1 = set_step i (\<lambda>st. st\<lparr>ws_status := ''skipped'',
                       ws_result := Some [(''skipped_by'', VStr by), (''reason'', VStr reason)]\<rparr>) w;
                    w2 = (if i + 1 < length (wf_steps w) then next_step i w1 else w1);
                    w3 = w2\<lparr>wf_updated := clock e 0\<rparr>
                in (Ok (Some w3), dset wid w3 s)))"

definition request_approval :: "env \<Rightarrow> string \<Rightarrow> string \<Rightarrow> string list \<Rightarrow> workflows \<Rightarrow> workflow option \<times> workflows" where
  "request_approval e wid by approvers =
     change_workflow wid (\<lambda>w. w\<lparr>wf_status := WF_AWAITING_APPROVAL, wf_approvers := Some approvers,
                                wf_requested := Some (by, clock e 0), wf_updated := clock e 1\<rparr>)"

text \<open>
  The approval of a workflow that awaits it. When the last approver approves, the current step is
  completed; a current index past the steps raises \<open>IndexError\<close>.
\<close>

definition approve_in :: "env \<Rightarrow> string \<Rightarrow> string option \<Rightarrow> workflow \<Rightarrow> unit result \<times> workflow" where
  "approve_in e by comments w =
     (let pending = (case wf_approvers w of None \<Rightarrow> [] | Some as \<Rightarrow> as)
      in if by \<in> set pending
         then
           let rest = remove1 by pending;
               w1 = w\<lparr>wf_approvers := Some rest,
                      wf_approvals := wf_approvals w @ [\<lparr>ap_by = by, ap_at = clock e 0, ap_comments = comments\<rparr>]\<rparr>
           in if rest = []
              then
                let w2 = w1\<lparr>wf_status := WF_IN_PROGRESS\<rparr>
                in if wf_current w2 < length (wf_steps w2)
                   then (Ok (), (complete_in (later 1 e) (ws_id (wf_steps w2 ! wf_current w2)) by None w2)
                                  \<lparr>wf_approvers := Some rest, wf_updated := clock e 4\<rparr>)
                   else (Err (IndexError ''list index out of range''), w2)
              else (Ok (), w1\<lparr>wf_updated := clock e 4\<rparr>)
         else (Ok (), w\<lparr>wf_updated := clock e 4\<rparr>))"

definition approve_step ::
    "env \<Rightarrow> string \<Rightarrow> string \<Rightarrow> string option \<Rightarrow> workflows \<Rightarrow> workflow option result \<times> workflows" where
  "approve_step e wid by comments s =
     (case dget s wid of
        None \<Rightarrow> (Ok None, s)
      | Some w \<Rightarrow>
          if wf_status w \<noteq> WF_AWAITING_APPROVAL then (Ok None, s)
          else case approve_in e by comments w of
                 (Inl err, w') \<Rightarrow> (Err err, dset wid w' s)
               | (Inr u, w') \<Rightarrow> (Ok (Some w'), dset wid w' s))"

definition reject_step :: "env \<Rightarrow> string \<Rightarrow> string \<Rightarrow> string \<Rightarrow> workflows \<Rightarrow> workflow option \<times> workflows" where
  "reject_step e wid by reason =
     change_workflow wid (\<lambda>w. w\<lparr>wf_status := WF_REJECTED, wf_rejection := Some (by, clock e 0, reason),
                                wf_updated := clock e 1\<rparr>)"

definition cancel_workflow :: "env \<Rightarrow> string \<Rightarrow> string \<Rightarrow> string \<Rightarrow> workflows \<Rightarrow> workflow option \<times> workflows" where
  "cancel_workflow e wid by reason =
     change_workflow wid (\<lambda>w. w\<lparr>wf_status := WF_CANCELLED, wf_cancellation := Some (by, clock e 0, reason),
                                wf_updated := clock e 1\<rparr>)"

definition reassign_workflow :: "env \<Rightarrow> string \<Rightarrow> string \<Rightarrow> string \<Rightarrow> workflows \<Rightarrow> workflow option \<times> workflows" where
  "reassign_workflow e wid assignee by =
     change_workflow wid (\<lambda>w. w\<lparr>wf_assigned := Some assignee,
       wf_history := wf_history w @ [(wf_assigned w, assignee, by, clock e 0)], wf_updated := clock e 1\<rparr>)"

section \<open>Queries\<close>

definition workflow_open :: "workflow \<Rightarrow> bool" where
  "workflow_open w = (wf_status w \<noteq> WF_COMPLETED \<and> wf_status w \<noteq> WF_CANCELLED)"

definition get_workflows_by_entity :: "string \<Rightarrow> string \<Rightarrow> workflows \<Rightarrow> workflow list" where
  "get_workflows_by_entity ent enty s = filter (\<lambda>w. wf_entity w = ent \<and> wf_entity_type w = enty) (map snd s)"

definition get_assigned_workflows :: "string \<Rightarrow> workflows \<Rightarrow> workflow list" where
  "get_assigned_workflows a s = filter (\<lambda>w. wf_assigned w = Some a \<and> workflow_open w) (map snd s)"

definition workflow_overdue :: "time \<Rightarrow> workflow \<Rightarrow> bool" where
  "workflow_overdue now w = ((case wf_due w of None \<Rightarrow> False | Some d \<Rightarrow> d < now) \<and> workflow_open w)"

definition get_overdue_workflows :: "time \<Rightarrow> workflows \<Rightarrow> workflow list" where
  "get_overdue_workflows now s = filter (workflow_overdue now) (map snd s)"

record workflow_stats =
  wx_total :: nat
  wx_status :: "(string, nat) dict"
  wx_type :: "(string, nat) dict"
  wx_overdue :: nat
  wx_awaiting :: nat

definition tally :: "string \<Rightarrow> (string, nat) dict \<Rightarrow> (string, nat) dict" where
  "tally k d = dset k (dget_or d k 0 + 1) d"

definition get_workflow_statistics :: "time \<Rightarrow> workflows \<Rightarrow> workflow_stats" where
  "get_workflow_statistics now s =
     fold (\<lambda>(i, w) x. x\<lparr>wx_status := tally (workflow_status_value (wf_status w)) (wx_status x),
                        wx_type := tally (workflow_type_value (wf_type w)) (wx_type x),
                        wx_overdue := wx_overdue x + (if workflow_overdue now w then 1 else 0),
                        wx_awaiting := wx_awaiting x + (if wf_status w = WF_AWAITING_APPROVAL then 1 else 0)\<rparr>)
       s \<lparr>wx_total = length s, wx_status = [], wx_type = [], wx_overdue = 0, wx_awaiting = 0\<rparr>"

section \<open>Invariant\<close>

text \<open>
  A workflow keeps the steps of its template, in order and all required, and its current step is one
  of them.
\<close>

definition wf_inv :: "workflow \<Rightarrow> bool" where
  "wf_inv w \<longleftrightarrow> map ws_id (wf_steps w) = map fst (workflow_template (wf_type w))
     \<and> (\<forall>st \<in> set (wf_steps w). ws_required st) \<and> wf_current w < length (wf_steps w)"

definition wfs_inv :: "workflows \<Rightarrow> bool" where
  "wfs_inv s \<longleftrightarrow> (\<forall>(i, w) \<in> set s. wf_inv w)"

lemma template_ids: "distinct (map fst (workflow_template ty))" "workflow_template ty \<noteq> []"
  by (cases ty; simp)+

lemma wf_inv_distinct: "wf_inv w \<Longrightarrow> distinct (map ws_id (wf_steps w)) \<and> wf_steps w \<noteq> []"
  using template_ids [of "wf_type w"] by (metis wf_inv_def list.map_disc_iff)

lemma set_step_ids:
  assumes "\<And>st. ws_id (f st) = ws_id st"
  shows "map ws_id (wf_steps (set_step i f w)) = map ws_id (wf_steps w)"
  using assms by (cases "i < length (wf_steps w)") (simp_all add: set_step_def map_update list_update_beyond
      list_update_same_conv)

lemma set_step_inv:
  assumes "wf_inv w" "\<And>st. ws_id (f st) = ws_id st" "\<And>st. ws_required (f st) = ws_required st"
  shows "wf_inv (set_step i f w)"
proof -
  have "\<forall>st \<in> set (wf_steps (set_step i f w)). ws_required st"
  proof (cases "i < length (wf_steps w)")
    case True
    with assms(1,3) have "ws_required (f (wf_steps w ! i))" by (simp add: wf_inv_def)
    with assms(1) show ?thesis using set_update_subset_insert [of "wf_steps w" i "f (wf_steps w ! i)"]
      by (auto simp: wf_inv_def set_step_def)
  next
    case False
    with assms(1) show ?thesis by (simp add: wf_inv_def set_step_def list_update_beyond)
  qed
  moreover have "wf_type (set_step i f w) = wf_type w" "wf_current (set_step i f w) = wf_current w"
    "length (wf_steps (set_step i f w)) = length (wf_steps w)" by (simp_all add: set_step_def)
  ultimately show ?thesis using assms(1) set_step_ids [of f i w, OF assms(2)] by (simp add: wf_inv_def)
qed

lemma wf_inv_cong [simp]:
  "wf_inv (w\<lparr>wf_status := a\<rparr>) = wf_inv w" "wf_inv (w\<lparr>wf_updated := t\<rparr>) = wf_inv w"
  "wf_inv (w\<lparr>wf_completed := c\<rparr>) = wf_inv w" "wf_inv (w\<lparr>wf_approvers := p\<rparr>) = wf_inv w"
  "wf_inv (w\<lparr>wf_approvals := q\<rparr>) = wf_inv w" "wf_inv (w\<lparr>wf_requested := r\<rparr>) = wf_inv w"
  "wf_inv (w\<lparr>wf_rejection := j\<rparr>) = wf_inv w" "wf_inv (w\<lparr>wf_cancellation := k\<rparr>) = wf_inv w"
  "wf_inv (w\<lparr>wf_assigned := n\<rparr>) = wf_inv w" "wf_inv (w\<lparr>wf_history := h\<rparr>) = wf_inv w"
  by (simp_all add: wf_inv_def)

lemma next_step_inv: "wf_inv w \<Longrightarrow> i + 1 < length (wf_steps w) \<Longrightarrow> wf_inv (next_step i w)"
  unfolding next_step_def by (rule set_step_inv) (simp_all add: wf_inv_def)

lemma start_in_inv: "wf_inv w \<Longrightarrow> wf_inv (start_in e w)"
  by (simp add: start_in_def Let_def set_step_inv)

lemma set_step_frame [simp]:
  "length (wf_steps (set_step i f w)) = length (wf_steps w)" "wf_status (set_step i f w) = wf_status w"
  "wf_current (set_step i f w) = wf_current w" "wf_type (set_step i f w) = wf_type w"
  by (simp_all add: set_step_def)

lemma complete_in_inv: "wf_inv w \<Longrightarrow> wf_inv (complete_in e sid by res w)"
proof (cases "find_step sid (wf_steps w)")
  case (Some i)
  assume inv: "wf_inv w"
  let ?w1 = "set_step i (\<lambda>st. st\<lparr>ws_status := ''completed'', ws_completed_at := Some (clock e 0),
    ws_completed_by := Some by, ws_result := res\<rparr>) w"
  have "wf_inv ?w1" by (rule set_step_inv [OF inv]) simp_all
  with Some show ?thesis by (simp add: complete_in_def Let_def next_step_inv)
qed (simp add: complete_in_def)

lemma approve_in_inv: "wf_inv w \<Longrightarrow> wf_inv (snd (approve_in e by comments w))"
  by (simp add: approve_in_def Let_def complete_in_inv)

lemma wfs_dset: "wfs_inv s \<Longrightarrow> wf_inv w \<Longrightarrow> wfs_inv (dset i w s)"
  using set_dset [of i w s] by (auto simp: wfs_inv_def)

lemma wfs_get: "wfs_inv s \<Longrightarrow> dget s i = Some w \<Longrightarrow> wf_inv w"
  using map_of_SomeD by (fastforce simp: wfs_inv_def)

lemma change_workflow_inv [inv_intros]:
  assumes "wfs_inv s" "\<And>w. wf_inv w \<Longrightarrow> wf_inv (f w)"
  shows "wfs_inv (snd (change_workflow wid f s))"
  using assms by (auto simp: change_workflow_def wfs_get intro: wfs_dset split: option.split)

datatype wf_op =
    WfCreate env workflow_type string string string "time option" "string option"
  | WfStart env string string
  | WfComplete env string string string "(string \<times> pyval) list option"
  | WfSkip env string string string string
  | WfRequest env string string "string list"
  | WfApprove env string string "string option"
  | WfReject env string string string
  | WfCancel env string string string
  | WfReassign env string string string

fun wf_do :: "wf_op \<Rightarrow> workflows \<Rightarrow> workflows" where
  "wf_do (WfCreate e ty ent enty by due asg) s = snd (create_workflow e ty ent enty by due asg s)"
| "wf_do (WfStart e wid by) s = snd (start_workflow e wid by s)"
| "wf_do (WfComplete e wid sid by res) s = snd (complete_step e wid sid by res s)"
| "wf_do (WfSkip e wid sid by reason) s = snd (skip_step e wid sid by reason s)"
| "wf_do (WfRequest e wid by as) s = snd (request_approval e wid by as s)"
| "wf_do (WfApprove e wid by c) s = snd (approve_step e wid by c s)"
| "wf_do (WfReject e wid by reason) s = snd (reject_step e wid by reason s)"
| "wf_do (WfCancel e wid by reason) s = snd (cancel_workflow e wid by reason s)"
| "wf_do (WfReassign e wid a by) s = snd (reassign_workflow e wid a by s)"

lemma template_steps_simps:
  "map ws_id (template_steps ty) = map fst (workflow_template ty)"
  "length (template_steps ty) = length (workflow_template ty)"
  "st \<in> set (template_steps ty) \<Longrightarrow> ws_required st \<and> ws_status st = ''pending''"
proof -
  have "map (ws_id \<circ> (\<lambda>(k, i, nm, st). new_workflow_step i nm st True (int k))) (enumerate n xs) = map fst xs" for n xs
    by (induction xs arbitrary: n) (auto simp: new_workflow_step_def)
  then show "map ws_id (template_steps ty) = map fst (workflow_template ty)" by (simp add: template_steps_def)
qed (auto simp: template_steps_def new_workflow_step_def)

lemma create_workflow_inv: "wfs_inv s \<Longrightarrow> wfs_inv (snd (create_workflow e ty ent enty by due asg s))"
  unfolding create_workflow_def Let_def snd_conv
  by (rule wfs_dset) (simp_all add: wf_inv_def template_steps_simps template_ids)

lemma skip_step_required:
  assumes "wfs_inv s"
  shows "snd (skip_step e wid sid by reason s) = s"
proof (cases "dget s wid")
  case (Some w)
  have mem: "find_step sid sts = Some i \<Longrightarrow> i < length sts" for sts i
    by (induction sts arbitrary: i) (auto split: if_splits)
  show ?thesis
  proof (cases "find_step sid (wf_steps w)")
    case (Some i)
    with mem have "i < length (wf_steps w)" by blast
    with wfs_get [OF assms \<open>dget s wid = Some w\<close>] have "ws_required (wf_steps w ! i)" by (simp add: wf_inv_def)
    with Some \<open>dget s wid = Some w\<close> show ?thesis by (simp add: skip_step_def)
  qed (simp add: skip_step_def Some)
qed (simp add: skip_step_def)

lemma wf_do_inv: "wfs_inv s \<Longrightarrow> wfs_inv (wf_do a s)"
proof (cases a)
  case (WfApprove e wid who c)
  assume inv: "wfs_inv s"
  show ?thesis
  proof (cases "dget s wid")
    case (Some w)
    obtain r w' where x: "approve_in e who c w = (r, w')" by fastforce
    with approve_in_inv [OF wfs_get [OF inv Some], of e who c] have "wf_inv w'" by simp
    with inv Some x WfApprove show ?thesis by (auto simp: approve_step_def wfs_dset split: sum.split)
  qed (simp add: WfApprove inv approve_step_def)
qed (simp_all add: create_workflow_inv start_workflow_def complete_step_def request_approval_def reject_step_def
      cancel_workflow_def reassign_workflow_def skip_step_required change_workflow_inv start_in_inv complete_in_inv)

interpretation wfs: preserved wf_do wfs_inv
  by unfold_locales (rule wf_do_inv)

lemma reachable_wfs_inv: "wfs_inv (fold wf_do ops [])"
  by (rule wfs.run_inv) (simp add: wfs_inv_def)

section \<open>Completing steps\<close>

lemma find_step_nth:
  "distinct (map ws_id sts) \<Longrightarrow> i < length sts \<Longrightarrow> find_step (ws_id (sts ! i)) sts = Some i"
proof (induction sts arbitrary: i)
  case (Cons st sts)
  then show ?case by (cases i) auto
qed simp

lemma complete_in_nth:
  assumes "wf_inv w" "i < length (wf_steps w)"
  shows "wf_status (complete_in e (ws_id (wf_steps w ! i)) who res w) =
      (if i + 1 < length (wf_steps w) then wf_status w else WF_COMPLETED)"
    and "map ws_status (wf_steps (complete_in e (ws_id (wf_steps w ! i)) who res w)) =
      (let sts = (map ws_status (wf_steps w))[i := ''completed'']
       in if i + 1 < length (wf_steps w) then sts[i + 1 := ''in_progress''] else sts)"
    and "wf_current (complete_in e (ws_id (wf_steps w ! i)) who res w) =
      (if i + 1 < length (wf_steps w) then i + 1 else wf_current w)"
    and "wf_completed (complete_in e (ws_id (wf_steps w ! i)) who res w) =
      (if i + 1 < length (wf_steps w) then wf_completed w else Some (clock e 1))"
proof -
  have f: "find_step (ws_id (wf_steps w ! i)) (wf_steps w) = Some i"
    using find_step_nth wf_inv_distinct [OF assms(1)] assms(2) by blast
  show "wf_status (complete_in e (ws_id (wf_steps w ! i)) who res w) =
      (if i + 1 < length (wf_steps w) then wf_status w else WF_COMPLETED)"
    and "wf_current (complete_in e (ws_id (wf_steps w ! i)) who res w) =
      (if i + 1 < length (wf_steps w) then i + 1 else wf_current w)"
    and "wf_completed (complete_in e (ws_id (wf_steps w ! i)) who res w) =
      (if i + 1 < length (wf_steps w) then wf_completed w else Some (clock e 1))"
    using f by (simp_all add: complete_in_def Let_def next_step_def set_step_def)
  show "map ws_status (wf_steps (complete_in e (ws_id (wf_steps w ! i)) who res w)) =
      (let sts = (map ws_status (wf_steps w))[i := ''completed'']
       in if i + 1 < length (wf_steps w) then sts[i + 1 := ''in_progress''] else sts)"
    using f by (simp add: complete_in_def Let_def next_step_def set_step_def map_update)
qed

section \<open>Approvals\<close>

text \<open>One approval of a workflow that awaits approvers \<open>as\<close>.\<close>

lemma approve_in_cases:
  assumes "wf_inv w" "wf_status w = WF_AWAITING_APPROVAL" "wf_approvers w = Some as"
  obtains w' where "approve_in e who c w = (Ok (), w')" "wf_inv w'"
    "who \<in> set as \<Longrightarrow> remove1 who as = [] \<Longrightarrow> wf_status w' \<noteq> WF_AWAITING_APPROVAL
       \<and> ws_status (wf_steps w' ! wf_current w) = ''completed''"
    "who \<in> set as \<Longrightarrow> remove1 who as \<noteq> [] \<Longrightarrow> wf_status w' = WF_AWAITING_APPROVAL
       \<and> wf_approvers w' = Some (remove1 who as) \<and> wf_steps w' = wf_steps w \<and> wf_current w' = wf_current w"
    "who \<notin> set as \<Longrightarrow> wf_status w' = WF_AWAITING_APPROVAL \<and> wf_approvers w' = Some as
       \<and> wf_steps w' = wf_steps w \<and> wf_current w' = wf_current w"
proof -
  have cur: "wf_current w < length (wf_steps w)" using assms(1) by (simp add: wf_inv_def)
  define w1 where "w1 = w\<lparr>wf_approvers := Some [],
    wf_approvals := wf_approvals w @ [\<lparr>ap_by = who, ap_at = clock e 0, ap_comments = c\<rparr>], wf_status := WF_IN_PROGRESS\<rparr>"
  have w1: "wf_inv w1" "wf_steps w1 = wf_steps w" "wf_current w1 = wf_current w" "wf_status w1 = WF_IN_PROGRESS"
    using assms(1) by (simp_all add: w1_def)
  define w2 where "w2 = complete_in (later 1 e) (ws_id (wf_steps w1 ! wf_current w1)) who None w1"
  have st2: "wf_status w2 \<noteq> WF_AWAITING_APPROVAL"
    using complete_in_nth(1) [OF w1(1), of "wf_current w1" "later 1 e" who None] cur w1 by (simp add: w2_def)
  have "map ws_status (wf_steps w2) ! wf_current w = ''completed''"
    using complete_in_nth(2) [OF w1(1), of "wf_current w1" "later 1 e" who None] cur w1
    by (simp add: w2_def Let_def)
  moreover have "length (wf_steps w2) = length (wf_steps w)"
    using complete_in_nth(2) [OF w1(1), of "wf_current w1" "later 1 e" who None, THEN arg_cong, of length] cur w1
    by (simp add: w2_def Let_def split: if_splits)
  ultimately have done2: "ws_status (wf_steps w2 ! wf_current w) = ''completed''" using cur by simp
  consider (out) "who \<notin> set as" | (last) "who \<in> set as" "remove1 who as = []"
    | (more) "who \<in> set as" "remove1 who as \<noteq> []" by blast
  then show thesis
  proof cases
    case out
    with assms show thesis
      by (intro that [of "w\<lparr>wf_updated := clock e 4\<rparr>"]) (simp_all add: approve_in_def Let_def)
  next
    case last
    have "approve_in e who c w = (Ok (), w2\<lparr>wf_approvers := Some [], wf_updated := clock e 4\<rparr>)"
      using last assms(3) cur w1 by (simp add: approve_in_def Let_def w2_def w1_def)
    moreover have "wf_inv w2" unfolding w2_def by (rule complete_in_inv [OF w1(1)])
    ultimately show thesis using last st2 done2
      by (intro that [of "w2\<lparr>wf_approvers := Some [], wf_updated := clock e 4\<rparr>"]) simp_all
  next
    case more
    with assms show thesis
      by (intro that [of "w\<lparr>wf_approvers := Some (remove1 who as),
            wf_approvals := wf_approvals w @ [\<lparr>ap_by = who, ap_at = clock e 0, ap_comments = c\<rparr>],
            wf_updated := clock e 4\<rparr>"]) (simp_all add: approve_in_def Let_def)
  qed
qed

definition approvals :: "string \<Rightarrow> (env \<times> string \<times> string option) list \<Rightarrow> workflows \<Rightarrow> workflows" where
  "approvals wid bs s = fold (\<lambda>(e, who, c) s. snd (approve_step e wid who c s)) bs s"

lemma approvals_closed:
  assumes "dget s wid = Some w" "wf_status w \<noteq> WF_AWAITING_APPROVAL"
  shows "approvals wid bs s = s"
  unfolding approvals_def using assms by (induction bs) (auto simp: approve_step_def)

lemma approvals_run:
  assumes "dget s wid = Some w" "wf_inv w" "wf_status w = WF_AWAITING_APPROVAL" "wf_approvers w = Some as"
  shows "\<exists>w'. dget (approvals wid bs s) wid = Some w' \<and>
    (if as \<noteq> [] \<and> mset as \<subseteq># mset (map (fst \<circ> snd) bs)
     then wf_status w' \<noteq> WF_AWAITING_APPROVAL \<and> ws_status (wf_steps w' ! wf_current w) = ''completed''
     else wf_status w' = WF_AWAITING_APPROVAL \<and> wf_steps w' = wf_steps w)"
  using assms
proof (induction bs arbitrary: s w as)
  case Nil
  then show ?case by (simp add: approvals_def)
next
  case (Cons b bs)
  obtain e who c where b: "b = (e, who, c)" by (metis prod_cases3)
  obtain w1 where x: "approve_in e who c w = (Ok (), w1)" "wf_inv w1"
    and closes: "who \<in> set as \<Longrightarrow> remove1 who as = [] \<Longrightarrow> wf_status w1 \<noteq> WF_AWAITING_APPROVAL
       \<and> ws_status (wf_steps w1 ! wf_current w) = ''completed''"
    and more: "who \<in> set as \<Longrightarrow> remove1 who as \<noteq> [] \<Longrightarrow> wf_status w1 = WF_AWAITING_APPROVAL
       \<and> wf_approvers w1 = Some (remove1 who as) \<and> wf_steps w1 = wf_steps w \<and> wf_current w1 = wf_current w"
    and out: "who \<notin> set as \<Longrightarrow> wf_status w1 = WF_AWAITING_APPROVAL \<and> wf_approvers w1 = Some as
       \<and> wf_steps w1 = wf_steps w \<and> wf_current w1 = wf_current w"
    by (rule approve_in_cases [OF Cons.prems(2,3,4), of e who c]) blast
  let ?s1 = "dset wid w1 s"
  have step: "approvals wid (b # bs) s = approvals wid bs ?s1"
    using Cons.prems(1,3) x(1) by (simp add: approvals_def b approve_step_def)
  have g: "dget ?s1 wid = Some w1" by simp
  show ?case
  proof (cases "who \<in> set as")
    case False
    have "mset as \<subseteq># mset (map (fst \<circ> snd) (b # bs)) \<longleftrightarrow> mset as \<subseteq># mset (map (fst \<circ> snd) bs)"
      using False subset_eq_diff_conv [of "mset as" "{#who#}" "mset (map (fst \<circ> snd) bs)"] by (simp add: b)
    moreover from out [OF False] have eq: "wf_steps w1 = wf_steps w" "wf_current w1 = wf_current w"
      and st: "wf_status w1 = WF_AWAITING_APPROVAL" "wf_approvers w1 = Some as" by simp_all
    moreover note Cons.IH [OF g x(2) st, unfolded eq]
    ultimately show ?thesis unfolding step by presburger
  next
    case True
    have iff: "mset as \<subseteq># mset (map (fst \<circ> snd) (b # bs)) \<longleftrightarrow> mset (remove1 who as) \<subseteq># mset (map (fst \<circ> snd) bs)"
      using subset_eq_diff_conv [of "mset as" "{#who#}" "mset (map (fst \<circ> snd) bs)"] by (simp add: b)
    from True have ne: "as \<noteq> []" by auto
    show ?thesis
    proof (cases "remove1 who as = []")
      case closed: True
      have "approvals wid bs ?s1 = ?s1" by (rule approvals_closed [OF g]) (use closes [OF True closed] in simp)
      then show ?thesis unfolding step iff using closes [OF True closed] g ne closed
        by (intro exI [of _ w1]) simp
    next
      case False
      from more [OF True False] have eq: "wf_steps w1 = wf_steps w" "wf_current w1 = wf_current w"
        and st: "wf_status w1 = WF_AWAITING_APPROVAL" "wf_approvers w1 = Some (remove1 who as)" by simp_all
      have "as \<noteq> [] \<and> mset as \<subseteq># mset (map (fst \<circ> snd) (b # bs)) \<longleftrightarrow>
          remove1 who as \<noteq> [] \<and> mset (remove1 who as) \<subseteq># mset (map (fst \<circ> snd) bs)"
        using iff ne False by blast
      with Cons.IH [OF g x(2) st, unfolded eq] show ?thesis unfolding step by presburger
    qed
  qed
qed

section \<open>Properties\<close>

text \<open>Completing a workflow means completing its last step, nothing else: in any reachable state
  \<open>complete_step\<close> on the last step marks the workflow COMPLETED and leaves every other step as it is,
  whatever their status and whatever the status of the workflow, so also when no step before it was
  done, approvals are pending, or the workflow was rejected or cancelled.\<close>

theorem last_step_completes:
  assumes "s = fold wf_do ops []" "dget s wid = Some w" "n = length (wf_steps w) - 1"
  shows "\<exists>w'. complete_step e wid (ws_id (wf_steps w ! n)) who res s = (Some w', dset wid w' s)
    \<and> wf_status w' = WF_COMPLETED \<and> wf_completed w' = Some (clock e 1)
    \<and> map ws_status (wf_steps w') = (map ws_status (wf_steps w))[n := ''completed'']"
proof -
  have inv: "wf_inv w" using wfs_get [OF reachable_wfs_inv assms(2) [unfolded assms(1)]] .
  then have n: "n < length (wf_steps w)" "\<not> n + 1 < length (wf_steps w)"
    using assms(3) by (auto simp: wf_inv_def)
  show ?thesis
    using complete_in_nth [OF inv n(1), of e who res] n assms(2)
    by (simp add: complete_step_def change_workflow_def)
qed

definition one_sar :: "wf_op list" where
  "one_sar = [WfCreate env0 SAR_PREPARATION ''case-1'' ''case'' ''ann'' None None]"

lemma last_step_completes_witness:
  "\<exists>w'. complete_step env0 ''u0'' ''file_sar'' ''bob'' None (fold wf_do one_sar []) = (Some w', [(''u0'', w')])
     \<and> wf_status w' = WF_COMPLETED
     \<and> map ws_status (wf_steps w') = replicate 7 ''pending'' @ [''completed'']"
proof -
  obtain w where w: "dget (fold wf_do one_sar []) ''u0'' = Some w" "fold wf_do one_sar [] = [(''u0'', w)]"
    "wf_steps w = template_steps SAR_PREPARATION"
    by (simp add: one_sar_def create_workflow_def Let_def)
  have t: "ws_id (template_steps SAR_PREPARATION ! 7) = ''file_sar''" "length (template_steps SAR_PREPARATION) = 8"
    "map ws_status (template_steps SAR_PREPARATION) = replicate 8 ''pending''" by (code_simp, code_simp, code_simp)
  have r: "replicate 8 ''pending'' = replicate 7 ''pending'' @ [''pending'']" by code_simp
  show ?thesis
    using last_step_completes [OF refl w(1) refl, where e = env0 and who = "''bob''" and res = None]
    by (auto simp add: w t r list_update_append)
qed

definition complete_current :: "env \<times> string \<Rightarrow> workflow \<Rightarrow> workflow" where
  "complete_current x w = complete_in (fst x) (ws_id (wf_steps w ! wf_current w)) (snd x) None w"

lemma complete_current_next:
  assumes "wf_inv w" "wf_current w = k" "k < length (wf_steps w)"
  shows "wf_inv (complete_current x w)"
    and "wf_status (complete_current x w) = (if k + 1 < length (wf_steps w) then wf_status w else WF_COMPLETED)"
    and "map ws_status (wf_steps (complete_current x w)) =
      (let sts = (map ws_status (wf_steps w))[k := ''completed'']
       in if k + 1 < length (wf_steps w) then sts[k + 1 := ''in_progress''] else sts)"
    and "wf_current (complete_current x w) = (if k + 1 < length (wf_steps w) then k + 1 else wf_current w)"
  unfolding complete_current_def assms(2)
  using complete_in_inv [OF assms(1)] complete_in_nth [OF assms(1,3)] assms(2) by simp_all

text \<open>Taken in order a workflow does what its template says: after starting a new workflow of any type
  and completing its current step k times, exactly the first k steps are completed, the next is in
  progress, the rest are pending, and the workflow is COMPLETED exactly when k is the number of steps.\<close>

theorem workflow_in_order:
  assumes "w = start_in e0 (fst (create_workflow e ty ent enty creator due asg s))"
    and "n = length (workflow_template ty)" "length xs \<le> n"
  shows "map ws_status (wf_steps (fold complete_current xs w)) =
      replicate (length xs) ''completed'' @
      (if length xs < n then ''in_progress'' # replicate (n - length xs - 1) ''pending'' else [])
    \<and> wf_status (fold complete_current xs w) = (if length xs < n then WF_IN_PROGRESS else WF_COMPLETED)"
proof -
  let ?c = "fst (create_workflow e ty ent enty creator due asg s)"
  have n0: "0 < n" using template_ids(2) [of ty] assms(2) by (cases "workflow_template ty") auto
  have c: "wf_inv ?c" "wf_steps ?c = template_steps ty" "wf_current ?c = 0"
    by (simp_all add: create_workflow_def Let_def wf_inv_def template_steps_simps template_ids)
  have inv: "wf_inv w" unfolding assms(1) by (rule start_in_inv [OF c(1)])
  have sts: "map ws_status (template_steps ty) = replicate n ''pending''"
    using template_steps_simps(2) [of ty] template_steps_simps(3) [of _ ty] assms(2)
    by (intro replicate_eqI) auto
  have "length xs \<le> n \<Longrightarrow> wf_inv (fold complete_current xs w) \<and>
    map ws_status (wf_steps (fold complete_current xs w)) =
      replicate (length xs) ''completed'' @
      (if length xs < n then ''in_progress'' # replicate (n - length xs - 1) ''pending'' else [])
    \<and> wf_status (fold complete_current xs w) = (if length xs < n then WF_IN_PROGRESS else WF_COMPLETED)
    \<and> (length xs < n \<longrightarrow> wf_current (fold complete_current xs w) = length xs)" for xs
  proof (induction xs rule: rev_induct)
    case Nil
    have "map ws_status (wf_steps w) = (replicate n ''pending'')[0 := ''in_progress'']"
      using c(2) n0 assms(2) by (simp add: assms(1) start_in_def Let_def set_step_def map_update sts
          template_steps_simps length_greater_0_conv [symmetric] del: length_greater_0_conv)
    moreover have "wf_status w = WF_IN_PROGRESS" "wf_current w = 0"
      using c by (simp_all add: assms(1) start_in_def Let_def)
    moreover have "replicate n ''pending'' = ''pending'' # replicate (n - 1) ''pending''"
      using n0 by (cases n) auto
    ultimately show ?case using inv n0 by simp
  next
    case (snoc x xs)
    let ?w = "fold complete_current xs w"
    let ?k = "length xs"
    have k: "?k < n" using snoc.prems by simp
    with snoc have ih: "wf_inv ?w" "map ws_status (wf_steps ?w) =
        replicate ?k ''completed'' @ ''in_progress'' # replicate (n - ?k - 1) ''pending''"
      "wf_status ?w = WF_IN_PROGRESS" "wf_current ?w = ?k" by auto
    have len: "length (wf_steps ?w) = n"
      using arg_cong [OF ih(2), of length] k by simp
    note c' = complete_current_next [OF ih(1,4), unfolded len, OF k]
    have "map ws_status (wf_steps (complete_current x ?w)) = replicate (Suc ?k) ''completed'' @
        (if Suc ?k < n then ''in_progress'' # replicate (n - Suc ?k - 1) ''pending'' else [])"
    proof -
      have "replicate (n - ?k - 1) ''pending'' =
          (if Suc ?k < n then ''pending'' # replicate (n - Suc ?k - 1) ''pending'' else [])"
        using k by (cases "n - Suc ?k") auto
      moreover have r: "replicate (Suc ?k) ''completed'' = replicate ?k ''completed'' @ [''completed'']"
        by (simp add: replicate_append_same)
      ultimately show ?thesis
        unfolding c'(3) ih(2) Let_def r by (simp add: list_update_append)
    qed
    then show ?case using k c'(1,2,4) ih(3,4) by auto
  qed
  from this [OF assms(3)] show ?thesis by blast
qed

lemma workflow_in_order_witness:
  "wf_status (fold complete_current (replicate 6 (env0, ''ann''))
     (start_in env0 (fst (create_workflow env0 KYC_REFRESH ''c'' ''customer'' ''ann'' None None [])))) = WF_COMPLETED"
  using workflow_in_order [OF refl refl, of "replicate 6 (env0, ''ann'')" KYC_REFRESH] by simp

text \<open>Approval needs everyone: once approval was requested, a workflow stays in AWAITING_APPROVAL, with
  its steps untouched, until every listed approver has approved (an approver listed twice twice), in
  whatever order and whoever else tries; then the step that was current is completed. With an empty
  list of approvers no approval ever moves it.\<close>

theorem approval_needs_everyone:
  assumes "s = fold wf_do ops []" "dget s wid = Some w0"
    and "request_approval e wid requester as s = (Some w, s1)"
  shows "\<exists>w'. dget (approvals wid bs s1) wid = Some w' \<and>
    (if as \<noteq> [] \<and> mset as \<subseteq># mset (map (fst \<circ> snd) bs)
     then wf_status w' \<noteq> WF_AWAITING_APPROVAL \<and> ws_status (wf_steps w' ! wf_current w0) = ''completed''
     else wf_status w' = WF_AWAITING_APPROVAL \<and> wf_steps w' = wf_steps w0)"
proof -
  have inv: "wf_inv w0" using wfs_get [OF reachable_wfs_inv assms(2) [unfolded assms(1)]] .
  have w: "w = w0\<lparr>wf_status := WF_AWAITING_APPROVAL, wf_approvers := Some as,
      wf_requested := Some (requester, clock e 0), wf_updated := clock e 1\<rparr>" "s1 = dset wid w s"
    using assms(2,3) by (auto simp: request_approval_def change_workflow_def)
  have "dget s1 wid = Some w" "wf_inv w" "wf_status w = WF_AWAITING_APPROVAL" "wf_approvers w = Some as"
    "wf_current w = wf_current w0" "wf_steps w = wf_steps w0"
    using inv by (simp_all add: w)
  from approvals_run [OF this(1-4), of bs, unfolded this(5,6)] show ?thesis .
qed

lemma approval_needs_everyone_witness:
  "\<exists>w'. dget (approvals ''u0'' [(env0, ''eve'', None), (env0, ''bob'', None)]
      (snd (request_approval env0 ''u0'' ''ann'' [''bob'', ''carl''] (fold wf_do one_sar [])))) ''u0'' = Some w'
    \<and> wf_status w' = WF_AWAITING_APPROVAL"
proof -
  let ?s = "fold wf_do one_sar []"
  obtain w where w: "dget ?s ''u0'' = Some w" by (simp add: one_sar_def create_workflow_def Let_def)
  then obtain w1 where r: "request_approval env0 ''u0'' ''ann'' [''bob'', ''carl''] ?s
      = (Some w1, snd (request_approval env0 ''u0'' ''ann'' [''bob'', ''carl''] ?s))"
    by (simp add: request_approval_def change_workflow_def)
  have "\<not> mset [''bob'', ''carl''] \<subseteq># mset [''eve'', ''bob'']"
    by (rule notI, drule mset_subset_eqD [of _ _ "''carl''"]) simp_all
  then show ?thesis
    using approval_needs_everyone [OF refl w r, where bs = "[(env0, ''eve'', None), (env0, ''bob'', None)]"]
    unfolding list.map comp_def fst_conv snd_conv by metis
qed

text \<open>No step can be skipped: \<open>create_workflow\<close> makes every step required, so in any reachable state
  \<open>skip_step\<close> on an existing step raises \<open>ValueError\<close> and changes nothing.\<close>

theorem skip_never_possible:
  assumes "s = fold wf_do ops []" "dget s wid = Some w" "st \<in> set (wf_steps w)"
  shows "skip_step e wid (ws_id st) who reason s =
    (Err (ValueError (''Cannot skip required step: '' @ ws_name st)), s)"
proof -
  have inv: "wf_inv w" using wfs_get [OF reachable_wfs_inv assms(2) [unfolded assms(1)]] .
  obtain i where i: "i < length (wf_steps w)" "st = wf_steps w ! i" using assms(3) by (metis in_set_conv_nth)
  have "find_step (ws_id st) (wf_steps w) = Some i"
    unfolding i(2) using find_step_nth wf_inv_distinct [OF inv] i(1) by blast
  moreover have "ws_required (wf_steps w ! i)" using inv i(1) by (simp add: wf_inv_def)
  ultimately show ?thesis using assms(2) i(2) by (simp add: skip_step_def)
qed

lemma skip_never_possible_witness:
  "fst (skip_step env0 ''u0'' ''qc_review'' ''bob'' ''late'' (fold wf_do one_sar []))
    = Err (ValueError ''Cannot skip required step: QC Review'')"
proof -
  obtain w where w: "dget (fold wf_do one_sar []) ''u0'' = Some w" "wf_steps w = template_steps SAR_PREPARATION"
    by (simp add: one_sar_def create_workflow_def Let_def)
  have t: "ws_id (template_steps SAR_PREPARATION ! 4) = ''qc_review''"
    "ws_name (template_steps SAR_PREPARATION ! 4) = ''QC Review''" "length (template_steps SAR_PREPARATION) = 8"
    by (code_simp, code_simp, code_simp)
  have "template_steps SAR_PREPARATION ! 4 \<in> set (wf_steps w)" unfolding w(2) by (rule nth_mem) (simp add: t)
  from skip_never_possible [OF refl w(1) this, of env0 "''bob''" "''late''"] show ?thesis by (simp add: t)
qed

end
