(* ===== verification/PyFloat.thy ===== *)
theory PyFloat
  imports PyDecimal "HOL-Library.Log_Nat"
begin

text \<open>
  Python's \<open>float\<close>: the finite IEEE 754 doubles, each represented by the rational number it is.
  \<open>double x\<close> is the double nearest to \<open>x\<close> (ties to even), which is what every arithmetic operation
  returns for its exact result; \<open>repr_val x\<close> is the value of the text \<open>repr(x)\<close>, the shortest
  decimal that reads back as \<open>x\<close>. Not modelled: the infinities, NaN and the sign of zero, so an
  overflow is not either.

  The lemmas bound the errors for amounts below \<open>2 ^ 40\<close> (about a thousand billion), which is what
  makes arithmetic on cents exact (theory Money).
\<close>

section \<open>Rounding to a double\<close>

definition round_even :: "rat \<Rightarrow> int" where
  "round_even x =
     (let f = \<lfloor>x\<rfloor>; d = x - of_int f in if d < 1/2 \<or> (d = 1/2 \<and> even f) then f else f + 1)"

definition expo2 :: "rat \<Rightarrow> int" where
  "expo2 x =
     (let (p, q) = quotient_of \<bar>x\<bar>; k = bitlen p - bitlen q in if 2 powi k \<le> \<bar>x\<bar> then k else k - 1)"

definition ulp :: "rat \<Rightarrow> rat" where
  "ulp x = 2 powi (max (expo2 x) (-1022) - 52)"

definition double :: "rat \<Rightarrow> rat" where
  "double x = (if x = 0 then 0 else of_int (round_even (x / ulp x)) * ulp x)"

section \<open>The shortest text of a double\<close>

text \<open>
  The decimals with a last digit of weight \<open>10 ^ k\<close> on either side of \<open>x\<close>; of those that read back
  as \<open>x\<close> the nearer one is taken, and \<open>k\<close> goes down until there is one. The search starts above the
  leading digit; 360 steps reach the last digit of the smallest double.
\<close>

definition candidate :: "int \<Rightarrow> rat \<Rightarrow> rat option" where
  "candidate k x =
     (let t = 10 powi k; lo = of_int \<lfloor>x / t\<rfloor> * t; hi = lo + t
      in if double lo = x \<and> (double hi \<noteq> x \<or> x - lo \<le> hi - x) then Some lo
         else if double hi = x then Some hi else None)"

fun shortest :: "nat \<Rightarrow> int \<Rightarrow> rat \<Rightarrow> rat" where
  "shortest 0 k x = x"
| "shortest (Suc n) k x = (case candidate k x of Some d \<Rightarrow> d | None \<Rightarrow> shortest n (k - 1) x)"

definition repr_val :: "rat \<Rightarrow> rat" where
  "repr_val x = shortest 360 (int (ndigits \<lfloor>\<bar>x\<bar>\<rfloor>)) x"


section \<open>Sums of floats\<close>

text \<open>
  \<open>sum\<close> of floats since Python 3.12 (the version of the Dockerfile): the rounding errors of the
  additions are summed up on the side and added at the end.
\<close>

definition neumaier :: "rat \<Rightarrow> rat \<times> rat \<Rightarrow> rat \<times> rat" where
  "neumaier x sc =
     (let s = fst sc; t = double (s + x);
          d = (if \<bar>s\<bar> \<ge> \<bar>x\<bar> then double (double (s - t) + x) else double (double (x - t) + s))
      in (t, double (snd sc + d)))"

definition compensated :: "rat \<times> rat \<Rightarrow> rat" where
  "compensated sc = (if snd sc = 0 then fst sc else double (fst sc + snd sc))"

definition float_sum :: "rat list \<Rightarrow> rat" where
  "float_sum xs = (case xs of [] \<Rightarrow> 0 | x # ys \<Rightarrow> compensated (fold neumaier ys (x, 0)))"

section \<open>Errors\<close>

lemma round_even_error: "\<bar>of_int (round_even x) - x\<bar> \<le> 1/2"
proof -
  have "of_int \<lfloor>x\<rfloor> \<le> x" "x < of_int \<lfloor>x\<rfloor> + 1" by linarith+
  then show ?thesis by (auto simp: round_even_def Let_def)
qed

lemma expo2_bounds:
  assumes "x \<noteq> 0"
  shows "2 powi expo2 x \<le> \<bar>x\<bar>" and "\<bar>x\<bar> < 2 powi (expo2 x + 1)"
proof -
  obtain p q where pq: "quotient_of \<bar>x\<bar> = (p, q)" by fastforce
  have q: "0 < q" and x: "\<bar>x\<bar> = of_int p / of_int q"
    using quotient_of_denom_pos [OF pq] quotient_of_div [OF pq] by auto
  then have p: "0 < p" using assms by (metis of_int_0_less_iff zero_less_abs_iff zero_less_divide_iff of_int_pos less_asym)
  let ?k = "bitlen p - bitlen q"
  have b: "2 powi (bitlen n - 1) \<le> (of_int n :: rat) \<and> (of_int n :: rat) < 2 powi bitlen n" if n: "0 < n" for n :: int
  proof -
    have "0 < bitlen n" using n bitlen_eq_zero_iff [of n] bitlen_nonneg [of n] by linarith
    then have e: "2 powi (bitlen n - 1) = (of_int (2 ^ nat (bitlen n - 1)) :: rat)"
      "2 powi bitlen n = (of_int (2 ^ nat (bitlen n)) :: rat)" by (simp_all add: power_int_def)
    have "2 ^ nat (bitlen n - 1) \<le> n \<and> n < 2 ^ nat (bitlen n)" by (rule bitlen_bounds [OF n])
    then show ?thesis unfolding e of_int_le_iff of_int_less_iff .
  qed
  have pb: "2 powi (bitlen p - 1) \<le> (of_int p :: rat)" "(of_int p :: rat) < 2 powi bitlen p"
    and qb: "2 powi (bitlen q - 1) \<le> (of_int q :: rat)" "(of_int q :: rat) < 2 powi bitlen q"
    using b [OF p] b [OF q] by auto
  have q0: "(0 :: rat) < of_int q" using q by simp
  have up: "\<bar>x\<bar> < 2 powi (?k + 1)"
  proof -
    have "(of_int p :: rat) < 2 powi (?k + 1) * 2 powi (bitlen q - 1)"
      using pb(2) by (simp add: power_int_add [symmetric])
    also have "\<dots> \<le> 2 powi (?k + 1) * of_int q" using qb(1) by (intro mult_left_mono) auto
    finally show ?thesis unfolding x using q0 by (simp add: field_simps)
  qed
  have down: "2 powi (?k - 1) \<le> \<bar>x\<bar>"
  proof -
    have "2 powi (?k - 1) * of_int q \<le> 2 powi (?k - 1) * (2 powi bitlen q :: rat)"
      using qb(2) by (intro mult_left_mono) auto
    also have "\<dots> = 2 powi (bitlen p - 1)" by (simp add: power_int_add [symmetric])
    also have "\<dots> \<le> of_int p" by (rule pb(1))
    finally show ?thesis unfolding x using q0 by (simp add: field_simps)
  qed
  show "2 powi expo2 x \<le> \<bar>x\<bar>" "\<bar>x\<bar> < 2 powi (expo2 x + 1)"
    using up down by (auto simp: expo2_def pq Let_def)
qed

lemma double_error: "\<bar>double x - x\<bar> \<le> ulp x / 2"
proof (cases "x = 0")
  case False
  have u: "0 < ulp x" by (simp add: ulp_def)
  have "double x - x = (of_int (round_even (x / ulp x)) - x / ulp x) * ulp x"
    using False u by (simp add: double_def left_diff_distrib)
  then have "\<bar>double x - x\<bar> = \<bar>of_int (round_even (x / ulp x)) - x / ulp x\<bar> * ulp x"
    using u by (simp add: abs_mult)
  also have "\<dots> \<le> 1/2 * ulp x" using u round_even_error by (intro mult_right_mono) auto
  finally show ?thesis by simp
qed (simp add: double_def ulp_def)

lemma ulp_bound:
  assumes "\<bar>x\<bar> < 2 ^ n"
  shows "ulp x \<le> 2 powi (int n - 53)"
proof (cases "x = 0")
  case False
  have l: "2 powi expo2 x < (2 powi int n :: rat)" using expo2_bounds(1) [OF False] assms by simp
  have "expo2 x < int n"
  proof (rule ccontr)
    assume "\<not> expo2 x < int n"
    then have "2 powi int n \<le> (2 powi expo2 x :: rat)" by (intro power_int_increasing) auto
    with l show False by simp
  qed
  then show ?thesis unfolding ulp_def by (intro power_int_increasing) auto
next
  case True
  then have "ulp x = 2 powi (- 54)" by (simp add: ulp_def expo2_def bitlen_alt_def)
  also have "\<dots> \<le> 2 powi (int n - 53)" by (intro power_int_increasing) auto
  finally show ?thesis .
qed

lemma double_near:
  assumes "\<bar>x\<bar> < 2 ^ n"
  shows "\<bar>double x - x\<bar> \<le> 2 powi (int n - 54)"
proof -
  have "ulp x / 2 \<le> 2 powi (int n - 53) / 2" using ulp_bound [OF assms] by simp
  also have "\<dots> = 2 powi (int n - 53 - 1)" by (simp add: power_int_diff)
  finally show ?thesis using double_error [of x] by simp
qed

lemma candidate_Some:
  assumes "candidate k x = Some d"
  shows "double d = x" and "\<bar>d - x\<bar> \<le> 10 powi k"
proof -
  let ?t = "10 powi k :: rat"
  have t: "0 < ?t" by simp
  have "of_int \<lfloor>x / ?t\<rfloor> \<le> x / ?t" "x / ?t < of_int \<lfloor>x / ?t\<rfloor> + 1" by linarith+
  then have "of_int \<lfloor>x / ?t\<rfloor> * ?t \<le> x" "x < of_int \<lfloor>x / ?t\<rfloor> * ?t + ?t"
    unfolding pos_le_divide_eq [OF t] pos_divide_less_eq [OF t] by (simp_all add: distrib_right)
  with assms show "double d = x" "\<bar>d - x\<bar> \<le> 10 powi k"
    by (auto simp: candidate_def Let_def split: if_splits)
qed

lemma shortest_cases: "shortest n k x = x \<or> double (shortest n k x) = x \<and> \<bar>shortest n k x - x\<bar> \<le> 10 powi k"
proof (induction n arbitrary: k)
  case (Suc n)
  show ?case
  proof (cases "candidate k x")
    case None
    have "10 powi (k - 1) \<le> (10 powi k :: rat)" by (intro power_int_increasing) auto
    with Suc.IH [of "k - 1"] None show ?thesis by auto
  next
    case (Some d)
    with candidate_Some show ?thesis by auto
  qed
qed simp

lemma repr_near:
  assumes "\<bar>x\<bar> < 10 ^ 12"
  shows "\<bar>repr_val x - x\<bar> \<le> 1 / 8192"
proof -
  let ?d = "repr_val x"
  have "\<lfloor>\<bar>x\<bar>\<rfloor> < 10 ^ 12" using assms by (simp add: floor_less_iff)
  then have "ndigits \<lfloor>\<bar>x\<bar>\<rfloor> \<le> 12" by (intro ndigits_le) auto
  then have k: "10 powi int (ndigits \<lfloor>\<bar>x\<bar>\<rfloor>) \<le> (10 ^ 12 :: rat)"
    using power_increasing [of "ndigits \<lfloor>\<bar>x\<bar>\<rfloor>" 12 "10 :: rat"] by simp
  from shortest_cases consider "?d = x" | "double ?d = x" "\<bar>?d - x\<bar> \<le> 10 ^ 12"
    unfolding repr_val_def using k order_trans by blast
  then show ?thesis
  proof cases
    case 2
    then have "\<bar>?d\<bar> < 2 ^ 41" using assms by simp
    from double_near [OF this] 2(1) show ?thesis by (simp add: power_int_def power_one_over abs_minus_commute)
  qed simp
qed

lemma double_near40: "\<bar>x\<bar> < 2 ^ 40 \<Longrightarrow> \<bar>double x - x\<bar> \<le> 1 / 16384"
  using double_near [of x 40] by (simp add: power_int_def power_one_over)

section \<open>Relative errors, integers\<close>

text \<open>The error of a number so small that the precision is not full.\<close>

definition tiny :: rat where
  "tiny = 1 / 2 ^ 1000"

lemma tiny_pos: "0 < tiny"
  by (simp add: tiny_def)

lemma double_rel: "\<bar>double x - x\<bar> \<le> \<bar>x\<bar> / 2 ^ 53 + tiny"
proof (cases "x = 0")
  case False
  have u: "ulp x / 2 \<le> \<bar>x\<bar> / 2 ^ 53 + tiny"
  proof (cases "expo2 x \<ge> -1022")
    case True
    have "ulp x / 2 = 2 powi expo2 x / 2 ^ 53"
      using True by (simp add: ulp_def power_int_diff)
    also have "\<dots> \<le> \<bar>x\<bar> / 2 ^ 53" using expo2_bounds(1) [OF False] by (simp add: divide_right_mono)
    finally show ?thesis using tiny_pos by simp
  next
    case False
    then have "ulp x / 2 = 2 powi (-1075)" by (simp add: ulp_def power_int_minus)
    also have "\<dots> \<le> 2 powi (-1000)" by (rule power_int_increasing) simp_all
    also have "\<dots> = tiny" unfolding tiny_def by (simp add: power_int_minus power_int_def field_simps)
    finally have "ulp x / 2 \<le> tiny" .
    moreover have "0 \<le> \<bar>x\<bar> / 2 ^ 53" by simp
    ultimately show ?thesis by (rule add_increasing [rotated])
  qed
  show ?thesis using double_error [of x] u by linarith
qed (simp add: double_def tiny_pos less_imp_le)

lemma double_nonneg: "0 \<le> x \<Longrightarrow> 0 \<le> double x"
proof -
  assume "0 \<le> x"
  then have "0 \<le> x / ulp x" by (simp add: ulp_def)
  then have "0 \<le> round_even (x / ulp x)" by (auto simp: round_even_def Let_def)
  then show ?thesis by (simp add: double_def ulp_def)
qed

lemma round_even_int [simp]: "round_even (of_int k) = k"
  by (simp add: round_even_def Let_def)

lemma double_int:
  assumes "\<bar>k\<bar> < 2 ^ 53"
  shows "double (of_int k) = of_int k"
proof (cases "k = 0")
  case False
  let ?x = "of_int k :: rat"
  have x: "?x \<noteq> 0" "1 \<le> \<bar>?x\<bar>" "\<bar>?x\<bar> < 2 ^ 53" using False assms by (simp_all flip: of_int_abs)
  have lo: "0 \<le> expo2 ?x"
  proof (rule ccontr)
    assume "\<not> 0 \<le> expo2 ?x"
    then have "2 powi (expo2 ?x + 1) \<le> (2 powi 0 :: rat)" by (intro power_int_increasing) simp_all
    then show False using expo2_bounds(2) [OF x(1)] x(2) by simp
  qed
  have hi: "expo2 ?x \<le> 52"
  proof (rule ccontr)
    assume "\<not> expo2 ?x \<le> 52"
    then have "(2 powi 53 :: rat) \<le> 2 powi expo2 ?x" by (intro power_int_increasing) simp_all
    then show False using expo2_bounds(1) [OF x(1)] x(3) by simp
  qed
  define m where "m = nat (52 - expo2 ?x)"
  have u: "ulp ?x = 1 / 2 ^ m" using lo hi by (simp add: ulp_def m_def power_int_def field_simps)
  have "?x / ulp ?x = of_int (k * 2 ^ m)" by (simp add: u)
  then have "double ?x = of_int (k * 2 ^ m) * ulp ?x" using x(1) unfolding double_def by (simp only: if_False round_even_int)
  then show ?thesis by (simp add: u)
qed (simp add: double_def)

text \<open>Powers the arithmetic of errors meets, evaluated.\<close>

lemma powers_eval:
  "(2 :: rat) ^ 50 = 1125899906842624" "(2 :: rat) ^ 51 = 2251799813685248" "(2 :: rat) ^ 53 = 9007199254740992"
  "(2 :: rat) ^ 100 = 1267650600228229401496703205376"
  by simp_all

lemma tiny_small: "tiny \<le> 1 / 2 ^ 100"
  by (simp add: tiny_def field_simps)

lemma double_upper: "0 \<le> x \<Longrightarrow> double x \<le> x + x / 2 ^ 53 + tiny"
  using double_rel [of x] by simp

section \<open>Exact texts\<close>

lemma candidate_multiple: "candidate k x = Some d \<Longrightarrow> \<exists>m :: int. d = of_int m * 10 powi k"
  by (auto simp: candidate_def Let_def ring_distribs split: if_splits) (metis of_int_1 of_int_add ring_distribs(2) mult_1)+

lemma err_same:
  fixes d v x :: rat
  assumes "\<bar>d - x\<bar> \<le> 1 / 65536" "\<bar>v - x\<bar> \<le> 1 / 65536" "d = of_int m / 10000" "v = of_int y / 10000"
  shows "d = v"
proof -
  have "\<bar>d - v\<bar> \<le> 2 / 65536" using assms(1,2) by linarith
  then have "of_int m - of_int y < (1 :: rat)" "of_int y - of_int m < (1 :: rat)" unfolding assms(3,4) abs_le_iff by linarith+
  then have "m = y" by linarith
  then show ?thesis using assms(3,4) by simp
qed

lemma double_near38: "\<bar>x\<bar> < 2 ^ 38 \<Longrightarrow> \<bar>double x - x\<bar> \<le> 1 / 65536"
  using double_near [of x 38] by (simp add: power_int_def power_one_over)

lemma multiple_fine: "- 4 \<le> k \<Longrightarrow> \<exists>m' :: int. of_int m * 10 powi k = (of_int m' / 10000 :: rat)"
proof -
  assume k: "- 4 \<le> k"
  have "10 powi k = (10 powi (k + 4) / 10000 :: rat)" by (simp add: power_int_add)
  also have "10 powi (k + 4) = (10 ^ nat (k + 4) :: rat)" using k by (simp add: power_int_def)
  finally show ?thesis by (intro exI [of _ "m * 10 ^ nat (k + 4)"]) simp
qed

text \<open>For a decimal of four places below 10 ^ 11, \<open>v\<close>, and the double \<open>x\<close> that represents it.\<close>

lemma decimal_near:
  assumes "\<bar>v\<bar> \<le> 10 ^ 11" "x = double v"
  shows "\<bar>v - x\<bar> \<le> 1 / 65536" and "\<bar>x\<bar> < 10 ^ 12"
proof -
  have "\<bar>v\<bar> < 2 ^ 38" using assms(1) by simp
  from double_near38 [OF this] show n: "\<bar>v - x\<bar> \<le> 1 / 65536" by (simp only: assms(2) abs_minus_commute)
  have "\<bar>v\<bar> \<le> 100000000000" using assms(1) by simp
  then have "\<bar>x\<bar> < 1000000000000" using n by linarith
  then show "\<bar>x\<bar> < 10 ^ 12" by simp
qed

lemma candidate_is:
  assumes "candidate k x = Some d" "- 4 \<le> k" "k \<le> 12" and v: "v = of_int y / 10000" "\<bar>v\<bar> \<le> 10 ^ 11" "x = double v"
  shows "d = v"
proof -
  note near = decimal_near [OF v(2,3)]
  have k: "10 powi k \<le> (10 powi 12 :: rat)" using assms(3) by (intro power_int_increasing) auto
  have "\<bar>d - x\<bar> \<le> 10 ^ 12" using candidate_Some(2) [OF assms(1)] k by simp
  then have "\<bar>d\<bar> < 2 ^ 41" using near(2) by simp
  from double_near [OF this] have "\<bar>x - d\<bar> \<le> 1 / 8192"
    using candidate_Some(1) [OF assms(1)] by (simp add: power_int_def power_one_over)
  moreover have "\<bar>v\<bar> \<le> 100000000000" using v(2) by simp
  ultimately have "\<bar>d\<bar> < 274877906944" using near(1) by linarith
  then have "\<bar>d\<bar> < 2 ^ 38" by simp
  from double_near38 [OF this] have d: "\<bar>d - x\<bar> \<le> 1 / 65536"
    using candidate_Some(1) [OF assms(1)] by (simp add: abs_minus_commute)
  obtain m m' :: int where "d = of_int m * 10 powi k" "of_int m * 10 powi k = (of_int m' / 10000 :: rat)"
    using candidate_multiple [OF assms(1)] multiple_fine [OF assms(2)] by blast
  then show ?thesis using err_same [OF d near(1) _ v(1)] by simp
qed

lemma candidate_there:
  assumes v: "v = of_int y / 10000" "\<bar>v\<bar> \<le> 10 ^ 11" "x = double v"
  shows "candidate (- 4) x \<noteq> None"
proof -
  let ?t = "10 powi (- 4) :: rat"
  have t: "?t = 1 / 10000" by (simp add: power_int_def power_one_over)
  let ?f = "\<lfloor>x * 10000\<rfloor>"
  have e: "x / ?t = x * 10000" by (simp add: t)
  have "of_int ?f \<le> x * 10000" "x * 10000 < of_int ?f + 1" by linarith+
  moreover have "of_int y - x * 10000 < 1" "x * 10000 - of_int y < 1"
    using decimal_near(1) [OF v(2,3)] unfolding v(1) abs_le_iff by linarith+
  ultimately have "y = ?f \<or> y = ?f + 1" by linarith
  then have "v = of_int ?f * ?t \<or> v = of_int ?f * ?t + ?t" unfolding v(1) t by (auto simp: field_simps)
  then have "double (of_int ?f * ?t) = x \<or> double (of_int ?f * ?t + ?t) = x" using v(3) by metis
  then show ?thesis unfolding candidate_def Let_def e by (simp only: split: if_split) blast
qed

lemma shortest_is:
  assumes v: "v = of_int y / 10000" "\<bar>v\<bar> \<le> 10 ^ 11" "x = double v"
  shows "- 4 \<le> k \<Longrightarrow> k \<le> 12 \<Longrightarrow> k + 5 \<le> int n \<Longrightarrow> shortest n k x = v"
proof (induction n arbitrary: k)
  case (Suc n)
  show ?case
  proof (cases "candidate k x")
    case None
    then have "k \<noteq> - 4" using candidate_there [OF v] by auto
    then have "shortest n (k - 1) x = v" using Suc.prems by (intro Suc.IH) auto
    then show ?thesis using None by simp
  next
    case (Some d)
    then show ?thesis using candidate_is [OF Some Suc.prems(1,2) v] by simp
  qed
qed simp

lemma repr_exact:
  assumes "\<bar>y\<bar> \<le> 10 ^ 15"
  shows "repr_val (double (of_int y / 10000)) = of_int y / 10000"
proof -
  have "\<bar>of_int y :: rat\<bar> \<le> of_int (10 ^ 15)" using assms unfolding of_int_abs [symmetric] of_int_le_iff .
  then have v: "\<bar>of_int y / 10000 :: rat\<bar> \<le> 10 ^ 11" by simp
  let ?x = "double (of_int y / 10000)"
  have "\<lfloor>\<bar>?x\<bar>\<rfloor> < 10 ^ 12" using decimal_near(2) [OF v refl] by (simp add: floor_less_iff)
  then have "ndigits \<lfloor>\<bar>?x\<bar>\<rfloor> \<le> 12" by (intro ndigits_le) auto
  then show ?thesis unfolding repr_val_def by (intro shortest_is [OF refl v refl]) auto
qed

section \<open>Monotonicity\<close>

lemma round_even_mono: "x \<le> y \<Longrightarrow> round_even x \<le> round_even y"
proof -
  assume xy: "x \<le> y"
  have r: "\<lfloor>z\<rfloor> \<le> round_even z" "round_even z \<le> \<lfloor>z\<rfloor> + 1" for z by (auto simp: round_even_def Let_def)
  show ?thesis
  proof (cases "\<lfloor>x\<rfloor> = \<lfloor>y\<rfloor>")
    case True
    then show ?thesis using xy by (auto simp: round_even_def Let_def)
  next
    case False
    then have "\<lfloor>x\<rfloor> + 1 \<le> \<lfloor>y\<rfloor>" using floor_mono [OF xy] by linarith
    then show ?thesis using r [of x] r [of y] by linarith
  qed
qed

lemma expo2_mono: "0 < x \<Longrightarrow> x \<le> y \<Longrightarrow> expo2 x \<le> expo2 y"
proof (rule ccontr)
  assume a: "0 < x" "x \<le> y" "\<not> expo2 x \<le> expo2 y"
  then have "2 powi (expo2 y + 1) \<le> (2 powi expo2 x :: rat)" by (intro power_int_increasing) auto
  moreover have "2 powi expo2 x \<le> x" "y < 2 powi (expo2 y + 1)"
    using expo2_bounds(1) [of x] expo2_bounds(2) [of y] a(1,2) by auto
  ultimately show False using a(2) by linarith
qed

lemma double_scaled:
  assumes "0 < x" "ulp x = u" "0 < u" "x \<le> of_int n * u"
  shows "double x \<le> of_int n * u"
proof -
  have "x / u \<le> of_int n" using assms(3,4) by (simp add: pos_divide_le_eq)
  then have "round_even (x / u) \<le> n" using round_even_mono [of "x / u" "of_int n"] by simp
  then show ?thesis using assms by (simp add: double_def)
qed

lemma double_scaled_ge:
  assumes "0 < x" "ulp x = u" "0 < u" "of_int n * u \<le> x"
  shows "of_int n * u \<le> double x"
proof -
  have "of_int n \<le> x / u" using assms(3,4) by (simp add: pos_le_divide_eq)
  then have "n \<le> round_even (x / u)" using round_even_mono [of "of_int n" "x / u"] by simp
  then show ?thesis using assms by (simp add: double_def)
qed

lemma power_split: "(0 :: int) \<le> k \<Longrightarrow> (2 :: rat) powi (k + j) = of_int (2 ^ nat k) * 2 powi j"
proof -
  assume "0 \<le> k"
  then have "(2 :: rat) powi k = of_int (2 ^ nat k)" by (simp add: power_int_def)
  then show ?thesis by (simp add: power_int_add)
qed

lemma double_mono:
  assumes "0 \<le> x" "x \<le> y"
  shows "double x \<le> double y"
proof (cases "x = 0")
  case True
  then show ?thesis using double_nonneg [of y] assms by (simp add: double_def)
next
  case False
  then have p: "0 < x" "0 < y" using assms by auto
  let ?m = "\<lambda>z. max (expo2 z) (- 1022)"
  have u: "0 < ulp z" "ulp z = 2 powi (?m z - 52)" for z by (simp_all add: ulp_def)
  have le: "?m x \<le> ?m y" using expo2_mono [OF p(1) assms(2)] by simp
  show ?thesis
  proof (cases "?m x = ?m y")
    case True
    then have same: "ulp x = ulp y" by (simp only: u(2))
    have "x / ulp y \<le> y / ulp y" using assms(2) u(1) [of y] by (intro divide_right_mono) auto
    then have "round_even (x / ulp y) \<le> round_even (y / ulp y)" by (rule round_even_mono)
    then have "of_int (round_even (x / ulp y)) * ulp y \<le> of_int (round_even (y / ulp y)) * ulp y"
      using u(1) [of y] by (intro mult_right_mono) auto
    then show ?thesis using p by (simp add: double_def same)
  next
    case False
    define a b where ab: "a = ?m x" "b = ?m y"
    have lt: "a < b" using False le unfolding ab by linarith
    have e: "expo2 y = b" "expo2 x \<le> a" using lt unfolding ab by linarith+
    have ux: "of_int (2 ^ nat (b - a + 52)) * ulp x = 2 powi b"
      using power_split [of "b - a + 52" "a - 52"] lt unfolding u(2) ab(1) [symmetric] by simp
    have uy: "of_int (2 ^ 52) * ulp y = 2 powi b"
      using power_split [of 52 "b - 52"] unfolding u(2) ab(2) [symmetric] by simp
    have "x < 2 powi (expo2 x + 1)" using expo2_bounds(2) [of x] p by simp
    also have "\<dots> \<le> 2 powi b" using lt e(2) by (intro power_int_increasing) auto
    finally have "double x \<le> 2 powi b" unfolding ux [symmetric] by (intro double_scaled [OF p(1) refl u(1)]) simp
    moreover have "2 powi b \<le> y" using expo2_bounds(1) [of y] p e(1) by simp
    then have "2 powi b \<le> double y" unfolding uy [symmetric] by (rule double_scaled_ge [OF p(2) refl u(1)])
    ultimately show ?thesis by simp
  qed
qed

end
