(* ===== verification/Network.thy ===== *)
theory Network
  imports Prelude PyFloat
begin

text \<open>
  The network analysis of the anti-money-laundering service
  (\<open>backend/app/risk_management/aml/services/network_analysis_service.py\<close>, models in
  \<open>network_analysis_models.py\<close>): expansion of a network from a root, density and centrality, clusters
  by breadth-first search, circular flows by depth-first search, risk, shortest paths, communities,
  drawing data, statistics.

  Scores are floats (theory PyFloat). The neighbours of a node are a Python set in two places: the order in which
  a set is iterated is the argument \<open>ord\<close>, of which \<open>permutes ord\<close> says that it lists each element
  once. The points of the circular layout (\<open>math.cos\<close>, \<open>math.sin\<close>) are the argument \<open>pos\<close>. The identifiers
  of paths and results, and the times at which nodes, edges and results were made, are never read and
  left out.

  Theory Network_Search proves the searches correct.
\<close>

section \<open>Data\<close>

datatype node_type = NT_CUSTOMER | NT_ACCOUNT | NT_TRANSACTION | NT_EXTERNAL_PARTY | NT_ORGANIZATION
  | NT_ADDRESS | NT_PHONE | NT_EMAIL | NT_DEVICE | NT_IP_ADDRESS

fun node_type_value :: "node_type \<Rightarrow> string" where
  "node_type_value NT_CUSTOMER = ''customer''"
| "node_type_value NT_ACCOUNT = ''account''"
| "node_type_value NT_TRANSACTION = ''transaction''"
| "node_type_value NT_EXTERNAL_PARTY = ''external_party''"
| "node_type_value NT_ORGANIZATION = ''organization''"
| "node_type_value NT_ADDRESS = ''address''"
| "node_type_value NT_PHONE = ''phone''"
| "node_type_value NT_EMAIL = ''email''"
| "node_type_value NT_DEVICE = ''device''"
| "node_type_value NT_IP_ADDRESS = ''ip_address''"

definition node_types :: "node_type list" where
  "node_types = [NT_CUSTOMER, NT_ACCOUNT, NT_TRANSACTION, NT_EXTERNAL_PARTY, NT_ORGANIZATION,
     NT_ADDRESS, NT_PHONE, NT_EMAIL, NT_DEVICE, NT_IP_ADDRESS]"

datatype edge_type = ET_OWNS | ET_TRANSACTS_WITH | ET_TRANSFERS_TO | ET_RECEIVES_FROM | ET_RELATED_TO
  | ET_SHARES_ADDRESS | ET_SHARES_PHONE | ET_SHARES_DEVICE | ET_EMPLOYED_BY | ET_DIRECTOR_OF
  | ET_BENEFICIAL_OWNER

datatype net_risk = NR_LOW | NR_MEDIUM | NR_HIGH | NR_CRITICAL

record net_node =
  nn_id :: string
  nn_type :: node_type
  nn_label :: string
  nn_display :: string
  nn_entity :: "string option"
  nn_entity_type :: "string option"
  nn_properties :: "(string \<times> pyval) list"
  nn_risk :: rat
  nn_flags :: "string list"
  nn_pep :: bool
  nn_sanctioned :: bool
  nn_watchlist :: bool
  nn_degree :: rat
  nn_betweenness :: rat
  nn_closeness :: rat
  nn_pagerank :: rat
  nn_size :: rat
  nn_color :: "string option"
  nn_icon :: "string option"

record net_edge =
  ne_id :: string
  ne_src :: string
  ne_tgt :: string
  ne_type :: edge_type
  ne_label :: "string option"
  ne_weight :: rat
  ne_directed :: bool
  ne_count :: int
  ne_amount :: rat
  ne_currency :: "string option"
  ne_transactions :: "time option \<times> time option" \<comment> \<open>dates of the first and the last one\<close>
  ne_relationship :: "time option \<times> time option" \<comment> \<open>its start and its end\<close>
  ne_active :: bool
  ne_risk :: rat
  ne_indicators :: "string list"
  ne_thickness :: rat
  ne_color :: "string option"
  ne_style :: string
  ne_properties :: "(string \<times> pyval) list"

record net_cluster =
  nc_id :: string
  nc_name :: string
  nc_type :: string
  nc_nodes :: "string list"
  nc_central :: "string option"
  nc_size :: nat
  nc_density :: rat
  nc_path_length :: rat
  nc_coefficient :: rat
  nc_risk :: rat
  nc_level :: net_risk
  nc_factors :: "string list"
  nc_count :: int
  nc_amount :: rat
  nc_internal :: int
  nc_external :: int
  nc_pep :: int
  nc_sanctioned :: int
  nc_countries :: int
  nc_alerts :: "string list"
  nc_cases :: "string list"

record net_path =
  np_start :: string
  np_end :: string
  np_nodes :: "string list"
  np_edges :: "string list"
  np_len :: nat
  np_amount :: rat
  np_count :: int
  np_hours :: rat
  np_risk :: rat
  np_indicators :: "string list"
  np_circular :: bool

record net_analysis =
  na_id :: string
  na_name :: string
  na_type :: string
  na_root :: string
  na_root_type :: string
  na_depth :: int
  na_range :: "time option \<times> time option"
  na_nodes :: "net_node list"
  na_edges :: "net_edge list"
  na_clusters :: "net_cluster list"
  na_total_nodes :: nat
  na_total_edges :: nat
  na_density :: rat
  na_degree :: rat
  na_diameter :: nat
  na_components :: nat
  na_risk :: rat
  na_level :: net_risk
  na_risky_nodes :: nat
  na_risky_paths :: nat
  na_circular :: nat
  na_key_nodes :: "string list"
  na_suspicious :: "net_path list"
  na_anomalies :: "pyval list"
  na_completed :: "time option"
  na_seconds :: rat

record net_query =
  nq_root_type :: string
  nq_root :: string
  nq_depth :: int
  nq_nodes :: int
  nq_node_types :: "node_type list option"
  nq_edge_types :: "edge_type list option"
  nq_range :: "time option \<times> time option"
  nq_min_amount :: "rat option"
  nq_inactive :: bool
  nq_min_risk :: "rat option"
  nq_pep :: bool
  nq_sanctioned :: bool
  nq_centrality :: bool
  nq_clusters :: bool
  nq_flows :: bool
  nq_risk :: bool

definition new_net_query :: "string \<Rightarrow> string \<Rightarrow> net_query" where
  "new_net_query ty root_id =
     \<lparr>nq_root_type = ty, nq_root = root_id, nq_depth = 3, nq_nodes = 500, nq_node_types = None,
      nq_edge_types = None, nq_range = (None, None), nq_min_amount = None, nq_inactive = False,
      nq_min_risk = None, nq_pep = True, nq_sanctioned = True, nq_centrality = True,
      nq_clusters = True, nq_flows = True, nq_risk = True\<rparr>"

definition new_net_node :: "string \<Rightarrow> node_type \<Rightarrow> string \<Rightarrow> string \<Rightarrow> rat \<Rightarrow> net_node" where
  "new_net_node i ty display entity sz =
     \<lparr>nn_id = i, nn_type = ty, nn_label = i, nn_display = display, nn_entity = Some entity,
      nn_entity_type = None, nn_properties = [], nn_risk = 0, nn_flags = [], nn_pep = False,
      nn_sanctioned = False, nn_watchlist = False, nn_degree = 0, nn_betweenness = 0, nn_closeness = 0,
      nn_pagerank = 0, nn_size = sz, nn_color = None, nn_icon = None\<rparr>"

definition new_net_edge :: "string \<Rightarrow> string \<Rightarrow> string \<Rightarrow> edge_type \<Rightarrow> int \<Rightarrow> rat \<Rightarrow> net_edge" where
  "new_net_edge i src tgt ty count amount =
     \<lparr>ne_id = i, ne_src = src, ne_tgt = tgt, ne_type = ty, ne_label = None, ne_weight = 1, ne_directed = True,
      ne_count = count, ne_amount = amount, ne_currency = None, ne_transactions = (None, None),
      ne_relationship = (None, None), ne_active = True, ne_risk = 0, ne_indicators = [], ne_thickness = 1, ne_color = None, ne_style = ''solid'', ne_properties = []\<rparr>"

definition new_net_cluster :: "string \<Rightarrow> string \<Rightarrow> string list \<Rightarrow> net_cluster" where
  "new_net_cluster i name ns =
     \<lparr>nc_id = i, nc_name = name, nc_type = ''connected_component'', nc_nodes = ns,
      nc_central = Some (hd ns), nc_size = length ns, nc_density = 0, nc_path_length = 0,
      nc_coefficient = 0, nc_risk = 0, nc_level = NR_LOW, nc_factors = [], nc_count = 0, nc_amount = 0,
      nc_internal = 0, nc_external = 0, nc_pep = 0, nc_sanctioned = 0, nc_countries = 0, nc_alerts = [],
      nc_cases = []\<rparr>"

section \<open>Expansion\<close>

text \<open>
  The state of the loop: nodes, edges, the identifiers seen, the next level. The three lists the code
  iterates are recursion; the number of connections of a node is fixed before its loop, the bound on
  the nodes is tested before a level. The n-th edge takes the n-th identifier.
\<close>

record expansion =
  ex_nodes :: "net_node list"
  ex_edges :: "net_edge list"
  ex_seen :: "string set"
  ex_next :: "string list"

definition root_net_node :: "string \<Rightarrow> string \<Rightarrow> net_node" where
  "root_net_node root_id ty =
     (new_net_node root_id
        (case find (\<lambda>t. node_type_value t = ty) node_types of Some t \<Rightarrow> t | None \<Rightarrow> NT_CUSTOMER)
        (''Root: '' @ root_id) root_id 2)\<lparr>nn_color := Some ''#FF6B6B''\<rparr>"

definition child_id :: "string \<Rightarrow> nat \<Rightarrow> string" where
  "child_id p i = p @ ''_conn_'' @ str_int (int i)"

definition add_child :: "env \<Rightarrow> nat \<Rightarrow> string \<Rightarrow> nat \<Rightarrow> expansion \<Rightarrow> expansion" where
  "add_child e depth p i s =
     (let c = child_id p i
      in if c \<in> ex_seen s then s
         else s\<lparr>ex_nodes := ex_nodes s @
                  [new_net_node c (if i mod 2 = 0 then NT_ACCOUNT else NT_EXTERNAL_PARTY)
                     (''Node '' @ c) c 1],
                ex_edges := ex_edges s @
                  [new_net_edge (uuid e (length (ex_edges s))) p c ET_TRANSACTS_WITH 5
                     (10000 * (of_nat depth + 1))],
                ex_seen := insert c (ex_seen s),
                ex_next := ex_next s @ [c]\<rparr>)"

definition expand_node :: "env \<Rightarrow> nat \<Rightarrow> int \<Rightarrow> string \<Rightarrow> expansion \<Rightarrow> expansion" where
  "expand_node e depth max_nodes p s =
     fold (add_child e depth p) [0..<nat (min 3 (max_nodes - int (length (ex_nodes s))))] s"

fun expand_levels :: "env \<Rightarrow> int \<Rightarrow> nat list \<Rightarrow> string list \<Rightarrow> expansion \<Rightarrow> expansion" where
  "expand_levels e max_nodes [] level s = s"
| "expand_levels e max_nodes (d # ds) level s =
     (if int (length (ex_nodes s)) \<ge> max_nodes then s
      else let s' = fold (expand_node e d max_nodes) level (s\<lparr>ex_next := []\<rparr>)
           in expand_levels e max_nodes ds (ex_next s') s')"

definition expand_network :: "env \<Rightarrow> string \<Rightarrow> string \<Rightarrow> int \<Rightarrow> int \<Rightarrow> net_node list \<times> net_edge list" where
  "expand_network e root_id ty max_depth max_nodes =
     (let s = expand_levels e max_nodes [0..<nat max_depth] [root_id]
                \<lparr>ex_nodes = [root_net_node root_id ty], ex_edges = [], ex_seen = {root_id}, ex_next = []\<rparr>
      in (ex_nodes s, ex_edges s))"

section \<open>Density and centrality\<close>

definition calculate_density :: "nat \<Rightarrow> nat \<Rightarrow> rat" where
  "calculate_density num_nodes num_edges =
     (if num_nodes < 2 then 0
      else let max_edges = double (of_nat (num_nodes * (num_nodes - 1)) / 2)
           in if max_edges > 0 then double (of_nat num_edges / max_edges) else 0)"

text \<open>The neighbours of a node as the loops over the edges collect them, first occurrence first.\<close>

definition ends_of :: "(net_edge \<Rightarrow> bool) \<Rightarrow> net_edge list \<Rightarrow> string \<Rightarrow> (string \<times> string) list" where
  "ends_of back es x = concat (map (\<lambda>ed.
     (if ne_src ed = x then [(ne_tgt ed, ne_id ed)] else []) @
     (if back ed \<and> ne_tgt ed = x then [(ne_src ed, ne_id ed)] else [])) es)"

definition adjacent :: "(net_edge \<Rightarrow> bool) \<Rightarrow> net_edge list \<Rightarrow> string \<Rightarrow> string list" where
  "adjacent back es x = remdups (map fst (ends_of back es x))"

definition centrality :: "net_edge list \<Rightarrow> nat \<Rightarrow> net_node \<Rightarrow> net_node" where
  "centrality es num_nodes n =
     (let degree = length (adjacent (\<lambda>ed. \<not> ne_directed ed) es (nn_id n))
      in n\<lparr>nn_degree := (if num_nodes > 1 then double (of_nat degree / of_nat (num_nodes - 1)) else 0),
           nn_betweenness := double (of_nat degree / of_nat num_nodes),
           nn_closeness := double (of_nat degree / of_nat num_nodes),
           nn_pagerank := double (1 / of_nat num_nodes)\<rparr>)"

definition calculate_centrality_metrics :: "net_analysis \<Rightarrow> net_analysis" where
  "calculate_centrality_metrics a =
     a\<lparr>na_nodes := map (centrality (na_edges a) (length (na_nodes a))) (na_nodes a)\<rparr>"

section \<open>Clusters\<close>

text \<open>
  The loop \<open>while queue\<close>: nothing bounds it in the code, so that it returns is a lemma. The set of
  visited nodes is kept over all starting nodes.
\<close>

type_synonym set_order = "string list \<Rightarrow> string list"

definition permutes :: "set_order \<Rightarrow> bool" where
  "permutes ord \<longleftrightarrow> (\<forall>xs. distinct xs \<longrightarrow> distinct (ord xs) \<and> set (ord xs) = set xs)"

partial_function (option) cluster_loop ::
  "set_order \<Rightarrow> net_edge list \<Rightarrow> string list \<Rightarrow> string set \<Rightarrow> string list \<Rightarrow> (string list \<times> string set) option"
  where
  "cluster_loop ord es queue visited acc =
     (case queue of [] \<Rightarrow> Some (acc, visited)
      | c # q \<Rightarrow>
          if c \<in> visited then cluster_loop ord es q visited acc
          else cluster_loop ord es
                 (q @ filter (\<lambda>n. n \<notin> insert c visited) (ord (adjacent (\<lambda>_. True) es c)))
                 (insert c visited) (acc @ [c]))"

definition make_cluster :: "net_edge list \<Rightarrow> string \<Rightarrow> nat \<Rightarrow> string list \<Rightarrow> net_cluster" where
  "make_cluster es i num ns =
     (let c = new_net_cluster i (''Cluster '' @ str_int (int num)) ns;
          inner = filter (\<lambda>ed. ne_src ed \<in> set ns \<and> ne_tgt ed \<in> set ns) es
      in c\<lparr>nc_count := sum_list (map ne_count inner),
           nc_amount := float_sum (map ne_amount inner)\<rparr>)"

fun cluster_scan ::
  "env \<Rightarrow> set_order \<Rightarrow> net_edge list \<Rightarrow> string list \<Rightarrow> string set \<Rightarrow> net_cluster list \<Rightarrow> net_cluster list option"
  where
  "cluster_scan e ord es [] visited cs = Some cs"
| "cluster_scan e ord es (n # ns) visited cs =
     (if n \<in> visited then cluster_scan e ord es ns visited cs
      else case cluster_loop ord es [n] visited [] of
             None \<Rightarrow> None
           | Some (members, visited') \<Rightarrow>
               cluster_scan e ord es ns visited'
                 (if length members \<ge> 2
                  then cs @ [make_cluster es (uuid e (length cs)) (Suc (length cs)) members] else cs))"

definition find_clusters :: "env \<Rightarrow> set_order \<Rightarrow> net_analysis \<Rightarrow> net_cluster list option" where
  "find_clusters e ord a = cluster_scan e ord (na_edges a) (map nn_id (na_nodes a)) {} []"

section \<open>Circular flows\<close>

text \<open>
  The search returns where the path has more than ten nodes; a node is taken off the visited ones
  when the recursive call is over, so that they are an argument here.
\<close>

definition out_edges :: "net_edge list \<Rightarrow> string \<Rightarrow> (string \<times> string) list" where
  "out_edges es x = map (\<lambda>ed. (ne_tgt ed, ne_id ed)) (filter (\<lambda>ed. ne_src ed = x) es)"

definition circular_path :: "string \<Rightarrow> string list \<Rightarrow> string list \<Rightarrow> net_path" where
  "circular_path start path ids =
     \<lparr>np_start = start, np_end = start, np_nodes = path @ [start], np_edges = ids, np_len = length path,
      np_amount = 0, np_count = 0, np_hours = 0, np_risk = double (8 / 10), np_indicators = [],
      np_circular = True\<rparr>"

function find_cycles ::
  "net_edge list \<Rightarrow> string \<Rightarrow> string \<Rightarrow> string list \<Rightarrow> string list \<Rightarrow> string set \<Rightarrow> net_path list" where
  "find_cycles es start cur path ids visited =
     (if length path > 10 then []
      else concat (map (\<lambda>(n, i).
             if n = start \<and> length path \<ge> 3 then [circular_path start path (ids @ [i])]
             else if n \<notin> visited
                  then find_cycles es start n (path @ [n]) (ids @ [i]) (insert n visited)
                  else []) (out_edges es cur)))"
  by pat_completeness auto
termination
  by (relation "measure (\<lambda>(es, start, cur, path, ids, visited). 11 - length path)") auto

declare find_cycles.simps [simp del]

definition find_circular_flows :: "net_analysis \<Rightarrow> net_path list" where
  "find_circular_flows a =
     take 10 (concat (map (\<lambda>n. find_cycles (na_edges a) (nn_id n) (nn_id n) [nn_id n] [] {nn_id n})
       (take 20 (na_nodes a))))"

section \<open>Risk and key nodes\<close>

definition calculate_network_risk :: "net_analysis \<Rightarrow> net_analysis" where
  "calculate_network_risk a =
     (let risky = filter (\<lambda>n. nn_risk n > 70) (na_nodes a);
          flows = length (na_suspicious a);
          score = (if risky \<noteq> [] then 20 else 0)
                  + (if filter nn_pep (na_nodes a) \<noteq> [] then 15 else 0)
                  + (if filter nn_sanctioned (na_nodes a) \<noteq> [] then 30 else 0)
                  + (if na_suspicious a \<noteq> [] then of_nat flows * 5 else 0)
                  + (if na_density a > 1/2 then 10 else (0 :: rat))
      in a\<lparr>na_risky_nodes := (if risky \<noteq> [] then length risky else na_risky_nodes a),
           na_risky_paths := (if na_suspicious a \<noteq> [] then flows else na_risky_paths a),
           na_risk := min score 100,
           na_level := (if score \<ge> 80 then NR_CRITICAL else if score \<ge> 60 then NR_HIGH
                        else if score \<ge> 40 then NR_MEDIUM else NR_LOW)\<rparr>)"

definition identify_key_nodes :: "net_analysis \<Rightarrow> string list" where
  "identify_key_nodes a = map nn_id (take 5 (sort_key (\<lambda>n. - nn_degree n) (na_nodes a)))"

section \<open>Building a network\<close>

type_synonym analyses = "(string, net_analysis) dict"

definition new_analysis :: "string \<Rightarrow> net_query \<Rightarrow> net_analysis" where
  "new_analysis i q =
     \<lparr>na_id = i, na_name = ''Network Analysis - '' @ nq_root q, na_type = nq_root_type q,
      na_root = nq_root q, na_root_type = nq_root_type q, na_depth = nq_depth q, na_range = (None, None), na_nodes = [],
      na_edges = [], na_clusters = [], na_total_nodes = 0, na_total_edges = 0, na_density = 0,
      na_degree = 0, na_diameter = 0, na_components = 1, na_risk = 0, na_level = NR_LOW, na_risky_nodes = 0, na_risky_paths = 0,
      na_circular = 0, na_key_nodes = [], na_suspicious = [], na_anomalies = [], na_completed = None, na_seconds = 0\<rparr>"

definition with_network :: "env \<Rightarrow> net_query \<Rightarrow> net_analysis \<Rightarrow> net_analysis" where
  "with_network e q a =
     (let (ns, es) = expand_network e (nq_root q) (nq_root_type q) (nq_depth q) (nq_nodes q);
          a1 = a\<lparr>na_nodes := ns, na_edges := es, na_total_nodes := length ns, na_total_edges := length es\<rparr>
      in if ns \<noteq> []
         then a1\<lparr>na_density := calculate_density (length ns) (length es),
                 na_degree := double (of_nat (2 * length es) / of_nat (length ns))\<rparr>
         else a1)"

definition with_flows :: "net_analysis \<Rightarrow> net_analysis" where
  "with_flows a =
     (let ps = find_circular_flows a in a\<lparr>na_suspicious := ps, na_circular := length ps\<rparr>)"

text \<open>
  \<open>build_network\<close> returns \<open>None\<close> only where the cluster search does not return. The analysis draws the
  first identifier, each edge the next one, then each cluster.
\<close>

definition build_network :: "env \<Rightarrow> set_order \<Rightarrow> net_query \<Rightarrow> analyses \<Rightarrow> (net_analysis \<times> analyses) option"
  where
  "build_network e ord q s =
     (let a1 = with_network (later 1 e) q (new_analysis (uuid e 0) q);
          a2 = (if nq_centrality q then calculate_centrality_metrics a1 else a1)
      in case (if nq_clusters q then find_clusters (later (Suc (length (na_edges a2))) e) ord a2
               else Some []) of
           None \<Rightarrow> None
         | Some cs \<Rightarrow>
             (let a3 = a2\<lparr>na_clusters := cs\<rparr>;
                  a4 = (if nq_flows q then with_flows a3 else a3);
                  a5 = (if nq_risk q then calculate_network_risk a4 else a4);
                  a6 = a5\<lparr>na_key_nodes := identify_key_nodes a5, na_completed := Some (clock e 1),
                          na_seconds := double (of_int (clock e 1 - clock e 0) / 1000000)\<rparr>
              in Some (a6, dset (na_id a6) a6 s)))"

section \<open>Shortest paths\<close>

fun discover ::
  "string list \<Rightarrow> string list \<Rightarrow> (string \<times> string) list \<Rightarrow> (string \<times> string list \<times> string list) list
   \<Rightarrow> string set \<Rightarrow> (string \<times> string list \<times> string list) list \<times> string set" where
  "discover path ids [] queue visited = (queue, visited)"
| "discover path ids ((n, i) # nbs) queue visited =
     (if n \<notin> visited
      then discover path ids nbs (queue @ [(n, path @ [n], ids @ [i])]) (insert n visited)
      else discover path ids nbs queue visited)"

definition found_path :: "string \<Rightarrow> string \<Rightarrow> string list \<Rightarrow> string list \<Rightarrow> net_path" where
  "found_path start goal path ids =
     \<lparr>np_start = start, np_end = goal, np_nodes = path, np_edges = ids, np_len = length path - 1,
      np_amount = 0, np_count = 0, np_hours = 0, np_risk = 0, np_indicators = [], np_circular = False\<rparr>"

definition endpoints :: "net_edge list \<Rightarrow> string set" where
  "endpoints es = set (map ne_src es) \<union> set (map ne_tgt es)"

text \<open>Every turn of the loop takes an entry off the queue, and puts one in only for a new endpoint.\<close>

lemma ends_of_Nil [simp]: "ends_of back [] x = []"
  by (simp add: ends_of_def)

lemma ends_of_Cons:
  "ends_of back (ed # es) x =
   (if ne_src ed = x then [(ne_tgt ed, ne_id ed)] else []) @
   (if back ed \<and> ne_tgt ed = x then [(ne_src ed, ne_id ed)] else []) @ ends_of back es x"
  by (simp add: ends_of_def)

lemma ends_of_iff:
  "(y, i) \<in> set (ends_of back es x) \<longleftrightarrow>
   (\<exists>ed \<in> set es. ne_id ed = i \<and> (ne_src ed = x \<and> ne_tgt ed = y \<or> back ed \<and> ne_tgt ed = x \<and> ne_src ed = y))"
  by (induction es) (auto simp: ends_of_Cons)

lemma ends_of_endpoints: "fst ` set (ends_of back es x) \<subseteq> endpoints es"
  by (auto simp: ends_of_iff endpoints_def)

lemma discover_measure:
  assumes "finite U" "fst ` set nbs \<subseteq> U"
  shows "card (U - snd (discover path ids nbs queue visited)) + length (fst (discover path ids nbs queue visited))
         = card (U - visited) + length queue"
  using assms(2)
proof (induction path ids nbs queue visited rule: discover.induct)
  case (2 path ids n i nbs queue visited)
  show ?case
  proof (cases "n \<in> visited")
    case False
    have "U - visited = insert n (U - insert n visited)" using False 2(3) by auto
    then have "card (U - visited) = Suc (card (U - insert n visited))"
      using assms(1) by (metis Diff_iff card_insert_disjoint finite_Diff insertI1)
    then show ?thesis using 2(1) [OF False] 2(3) False by simp
  next
    case True
    then show ?thesis using 2(2,3) by simp
  qed
qed simp

function shortest_loop ::
  "net_edge list \<Rightarrow> string \<Rightarrow> string \<Rightarrow> (string \<times> string list \<times> string list) list \<Rightarrow> string set
   \<Rightarrow> net_path option" where
  "shortest_loop es start goal [] visited = None"
| "shortest_loop es start goal ((cur, path, ids) # queue) visited =
     (if cur = goal then Some (found_path start goal path ids)
      else let r = discover path ids (ends_of (\<lambda>_. True) es cur) queue visited
           in shortest_loop es start goal (fst r) (snd r))"
  by pat_completeness auto
termination
proof (relation "measure (\<lambda>(es, start, goal, queue, visited). card (endpoints es - visited) + length queue)")
  fix es :: "net_edge list" and start goal cur :: string and path ids queue visited r
  assume "r = discover path ids (ends_of (\<lambda>_. True) es cur) queue visited"
  then have "card (endpoints es - snd r) + length (fst r) = card (endpoints es - visited) + length queue"
    using discover_measure [OF _ ends_of_endpoints, of es] by (simp add: endpoints_def)
  then show "((es, start, goal, fst r, snd r), (es, start, goal, (cur, path, ids) # queue, visited)) \<in>
      measure (\<lambda>(es, start, goal, queue, visited). card (endpoints es - visited) + length queue)" by (cases r) simp
qed simp

definition find_shortest_path :: "net_analysis \<Rightarrow> string \<Rightarrow> string \<Rightarrow> net_path option" where
  "find_shortest_path a start goal = shortest_loop (na_edges a) start goal [(start, [start], [])] {start}"

section \<open>Link analysis, communities, drawing, statistics\<close>

record link_analysis =
  la_entity_1 :: string
  la_type_1 :: string
  la_entity_2 :: string
  la_type_2 :: string
  la_connected :: bool
  la_length :: "nat option"
  la_path :: "net_path option"
  la_paths :: "net_path list"
  la_addresses :: "string list"
  la_phones :: "string list"
  la_devices :: "string list"
  la_counterparties :: "string list"
  la_direct :: int
  la_indirect :: int
  la_flow :: rat
  la_risk :: rat
  la_indicators :: "string list"

definition analyze_link ::
  "env \<Rightarrow> set_order \<Rightarrow> string \<Rightarrow> string \<Rightarrow> string \<Rightarrow> string \<Rightarrow> analyses \<Rightarrow> (link_analysis \<times> analyses) option" where
  "analyze_link e ord x tx y ty s =
     (let r = \<lparr>la_entity_1 = x, la_type_1 = tx, la_entity_2 = y, la_type_2 = ty, la_connected = False,
               la_length = None, la_path = None, la_paths = [], la_addresses = [], la_phones = [],
               la_devices = [], la_counterparties = [], la_direct = 0, la_indirect = 0, la_flow = 0,
               la_risk = 0, la_indicators = []\<rparr>
      in case build_network e ord ((new_net_query tx x)\<lparr>nq_depth := 4, nq_nodes := 100\<rparr>) s of
           None \<Rightarrow> None
         | Some (a, s') \<Rightarrow>
             Some (if \<exists>n \<in> set (na_nodes a). nn_id n = y
                   then (let r1 = r\<lparr>la_connected := True\<rparr>
                         in case find_shortest_path a x y of
                              None \<Rightarrow> r1
                            | Some p \<Rightarrow> r1\<lparr>la_path := Some p, la_length := Some (np_len p), la_paths := [p]\<rparr>)
                   else r, s'))"

record communities =
  cd_analysis :: string
  cd_algorithm :: string
  cd_communities :: "net_cluster list"
  cd_parameters :: "(string \<times> pyval) list"
  cd_count :: nat
  cd_modularity :: rat
  cd_coverage :: rat
  cd_suspicious :: "string list"
  cd_suspicious_count :: nat

definition not_found :: "string \<Rightarrow> py_error" where
  "not_found i = ValueError (''Analysis '' @ i @ '' not found'')"

definition detect_communities :: "string \<Rightarrow> analyses \<Rightarrow> communities result" where
  "detect_communities i s =
     (case dget s i of None \<Rightarrow> Err (not_found i)
      | Some a \<Rightarrow>
          (let sus = map nc_id (filter (\<lambda>c. nc_risk c > 60) (na_clusters a))
           in Ok \<lparr>cd_analysis = i, cd_algorithm = ''simple_components'', cd_communities = na_clusters a,
                  cd_parameters = [], cd_count = length (na_clusters a), cd_modularity = 0,
                  cd_coverage = 0, cd_suspicious = sus, cd_suspicious_count = length sus\<rparr>))"

fun node_color :: "node_type \<Rightarrow> string" where
  "node_color NT_CUSTOMER = ''#4ECDC4''"
| "node_color NT_ACCOUNT = ''#45B7D1''"
| "node_color NT_TRANSACTION = ''#96CEB4''"
| "node_color NT_EXTERNAL_PARTY = ''#FFEAA7''"
| "node_color NT_ORGANIZATION = ''#DDA0DD''"
| "node_color NT_ADDRESS = ''#98D8C8''"
| "node_color NT_PHONE = ''#F7DC6F''"
| "node_color NT_EMAIL = ''#85C1E9''"
| "node_color NT_DEVICE = ''#F1948A''"
| "node_color NT_IP_ADDRESS = ''#BB8FCE''"

definition color_or :: "string option \<Rightarrow> string \<Rightarrow> string" where
  "color_or c d = (case c of Some x \<Rightarrow> (if x = [] then d else x) | None \<Rightarrow> d)"

record visualization =
  vz_analysis :: string
  vz_algorithm :: string
  vz_layout :: "(string, rat \<times> rat) dict"
  vz_nodes :: "(string, rat \<times> string \<times> string) dict"
  vz_edges :: "(string, rat \<times> string \<times> string) dict"
  vz_filters :: "(string \<times> pyval) list"
  vz_svg :: "string option"
  vz_json :: "pyval option"

definition generate_visualization ::
  "(nat \<Rightarrow> nat \<Rightarrow> rat \<times> rat) \<Rightarrow> string \<Rightarrow> string \<Rightarrow> analyses \<Rightarrow> visualization result" where
  "generate_visualization pos i algorithm s =
     (case dget s i of None \<Rightarrow> Err (not_found i)
      | Some a \<Rightarrow>
          Ok \<lparr>vz_analysis = i, vz_algorithm = algorithm,
              vz_layout = fold (\<lambda>(k, n). dset (nn_id n) (pos k (length (na_nodes a))))
                            (enumerate 0 (na_nodes a)) [],
              vz_nodes = fold (\<lambda>n. dset (nn_id n) (double (nn_size n * 10),
                            color_or (nn_color n) (node_color (nn_type n)), nn_display n)) (na_nodes a) [],
              vz_edges = fold (\<lambda>ed. dset (ne_id ed) (double (ne_thickness ed * 2),
                            color_or (ne_color ed) ''#999999'', ne_style ed)) (na_edges a) [],
              vz_filters = [], vz_svg = None, vz_json = None\<rparr>)"

definition get_analysis :: "string \<Rightarrow> analyses \<Rightarrow> net_analysis option" where
  "get_analysis i s = dget s i"

record net_statistics =
  ns_analyses :: nat
  ns_nodes :: nat
  ns_edges :: nat
  ns_clusters :: nat
  ns_circular :: nat
  ns_risky :: nat
  ns_average_size :: rat
  ns_average_time :: rat
  ns_alerts :: nat

definition get_network_statistics :: "analyses \<Rightarrow> net_statistics" where
  "get_network_statistics s =
     (let as = map snd s; n = length s; nodes = sum_list (map na_total_nodes as)
      in \<lparr>ns_analyses = n, ns_nodes = nodes,
          ns_edges = sum_list (map na_total_edges as),
          ns_clusters = sum_list (map (\<lambda>a. length (na_clusters a)) as),
          ns_circular = sum_list (map na_circular as),
          ns_risky = length (filter (\<lambda>a. na_level a = NR_HIGH \<or> na_level a = NR_CRITICAL) as),
          ns_average_size = (if s = [] then 0 else double (of_nat nodes / of_nat n)),
          ns_average_time = (if s = [] then 0
            else double (float_sum (map na_seconds as) / of_nat n)), ns_alerts = 0\<rparr>)"

end
