(* ===== verification/Graph.thy ===== *)
theory Graph
  imports Main
begin

text \<open>
  Reachability for the searches over networks and lineage graphs: components of a finite undirected
  graph, given as a symmetric relation (locale \<open>undirected\<close>, which the components interpret on the
  edges they hold), the frontier of a set of visited nodes, distances.
\<close>

definition component :: "('a \<times> 'a) set \<Rightarrow> 'a \<Rightarrow> 'a set" where
  "component R x = R\<^sup>* `` {x}"

definition closed_under :: "('a \<times> 'a) set \<Rightarrow> 'a set \<Rightarrow> bool" where
  "closed_under R V \<longleftrightarrow> R `` V \<subseteq> V"

definition at_distance :: "('a \<times> 'a) set \<Rightarrow> 'a \<Rightarrow> nat \<Rightarrow> 'a \<Rightarrow> bool" where
  "at_distance R s n y \<longleftrightarrow> (s, y) \<in> R ^^ n \<and> (\<forall>m. (s, y) \<in> R ^^ m \<longrightarrow> n \<le> m)"

lemma component_self [simp]: "x \<in> component R x"
  by (simp add: component_def)

lemma component_step: "y \<in> component R x \<Longrightarrow> (y, z) \<in> R \<Longrightarrow> z \<in> component R x"
  by (auto simp: component_def intro: rtrancl.rtrancl_into_rtrancl)

lemma closed_component: "closed_under R (component R x)"
  by (auto simp: closed_under_def intro: component_step)

lemma component_least:
  assumes "x \<in> V" "closed_under R V"
  shows "component R x \<subseteq> V"
proof
  fix y assume "y \<in> component R x"
  then have "(x, y) \<in> R\<^sup>*" by (simp add: component_def)
  then show "y \<in> V" using assms by induction (auto simp: closed_under_def)
qed

lemma closed_Un: "closed_under R V \<Longrightarrow> closed_under R W \<Longrightarrow> closed_under R (V \<union> W)"
  by (auto simp: closed_under_def)

text \<open>A walk that leaves a set does so across an edge, at some step.\<close>

lemma frontier:
  assumes "(s, y) \<in> R ^^ n" "s \<in> V" "y \<notin> V"
  shows "\<exists>m x x'. m < n \<and> (s, x) \<in> R ^^ m \<and> x \<in> V \<and> (x, x') \<in> R \<and> x' \<notin> V"
  using assms(1,3)
proof (induction n arbitrary: y)
  case (Suc n)
  then obtain z where z: "(s, z) \<in> R ^^ n" "(z, y) \<in> R" by auto
  show ?case
  proof (cases "z \<in> V")
    case True
    then show ?thesis using z Suc.prems(2) by blast
  next
    case False
    then show ?thesis using Suc.IH [OF z(1)] by (meson less_SucI)
  qed
qed (use assms in simp)

lemma at_distance_least: "at_distance R s n y \<Longrightarrow> n = (LEAST m. (s, y) \<in> R ^^ m)"
  by (metis (mono_tags, lifting) Least_equality at_distance_def)

locale undirected =
  fixes R :: "('a \<times> 'a) set"
  assumes finite_edges: "finite R"
    and both_ways: "(x, y) \<in> R \<Longrightarrow> (y, x) \<in> R"
begin

lemma finite_component: "finite (component R x)"
proof -
  have "component R x \<subseteq> insert x (Range R)"
    by (auto simp: component_def elim: rtranclE)
  then show ?thesis by (rule finite_subset) (use finite_edges in \<open>simp add: finite_Range\<close>)
qed

lemma component_back: "y \<in> component R x \<Longrightarrow> x \<in> component R y"
proof -
  assume "y \<in> component R x"
  then have "(x, y) \<in> R\<^sup>*" by (simp add: component_def)
  then have "(y, x) \<in> R\<^sup>*"
    by induction (auto intro: converse_rtrancl_into_rtrancl both_ways)
  then show ?thesis by (simp add: component_def)
qed

lemma component_eq: "y \<in> component R x \<Longrightarrow> component R y = component R x"
  by (rule equalityI) (simp_all add: component_least closed_component component_back)

lemma component_cases: "component R x = component R y \<or> component R x \<inter> component R y = {}"
  by (metis component_eq disjoint_iff)

lemma closed_outside:
  assumes "closed_under R V" "x \<notin> V" "(x, y) \<in> R"
  shows "y \<notin> V"
  using assms both_ways by (auto simp: closed_under_def)

end

end
