(* ===== verification/Network_Search.thy ===== *)
theory Network_Search
  imports Network Graph
begin

text \<open>
  Correctness of the searches of the network analysis (theory Network): the cluster search returns and
  finds the connected components; the shortest path is shortest; the circular flows are the simple
  directed cycles of three to ten nodes that start at one of the first twenty nodes; an expanded network
  is a tree, so that no flow is ever reported for it.
\<close>

section \<open>The cluster search finds the components\<close>

definition linked :: "net_edge list \<Rightarrow> (string \<times> string) set" where
  "linked es = {(x, y). \<exists>ed \<in> set es. (ne_src ed, ne_tgt ed) = (x, y) \<or> (ne_src ed, ne_tgt ed) = (y, x)}"

lemma linked_Image: "linked es `` {x} = set (adjacent (\<lambda>_. True) es x)"
  by (induction es) (auto simp: linked_def adjacent_def ends_of_Cons)

lemma linked_finite: "finite (linked es)"
proof -
  have "linked es \<subseteq> endpoints es \<times> endpoints es" by (auto simp: linked_def endpoints_def)
  then show ?thesis by (rule finite_subset) (simp add: endpoints_def)
qed

interpretation net: undirected "linked es"
  by unfold_locales (rule linked_finite, auto simp: linked_def)

lemma permutes_adjacent: "permutes ord \<Longrightarrow> set (ord (adjacent back es x)) = set (adjacent back es x)"
  by (simp add: permutes_def adjacent_def)

text \<open>The invariant of the loop started at \<open>s\<close>, where the nodes \<open>V\<close> of earlier clusters are visited.\<close>

definition cluster_inv ::
  "net_edge list \<Rightarrow> string \<Rightarrow> string set \<Rightarrow> string list \<Rightarrow> string set \<Rightarrow> string list \<Rightarrow> bool" where
  "cluster_inv es s V queue visited acc \<longleftrightarrow>
     visited = V \<union> set acc \<and> distinct acc \<and> set acc \<inter> V = {} \<and>
     set queue \<subseteq> component (linked es) s \<and> set acc \<subseteq> component (linked es) s \<and>
     linked es `` set acc \<subseteq> visited \<union> set queue \<and> s \<in> set acc \<union> set queue"

lemma cluster_inv_skip:
  "cluster_inv es s V (c # q) visited acc \<Longrightarrow> c \<in> visited \<Longrightarrow> s \<notin> V \<Longrightarrow> cluster_inv es s V q visited acc"
  by (auto simp: cluster_inv_def)

lemma cluster_inv_visit:
  assumes "cluster_inv es s V (c # q) visited acc" "c \<notin> visited" "permutes ord"
  shows "cluster_inv es s V (q @ filter (\<lambda>n. n \<notin> insert c visited) (ord (adjacent (\<lambda>_. True) es c)))
           (insert c visited) (acc @ [c])"
proof -
  have c: "c \<in> component (linked es) s" using assms(1) by (simp add: cluster_inv_def)
  have n: "set (ord (adjacent (\<lambda>_. True) es c)) = linked es `` {c}"
    using assms(3) by (simp add: permutes_adjacent linked_Image)
  have l: "linked es `` {c} \<subseteq> component (linked es) s" using c by (auto intro: component_step)
  have "insert c visited = V \<union> set (acc @ [c])" "distinct (acc @ [c])" "set (acc @ [c]) \<inter> V = {}"
    using assms(1,2) by (auto simp: cluster_inv_def)
  moreover have "linked es `` set (acc @ [c]) \<subseteq> visited \<union> set (c # q) \<union> linked es `` {c}"
    using assms(1) unfolding cluster_inv_def by auto
  ultimately show ?thesis using assms(1) l c unfolding cluster_inv_def
    by (intro conjI) (auto simp: n)
qed

lemma cluster_inv_done:
  assumes "cluster_inv es s V [] visited acc" "closed_under (linked es) V"
  shows "set acc = component (linked es) s"
proof
  have i: "visited = V \<union> set acc" "set acc \<inter> V = {}" "linked es `` set acc \<subseteq> visited" "s \<in> set acc"
    using assms(1) unfolding cluster_inv_def by auto
  have "y \<in> set acc" if "x \<in> set acc" "(x, y) \<in> linked es" for x y
  proof -
    have "y \<notin> V" by (rule net.closed_outside [OF assms(2) _ that(2)]) (use i(2) that(1) in blast)
    moreover have "y \<in> visited" by (rule subsetD [OF i(3) ImageI]) (rule that(2), rule that(1))
    ultimately show ?thesis using i(1) by simp
  qed
  then have "closed_under (linked es) (set acc)" by (auto simp: closed_under_def)
  then show "component (linked es) s \<subseteq> set acc" by (rule component_least [OF i(4)])
qed (use assms in \<open>simp add: cluster_inv_def\<close>)

declare cluster_loop.simps [code]

lemma cluster_loop_done:
  assumes "permutes ord" "s \<notin> V" "closed_under (linked es) V" "cluster_inv es s V queue visited acc"
  shows "\<exists>acc'. cluster_loop ord es queue visited acc = Some (acc @ acc', V \<union> component (linked es) s) \<and>
           distinct (acc @ acc') \<and> set (acc @ acc') = component (linked es) s"
  using assms(4)
proof (induction "(component (linked es) s - visited, length queue)" arbitrary: queue visited acc
    rule: wf_induct_rule [OF wf_lex_prod [OF wf_finite_psubset wf_less_than]])
  case (1 queue visited acc)
  show ?case
  proof (cases queue)
    case Nil
    then show ?thesis using cluster_inv_done [of es s V visited acc] 1(2) assms(3)
      by (auto simp: cluster_loop.simps cluster_inv_def)
  next
    case (Cons c q)
    show ?thesis
    proof (cases "c \<in> visited")
      case True
      have "((component (linked es) s - visited, length q), component (linked es) s - visited, length queue)
            \<in> finite_psubset <*lex*> less_than" using Cons by simp
      moreover have "cluster_loop ord es queue visited acc = cluster_loop ord es q visited acc"
        unfolding Cons using True by (subst cluster_loop.simps) simp
      ultimately show ?thesis
        using 1(1) [OF _ cluster_inv_skip [OF 1(2) [unfolded Cons] True assms(2)]] by simp
    next
      case False
      let ?q = "q @ filter (\<lambda>n. n \<notin> insert c visited) (ord (adjacent (\<lambda>_. True) es c))"
      have c: "c \<in> component (linked es) s" using 1(2) Cons by (simp add: cluster_inv_def)
      have "((component (linked es) s - insert c visited, length ?q), component (linked es) s - visited, length queue)
            \<in> finite_psubset <*lex*> less_than"
        using c False net.finite_component [of es s] by (auto simp: finite_psubset_def)
      from 1(1) [OF this cluster_inv_visit [OF _ False assms(1)]] obtain acc' where
        "cluster_loop ord es ?q (insert c visited) (acc @ [c]) =
           Some ((acc @ [c]) @ acc', V \<union> component (linked es) s) \<and>
         distinct ((acc @ [c]) @ acc') \<and> set ((acc @ [c]) @ acc') = component (linked es) s"
        using 1(2) Cons by blast
      then have "cluster_loop ord es queue visited acc = Some (acc @ c # acc', V \<union> component (linked es) s) \<and>
         distinct (acc @ c # acc') \<and> set (acc @ c # acc') = component (linked es) s"
        unfolding Cons using False by (subst cluster_loop.simps) simp
      then show ?thesis by blast
    qed
  qed
qed

lemma cluster_loop_component:
  assumes "permutes ord" "s \<notin> V" "closed_under (linked es) V"
  shows "\<exists>ms. cluster_loop ord es [s] V [] = Some (s # ms, V \<union> component (linked es) s) \<and>
           distinct (s # ms) \<and> set (s # ms) = component (linked es) s"
proof -
  have i: "cluster_inv es s V [s] V []" using assms(2) by (simp add: cluster_inv_def)
  have "cluster_loop ord es [s] V [] =
        cluster_loop ord es (filter (\<lambda>n. n \<notin> insert s V) (ord (adjacent (\<lambda>_. True) es s))) (insert s V) [s]"
    using assms(2) by (subst cluster_loop.simps) simp
  then show ?thesis
    using cluster_loop_done [OF assms cluster_inv_visit [OF i assms(2,1)]] by auto
qed

text \<open>
  What a cluster says of the component it is: its members once each, the node it was found from, its
  size, the sums over the edges that lie in it, for which one end suffices.
\<close>

definition describes :: "net_edge list \<Rightarrow> string \<Rightarrow> net_cluster \<Rightarrow> bool" where
  "describes es x c \<longleftrightarrow>
     set (nc_nodes c) = component (linked es) x \<and> distinct (nc_nodes c) \<and> nc_central c = Some x \<and>
     nc_size c = card (component (linked es) x) \<and>
     nc_count c = (\<Sum>ed\<leftarrow>filter (\<lambda>ed. ne_src ed \<in> component (linked es) x) es. ne_count ed) \<and>
     nc_amount c = float_sum (map ne_amount (filter (\<lambda>ed. ne_src ed \<in> component (linked es) x) es))"

lemma linked_edge: "ed \<in> set es \<Longrightarrow> (ne_src ed, ne_tgt ed) \<in> linked es"
  by (auto simp: linked_def)

lemma describes_made:
  assumes "distinct (x # ms)" "set (x # ms) = component (linked es) x"
  shows "describes es x (make_cluster es i k (x # ms))"
proof -
  have b: "ne_tgt ed \<in> component (linked es) x" if "ed \<in> set es" "ne_src ed \<in> component (linked es) x" for ed
    using that by (blast intro: component_step linked_edge)
  have "filter (\<lambda>ed. ne_src ed \<in> component (linked es) x \<and> ne_tgt ed \<in> component (linked es) x) es =
        filter (\<lambda>ed. ne_src ed \<in> component (linked es) x) es"
    by (rule filter_cong) (use b in auto)
  then show ?thesis
    using assms(1) distinct_card [OF assms(1)]
    unfolding describes_def make_cluster_def new_net_cluster_def Let_def assms(2)
    by (simp add: assms(2) [simplified])
qed

text \<open>The nodes visited after a prefix of the nodes, and the clusters found by then.\<close>

definition scanned :: "net_edge list \<Rightarrow> string list \<Rightarrow> string set \<Rightarrow> net_cluster list \<Rightarrow> bool" where
  "scanned es done V cs \<longleftrightarrow>
     V = (\<Union>x \<in> set done. component (linked es) x) \<and>
     (\<forall>c \<in> set cs. \<exists>x \<in> set done. describes es x c) \<and>
     distinct (map (\<lambda>c. set (nc_nodes c)) cs) \<and>
     (\<lambda>c. set (nc_nodes c)) ` set cs = {component (linked es) x | x. x \<in> set done \<and> 2 \<le> card (component (linked es) x)}"

lemma scanned_closed: "scanned es done V cs \<Longrightarrow> closed_under (linked es) V"
  using closed_component unfolding scanned_def closed_under_def by fastforce

lemma scanned_seen:
  assumes "scanned es done V cs" "n \<in> V"
  shows "scanned es (done @ [n]) V cs"
proof -
  obtain x where x: "x \<in> set done" "n \<in> component (linked es) x" using assms unfolding scanned_def by auto
  then have "component (linked es) n = component (linked es) x" by (simp add: net.component_eq)
  then have "{component (linked es) y | y. y \<in> set (done @ [n]) \<and> 2 \<le> card (component (linked es) y)} =
      {component (linked es) y | y. y \<in> set done \<and> 2 \<le> card (component (linked es) y)}"
    "(\<Union>y \<in> set (done @ [n]). component (linked es) y) = (\<Union>y \<in> set done. component (linked es) y)"
    using x(1) by auto
  then show ?thesis using assms(1) unfolding scanned_def by auto
qed

lemma image_snoc:
  "{f x | x. x \<in> A \<union> set [n] \<and> P (f x)} = {f x | x. x \<in> A \<and> P (f x)} \<union> (if P (f n) then {f n} else {})"
  by auto

lemma scanned_new:
  assumes s: "scanned es done V cs" and n: "n \<notin> V"
    and m: "distinct (n # ms)" "set (n # ms) = component (linked es) n"
  shows "scanned es (done @ [n]) (V \<union> component (linked es) n)
           (if length (n # ms) \<ge> 2 then cs @ [make_cluster es i k (n # ms)] else cs)"
proof -
  have c: "card (component (linked es) n) = length (n # ms)" using distinct_card [OF m(1)] m(2) by simp
  have d: "describes es n (make_cluster es i k (n # ms))" by (rule describes_made [OF m])
  then have g: "set (nc_nodes (make_cluster es i k (n # ms))) = component (linked es) n"
    by (simp add: describes_def)
  have "component (linked es) n \<noteq> set (nc_nodes c)" if cin: "c \<in> set cs" for c
  proof -
    obtain x where "x \<in> set done" "describes es x c" using s cin unfolding scanned_def by meson
    then have "set (nc_nodes c) \<subseteq> (\<Union>x \<in> set done. component (linked es) x)" unfolding describes_def by blast
    then have "set (nc_nodes c) \<subseteq> V" using s unfolding scanned_def by simp
    then show ?thesis using n by auto
  qed
  then have "component (linked es) n \<notin> (\<lambda>c. set (nc_nodes c)) ` set cs" by blast
  moreover have "{component (linked es) x | x. x \<in> set (done @ [n]) \<and> 2 \<le> card (component (linked es) x)} =
      {component (linked es) x | x. x \<in> set done \<and> 2 \<le> card (component (linked es) x)} \<union>
      (if 2 \<le> card (component (linked es) n) then {component (linked es) n} else {})"
    unfolding set_append by (rule image_snoc [where f = "component (linked es)" and P = "\<lambda>C. 2 \<le> card C"])
  moreover define M K where "M = make_cluster es i k (n # ms)" and "K = component (linked es) n"
  moreover define comps where "comps = {component (linked es) x | x. x \<in> set done \<and> 2 \<le> card (component (linked es) x)}"
  ultimately have f: "K \<notin> (\<lambda>c. set (nc_nodes c)) ` set cs" "set (nc_nodes M) = K" "describes es n M"
    "{component (linked es) x | x. x \<in> set (done @ [n]) \<and> 2 \<le> card (component (linked es) x)} =
      comps \<union> (if 2 \<le> card K then {K} else {})"
    "(\<Union>x \<in> set (done @ [n]). component (linked es) x) = (\<Union>x \<in> set done. component (linked es) x) \<union> K"
    using d g by (simp_all add: Un_commute)
  have s': "V = (\<Union>x \<in> set done. component (linked es) x)" "\<forall>c \<in> set cs. \<exists>x \<in> set done. describes es x c"
    "distinct (map (\<lambda>c. set (nc_nodes c)) cs)" "(\<lambda>c. set (nc_nodes c)) ` set cs = comps"
    using s unfolding scanned_def comps_def by simp_all
  have "scanned es (done @ [n]) (V \<union> K) (if 2 \<le> card K then cs @ [M] else cs)"
    unfolding scanned_def f(4,5)
  proof (intro conjI)
    show "\<forall>c \<in> set (if 2 \<le> card K then cs @ [M] else cs). \<exists>x \<in> set (done @ [n]). describes es x c"
      using s'(2) f(3) by auto
  qed (use s' f(1,2) in simp_all)
  then show ?thesis using c unfolding M_def K_def by simp
qed

lemma cluster_scan_components:
  assumes "permutes ord" "scanned es done V cs"
  shows "\<exists>cs' V'. cluster_scan e ord es ns V cs = Some cs' \<and> scanned es (done @ ns) V' cs'"
  using assms(2)
proof (induction ns arbitrary: "done" V cs)
  case (Cons n ns)
  show ?case
  proof (cases "n \<in> V")
    case True
    then show ?thesis using Cons.IH [OF scanned_seen [OF Cons.prems True]] by simp
  next
    case False
    obtain ms where ms: "cluster_loop ord es [n] V [] = Some (n # ms, V \<union> component (linked es) n)"
        "distinct (n # ms)" "set (n # ms) = component (linked es) n"
      using cluster_loop_component [OF assms(1) False scanned_closed [OF Cons.prems]] by blast
    show ?thesis
      using Cons.IH [OF scanned_new [OF Cons.prems False ms(2,3)]] False ms(1) by simp
  qed
qed auto

lemma find_clusters_scanned:
  assumes "permutes ord"
  shows "\<exists>cs V. find_clusters e ord a = Some cs \<and> scanned (na_edges a) (map nn_id (na_nodes a)) V cs"
proof -
  have "scanned (na_edges a) [] {} []" by (simp add: scanned_def)
  from cluster_scan_components [OF assms this, of e "map nn_id (na_nodes a)"] show ?thesis
    by (auto simp: find_clusters_def)
qed

text \<open>C29: The cluster search of the network analysis returns, whatever the order in which sets are
  iterated, although nothing in its loop bounds it, and the clusters are exactly the connected
  components with two nodes or more of the nodes of the network (edges taken in both directions): each
  component appears once, with each of its members once, the node it was found from as central node, its
  size, and the sums of counts and amounts over exactly the edges inside it.\<close>

theorem clusters_are_components:
  assumes "permutes ord"
  shows "\<exists>cs. find_clusters e ord a = Some cs \<and>
    (\<forall>c \<in> set cs. \<exists>n \<in> set (na_nodes a). describes (na_edges a) (nn_id n) c) \<and>
    distinct (map (\<lambda>c. set (nc_nodes c)) cs) \<and>
    (\<lambda>c. set (nc_nodes c)) ` set cs =
      {component (linked (na_edges a)) (nn_id n) | n. n \<in> set (na_nodes a) \<and>
         2 \<le> card (component (linked (na_edges a)) (nn_id n))}"
proof -
  obtain cs V where cs: "find_clusters e ord a = Some cs" "scanned (na_edges a) (map nn_id (na_nodes a)) V cs"
    using find_clusters_scanned [OF assms] by blast
  have "{component (linked (na_edges a)) x | x. x \<in> nn_id ` set (na_nodes a) \<and>
          2 \<le> card (component (linked (na_edges a)) x)} =
        {component (linked (na_edges a)) (nn_id n) | n. n \<in> set (na_nodes a) \<and>
          2 \<le> card (component (linked (na_edges a)) (nn_id n))}" by blast
  then show ?thesis using cs unfolding scanned_def by (intro exI [of _ cs]) auto
qed

definition demo_edges :: "net_edge list" where
  "demo_edges = [new_net_edge ''e1'' ''a'' ''b'' ET_TRANSFERS_TO 2 10, new_net_edge ''e2'' ''b'' ''c'' ET_TRANSFERS_TO 3 20,
     new_net_edge ''e3'' ''c'' ''a'' ET_TRANSFERS_TO 1 5, new_net_edge ''e4'' ''x'' ''y'' ET_OWNS 0 0]"

definition demo_analysis :: net_analysis where
  "demo_analysis = (new_analysis ''n'' (new_net_query ''customer'' ''a''))
     \<lparr>na_nodes := map (\<lambda>i. new_net_node i NT_ACCOUNT i i 1) [''a'', ''b'', ''c'', ''x'', ''y'', ''z''],
      na_edges := demo_edges\<rparr>"

lemma permutes_rev: "permutes rev"
  by (simp add: permutes_def)

lemma demo_clusters:
  "map_option (map (\<lambda>c. (nc_nodes c, nc_count c, nc_amount c))) (find_clusters env0 rev demo_analysis) =
   Some [([''a'', ''c'', ''b''], 6, 35), ([''x'', ''y''], 0, 0)]"
  by code_simp

section \<open>The shortest path is shortest\<close>

text \<open>A list of nodes joined by edges with the given identifiers, for a list of neighbours of each node.\<close>

fun walk :: "(string \<Rightarrow> (string \<times> string) list) \<Rightarrow> string list \<Rightarrow> string list \<Rightarrow> bool" where
  "walk nb [x] [] = True"
| "walk nb (x # y # ns) (i # ids) = ((y, i) \<in> set (nb x) \<and> walk nb (y # ns) ids)"
| "walk nb ns ids = False"

lemma walk_length: "walk nb ns ids \<Longrightarrow> length ns = Suc (length ids)"
  by (induction nb ns ids rule: walk.induct) auto

lemma walk_snoc: "walk nb ns ids \<Longrightarrow> (y, i) \<in> set (nb (last ns)) \<Longrightarrow> walk nb (ns @ [y]) (ids @ [i])"
  by (induction nb ns ids rule: walk.induct) auto

abbreviation either_way :: "net_edge list \<Rightarrow> string \<Rightarrow> (string \<times> string) list" where
  "either_way es \<equiv> ends_of (\<lambda>_. True) es"

lemma either_way_linked: "fst ` set (either_way es x) = linked es `` {x}"
  by (simp add: linked_Image adjacent_def)

abbreviation hops :: "string \<times> string list \<times> string list \<Rightarrow> nat" where
  "hops q \<equiv> length (snd (snd q))"

definition entry_ok :: "net_edge list \<Rightarrow> string \<Rightarrow> string \<times> string list \<times> string list \<Rightarrow> bool" where
  "entry_ok es s q \<longleftrightarrow>
     (case q of (v, path, ids) \<Rightarrow> walk (either_way es) path ids \<and> hd path = s \<and> last path = v \<and>
        at_distance (linked es) s (length ids) v)"

text \<open>The queue is sorted by length, spans at most two lengths, and holds every visited node with a neighbour that is not.\<close>

definition search_inv ::
  "net_edge list \<Rightarrow> string \<Rightarrow> (string \<times> string list \<times> string list) list \<Rightarrow> string set \<Rightarrow> bool" where
  "search_inv es s queue V \<longleftrightarrow>
     (\<forall>q \<in> set queue. entry_ok es s q) \<and> sorted (map hops queue) \<and>
     (\<forall>q \<in> set queue. \<forall>r \<in> set queue. hops q \<le> Suc (hops r)) \<and>
     s \<in> V \<and> fst ` set queue \<subseteq> V \<and> (\<forall>x \<in> V - fst ` set queue. linked es `` {x} \<subseteq> V)"

lemma discover_new:
  "\<exists>news. discover path ids nbs queue V = (queue @ map (\<lambda>(n, i). (n, path @ [n], ids @ [i])) news, V \<union> fst ` set nbs)
     \<and> set news \<subseteq> set nbs \<and> fst ` set news = fst ` set nbs - V"
proof (induction path ids nbs queue V rule: discover.induct)
  case (2 path ids n i nbs queue V)
  show ?case
  proof (cases "n \<in> V")
    case True
    with 2(2) obtain news where
      "discover path ids nbs queue V = (queue @ map (\<lambda>(n, i). (n, path @ [n], ids @ [i])) news, V \<union> fst ` set nbs)"
      "set news \<subseteq> set nbs" "fst ` set news = fst ` set nbs - V" by blast
    then show ?thesis using True by (intro exI [of _ news]) auto
  next
    case False
    with 2(1) obtain news where
      "discover path ids nbs (queue @ [(n, path @ [n], ids @ [i])]) (insert n V) =
       ((queue @ [(n, path @ [n], ids @ [i])]) @ map (\<lambda>(n, i). (n, path @ [n], ids @ [i])) news, insert n V \<union> fst ` set nbs)"
      "set news \<subseteq> set nbs" "fst ` set news = fst ` set nbs - insert n V" by blast
    then show ?thesis using False by (intro exI [of _ "(n, i) # news"]) auto
  qed
qed simp

lemma unvisited_far:
  assumes "search_inv es s ((cur, path, ids) # q) V" "n \<notin> V" "(s, n) \<in> linked es ^^ m"
  shows "length ids < m"
proof -
  have "s \<in> V" using assms(1) by (simp add: search_inv_def)
  from frontier [OF assms(3) this assms(2)] obtain k x x' where
    k: "k < m" "(s, x) \<in> linked es ^^ k" "x \<in> V" "(x, x') \<in> linked es" "x' \<notin> V" by blast
  have "x \<in> fst ` set ((cur, path, ids) # q)"
  proof (rule ccontr)
    assume "x \<notin> fst ` set ((cur, path, ids) # q)"
    then have "linked es `` {x} \<subseteq> V" using assms(1) k(3) unfolding search_inv_def by blast
    then show False using k(4,5) by blast
  qed
  then obtain w where w: "w \<in> set ((cur, path, ids) # q)" "x = fst w" by blast
  then have "entry_ok es s w" using assms(1) unfolding search_inv_def by meson
  then have "hops w \<le> k" using k(2) w(2) by (cases w) (simp add: entry_ok_def at_distance_def)
  moreover have "length ids \<le> hops w"
    using w(1) assms(1) by (auto simp: search_inv_def)
  ultimately show ?thesis using k(1) by simp
qed

lemma search_inv_step:
  assumes i: "search_inv es s ((cur, path, ids) # q) V"
    and r: "discover path ids (either_way es cur) q V = (q', V')"
  shows "search_inv es s q' V'"
proof -
  obtain news where
    n: "q' = q @ map (\<lambda>(n, i). (n, path @ [n], ids @ [i])) news" "V' = V \<union> linked es `` {cur}"
       "set news \<subseteq> set (either_way es cur)" "fst ` set news = linked es `` {cur} - V"
    using discover_new [of path ids "either_way es cur" q V] r by (auto simp: either_way_linked)
  have c: "walk (either_way es) path ids" "hd path = s" "last path = cur" "(s, cur) \<in> linked es ^^ length ids"
    "path \<noteq> []"
    using i walk_length [of "either_way es" path ids] by (auto simp: search_inv_def entry_ok_def at_distance_def)
  have new_ok: "entry_ok es s (m, path @ [m], ids @ [j])" if mj: "(m, j) \<in> set news" for m j
  proof -
    have e: "(m, j) \<in> set (either_way es cur)" using n(3) mj by blast
    have m: "(cur, m) \<in> linked es" "m \<notin> V" using n(4) mj by force+
    have "(s, m) \<in> linked es ^^ Suc (length ids)" using c(4) m(1) by auto
    moreover have "Suc (length ids) \<le> k" if "(s, m) \<in> linked es ^^ k" for k
      using unvisited_far [OF i m(2) that] by simp
    ultimately have "at_distance (linked es) s (Suc (length ids)) m" by (simp add: at_distance_def)
    then show ?thesis using walk_snoc [OF c(1)] e c by (simp add: entry_ok_def)
  qed
  have old: "\<forall>w \<in> set q. entry_ok es s w" "sorted (map hops q)" "\<forall>w \<in> set q. length ids \<le> hops w"
      "\<forall>w \<in> set q. hops w \<le> Suc (length ids)" "s \<in> V" "fst ` set q \<subseteq> V" "cur \<in> V"
      "\<forall>x \<in> V - insert cur (fst ` set q). linked es `` {x} \<subseteq> V"
    using i unfolding search_inv_def by auto
  have h: "map hops (map (\<lambda>(n, i). (n, path @ [n], ids @ [i])) news) = replicate (length news) (Suc (length ids))"
    by (induction news) auto
  have hn: "hops w = Suc (length ids)" if "w \<in> set (map (\<lambda>(n, i). (n, path @ [n], ids @ [i])) news)" for w
    using that by auto
  have q: "set q' = set q \<union> set (map (\<lambda>(n, i). (n, path @ [n], ids @ [i])) news)" by (simp add: n(1))
  have f: "fst ` set (map (\<lambda>(n, i). (n, path @ [n], ids @ [i])) news) = linked es `` {cur} - V"
    unfolding n(4) [symmetric] by force
  show ?thesis unfolding search_inv_def
  proof (intro conjI)
    show "\<forall>w \<in> set q'. entry_ok es s w" using old(1) new_ok by (auto simp: n(1))
    show "sorted (map hops q')" using old(2,4) unfolding n(1) map_append h
      by (auto simp: sorted_append)
    show "\<forall>w \<in> set q'. \<forall>r \<in> set q'. hops w \<le> Suc (hops r)"
    proof (intro ballI)
      fix w r assume "w \<in> set q'" "r \<in> set q'"
      then have "hops w \<le> Suc (length ids)" "length ids \<le> hops r"
        using old(3,4) hn unfolding q by auto
      then show "hops w \<le> Suc (hops r)" by simp
    qed
    show "s \<in> V'" "fst ` set q' \<subseteq> V'" using old(5,6) f unfolding q n(2) image_Un by blast+
    show "\<forall>x \<in> V' - fst ` set q'. linked es `` {x} \<subseteq> V'"
      using old(8) f unfolding q n(2) image_Un by blast
  qed
qed

lemma shortest_loop_exact:
  assumes "search_inv es s queue V" "goal \<notin> V - fst ` set queue"
  shows "case shortest_loop es s goal queue V of
      None \<Rightarrow> goal \<notin> component (linked es) s
    | Some p \<Rightarrow> p = found_path s goal (np_nodes p) (np_edges p) \<and>
        entry_ok es s (goal, np_nodes p, np_edges p)"
  using assms
proof (induction es s goal queue V rule: shortest_loop.induct)
  case (1 es s goal V)
  have "closed_under (linked es) V" using 1(1) by (auto simp: search_inv_def closed_under_def)
  then have "component (linked es) s \<subseteq> V" using 1(1) by (intro component_least) (simp_all add: search_inv_def)
  then show ?case using 1(2) by auto
next
  case (2 es s goal cur path ids queue V)
  show ?case
  proof (cases "cur = goal")
    case True
    then show ?thesis using 2(2) by (simp add: search_inv_def found_path_def)
  next
    case False
    let ?r = "discover path ids (either_way es cur) queue V"
    have i: "search_inv es s (fst ?r) (snd ?r)" by (rule search_inv_step [OF 2(2)]) simp
    obtain news where
      n: "fst ?r = queue @ map (\<lambda>(n, i). (n, path @ [n], ids @ [i])) news" "snd ?r = V \<union> fst ` set (either_way es cur)"
         "fst ` set news = fst ` set (either_way es cur) - V"
      using discover_new [of path ids "either_way es cur" queue V] by auto
    have "fst ` set (map (\<lambda>(n, i). (n, path @ [n], ids @ [i])) news) = fst ` set news" by force
    then have "fst ` set (fst ?r) = fst ` set queue \<union> (fst ` set (either_way es cur) - V)"
      unfolding n(1,3) [symmetric] by (simp add: n(1) image_Un)
    then have "goal \<notin> snd ?r - fst ` set (fst ?r)" using 2(3) False unfolding n(2) by auto
    from 2(1) [OF False refl i this] show ?thesis using False by (simp add: Let_def)
  qed
qed

text \<open>C30: The breadth-first search for a path between two entities returns: a path exactly if there is one
  (edges taken in both directions), and then a path over edges of the network from the one to the other,
  with its edges in order, whose length is the least number of edges between the two.\<close>

theorem shortest_path_exact:
  "case find_shortest_path a s t of
     None \<Rightarrow> t \<notin> component (linked (na_edges a)) s
   | Some p \<Rightarrow> np_start p = s \<and> np_end p = t \<and> hd (np_nodes p) = s \<and> last (np_nodes p) = t \<and>
       walk (ends_of (\<lambda>_. True) (na_edges a)) (np_nodes p) (np_edges p) \<and>
       np_len p = length (np_edges p) \<and> np_len p = (LEAST n. (s, t) \<in> linked (na_edges a) ^^ n)"
proof -
  have "search_inv (na_edges a) s [(s, [s], [])] {s}"
    by (simp add: search_inv_def entry_ok_def at_distance_def)
  note loop = shortest_loop_exact [OF this, of t]
  show ?thesis
  proof (cases "find_shortest_path a s t")
    case None
    then show ?thesis using loop by (simp add: find_shortest_path_def)
  next
    case (Some p)
    have p: "p = found_path s t (np_nodes p) (np_edges p)" "entry_ok (na_edges a) s (t, np_nodes p, np_edges p)"
      using loop Some by (simp_all add: find_shortest_path_def)
    have w: "walk (either_way (na_edges a)) (np_nodes p) (np_edges p)" "hd (np_nodes p) = s" "last (np_nodes p) = t"
      and d: "at_distance (linked (na_edges a)) s (length (np_edges p)) t"
      using p(2) by (simp_all add: entry_ok_def)
    have f: "np_start p = s" "np_end p = t" "np_len p = length (np_nodes p) - 1"
      by (subst p(1), simp add: found_path_def)+
    then have "np_len p = length (np_edges p)" using walk_length [OF w(1)] by simp
    then show ?thesis unfolding Some using f w at_distance_least [OF d] by simp
  qed
qed

section \<open>Circular flows are the simple cycles\<close>

definition simple_cycle :: "net_edge list \<Rightarrow> string \<Rightarrow> string list \<Rightarrow> string list \<Rightarrow> bool" where
  "simple_cycle es start ns ids \<longleftrightarrow>
     walk (out_edges es) (ns @ [start]) ids \<and> ns \<noteq> [] \<and> hd ns = start \<and> distinct ns \<and>
     3 \<le> length ns \<and> length ns \<le> 10"

lemma in_concat_pairs:
  "p \<in> set (concat (map (\<lambda>(n, i). f n i) xs)) \<longleftrightarrow> (\<exists>n i. (n, i) \<in> set xs \<and> p \<in> set (f n i))"
  by force

lemma find_cycles_step:
  assumes "length path \<le> 10"
  shows "p \<in> set (find_cycles es start cur path ids visited) \<longleftrightarrow>
    (\<exists>n i. (n, i) \<in> set (out_edges es cur) \<and>
       (if n = start \<and> length path \<ge> 3 then p = circular_path start path (ids @ [i])
        else n \<notin> visited \<and> p \<in> set (find_cycles es start n (path @ [n]) (ids @ [i]) (insert n visited))))"
proof -
  have "p \<in> set (find_cycles es start cur path ids visited) \<longleftrightarrow>
    (\<exists>n i. (n, i) \<in> set (out_edges es cur) \<and> p \<in> set (
       if n = start \<and> length path \<ge> 3 then [circular_path start path (ids @ [i])]
       else if n \<notin> visited then find_cycles es start n (path @ [n]) (ids @ [i]) (insert n visited) else []))"
    using assms by (subst find_cycles.simps) (simp only: in_concat_pairs not_less [symmetric] if_False)
  then show ?thesis by (simp split: if_split)
qed

lemma walk_single [simp]: "walk nb [x] ids \<longleftrightarrow> ids = []"
  by (cases ids) auto

definition rest_of_cycle ::
  "net_edge list \<Rightarrow> string \<Rightarrow> string \<Rightarrow> nat \<Rightarrow> string set \<Rightarrow> string list \<Rightarrow> string list \<Rightarrow> bool" where
  "rest_of_cycle es start cur k visited ns ids \<longleftrightarrow>
     walk (out_edges es) (cur # ns @ [start]) ids \<and> distinct ns \<and> set ns \<inter> visited = {} \<and>
     3 \<le> k + length ns \<and> k + length ns \<le> 10"

lemma rest_Nil: "rest_of_cycle es start cur k visited [] ids \<longleftrightarrow>
    (\<exists>i. ids = [i] \<and> (start, i) \<in> set (out_edges es cur) \<and> 3 \<le> k \<and> k \<le> 10)"
  by (cases ids) (auto simp: rest_of_cycle_def)

lemma rest_Cons: "rest_of_cycle es start cur k visited (n # ns) ids \<longleftrightarrow>
    (\<exists>i ids'. ids = i # ids' \<and> (n, i) \<in> set (out_edges es cur) \<and> n \<notin> visited \<and>
       rest_of_cycle es start n (Suc k) (insert n visited) ns ids')"
  by (cases ids) (auto simp: rest_of_cycle_def)

lemma find_cycles_iff:
  assumes "start \<in> visited"
  shows "p \<in> set (find_cycles es start cur path ids visited) \<longleftrightarrow>
    (\<exists>ns ids'. p = circular_path start (path @ ns) (ids @ ids') \<and>
       rest_of_cycle es start cur (length path) visited ns ids')"
  using assms
proof (induction es start cur path ids visited rule: find_cycles.induct)
  case (1 es start cur path ids visited)
  show ?case
  proof (cases "length path > 10")
    case True
    then show ?thesis by (subst find_cycles.simps) (auto simp: rest_of_cycle_def)
  next
    case False
    have IH: "p \<in> set (find_cycles es start n (path @ [n]) (ids @ [i]) (insert n visited)) \<longleftrightarrow>
        (\<exists>ns ids'. p = circular_path start (path @ n # ns) (ids @ i # ids') \<and>
           rest_of_cycle es start n (Suc (length path)) (insert n visited) ns ids')"
      if "(n, i) \<in> set (out_edges es cur)" "n \<notin> visited" for n i
      using 1(1) [OF False that(1) refl _ that(2)] that(2) 1(2) by auto
    have split: "(\<exists>ns ids'. P ns ids') \<longleftrightarrow> (\<exists>ids'. P [] ids') \<or> (\<exists>n ns ids'. P (n # ns) ids')" for P :: "string list \<Rightarrow> string list \<Rightarrow> bool"
      by (metis neq_Nil_conv)
    have l: "length path \<le> 10" using False by simp
    have "p \<in> set (find_cycles es start cur path ids visited) \<longleftrightarrow>
        (\<exists>i. (start, i) \<in> set (out_edges es cur) \<and> 3 \<le> length path \<and> p = circular_path start path (ids @ [i])) \<or>
        (\<exists>n i. (n, i) \<in> set (out_edges es cur) \<and> n \<notin> visited \<and>
           p \<in> set (find_cycles es start n (path @ [n]) (ids @ [i]) (insert n visited)))"
      unfolding find_cycles_step [OF l] using 1(2) by (auto split: if_splits)
    also have "\<dots> \<longleftrightarrow>
        (\<exists>ids'. p = circular_path start (path @ []) (ids @ ids') \<and> rest_of_cycle es start cur (length path) visited [] ids') \<or>
        (\<exists>n ns ids'. p = circular_path start (path @ n # ns) (ids @ ids') \<and>
           rest_of_cycle es start cur (length path) visited (n # ns) ids')"
    proof (rule arg_cong2 [where f = "(\<or>)"])
      show "(\<exists>i. (start, i) \<in> set (out_edges es cur) \<and> 3 \<le> length path \<and> p = circular_path start path (ids @ [i])) \<longleftrightarrow>
        (\<exists>ids'. p = circular_path start (path @ []) (ids @ ids') \<and> rest_of_cycle es start cur (length path) visited [] ids')"
        unfolding rest_Nil append_Nil2 using l by blast
      show "(\<exists>n i. (n, i) \<in> set (out_edges es cur) \<and> n \<notin> visited \<and>
           p \<in> set (find_cycles es start n (path @ [n]) (ids @ [i]) (insert n visited))) \<longleftrightarrow>
        (\<exists>n ns ids'. p = circular_path start (path @ n # ns) (ids @ ids') \<and>
           rest_of_cycle es start cur (length path) visited (n # ns) ids')"
        (is "?L \<longleftrightarrow> ?R")
      proof -
        have "?L \<longleftrightarrow> (\<exists>n i. (n, i) \<in> set (out_edges es cur) \<and> n \<notin> visited \<and>
            (\<exists>ns ids'. p = circular_path start (path @ n # ns) (ids @ i # ids') \<and>
               rest_of_cycle es start n (Suc (length path)) (insert n visited) ns ids'))"
          by (rule ex_cong1, rule ex_cong1, rule conj_cong [OF refl], rule conj_cong [OF refl], rule IH, assumption+)
        then show ?thesis unfolding rest_Cons by blast
      qed
    qed
    also have "\<dots> \<longleftrightarrow> (\<exists>ns ids'. p = circular_path start (path @ ns) (ids @ ids') \<and>
       rest_of_cycle es start cur (length path) visited ns ids')"
      by (rule split [symmetric])
    finally show ?thesis .
  qed
qed

lemma cycles_from_start:
  "set (find_cycles es x x [x] [] {x}) = {circular_path x ns ids | ns ids. simple_cycle es x ns ids}"
proof -
  have "simple_cycle es x ns ids \<longleftrightarrow> (\<exists>ns'. ns = x # ns' \<and> rest_of_cycle es x x 1 {x} ns' ids)" for ns ids
    by (cases ns) (auto simp: simple_cycle_def rest_of_cycle_def)
  then have "p \<in> set (find_cycles es x x [x] [] {x}) \<longleftrightarrow>
      (\<exists>ns ids. p = circular_path x ns ids \<and> simple_cycle es x ns ids)" for p
    unfolding find_cycles_iff [of x "{x}", simplified] by fastforce
  then show ?thesis by (intro set_eqI) (simp only: mem_Collect_eq)
qed


lemma demo_flows:
  "map np_nodes (find_circular_flows demo_analysis) =
   [[''a'', ''b'', ''c'', ''a''], [''b'', ''c'', ''a'', ''b''], [''c'', ''a'', ''b'', ''c'']]"
  by code_simp

section \<open>An expanded network is a tree\<close>

text \<open>
  Each edge leads to a node found by it alone, whose identifier is longer than that of its source; all
  nodes hang on the root and carry no risk.
\<close>

definition calm :: "net_node \<Rightarrow> bool" where
  "calm n \<longleftrightarrow> nn_risk n = 0 \<and> \<not> nn_pep n \<and> \<not> nn_sanctioned n"

definition tree_inv :: "string \<Rightarrow> expansion \<Rightarrow> bool" where
  "tree_inv r s \<longleftrightarrow>
     map nn_id (ex_nodes s) = r # map ne_tgt (ex_edges s) \<and> distinct (r # map ne_tgt (ex_edges s)) \<and>
     ex_seen s = set (r # map ne_tgt (ex_edges s)) \<and> set (ex_next s) \<subseteq> ex_seen s \<and>
     (\<forall>ed \<in> set (ex_edges s). length (ne_src ed) < length (ne_tgt ed) \<and> ne_src ed \<in> ex_seen s) \<and>
     ex_seen s \<subseteq> component (linked (ex_edges s)) r \<and> (\<forall>n \<in> set (ex_nodes s). calm n)"

lemma tree_invD:
  assumes "tree_inv r s"
  shows "map nn_id (ex_nodes s) = r # map ne_tgt (ex_edges s)" "distinct (r # map ne_tgt (ex_edges s))"
    "ex_seen s = set (r # map ne_tgt (ex_edges s))" "set (ex_next s) \<subseteq> ex_seen s"
    "\<And>ed. ed \<in> set (ex_edges s) \<Longrightarrow> length (ne_src ed) < length (ne_tgt ed)"
    "\<And>ed. ed \<in> set (ex_edges s) \<Longrightarrow> ne_src ed \<in> ex_seen s"
    "ex_seen s \<subseteq> component (linked (ex_edges s)) r" "\<And>n. n \<in> set (ex_nodes s) \<Longrightarrow> calm n"
  using assms unfolding tree_inv_def by blast+

lemma linked_append: "linked (es @ ds) = linked es \<union> linked ds"
  by (auto simp: linked_def)

lemma component_mono: "R \<subseteq> S \<Longrightarrow> component R x \<subseteq> component S x"
  unfolding component_def using rtrancl_mono by blast

lemma add_child_new:
  assumes "child_id p i \<notin> ex_seen s"
  shows "\<exists>n ed. add_child e d p i s = s\<lparr>ex_nodes := ex_nodes s @ [n], ex_edges := ex_edges s @ [ed],
             ex_seen := insert (child_id p i) (ex_seen s), ex_next := ex_next s @ [child_id p i]\<rparr> \<and>
           nn_id n = child_id p i \<and> calm n \<and> ne_src ed = p \<and> ne_tgt ed = child_id p i"
  unfolding add_child_def Let_def if_not_P [OF assms]
  by (rule exI, rule exI, rule conjI, rule refl) (simp add: new_net_node_def new_net_edge_def calm_def)

lemma tree_add_child:
  assumes t: "tree_inv r s" and p: "p \<in> ex_seen s"
  shows "tree_inv r (add_child e d p i s)"
proof (cases "child_id p i \<in> ex_seen s")
  case False
  define c where "c = child_id p i"
  obtain n ed where s': "add_child e d p i s = s\<lparr>ex_nodes := ex_nodes s @ [n], ex_edges := ex_edges s @ [ed],
      ex_seen := insert c (ex_seen s), ex_next := ex_next s @ [c]\<rparr>"
      and n: "nn_id n = c" "calm n" and ed: "ne_src ed = p" "ne_tgt ed = c"
    using add_child_new [OF False] unfolding c_def by blast
  have new: "c \<notin> ex_seen s" "length p < length c" using False by (simp_all add: c_def child_id_def)
  have l: "linked (ex_edges s @ [ed]) = insert (p, c) (insert (c, p) (linked (ex_edges s)))"
    by (auto simp: linked_def ed)
  have m: "component (linked (ex_edges s)) r \<subseteq> component (linked (ex_edges s @ [ed])) r"
    by (rule component_mono) (auto simp: linked_append)
  then have "p \<in> component (linked (ex_edges s @ [ed])) r" using tree_invD(7) [OF t] p by blast
  then have "c \<in> component (linked (ex_edges s @ [ed])) r" by (rule component_step) (simp add: l)
  then have comp: "insert c (ex_seen s) \<subseteq> component (linked (ex_edges s @ [ed])) r"
    using tree_invD(7) [OF t] m by blast
  show ?thesis unfolding s' tree_inv_def
  proof (intro conjI)
    show "\<forall>ed' \<in> set (ex_edges (s\<lparr>ex_nodes := ex_nodes s @ [n], ex_edges := ex_edges s @ [ed],
        ex_seen := insert c (ex_seen s), ex_next := ex_next s @ [c]\<rparr>)). length (ne_src ed') < length (ne_tgt ed') \<and>
        ne_src ed' \<in> ex_seen (s\<lparr>ex_nodes := ex_nodes s @ [n], ex_edges := ex_edges s @ [ed],
        ex_seen := insert c (ex_seen s), ex_next := ex_next s @ [c]\<rparr>)"
      using tree_invD(5,6) [OF t] p new(2) ed by auto
  qed (use tree_invD(1-4,8) [OF t] comp n ed new(1) in auto)
qed (use t in \<open>simp add: add_child_def\<close>)

lemma add_child_grows: "ex_seen s \<subseteq> ex_seen (add_child e d p i s)"
  by (auto simp: add_child_def Let_def)

lemma add_children:
  assumes "tree_inv root_id s" "p \<in> ex_seen s"
  shows "tree_inv root_id (fold (add_child e d p) is s) \<and> ex_seen s \<subseteq> ex_seen (fold (add_child e d p) is s) \<and>
         length (ex_nodes (fold (add_child e d p) is s)) \<le> length (ex_nodes s) + length is"
  using assms
proof (induction "is" arbitrary: s)
  case (Cons i "is")
  have "p \<in> ex_seen (add_child e d p i s)" using add_child_grows [of s e d p i] Cons.prems(2) by blast
  note IH = Cons.IH [OF tree_add_child [OF Cons.prems] this]
  moreover have "length (ex_nodes (add_child e d p i s)) \<le> Suc (length (ex_nodes s))"
    by (simp add: add_child_def Let_def)
  ultimately show ?case using add_child_grows [of s e d p i] by fastforce
qed simp

definition tree_within :: "string \<Rightarrow> int \<Rightarrow> expansion \<Rightarrow> bool" where
  "tree_within root_id max_nodes s \<longleftrightarrow> tree_inv root_id s \<and> int (length (ex_nodes s)) \<le> max 1 max_nodes"

lemma expand_node_within:
  assumes "tree_within root_id mx s" "p \<in> ex_seen s"
  shows "tree_within root_id mx (expand_node e d mx p s) \<and> ex_seen s \<subseteq> ex_seen (expand_node e d mx p s)"
proof -
  let ?k = "nat (min 3 (mx - int (length (ex_nodes s))))"
  note a = add_children [OF _ assms(2), of root_id e d "[0..<?k]"]
  have "tree_inv root_id s" "int (length (ex_nodes s)) \<le> max 1 mx" using assms(1) by (simp_all add: tree_within_def)
  then show ?thesis using a unfolding tree_within_def expand_node_def by auto
qed

lemma expand_level_within:
  assumes "tree_within root_id mx s" "set level \<subseteq> ex_seen s"
  shows "tree_within root_id mx (fold (expand_node e d mx) level s)"
  using assms
proof (induction level arbitrary: s)
  case (Cons p ps)
  have "tree_within root_id mx (expand_node e d mx p s)" "set ps \<subseteq> ex_seen (expand_node e d mx p s)"
    using expand_node_within [of root_id mx s p e d] Cons.prems by auto
  then show ?case using Cons.IH by simp
qed simp

lemma tree_no_next: "tree_inv r s \<Longrightarrow> tree_inv r (s\<lparr>ex_next := []\<rparr>)"
  by (cases s) (auto simp: tree_inv_def)

lemma expand_levels_within:
  assumes "tree_within root_id mx s" "set level \<subseteq> ex_seen s"
  shows "tree_within root_id mx (expand_levels e mx ds level s)"
  using assms
proof (induction e mx ds level s rule: expand_levels.induct)
  case (2 e mx d ds level s)
  show ?case
  proof (cases "int (length (ex_nodes s)) \<ge> mx")
    case False
    have "tree_within root_id mx (s\<lparr>ex_next := []\<rparr>)"
      using 2(2) tree_no_next [of root_id s] by (simp add: tree_within_def)
    then have w: "tree_within root_id mx (fold (expand_node e d mx) level (s\<lparr>ex_next := []\<rparr>))" (is "tree_within _ _ ?s")
      by (rule expand_level_within) (use 2(3) in simp)
    then have "set (ex_next ?s) \<subseteq> ex_seen ?s" using tree_invD(4) unfolding tree_within_def by blast
    then show ?thesis using 2(1) [OF False refl w] False by (simp add: Let_def)
  qed (use 2 in simp)
qed simp

lemma expand_network_tree:
  "\<exists>s. expand_network e root_id ty depth mx = (ex_nodes s, ex_edges s) \<and> tree_within root_id mx s"
proof -
  have "tree_within root_id mx \<lparr>ex_nodes = [root_net_node root_id ty], ex_edges = [], ex_seen = {root_id}, ex_next = []\<rparr>"
    by (simp add: tree_within_def tree_inv_def root_net_node_def new_net_node_def calm_def)
  from expand_levels_within [OF this, of "[root_id]"] show ?thesis
    unfolding expand_network_def Let_def by auto
qed

text \<open>Along a walk over such edges the identifiers get longer, so it does not come back.\<close>

lemma walk_longer:
  assumes "\<forall>ed \<in> set es. length (ne_src ed) < length (ne_tgt ed)" "walk (out_edges es) ns ids"
  shows "length (hd ns) + length ids \<le> length (last ns)"
  using assms(2)
proof (induction "out_edges es" ns ids rule: walk.induct)
  case (2 x y ns i ids)
  then have "length x < length y" using assms(1) by (auto simp: out_edges_def)
  then show ?case using 2 by auto
qed simp_all

lemma tree_no_cycle:
  assumes "\<forall>ed \<in> set (na_edges a). length (ne_src ed) < length (ne_tgt ed)"
  shows "find_circular_flows a = []"
proof -
  have "\<not> simple_cycle (na_edges a) x ns ids" for x ns ids
  proof
    assume c: "simple_cycle (na_edges a) x ns ids"
    then have "walk (out_edges (na_edges a)) (ns @ [x]) ids" "ns \<noteq> []" "hd ns = x" "3 \<le> length ns"
      by (simp_all add: simple_cycle_def)
    then show False using walk_longer [OF assms, of "ns @ [x]" ids] walk_length [of _ "ns @ [x]" ids] by auto
  qed
  then have "set (find_cycles (na_edges a) x x [x] [] {x}) = {}" for x unfolding cycles_from_start by blast
  then show ?thesis by (simp add: find_circular_flows_def)
qed

lemma calm_risk:
  assumes "\<forall>n \<in> set (na_nodes a). calm n" "na_suspicious a = []"
  shows "na_risk (calculate_network_risk a) \<le> 10 \<and> na_level (calculate_network_risk a) = NR_LOW \<and>
         na_circular (calculate_network_risk a) = na_circular a"
proof -
  have "filter (\<lambda>n. nn_risk n > 70) (na_nodes a) = []" "filter nn_pep (na_nodes a) = []"
    "filter nn_sanctioned (na_nodes a) = []"
    using assms(1) by (auto simp: calm_def filter_empty_conv)
  then show ?thesis using assms(2) by (simp add: calculate_network_risk_def Let_def)
qed

lemma tree_component:
  assumes "tree_inv r x"
  shows "nn_id ` set (ex_nodes x) = component (linked (ex_edges x)) r"
proof -
  have "closed_under (linked (ex_edges x)) (ex_seen x)"
    using tree_invD(3,6) [OF assms] by (auto simp: closed_under_def linked_def)
  then have "component (linked (ex_edges x)) r \<subseteq> ex_seen x"
    by (rule component_least [rotated]) (use tree_invD(3) [OF assms] in simp)
  moreover have "nn_id ` set (ex_nodes x) = ex_seen x"
    using arg_cong [OF tree_invD(1) [OF assms], of set] tree_invD(3) [OF assms] by simp
  ultimately show ?thesis using tree_invD(7) [OF assms] by simp
qed

lemma connected_one_cluster:
  assumes "scanned es ids V cs" "set ids \<subseteq> component (linked es) r"
  shows "length cs \<le> 1"
proof -
  have "component (linked es) x = component (linked es) r" if "x \<in> set ids" for x
    using assms(2) that net.component_eq [of x es r] by blast
  then have "{component (linked es) x | x. x \<in> set ids \<and> 2 \<le> card (component (linked es) x)} \<subseteq> {component (linked es) r}"
    by blast
  then have "(\<lambda>c. set (nc_nodes c)) ` set cs \<subseteq> {component (linked es) r}"
    using assms(1) unfolding scanned_def by simp
  then have "card (set (map (\<lambda>c. set (nc_nodes c)) cs)) \<le> 1"
    using card_mono [of "{component (linked es) r}"] by auto
  moreover have "distinct (map (\<lambda>c. set (nc_nodes c)) cs)" using assms(1) by (simp add: scanned_def)
  ultimately show ?thesis using distinct_card [of "map (\<lambda>c. set (nc_nodes c)) cs"] by simp
qed

text \<open>What the steps of \<open>build_network\<close> leave alone.\<close>

definition same_network :: "net_analysis \<Rightarrow> net_analysis \<Rightarrow> bool" where
  "same_network a b \<longleftrightarrow>
     na_id b = na_id a \<and> na_edges b = na_edges a \<and> map nn_id (na_nodes b) = map nn_id (na_nodes a) \<and>
     ((\<forall>n \<in> set (na_nodes a). calm n) \<longrightarrow> (\<forall>n \<in> set (na_nodes b). calm n))"

lemma same_network_steps:
  "same_network a (calculate_centrality_metrics a)" "same_network a (calculate_network_risk a)"
  "same_network a (with_flows a)"
  by (simp_all add: same_network_def calculate_centrality_metrics_def centrality_def calculate_network_risk_def
      with_flows_def Let_def calm_def)

text \<open>Whatever the root, the depth and the order of sets, building a network returns a tree and nothing
  suspicious: the network is stored under a fresh identifier; its nodes have distinct identifiers, are at most
  the requested number (one for a request of none), all connected to the root, with one edge less than
  nodes; the search for clusters, where it is asked for, finds at most one; the search for circular flows finds
  none; the risk score is at most 10 and the level LOW.\<close>

theorem built_network_is_tree:
  assumes "permutes ord"
  shows "\<exists>a. build_network e ord q s = Some (a, dset (uuid e 0) a s) \<and> na_id a = uuid e 0 \<and>
    distinct (map nn_id (na_nodes a)) \<and> int (length (na_nodes a)) \<le> max 1 (nq_nodes q) \<and>
    Suc (length (na_edges a)) = length (na_nodes a) \<and>
    nn_id ` set (na_nodes a) = component (linked (na_edges a)) (nq_root q) \<and>
    length (na_clusters a) \<le> 1 \<and> na_suspicious a = [] \<and> na_circular a = 0 \<and>
    na_risk a \<le> 10 \<and> na_level a = NR_LOW"
proof -
  define a1 where "a1 = with_network (later 1 e) q (new_analysis (uuid e 0) q)"
  define a2 where "a2 = (if nq_centrality q then calculate_centrality_metrics a1 else a1)"
  obtain x where x: "expand_network (later 1 e) (nq_root q) (nq_root_type q) (nq_depth q) (nq_nodes q)
      = (ex_nodes x, ex_edges x)" and w: "tree_within (nq_root q) (nq_nodes q) x"
    using expand_network_tree by blast
  have t: "tree_inv (nq_root q) x" using w by (simp add: tree_within_def)
  have a1: "na_id a1 = uuid e 0" "na_nodes a1 = ex_nodes x" "na_edges a1 = ex_edges x" "na_suspicious a1 = []"
      "na_circular a1 = 0" "na_risk a1 = 0" "na_level a1 = NR_LOW"
    unfolding a1_def with_network_def x by (simp_all add: new_analysis_def Let_def)
  have a2: "same_network a1 a2" "na_suspicious a2 = []" "na_circular a2 = 0" "na_risk a2 = 0" "na_level a2 = NR_LOW"
    using same_network_steps(1) [of a1] a1
    by (simp_all add: a2_def same_network_def calculate_centrality_metrics_def)
  obtain cs V where cs: "find_clusters (later (Suc (length (na_edges a2))) e) ord a2 = Some cs"
      "scanned (na_edges a2) (map nn_id (na_nodes a2)) V cs"
    using find_clusters_scanned [OF assms] by blast
  have ids: "map nn_id (na_nodes a2) = map nn_id (ex_nodes x)" "na_edges a2 = ex_edges x" "\<forall>n \<in> set (na_nodes a2). calm n"
    using a2(1) a1 t by (simp_all add: same_network_def tree_inv_def)
  have comp: "nn_id ` set (ex_nodes x) = component (linked (ex_edges x)) (nq_root q)" by (rule tree_component [OF t])
  have one: "length cs \<le> 1" by (rule connected_one_cluster [OF cs(2), of "nq_root q"]) (simp add: ids comp)
  define a3 where "a3 = a2\<lparr>na_clusters := (if nq_clusters q then cs else [])\<rparr>"
  define a4 where "a4 = (if nq_flows q then with_flows a3 else a3)"
  define a5 where "a5 = (if nq_risk q then calculate_network_risk a4 else a4)"
  define a6 where "a6 = a5\<lparr>na_key_nodes := identify_key_nodes a5, na_completed := Some (clock e 1),
      na_seconds := double (of_int (clock e 1 - clock e 0) / 1000000)\<rparr>"
  have "find_circular_flows a3 = []"
    by (rule tree_no_cycle) (use tree_invD(5) [OF t] ids(2) in \<open>simp add: a3_def\<close>)
  then have a4: "na_suspicious a4 = []" "na_circular a4 = 0" "na_risk a4 = 0" "na_level a4 = NR_LOW"
      "na_nodes a4 = na_nodes a2" "na_edges a4 = na_edges a2" "na_id a4 = uuid e 0" "length (na_clusters a4) \<le> 1"
    using a2 a1(1) one by (simp_all add: a4_def a3_def with_flows_def same_network_def)
  have "na_risk a5 \<le> 10 \<and> na_level a5 = NR_LOW \<and> na_circular a5 = 0"
    using calm_risk [of a4] ids(3) a4 by (simp add: a5_def)
  moreover have "na_suspicious a5 = []" "na_nodes a5 = na_nodes a2" "na_edges a5 = ex_edges x" "na_id a5 = uuid e 0"
      "length (na_clusters a5) \<le> 1"
    using a4 ids(2) by (simp_all add: a5_def calculate_network_risk_def Let_def)
  moreover have "build_network e ord q s = Some (a6, dset (na_id a6) a6 s)"
    unfolding build_network_def Let_def a1_def [symmetric] a2_def [symmetric]
    using cs(1) by (simp add: a3_def a4_def a5_def a6_def)
  moreover have "length (map nn_id (na_nodes a2)) = Suc (length (ex_edges x))"
      "distinct (map nn_id (na_nodes a2))"
    using tree_invD(2) [OF t] unfolding ids(1) tree_invD(1) [OF t] by simp_all
  moreover have "set (map nn_id (na_nodes a2)) = component (linked (ex_edges x)) (nq_root q)"
    unfolding ids(1) set_map by (rule comp)
  moreover have "int (length (na_nodes a2)) \<le> max 1 (nq_nodes q)"
    using w arg_cong [OF ids(1), of length] by (simp add: tree_within_def)
  ultimately show ?thesis by (intro exI [of _ a6]) (simp add: a6_def)
qed

lemma built_network_is_tree_witness:
  "\<exists>a. build_network env0 rev (new_net_query ''customer'' ''c1'') [] = Some (a, dset (uuid env0 0) a []) \<and>
    na_suspicious a = [] \<and> na_level a = NR_LOW"
  using built_network_is_tree [OF permutes_rev] by blast

lemma clusters_are_components_witness:
  "\<exists>cs. find_clusters env0 rev demo_analysis = Some cs \<and>
    (\<lambda>c. set (nc_nodes c)) ` set cs =
      {component (linked demo_edges) (nn_id n) | n. n \<in> set (na_nodes demo_analysis) \<and>
         2 \<le> card (component (linked demo_edges) (nn_id n))}"
  using clusters_are_components [OF permutes_rev, of env0 demo_analysis]
  by (auto simp: demo_analysis_def)

end
