(* ===== verification/Py_Cell.thy ===== *)
theory Py_Cell
  imports PyFloat PyJson
begin

text \<open>
  The values of a stored row: what \<open>dict[str, Any]\<close> holds in the memory store. A date is its day
  number, a datetime the microseconds of its wall clock with a flag for a time zone (the code only
  uses UTC). Equality and order are Python's: \<open>True == 1 == 1.0\<close>, a naive and an aware datetime
  differ, and comparing values of different kinds raises \<open>TypeError\<close>.
\<close>

datatype cell =
    CNone
  | CBool bool
  | CInt int
  | CFloat rat
  | CDec decimal
  | CStr string
  | CDate int
  | CTime bool time \<comment> \<open>aware?, microseconds\<close>
  | CList "cell list"
  | CDict "(string \<times> cell) list"

fun num_val :: "cell \<Rightarrow> rat option" where
  "num_val (CBool b) = Some (if b then 1 else 0)"
| "num_val (CInt i) = Some (of_int i)"
| "num_val (CFloat x) = Some x"
| "num_val (CDec d) = Some (dval d)"
| "num_val c = None"

section \<open>Equality\<close>

fun py_eq :: "cell \<Rightarrow> cell \<Rightarrow> bool" where
  "py_eq (CList xs) b = (case b of CList ys \<Rightarrow> list_all2 py_eq xs ys | _ \<Rightarrow> False)"
| "py_eq (CDict d) b =
     (case b of
        CDict d' \<Rightarrow> length d = length d' \<and>
          list_all (\<lambda>(k, v). case dget d' k of None \<Rightarrow> False | Some w \<Rightarrow> py_eq v w) d
      | _ \<Rightarrow> False)"
| "py_eq a b =
     (case num_val a of
        Some x \<Rightarrow> num_val b = Some x
      | None \<Rightarrow> a = b)"

lemma py_eq_CStr [simp]: "py_eq a (CStr s) = (a = CStr s)"
  by (cases a) auto

lemma py_eq_CNone [simp]: "py_eq a CNone = (a = CNone)"
  by (cases a) auto

lemma py_eq_CInt: "py_eq a (CInt i) = (num_val a = Some (of_int i))"
  by (cases a) auto

lemma py_eq_CInt_CInt [simp]: "py_eq (CInt i) (CInt j) = (i = j)"
  by auto

text \<open>\<open>v in vs\<close>\<close>

definition cell_in :: "cell \<Rightarrow> cell list \<Rightarrow> bool" where
  "cell_in v vs = list_ex (py_eq v) vs"

section \<open>Order\<close>

fun type_name :: "cell \<Rightarrow> string" where
  "type_name CNone = ''NoneType''"
| "type_name (CBool b) = ''bool''"
| "type_name (CInt i) = ''int''"
| "type_name (CFloat x) = ''float''"
| "type_name (CDec d) = ''decimal.Decimal''"
| "type_name (CStr s) = ''str''"
| "type_name (CDate d) = ''datetime.date''"
| "type_name (CTime z t) = ''datetime.datetime''"
| "type_name (CList vs) = ''list''"
| "type_name (CDict d) = ''dict''"

definition unordered :: "string \<Rightarrow> cell \<Rightarrow> cell \<Rightarrow> py_error" where
  "unordered opr a b =
     (case (a, b) of
        (CTime z t, CTime z' t') \<Rightarrow> TypeError ''can't compare offset-naive and offset-aware datetimes''
      | (CTime z t, CDate d) \<Rightarrow> TypeError ''can't compare datetime.datetime to datetime.date''
      | (CDate d, CTime z t) \<Rightarrow> TypeError ''can't compare datetime.datetime to datetime.date''
      | _ \<Rightarrow> TypeError (quoted opr @ '' not supported between instances of '' @ quoted (type_name a)
                @ '' and '' @ quoted (type_name b)))"

definition three_way :: "'a :: linorder \<Rightarrow> 'a \<Rightarrow> int" where
  "three_way x y = (if x < y then - 1 else if x = y then 0 else 1)"

text \<open>
  \<open>py_cmp opr a b\<close> is negative, zero or positive as \<open>a\<close> is below, equal to or above \<open>b\<close>; \<open>opr\<close> is
  the operator, for the message.
\<close>

fun py_cmp :: "string \<Rightarrow> cell \<Rightarrow> cell \<Rightarrow> int result"
  and cmp_lists :: "string \<Rightarrow> cell list \<Rightarrow> cell list \<Rightarrow> int result" where
  "py_cmp opr (CList xs) b = (case b of CList ys \<Rightarrow> cmp_lists opr xs ys | _ \<Rightarrow> Err (unordered opr (CList xs) b))"
| "py_cmp opr (CStr s) b = (case b of CStr t \<Rightarrow> Ok (three_way s t) | _ \<Rightarrow> Err (unordered opr (CStr s) b))"
| "py_cmp opr (CDate d) b = (case b of CDate d' \<Rightarrow> Ok (three_way d d') | _ \<Rightarrow> Err (unordered opr (CDate d) b))"
| "py_cmp opr (CTime z t) b =
     (case b of
        CTime z' t' \<Rightarrow> if z = z' then Ok (three_way t t') else Err (unordered opr (CTime z t) b)
      | _ \<Rightarrow> Err (unordered opr (CTime z t) b))"
| "py_cmp opr a b =
     (case (num_val a, num_val b) of
        (Some x, Some y) \<Rightarrow> Ok (three_way x y)
      | _ \<Rightarrow> Err (unordered opr a b))"
| "cmp_lists opr [] ys = Ok (if ys = [] then 0 else - 1)"
| "cmp_lists opr (x # xs) [] = Ok 1"
| "cmp_lists opr (x # xs) (y # ys) = (if py_eq x y then cmp_lists opr xs ys else py_cmp opr x y)"

definition py_less :: "cell \<Rightarrow> cell \<Rightarrow> bool result" where
  "py_less a b = (case py_cmp ''<'' a b of Inl e \<Rightarrow> Err e | Inr c \<Rightarrow> Ok (c < 0))"

section \<open>Truth\<close>

fun cell_true :: "cell \<Rightarrow> bool" where
  "cell_true CNone = False"
| "cell_true (CBool b) = b"
| "cell_true (CInt i) = (i \<noteq> 0)"
| "cell_true (CFloat x) = (x \<noteq> 0)"
| "cell_true (CDec d) = (coeff d \<noteq> 0)"
| "cell_true (CStr s) = (s \<noteq> '''')"
| "cell_true (CDate d) = True"
| "cell_true (CTime z t) = True"
| "cell_true (CList vs) = (vs \<noteq> [])"
| "cell_true (CDict d) = (d \<noteq> [])"

section \<open>Text\<close>

definition pad :: "nat \<Rightarrow> int \<Rightarrow> string" where
  "pad n i = (let s = str_nat i in replicate (n - length s) CHR ''0'' @ s)"

text \<open>Year, month and day of a day number (days since 1970-01-01).\<close>

definition civil :: "int \<Rightarrow> int \<times> int \<times> int" where
  "civil d =
     (let z = d + 719468; era = z div 146097; doe = z mod 146097;
          yoe = (doe - doe div 1460 + doe div 36524 - doe div 146096) div 365;
          doy = doe - (365 * yoe + yoe div 4 - yoe div 100);
          mp = (5 * doy + 2) div 153;
          m = (if mp < 10 then mp + 3 else mp - 9)
      in (yoe + era * 400 + (if m \<le> 2 then 1 else 0), m, doy - (153 * mp + 2) div 5 + 1))"

definition date_str :: "int \<Rightarrow> string" where
  "date_str d = (case civil d of (y, m, n) \<Rightarrow> pad 4 y @ ''-'' @ pad 2 m @ ''-'' @ pad 2 n)"

definition time_str :: "string \<Rightarrow> bool \<Rightarrow> time \<Rightarrow> string" where
  "time_str sep z t =
     (let s = t div 1000000; us = t mod 1000000; r = s mod 86400
      in date_str (s div 86400) @ sep @ pad 2 (r div 3600) @ '':'' @ pad 2 (r div 60 mod 60) @ '':'' @ pad 2 (r mod 60)
         @ (if us = 0 then '''' else ''.'' @ pad 6 us) @ (if z then ''+00:00'' else ''''))"

text \<open>\<open>repr\<close> of a float: plain notation for exponents from -4 to 15, scientific otherwise.\<close>

fun strip_zeros :: "nat \<Rightarrow> int \<Rightarrow> int \<Rightarrow> int \<times> int" where
  "strip_zeros 0 m k = (m, k)"
| "strip_zeros (Suc n) m k = (if m \<noteq> 0 \<and> 10 dvd m then strip_zeros n (m div 10) (k + 1) else (m, k))"

fun to_integer :: "nat \<Rightarrow> rat \<Rightarrow> int \<Rightarrow> int \<times> int" where
  "to_integer 0 x k = (\<lfloor>x\<rfloor>, k)"
| "to_integer (Suc n) x k = (if of_int \<lfloor>x\<rfloor> = x then (\<lfloor>x\<rfloor>, k) else to_integer n (10 * x) (k - 1))"

definition float_str :: "rat \<Rightarrow> string" where
  "float_str x =
     (case to_integer 400 \<bar>repr_val x\<bar> 0 of (m0, k0) \<Rightarrow>
       (case strip_zeros 400 m0 k0 of (m, k) \<Rightarrow>
         (let ds = str_nat m; n = int (length ds); p = n + k;
              body =
                (if m = 0 then ''0.0''
                 else if - 4 < p \<and> p \<le> 16 then
                   (if p \<le> 0 then ''0.'' @ replicate (nat (- p)) CHR ''0'' @ ds
                    else if n \<le> p then ds @ replicate (nat (p - n)) CHR ''0'' @ ''.0''
                    else take (nat p) ds @ ''.'' @ drop (nat p) ds)
                 else take 1 ds @ (if n = 1 then '''' else ''.'' @ drop 1 ds) @ ''e''
                      @ (if p - 1 < 0 then ''-'' else ''+'') @ pad 2 \<bar>p - 1\<bar>)
          in (if x < 0 then ''-'' else '''') @ body)))"

text \<open>\<open>Decimal(str(x))\<close> for a float: a whole number has one digit after the point in plain notation.\<close>

definition float_dec :: "rat \<Rightarrow> decimal" where
  "float_dec x =
     (case to_integer 400 \<bar>repr_val x\<bar> 0 of (m0, k0) \<Rightarrow>
       (case strip_zeros 400 m0 k0 of (m, k) \<Rightarrow>
         (let p = int (ndigits m) + k; padded = (m = 0 \<or> 0 \<le> k \<and> p \<le> 16);
              c = (if padded then m * 10 ^ nat (k + 1) else m)
          in Dec (if x < 0 then - c else c) (if padded then - 1 else k))))"

text \<open>\<open>str\<close>. The \<open>repr\<close> of a date inside a container is not used by the code.\<close>

fun cell_repr :: "cell \<Rightarrow> string" where
  "cell_repr CNone = ''None''"
| "cell_repr (CBool b) = (if b then ''True'' else ''False'')"
| "cell_repr (CInt i) = str_int i"
| "cell_repr (CFloat x) = float_str x"
| "cell_repr (CDec d) = ''Decimal('' @ quoted (dec_str d) @ '')''"
| "cell_repr (CStr s) = repr_string s"
| "cell_repr (CDate d) = ''datetime.date('' @ date_str d @ '')''"
| "cell_repr (CTime z t) = ''datetime.datetime('' @ time_str '' '' z t @ '')''"
| "cell_repr (CList vs) = ''['' @ commas (map cell_repr vs) @ '']''"
| "cell_repr (CDict d) =
     ''{'' @ commas (map (\<lambda>(k, t). repr_string k @ '': '' @ t) (map (\<lambda>(k, v). (k, cell_repr v)) d)) @ ''}''"

fun cell_str :: "cell \<Rightarrow> string" where
  "cell_str (CStr s) = s"
| "cell_str (CDec d) = dec_str d"
| "cell_str (CDate d) = date_str d"
| "cell_str (CTime z t) = time_str '' '' z t"
| "cell_str c = cell_repr c"

section \<open>Floats as decimals\<close>

lemma to_integer_exact:
  "to_integer n x k = (m, k') \<Longrightarrow> x * 10 ^ j = of_int i \<Longrightarrow> j \<le> n \<Longrightarrow> k - int j \<le> k' \<and> of_int m * 10 powi k' = x * 10 powi k"
proof (induction n arbitrary: x k j)
  case (Suc n)
  show ?case
  proof (cases "of_int \<lfloor>x\<rfloor> = x")
    case False
    then have "j \<noteq> 0" using Suc.prems(2) by (cases "j = 0") auto
    then obtain j' where j: "j = Suc j'" by (cases j) auto
    have "k - 1 - int j' \<le> k' \<and> of_int m * 10 powi k' = 10 * x * 10 powi (k - 1)"
      by (rule Suc.IH) (use False Suc.prems j in \<open>simp_all add: algebra_simps\<close>)
    then show ?thesis using j by (simp add: power_int_diff)
  qed (use Suc.prems in auto)
qed auto

lemma strip_zeros_value: "strip_zeros n m k = (m', k') \<Longrightarrow> k \<le> k' \<and> of_int m' * 10 powi k' = (of_int m * 10 powi k :: rat)"
proof (induction n arbitrary: m k)
  case (Suc n)
  show ?case
  proof (cases "m \<noteq> 0 \<and> 10 dvd m")
    case True
    then obtain d where d: "m = 10 * d" by auto
    have "k + 1 \<le> k' \<and> of_int m' * 10 powi k' = (of_int d * 10 powi (k + 1) :: rat)"
      by (rule Suc.IH) (use True Suc.prems d in simp)
    then show ?thesis by (simp add: d power_int_add)
  qed (use Suc.prems in auto)
qed auto

text \<open>A float that is written with two places at most.\<close>

lemma float_dec_value:
  assumes "repr_val x = of_int a / 100" "x < 0 \<longleftrightarrow> a < 0"
  shows "dval (float_dec x) = of_int a / 100" and "- 2 \<le> expo (float_dec x)"
proof -
  obtain m0 k0 where t: "to_integer 400 \<bar>repr_val x\<bar> 0 = (m0, k0)" by fastforce
  obtain m k where s: "strip_zeros 400 m0 k0 = (m, k)" by fastforce
  have "\<bar>repr_val x\<bar> * 10 ^ 2 = of_int \<bar>a\<bar>" by (simp add: assms(1))
  from to_integer_exact [OF t this] strip_zeros_value [OF s]
  have v: "of_int m * 10 powi k = (of_int \<bar>a\<bar> / 100 :: rat)" and k: "- 2 \<le> k" by (simp_all add: assms(1))
  define padded where "padded \<longleftrightarrow> m = 0 \<or> 0 \<le> k \<and> int (ndigits m) + k \<le> 16"
  define c where "c = (if padded then m * 10 ^ nat (k + 1) else m)"
  have f: "float_dec x = Dec (if x < 0 then - c else c) (if padded then - 1 else k)"
    by (simp add: float_dec_def t s Let_def c_def padded_def)
  have "of_int c * 10 powi (if padded then - 1 else k) = (of_int m * 10 powi k :: rat)"
  proof (cases "padded \<and> m \<noteq> 0")
    case True
    then have "(10 :: rat) ^ nat (k + 1) = 10 powi (k + 1)" by (auto simp: padded_def power_int_def)
    then show ?thesis using True by (simp add: c_def power_int_add)
  qed (auto simp: c_def)
  then have c: "of_int c * 10 powi (if padded then - 1 else k) = (of_int \<bar>a\<bar> / 100 :: rat)" using v by simp
  show "dval (float_dec x) = of_int a / 100"
    using c assms(2) by (cases "x < 0") (simp_all add: f dval_def)
  show "- 2 \<le> expo (float_dec x)" using k by (simp add: f)
qed

end
