(* ===== verification/Patterns.thy ===== *)
theory Patterns
  imports Py_Cell
begin

text \<open>
  The pattern detection of the anti-money-laundering service
  (\<open>backend/app/risk_management/aml/services/pattern_detection_service.py\<close>, models in
  \<open>transaction_pattern_models.py\<close>): structuring, layering, velocity, geography, rapid movement, round trips, and the
  flow of a list of transactions.

  A transaction is a record of the keys the code reads; a key that may be missing is an option, the
  others have the code's defaults (\<open>''''\<close>, 0, \<open>USD\<close>, \<open>True\<close>). Amounts are floats. The order of the list that the code
  makes from a set of countries is the argument \<open>ord\<close>. The squares of the variance are rounded correctly. The
  identifiers and times of the patterns found, which are never read, are left out. A recursion deeper than
  the interpreter's limit, which needs \<open>max_hops\<close> near a thousand, is not modelled.

  The graph of \<open>detect_layering\<close> is a \<open>defaultdict\<close>: reading a missing key stores it, and the loop over
  its keys raises when their number changes. The theory models both, and Pattern_Search shows what follows.
\<close>

section \<open>Data\<close>

record ptxn =
  pt_id :: string
  pt_source :: "string option"
  pt_target :: "string option"
  pt_type :: "string option"
  pt_direction :: "string option"
  pt_account :: string
  pt_country :: "string option"
  pt_amount :: rat
  pt_currency :: string
  pt_time :: "time option"
  pt_source_internal :: bool
  pt_target_internal :: bool

text \<open>A key read as a condition: present and not empty.\<close>

definition given :: "string option \<Rightarrow> bool" where
  "given s = (s \<noteq> None \<and> s \<noteq> Some [])"

definition validation_error :: py_error where
  "validation_error = CustomError ''ValidationError'' []"

section \<open>Structuring\<close>

record structuring =
  su_customer :: string
  su_transactions :: "string list"
  su_total_amount :: rat
  su_amounts :: "rat list"
  su_threshold :: rat
  su_count :: nat
  su_average :: rat
  su_max :: rat
  su_confidence :: rat
  su_indicators :: "string list"

definition is_cash :: "ptxn \<Rightarrow> bool" where
  "is_cash t = (pt_type t = Some ''cash'' \<and> pt_amount t > 0)"

definition below_threshold :: "rat \<Rightarrow> ptxn list \<Rightarrow> ptxn list" where
  "below_threshold thr ts =
     filter (\<lambda>t. pt_amount t \<ge> double (thr * double (7 / 10)) \<and> pt_amount t < thr) (filter is_cash ts)"

definition variance_of :: "rat list \<Rightarrow> rat \<Rightarrow> rat" where
  "variance_of as avg =
     double (float_sum (map (\<lambda>a. double (double (a - avg) * double (a - avg))) as) / of_nat (length as))"

text \<open>\<open>a % 100 == 0\<close>\<close>

definition round_amount :: "rat \<Rightarrow> bool" where
  "round_amount a = (of_int \<lfloor>a / 100\<rfloor> = a / 100)"

definition round_share :: "rat list \<Rightarrow> rat" where
  "round_share as = double (of_nat (length (filter round_amount as)) / of_nat (length as))"

definition plus_if :: "bool \<Rightarrow> rat \<Rightarrow> rat \<Rightarrow> rat" where
  "plus_if b x c = (if b then double (c + double x) else c)"

definition structuring_confidence :: "rat \<Rightarrow> nat \<Rightarrow> rat \<Rightarrow> rat \<Rightarrow> rat \<Rightarrow> rat" where
  "structuring_confidence thr n tot var share =
     plus_if (share > 1 / 2) (2 / 10)
       (plus_if (var < 1000000) (2 / 10)
         (plus_if (tot > double (thr * (3 / 2))) (3 / 10)
           (plus_if (n \<ge> 3) (3 / 10) 0)))"

definition structuring_indicators :: "rat \<Rightarrow> rat \<Rightarrow> rat \<Rightarrow> rat \<Rightarrow> string option list" where
  "structuring_indicators thr tot var share =
     [Some ''multiple_below_threshold'',
      if tot > thr then Some ''total_exceeds_threshold'' else None,
      if var < 1000000 then Some ''similar_amounts'' else None,
      if share > 1 / 2 then Some ''round_numbers'' else None]"

text \<open>The model declares the indicators as a list of texts.\<close>

definition detect_structuring :: "string \<Rightarrow> ptxn list \<Rightarrow> rat \<Rightarrow> structuring option result" where
  "detect_structuring customer ts thr =
     (let below = below_threshold thr ts
      in if length (filter is_cash ts) < 2 \<or> length below < 2 then Ok None
         else
           let as = map pt_amount below; tot = float_sum as; avg = double (tot / of_nat (length below));
               var = variance_of as avg; share = round_share as;
               conf = structuring_confidence thr (length below) tot var share;
               ind = structuring_indicators thr tot var share
           in if conf < 1 / 2 then Ok None
              else if None \<in> set ind then Err validation_error
              else Ok (Some \<lparr>su_customer = customer, su_transactions = map pt_id below, su_total_amount = tot,
                     su_amounts = as, su_threshold = thr, su_count = length below, su_average = avg,
                     su_max = Max (set as), su_confidence = min conf 1, su_indicators = map the ind\<rparr>))"

section \<open>Layering\<close>

record layering =
  ly_origin :: string
  ly_between :: "string list"
  ly_final :: string
  ly_chain :: "string list"
  ly_layers :: nat
  ly_confidence :: rat

type_synonym txn_graph = "(string, (string \<times> string) list) dict"

definition add_edge :: "ptxn \<Rightarrow> txn_graph \<Rightarrow> txn_graph" where
  "add_edge t g =
     (if given (pt_source t) \<and> given (pt_target t)
      then dset (the (pt_source t)) (dget_or g (the (pt_source t)) [] @ [(the (pt_target t), pt_id t)]) g
      else g)"

definition txn_graph :: "ptxn list \<Rightarrow> txn_graph" where
  "txn_graph ts = fold add_edge ts []"

text \<open>Reading a \<open>defaultdict\<close>.\<close>

definition default_read :: "string \<Rightarrow> txn_graph \<Rightarrow> txn_graph" where
  "default_read a g = (if has_key g a then g else dset a [] g)"

definition layer_confidence :: "nat \<Rightarrow> rat" where
  "layer_confidence n = double (double (6 / 10) + double (of_int (int n - 3) * double (1 / 10)))"

definition layer_of :: "string list \<Rightarrow> string list \<Rightarrow> layering" where
  "layer_of path ids =
     \<lparr>ly_origin = hd path, ly_between = butlast (tl path), ly_final = last path, ly_chain = ids,
      ly_layers = length path - 1, ly_confidence = layer_confidence (length path)\<rparr>"

text \<open>
  \<open>find_chains\<close> with the number of hops that are left, \<open>max_hops + 1 - depth\<close>. The set of visited accounts is
  restored after each call and is an argument here; the graph and the patterns are threaded through.
\<close>

fun find_chains :: "nat \<Rightarrow> string \<Rightarrow> string list \<Rightarrow> string list \<Rightarrow> string set \<Rightarrow> txn_graph \<times> layering list \<Rightarrow> txn_graph \<times> layering list" where
  "find_chains 0 start path ids visited st = st"
| "find_chains (Suc n) start path ids visited (g, ps) =
     fold (\<lambda>(target, i) (g, ps).
        if target \<in> visited then (g, ps)
        else find_chains n target (path @ [target]) (ids @ [i]) (insert target visited)
               (g, if length (path @ [target]) \<ge> 3 then ps @ [layer_of (path @ [target]) (ids @ [i])] else ps))
       (dget_or g start []) (default_read start g, ps)"

definition changed_size :: py_error where
  "changed_size = CustomError ''RuntimeError'' ''dictionary changed size during iteration''"

text \<open>The loop over the keys, which checks their number before each step and at the end.\<close>

fun start_loop :: "nat \<Rightarrow> nat \<Rightarrow> string list \<Rightarrow> txn_graph \<times> layering list \<Rightarrow> layering list result" where
  "start_loop hops len [] (g, ps) = (if length g = len then Ok ps else Err changed_size)"
| "start_loop hops len (a # as) (g, ps) =
     (if length g = len then start_loop hops len as (find_chains hops a [a] [] {a} (g, ps)) else Err changed_size)"

definition detect_layering :: "ptxn list \<Rightarrow> int \<Rightarrow> layering list result" where
  "detect_layering ts max_hops =
     (let g = txn_graph ts in start_loop (nat (max_hops + 1)) (length g) (map fst g) (g, []))"

section \<open>Velocity\<close>

record velocity =
  ve_customer :: string
  ve_account :: string
  ve_start :: time
  ve_end :: time
  ve_count :: nat
  ve_amount :: rat
  ve_base_count :: rat
  ve_base_amount :: rat
  ve_std_count :: rat
  ve_std_amount :: rat
  ve_count_deviation :: rat
  ve_amount_deviation :: rat
  ve_count_z :: rat
  ve_amount_z :: rat
  ve_confidence :: rat

definition z_score :: "rat \<Rightarrow> rat \<Rightarrow> rat \<Rightarrow> rat" where
  "z_score x base dev = (if dev > 0 then double (double (x - base) / dev) else 0)"

definition detect_velocity_anomaly ::
  "env \<Rightarrow> string \<Rightarrow> ptxn list \<Rightarrow> (string, rat) dict \<Rightarrow> velocity option" where
  "detect_velocity_anomaly e customer ts stats =
     (if ts = [] \<or> stats = [] then None
      else
        let n = of_nat (length ts); amount = float_sum (map pt_amount ts);
            bn = dget_or stats ''avg_transaction_count'' 0; ba = dget_or stats ''avg_transaction_amount'' 0;
            sn = dget_or stats ''std_transaction_count'' 1; sa = dget_or stats ''std_transaction_amount'' 1;
            zn = z_score n bn sn; za = z_score amount ba sa
        in if \<bar>zn\<bar> < 2 \<and> \<bar>za\<bar> < 2 then None
           else Some \<lparr>ve_customer = customer, ve_account = pt_account (hd ts),
                  ve_start = clock e 0 - seconds (7 * 86400), ve_end = clock e 1,
                  ve_count = length ts, ve_amount = amount, ve_base_count = bn, ve_base_amount = ba,
                  ve_std_count = sn, ve_std_amount = sa, ve_count_deviation = double (n - bn),
                  ve_amount_deviation = double (amount - ba), ve_count_z = zn, ve_amount_z = za,
                  ve_confidence = min (double (double (\<bar>zn\<bar> + \<bar>za\<bar>) / 10)) 1\<rparr>)"

section \<open>Geography\<close>

record geographic =
  ge_customer :: string
  ge_transactions :: "string list"
  ge_unusual :: "string list"
  ge_high_risk :: "string list"
  ge_new :: "string list"
  ge_expected :: "string list"
  ge_actual :: "string list"
  ge_risk_amount :: rat
  ge_risk_percentage :: rat
  ge_confidence :: rat

definition detect_geographic_anomaly ::
  "(string list \<Rightarrow> string list) \<Rightarrow> string \<Rightarrow> ptxn list \<Rightarrow> string list \<Rightarrow> string list \<Rightarrow> geographic option" where
  "detect_geographic_anomaly ord customer ts expected risky =
     (let actual = ord (remdups (map (\<lambda>t. the (pt_country t)) (filter (\<lambda>t. given (pt_country t)) ts)));
          unusual = filter (\<lambda>c. c \<notin> set expected) actual; high = filter (\<lambda>c. c \<in> set risky) actual;
          risk = float_sum (map pt_amount (filter (\<lambda>t. pt_country t \<in> Some ` set risky) ts));
          all = float_sum (map pt_amount ts)
      in if ts = [] \<or> unusual = [] \<and> high = [] then None
         else Some \<lparr>ge_customer = customer, ge_transactions = map pt_id ts, ge_unusual = unusual, ge_high_risk = high,
                ge_new = unusual, ge_expected = expected, ge_actual = actual, ge_risk_amount = risk,
                ge_risk_percentage = (if all > 0 then double (double (risk / all) * 100) else 0),
                ge_confidence = min (plus_if (length unusual > 2) (2 / 10) (plus_if (high \<noteq> []) (3 / 10) (1 / 2))) 1\<rparr>)"

section \<open>Rapid movement\<close>

record detected =
  de_type :: string
  de_entity :: string
  de_transactions :: "string list"
  de_total :: rat
  de_rule :: string
  de_rule_name :: string
  de_confidence :: rat
  de_details :: "(string \<times> cell) list"

text \<open>The confidence of a pattern of this class must lie between 0 and 1.\<close>

definition make_detected :: "detected \<Rightarrow> detected result" where
  "make_detected d = (if 0 \<le> de_confidence d \<and> de_confidence d \<le> 1 then Ok d else Err validation_error)"

definition hours_between :: "time \<Rightarrow> time \<Rightarrow> rat" where
  "hours_between t u = double (double (of_int (u - t) / 1000000) / 3600)"

definition amount_ratio :: "ptxn \<Rightarrow> ptxn \<Rightarrow> rat" where
  "amount_ratio cr db = (if pt_amount cr > 0 then double (pt_amount db / pt_amount cr) else 0)"

definition rapid_pattern :: "string \<Rightarrow> ptxn \<Rightarrow> ptxn \<Rightarrow> detected" where
  "rapid_pattern account cr db =
     \<lparr>de_type = ''rapid_movement'', de_entity = account, de_transactions = [pt_id cr, pt_id db],
      de_total = double (pt_amount cr + pt_amount db), de_rule = ''rapid_movement_001'',
      de_rule_name = ''Rapid Fund Movement'',
      de_confidence = double (double (7 / 10) + double (double (3 / 10) * amount_ratio cr db)),
      de_details = [(''credit_amount'', CFloat (pt_amount cr)), (''debit_amount'', CFloat (pt_amount db)),
        (''time_diff_hours'', CFloat (hours_between (the (pt_time cr)) (the (pt_time db)))),
        (''amount_ratio'', CFloat (amount_ratio cr db))]\<rparr>"

fun rapid_debits :: "string \<Rightarrow> int \<Rightarrow> ptxn \<Rightarrow> ptxn list \<Rightarrow> detected list result" where
  "rapid_debits account hours cr [] = Ok []"
| "rapid_debits account hours cr (db # dbs) =
     (if the (pt_time db) \<le> the (pt_time cr) then rapid_debits account hours cr dbs
      else if hours_between (the (pt_time cr)) (the (pt_time db)) > of_int hours then Ok []
      else if amount_ratio cr db \<ge> double (8 / 10) then
        (case make_detected (rapid_pattern account cr db) of
           Inl err \<Rightarrow> Err err
         | Inr d \<Rightarrow> (case rapid_debits account hours cr dbs of Inl err \<Rightarrow> Err err | Inr ds \<Rightarrow> Ok (d # ds)))
      else rapid_debits account hours cr dbs)"

fun rapid_credits :: "string \<Rightarrow> int \<Rightarrow> ptxn list \<Rightarrow> ptxn list \<Rightarrow> detected list result" where
  "rapid_credits account hours [] dbs = Ok []"
| "rapid_credits account hours (cr # crs) dbs =
     (case rapid_debits account hours cr dbs of
        Inl err \<Rightarrow> Err err
      | Inr ds \<Rightarrow> (case rapid_credits account hours crs dbs of Inl err \<Rightarrow> Err err | Inr es \<Rightarrow> Ok (ds @ es)))"

definition by_time :: "ptxn list \<Rightarrow> ptxn list" where
  "by_time ts = sort_key (\<lambda>t. the (pt_time t)) (filter (\<lambda>t. pt_time t \<noteq> None) ts)"

definition moving :: "string \<Rightarrow> ptxn list \<Rightarrow> ptxn list" where
  "moving dir ts = filter (\<lambda>t. pt_direction t = Some dir) (by_time ts)"

definition detect_rapid_movement :: "string \<Rightarrow> ptxn list \<Rightarrow> int \<Rightarrow> detected list result" where
  "detect_rapid_movement account ts hours =
     rapid_credits account hours (moving ''credit'' ts) (moving ''debit'' ts)"

section \<open>Round trips\<close>

record flows =
  fw_out :: "ptxn list"
  fw_in :: "ptxn list"

definition no_flows :: flows where
  "no_flows = \<lparr>fw_out = [], fw_in = []\<rparr>"

definition add_flow :: "ptxn \<Rightarrow> (string, flows) dict \<Rightarrow> (string, flows) dict" where
  "add_flow t fs =
     (let fs1 = (if given (pt_source t)
                 then let f = dget_or fs (the (pt_source t)) no_flows
                      in dset (the (pt_source t)) (f\<lparr>fw_out := fw_out f @ [t]\<rparr>) fs
                 else fs)
      in if given (pt_target t)
         then let f = dget_or fs1 (the (pt_target t)) no_flows
              in dset (the (pt_target t)) (f\<lparr>fw_in := fw_in f @ [t]\<rparr>) fs1
         else fs1)"

definition account_flows :: "ptxn list \<Rightarrow> (string, flows) dict" where
  "account_flows ts = fold add_flow ts []"

text \<open>The last transaction with each counterparty.\<close>

definition counterparties :: "(ptxn \<Rightarrow> string option) \<Rightarrow> ptxn list \<Rightarrow> (string option, ptxn) dict" where
  "counterparties key ts = fold (\<lambda>t. dset (key t) t) ts []"

definition round_pattern :: "string \<Rightarrow> string option \<Rightarrow> ptxn \<Rightarrow> ptxn \<Rightarrow> detected" where
  "round_pattern account other out inc =
     \<lparr>de_type = ''round_tripping'', de_entity = account, de_transactions = [pt_id out, pt_id inc],
      de_total = double (pt_amount out + pt_amount inc), de_rule = ''round_trip_001'',
      de_rule_name = ''Round Tripping Detection'', de_confidence = double (8 / 10),
      de_details = [(''outgoing_amount'', CFloat (pt_amount out)), (''incoming_amount'', CFloat (pt_amount inc)),
        (''counterparty'', case other of None \<Rightarrow> CNone | Some s \<Rightarrow> CStr s)]\<rparr>"

definition round_trips :: "string \<Rightarrow> flows \<Rightarrow> detected list" where
  "round_trips account f =
     (let outs = counterparties pt_target (fw_out f); ins = counterparties pt_source (fw_in f)
      in List.map_filter (\<lambda>(other, out).
           case dget ins other of
             None \<Rightarrow> None
           | Some inc \<Rightarrow>
               if pt_amount inc \<ge> double (pt_amount out * double (8 / 10))
               then Some (round_pattern account other out inc) else None) outs)"

definition detect_round_tripping :: "ptxn list \<Rightarrow> detected list" where
  "detect_round_tripping ts = concat (map (\<lambda>(a, f). round_trips a f) (account_flows ts))"

section \<open>Flows\<close>

record flow_edge =
  fe_source :: string
  fe_target :: string
  fe_transaction :: string
  fe_amount :: rat
  fe_currency :: string
  fe_date :: time
  fe_type :: string

record txn_flow =
  fl_nodes :: "(string \<times> bool) list" \<comment> \<open>account, internal\<close>
  fl_edges :: "flow_edge list"
  fl_total :: rat
  fl_count :: nat
  fl_entities :: nat
  fl_start :: time
  fl_end :: time

type_synonym flow_store = "(string, txn_flow) dict"

definition add_node :: "string option \<Rightarrow> bool \<Rightarrow> (string, bool) dict \<Rightarrow> (string, bool) dict" where
  "add_node a inside ns = (if given a \<and> \<not> has_key ns (the a) then dset (the a) inside ns else ns)"

definition flow_nodes :: "ptxn list \<Rightarrow> (string, bool) dict" where
  "flow_nodes ts =
     fold (\<lambda>t ns. add_node (pt_target t) (pt_target_internal t) (add_node (pt_source t) (pt_source_internal t) ns)) ts []"

text \<open>Each edge reads the clock, whether it needs it or not.\<close>

fun flow_edges :: "env \<Rightarrow> ptxn list \<Rightarrow> flow_edge list" where
  "flow_edges e [] = []"
| "flow_edges e (t # ts) =
     (if given (pt_source t) \<and> given (pt_target t)
      then \<lparr>fe_source = the (pt_source t), fe_target = the (pt_target t), fe_transaction = pt_id t,
            fe_amount = pt_amount t, fe_currency = pt_currency t,
            fe_date = (case pt_time t of Some x \<Rightarrow> x | None \<Rightarrow> clock e 0),
            fe_type = (case pt_type t of Some s \<Rightarrow> s | None \<Rightarrow> ''transfer'')\<rparr> # flow_edges (later 1 e) ts
      else flow_edges e ts)"

definition analyze_transaction_flow :: "env \<Rightarrow> ptxn list \<Rightarrow> flow_store \<Rightarrow> txn_flow \<times> flow_store" where
  "analyze_transaction_flow e ts s =
     (let ns = flow_nodes ts; es = flow_edges (later 2 e) ts;
          f = \<lparr>fl_nodes = ns, fl_edges = es, fl_total = float_sum (map fe_amount es), fl_count = length es,
               fl_entities = length ns, fl_start = clock e 0 - seconds (30 * 86400), fl_end = clock e 1\<rparr>
      in (f, dset (uuid e 0) f s))"

end
