(* ===== verification/Pattern_Search.thy ===== *)
theory Pattern_Search
  imports Patterns
begin

text \<open>
  The searches of the pattern detection, proved correct where they return: what the layering search lists and when it
  raises instead; that leaving the loop over the debits early loses no rapid movement.
\<close>

section \<open>The graph of the transfers\<close>

text \<open>The transfers that name both accounts, and what the graph holds of them.\<close>

definition transfers :: "ptxn list \<Rightarrow> (string \<times> string \<times> string) list" where
  "transfers ts = map (\<lambda>t. (the (pt_source t), the (pt_target t), pt_id t))
     (filter (\<lambda>t. given (pt_source t) \<and> given (pt_target t)) ts)"

definition edges_of :: "txn_graph \<Rightarrow> string \<Rightarrow> (string \<times> string) list" where
  "edges_of g a = dget_or g a []"

lemma transfers_snoc:
  "transfers (ts @ [t]) = transfers ts @
     (if given (pt_source t) \<and> given (pt_target t) then [(the (pt_source t), the (pt_target t), pt_id t)] else [])"
  by (simp add: transfers_def)

lemma txn_graph_exact:
  "(b, i) \<in> set (edges_of (txn_graph ts) a) \<longleftrightarrow> (a, b, i) \<in> set (transfers ts)"
  "has_key (txn_graph ts) a \<longleftrightarrow> a \<in> fst ` set (transfers ts)"
proof (induction ts rule: rev_induct)
  case (snoc t ts)
  have g: "txn_graph (ts @ [t]) = add_edge t (txn_graph ts)" by (simp add: txn_graph_def)
  { case 1 then show ?case using snoc.IH(1) unfolding g transfers_snoc edges_of_def add_edge_def by auto }
  { case 2 then show ?case using snoc.IH(2) unfolding g transfers_snoc add_edge_def by auto }
qed (simp_all add: txn_graph_def edges_of_def transfers_def)

lemma edges_read [simp]: "edges_of (default_read a g) = edges_of g"
  by (auto simp: fun_eq_iff edges_of_def default_read_def dget_or_def has_key_def split: option.split)

lemma edges_reads [simp]: "edges_of (fold default_read as g) = edges_of g"
  by (induction as arbitrary: g) simp_all

lemma read_key [simp]: "has_key (default_read a g) b \<longleftrightarrow> b = a \<or> has_key g b"
  by (auto simp: default_read_def)

lemma reads_size:
  "length (fold default_read as g) \<ge> length g"
  "length (fold default_read as g) = length g \<longleftrightarrow> (\<forall>a \<in> set as. has_key g a)"
proof (induction as arbitrary: g)
  case (Cons a as)
  { case 1 then show ?case using Cons.IH(1) [of "default_read a g"] by (auto simp: default_read_def length_dset) }
  { case 2 show ?case
    proof (cases "has_key g a")
      case True
      then show ?thesis using Cons.IH(2) [of g] by (simp add: default_read_def)
    next
      case False
      then have "length g < length (default_read a g)" by (simp add: default_read_def length_dset)
      then have "length g < length (fold default_read as (default_read a g))" using Cons.IH(1) [of "default_read a g"] by simp
      then show ?thesis using False by simp
    qed }
qed simp_all

lemma reads_known: "\<forall>a \<in> set as. has_key g a \<Longrightarrow> fold default_read as g = g"
  by (induction as) (simp_all add: default_read_def)

section \<open>What one search lists and reads\<close>

fun chain_list :: "nat \<Rightarrow> (string \<Rightarrow> (string \<times> string) list) \<Rightarrow> string \<Rightarrow> string list \<Rightarrow> string list \<Rightarrow> string set \<Rightarrow> layering list" where
  "chain_list 0 E a path ids visited = []"
| "chain_list (Suc n) E a path ids visited =
     concat (map (\<lambda>(b, i). if b \<in> visited then []
         else (if length (path @ [b]) \<ge> 3 then [layer_of (path @ [b]) (ids @ [i])] else [])
              @ chain_list n E b (path @ [b]) (ids @ [i]) (insert b visited)) (E a))"

fun read_list :: "nat \<Rightarrow> (string \<Rightarrow> (string \<times> string) list) \<Rightarrow> string \<Rightarrow> string set \<Rightarrow> string list" where
  "read_list 0 E a visited = []"
| "read_list (Suc n) E a visited =
     a # concat (map (\<lambda>(b, i). if b \<in> visited then [] else read_list n E b (insert b visited)) (E a))"

lemma find_chains_eq:
  "edges_of g = E \<Longrightarrow> find_chains n a path ids visited (g, ps) =
     (fold default_read (read_list n E a visited) g, ps @ chain_list n E a path ids visited)"
proof (induction n arbitrary: a path ids visited g ps)
  case (Suc n)
  let ?step = "\<lambda>(b, i) (g, ps). if b \<in> visited then (g, ps)
      else find_chains n b (path @ [b]) (ids @ [i]) (insert b visited)
             (g, if length (path @ [b]) \<ge> 3 then ps @ [layer_of (path @ [b]) (ids @ [i])] else ps)"
  let ?r = "\<lambda>(b, i). if b \<in> visited then [] else read_list n E b (insert b visited)"
  let ?c = "\<lambda>(b, i). if b \<in> visited then []
      else (if length (path @ [b]) \<ge> 3 then [layer_of (path @ [b]) (ids @ [i])] else [])
           @ chain_list n E b (path @ [b]) (ids @ [i]) (insert b visited)"
  have fold: "fold ?step es (h, qs) = (fold default_read (concat (map ?r es)) h, qs @ concat (map ?c es))"
    if "edges_of h = E" for es h qs
    using that
  proof (induction es arbitrary: h qs)
    case (Cons x es)
    obtain b i where x: "x = (b, i)" by fastforce
    show ?case
    proof (cases "b \<in> visited")
      case True
      then show ?thesis using Cons by (simp add: x)
    next
      case False
      have "edges_of (fold default_read (read_list n E b (insert b visited)) h) = E" using Cons.prems by simp
      from Cons.IH [OF this] show ?thesis using False by (simp add: x Suc.IH [OF Cons.prems] del: length_append)
    qed
  qed simp
  have "edges_of (default_read a g) = E" using Suc.prems by simp
  from fold [OF this, of "E a" ps] show ?case using Suc.prems by (auto simp: edges_of_def simp del: length_append)
qed simp

lemma start_loop_eq:
  assumes "length g = len"
  shows "start_loop n len as (g, ps) =
    (if \<forall>a \<in> set as. \<forall>b \<in> set (read_list n (edges_of g) a {a}). has_key g b
     then Ok (ps @ concat (map (\<lambda>a. chain_list n (edges_of g) a [a] [] {a}) as)) else Err changed_size)"
  using assms
proof (induction as arbitrary: ps)
  case (Cons a as)
  let ?rs = "read_list n (edges_of g) a {a}" and ?ps = "ps @ chain_list n (edges_of g) a [a] [] {a}"
  have step: "start_loop n len (a # as) (g, ps) = start_loop n len as (fold default_read ?rs g, ?ps)"
    using Cons.prems by (simp add: find_chains_eq [OF refl])
  show ?case
  proof (cases "\<forall>b \<in> set ?rs. has_key g b")
    case True
    then show ?thesis unfolding step reads_known [OF True] Cons.IH [OF Cons.prems] by auto
  next
    case False
    then have "length (fold default_read ?rs g) \<noteq> len" using reads_size(2) [of ?rs g] Cons.prems by simp
    then have "start_loop n len as (fold default_read ?rs g, ?ps) = Err changed_size" by (cases as) simp_all
    then show ?thesis unfolding step using False by auto
  qed
qed simp

section \<open>Chains\<close>

text \<open>A walk along edges, with the transactions it uses.\<close>

fun linked :: "(string \<Rightarrow> (string \<times> string) list) \<Rightarrow> string \<Rightarrow> string list \<Rightarrow> string list \<Rightarrow> bool" where
  "linked E a [] [] = True"
| "linked E a (b # bs) (i # is) = ((b, i) \<in> set (E a) \<and> linked E b bs is)"
| "linked E a bs is = False"

lemma chain_list_set:
  "set (chain_list n E a path ids visited) =
     {layer_of (path @ bs) (ids @ is) | bs is. linked E a bs is \<and> distinct bs \<and> set bs \<inter> visited = {} \<and>
        bs \<noteq> [] \<and> length bs \<le> n \<and> 3 \<le> length (path @ bs)}"
proof (induction n arbitrary: a path ids visited)
  case (Suc n)
  let ?P = "\<lambda>bs is. linked E a bs is \<and> distinct bs \<and> set bs \<inter> visited = {} \<and> bs \<noteq> [] \<and> length bs \<le> Suc n \<and> 3 \<le> length (path @ bs)"
  have "x \<in> set (chain_list (Suc n) E a path ids visited) \<longleftrightarrow> (\<exists>bs is. x = layer_of (path @ bs) (ids @ is) \<and> ?P bs is)" for x
  proof
    assume "x \<in> set (chain_list (Suc n) E a path ids visited)"
    then obtain b i where e: "(b, i) \<in> set (E a)" "b \<notin> visited" and
      x: "3 \<le> length (path @ [b]) \<and> x = layer_of (path @ [b]) (ids @ [i]) \<or>
          x \<in> set (chain_list n E b (path @ [b]) (ids @ [i]) (insert b visited))"
      by (auto split: if_splits)
    from x show "\<exists>bs is. x = layer_of (path @ bs) (ids @ is) \<and> ?P bs is"
    proof
      assume "3 \<le> length (path @ [b]) \<and> x = layer_of (path @ [b]) (ids @ [i])"
      then show ?thesis using e by (intro exI [of _ "[b]"] exI [of _ "[i]"]) simp
    next
      assume "x \<in> set (chain_list n E b (path @ [b]) (ids @ [i]) (insert b visited))"
      then obtain bs js where "x = layer_of (path @ b # bs) (ids @ i # js)" "linked E b bs js" "distinct bs"
        "set bs \<inter> insert b visited = {}" "length bs \<le> n" "3 \<le> length (path @ b # bs)"
        unfolding Suc.IH by auto
      then show ?thesis using e by (intro exI [of _ "b # bs"] exI [of _ "i # js"]) auto
    qed
  next
    assume "\<exists>bs is. x = layer_of (path @ bs) (ids @ is) \<and> ?P bs is"
    then obtain bs js where x: "x = layer_of (path @ bs) (ids @ js)" and p: "?P bs js" by blast
    then obtain b bs' i js' where s: "bs = b # bs'" "js = i # js'" by (cases bs; cases js) auto
    have e: "(b, i) \<in> set (E a)" "b \<notin> visited" using p s by auto
    have "x \<in> set ((if length (path @ [b]) \<ge> 3 then [layer_of (path @ [b]) (ids @ [i])] else [])
              @ chain_list n E b (path @ [b]) (ids @ [i]) (insert b visited))"
    proof (cases "bs' = []")
      case True
      then have "js' = []" using p s by (cases js') simp_all
      then show ?thesis using True x p s by simp
    next
      case False
      have q: "linked E b bs' js'" "distinct bs'" "set bs' \<inter> insert b visited = {}" "length bs' \<le> n"
        "3 \<le> length ((path @ [b]) @ bs')" using p s by auto
      have "x = layer_of ((path @ [b]) @ bs') ((ids @ [i]) @ js')" using x s by simp
      with q False have "x \<in> set (chain_list n E b (path @ [b]) (ids @ [i]) (insert b visited))"
        unfolding Suc.IH mem_Collect_eq by blast
      then show ?thesis by simp
    qed
    then show "x \<in> set (chain_list (Suc n) E a path ids visited)" using e by force
  qed
  then show ?case by blast
qed auto

section \<open>Dead ends\<close>

definition sends :: "ptxn list \<Rightarrow> string set" where
  "sends ts = fst ` set (transfers ts)"

text \<open>An account that receives and does not send.\<close>

definition dead_end :: "ptxn list \<Rightarrow> bool" where
  "dead_end ts = list_ex (\<lambda>(a, b, i). b \<notin> sends ts) (transfers ts)"

lemma reads_sends:
  assumes "\<And>a b i. (b, i) \<in> set (E a) \<Longrightarrow> b \<in> S" "a \<in> S"
  shows "set (read_list n E a visited) \<subseteq> S"
  using assms(2)
proof (induction n arbitrary: a visited)
  case (Suc n)
  have "set (read_list n E b (insert b visited)) \<subseteq> S" if "(b, i) \<in> set (E a)" for b i
    by (rule Suc.IH [OF assms(1) [OF that]])
  then show ?case using Suc.prems by (auto split: if_splits)
qed simp

lemma reads_dead_end:
  assumes "(b, i) \<in> set (E a)" "b \<noteq> a"
  shows "b \<in> set (read_list (Suc (Suc n)) E a {a})"
proof -
  have "b \<in> set (read_list (Suc n) E b {b, a})" by simp
  then have "b \<in> set (concat (map (\<lambda>(b, i). if b \<in> {a} then [] else read_list (Suc n) E b (insert b {a})) (E a)))"
    using assms by force
  then show ?thesis unfolding read_list.simps(2) [of "Suc n"] by (simp only: set_simps insert_iff disj_commute) simp
qed

lemma all_reads_known:
  assumes "1 \<le> m"
  shows "(\<forall>a \<in> sends ts. set (read_list (nat (m + 1)) (edges_of (txn_graph ts)) a {a}) \<subseteq> sends ts) \<longleftrightarrow> \<not> dead_end ts"
proof
  let ?E = "edges_of (txn_graph ts)"
  assume all: "\<forall>a \<in> sends ts. set (read_list (nat (m + 1)) ?E a {a}) \<subseteq> sends ts"
  have b: "b \<in> sends ts" if t: "(a, b, i) \<in> set (transfers ts)" for a b i
  proof (cases "b = a")
    case True
    then show ?thesis using t by (force simp: sends_def)
  next
    case False
    have n: "nat (m + 1) = Suc (Suc (nat (m - 1)))" using assms by linarith
    have "(b, i) \<in> set (?E a)" using t by (simp add: txn_graph_exact)
    then have "b \<in> set (read_list (nat (m + 1)) ?E a {a})" unfolding n by (rule reads_dead_end) (rule False)
    moreover have "a \<in> sends ts" using t by (force simp: sends_def)
    ultimately show ?thesis using all by blast
  qed
  then show "\<not> dead_end ts" by (auto simp: dead_end_def list_ex_iff)
next
  let ?E = "edges_of (txn_graph ts)"
  assume "\<not> dead_end ts"
  then have "b \<in> sends ts" if "(b, i) \<in> set (?E a)" for a b i
    using that by (auto simp: dead_end_def list_ex_iff txn_graph_exact)
  then show "\<forall>a \<in> sends ts. set (read_list (nat (m + 1)) ?E a {a}) \<subseteq> sends ts" using reads_sends by meson
qed

lemma short_reads: "m < 1 \<Longrightarrow> set (read_list (nat (m + 1)) E a {a}) \<subseteq> {a}"
proof -
  assume "m < 1"
  then have "nat (m + 1) = 0 \<or> nat (m + 1) = 1" by linarith
  then show ?thesis by (auto split: if_splits)
qed

text \<open>A chain: at least three different accounts, linked by transfers, at most \<open>m + 1\<close> of them.\<close>

definition chain :: "ptxn list \<Rightarrow> int \<Rightarrow> string \<Rightarrow> string list \<Rightarrow> string list \<Rightarrow> bool" where
  "chain ts m a bs is \<longleftrightarrow>
     linked (\<lambda>x. map snd (filter (\<lambda>t. fst t = x) (transfers ts))) a bs is \<and> distinct (a # bs) \<and>
     2 \<le> length bs \<and> int (length bs) \<le> m + 1"

lemma linked_cong:
  assumes "\<And>x. set (E x) = set (F x)"
  shows "linked E a bs is = linked F a bs is"
  using assms by (induction E a bs "is" rule: linked.induct) simp_all

lemma chain_linked: "chain ts m a bs is \<longleftrightarrow>
  linked (edges_of (txn_graph ts)) a bs is \<and> distinct (a # bs) \<and> 2 \<le> length bs \<and> int (length bs) \<le> m + 1"
proof -
  have "set (map snd (filter (\<lambda>t. fst t = x) (transfers ts))) = set (edges_of (txn_graph ts) x)" for x
    using txn_graph_exact(1) [of _ _ ts x] by force
  from linked_cong [OF this] show ?thesis by (simp add: chain_def)
qed

lemma chain_starts: "chain ts m a bs is \<Longrightarrow> a \<in> sends ts"
proof -
  assume "chain ts m a bs is"
  then obtain b bs' i js where "bs = b # bs'" "is = i # js" "(b, i) \<in> set (edges_of (txn_graph ts) a)"
    unfolding chain_linked by (cases bs; cases "is") auto
  then show ?thesis by (force simp: txn_graph_exact sends_def)
qed


definition demo_txn :: "string \<Rightarrow> string \<Rightarrow> string \<Rightarrow> ptxn" where
  "demo_txn i a b = \<lparr>pt_id = i, pt_source = Some a, pt_target = Some b, pt_type = None, pt_direction = None, pt_account = [],
     pt_country = None, pt_amount = 1, pt_currency = ''USD'', pt_time = None, pt_source_internal = True, pt_target_internal = True\<rparr>"

text \<open>A chain of three accounts raises; closed to a circle it is found, from each of its accounts.\<close>

lemma layering_demo:
  "detect_layering [demo_txn ''1'' ''a'' ''b'', demo_txn ''2'' ''b'' ''c''] 10 = Err changed_size"
  "(case detect_layering [demo_txn ''1'' ''a'' ''b'', demo_txn ''2'' ''b'' ''c'', demo_txn ''3'' ''c'' ''a''] 10 of
      Inl err \<Rightarrow> []
    | Inr ps \<Rightarrow> map (\<lambda>p. ly_origin p # ly_between p @ [ly_final p]) ps) = [[''a'', ''b'', ''c''], [''b'', ''c'', ''a''], [''c'', ''a'', ''b'']]"
  by code_simp+

section \<open>Rapid movement\<close>

definition follows :: "int \<Rightarrow> ptxn \<Rightarrow> ptxn \<Rightarrow> bool" where
  "follows hours cr db \<longleftrightarrow> the (pt_time cr) < the (pt_time db) \<and>
     hours_between (the (pt_time cr)) (the (pt_time db)) \<le> of_int hours \<and> amount_ratio cr db \<ge> double (8 / 10)"

definition rapid_pairs :: "int \<Rightarrow> ptxn list \<Rightarrow> (ptxn \<times> ptxn) list" where
  "rapid_pairs hours ts =
     concat (map (\<lambda>cr. map (Pair cr) (filter (follows hours cr) (moving ''debit'' ts))) (moving ''credit'' ts))"

definition too_sure :: "ptxn \<Rightarrow> ptxn \<Rightarrow> bool" where
  "too_sure cr db \<longleftrightarrow> 1 < double (double (7 / 10) + double (double (3 / 10) * amount_ratio cr db))"

lemma hours_mono:
  assumes "c \<le> t" "t \<le> u"
  shows "hours_between c t \<le> hours_between c u"
proof -
  have "0 \<le> (of_int (t - c) / 1000000 :: rat)" "(of_int (t - c) / 1000000 :: rat) \<le> of_int (u - c) / 1000000"
    using assms by (simp_all add: divide_right_mono)
  from double_mono [OF this] double_nonneg [OF this(1)]
  have "0 \<le> double (of_int (t - c) / 1000000) / 3600"
    "double (of_int (t - c) / 1000000) / 3600 \<le> double (of_int (u - c) / 1000000) / 3600"
    by (simp_all only: divide_right_mono divide_nonneg_nonneg zero_le_numeral)
  then show ?thesis unfolding hours_between_def by (rule double_mono)
qed

lemma rapid_made:
  assumes "follows hours cr db"
  shows "make_detected (rapid_pattern a cr db) = (if too_sure cr db then Err validation_error else Ok (rapid_pattern a cr db))"
proof -
  have "0 \<le> amount_ratio cr db" using assms double_nonneg [of "8 / 10"] by (simp add: follows_def)
  then have "0 \<le> double (double (7 / 10) + double (double (3 / 10) * amount_ratio cr db))"
    by (intro double_nonneg add_nonneg_nonneg mult_nonneg_nonneg) auto
  then show ?thesis by (simp add: make_detected_def rapid_pattern_def too_sure_def not_less [symmetric])
qed

text \<open>The debits are in the order of time, so none behind the first that is too late matters.\<close>

lemma rapid_debits_eq:
  "sorted (map (\<lambda>t. the (pt_time t)) dbs) \<Longrightarrow> rapid_debits a hours cr dbs =
     (if list_ex (too_sure cr) (filter (follows hours cr) dbs) then Err validation_error
      else Ok (map (rapid_pattern a cr) (filter (follows hours cr) dbs)))"
proof (induction dbs)
  case (Cons db dbs)
  have late: "\<not> follows hours cr d"
    if l: "the (pt_time cr) < the (pt_time db)" "hours_between (the (pt_time cr)) (the (pt_time db)) > of_int hours"
      and d: "d \<in> set (db # dbs)" for d
  proof -
    have "the (pt_time db) \<le> the (pt_time d)" using Cons.prems d by auto
    from hours_mono [OF _ this, of "the (pt_time cr)"] l show ?thesis by (simp add: follows_def)
  qed
  consider "the (pt_time db) \<le> the (pt_time cr)"
    | "the (pt_time cr) < the (pt_time db)" "hours_between (the (pt_time cr)) (the (pt_time db)) > of_int hours"
    | "the (pt_time cr) < the (pt_time db)" "\<not> hours_between (the (pt_time cr)) (the (pt_time db)) > of_int hours"
    by linarith
  then show ?case
  proof cases
    case 2
    then have "filter (follows hours cr) dbs = []" "\<not> follows hours cr db" using late by (auto simp: filter_empty_conv)
    then show ?thesis using 2 by simp
  next
    case 3
    then have f: "follows hours cr db \<longleftrightarrow> amount_ratio cr db \<ge> double (8 / 10)" by (simp add: follows_def not_less)
    show ?thesis using 3 Cons rapid_made [of hours cr db a] f by auto
  next
    case 1
    then have "\<not> follows hours cr db" by (simp add: follows_def)
    then show ?thesis using 1 Cons by simp
  qed
qed simp

lemma rapid_credits_eq:
  assumes "sorted (map (\<lambda>t. the (pt_time t)) dbs)"
  shows "rapid_credits a hours crs dbs =
     (if list_ex (\<lambda>(c, d). too_sure c d) (concat (map (\<lambda>cr. map (Pair cr) (filter (follows hours cr) dbs)) crs))
      then Err validation_error
      else Ok (map (\<lambda>(c, d). rapid_pattern a c d) (concat (map (\<lambda>cr. map (Pair cr) (filter (follows hours cr) dbs)) crs))))"
proof (induction crs)
  case (Cons cr crs)
  have e: "list_ex (\<lambda>p. too_sure (fst p) (snd p)) (map (Pair cr) ds) = list_ex (too_sure cr) ds" for ds by (induction ds) simp_all
  show ?case unfolding rapid_credits.simps rapid_debits_eq [OF assms] Cons.IH by (simp add: e o_def split_def)
qed simp

lemma moving_sorted: "sorted (map (\<lambda>t. the (pt_time t)) (moving dir ts))"
  unfolding moving_def by_time_def by (rule sorted_filter) simp

lemma bigger_debit:
  assumes "0 < pt_amount cr" "101 / 100 * pt_amount cr \<le> pt_amount db"
  shows "too_sure cr db"
proof -
  have "101 / 100 \<le> pt_amount db / pt_amount cr" using assms by (simp add: pos_le_divide_eq)
  then have "double (101 / 100) \<le> amount_ratio cr db" using assms(1) by (simp add: amount_ratio_def double_mono)
  then have "double (3 / 10) * double (101 / 100) \<le> double (3 / 10) * amount_ratio cr db"
    by (intro mult_left_mono double_nonneg) auto
  then have "double (double (3 / 10) * double (101 / 100)) \<le> double (double (3 / 10) * amount_ratio cr db)"
    by (intro double_mono mult_nonneg_nonneg double_nonneg) auto
  then have "double (double (7 / 10) + double (double (3 / 10) * double (101 / 100)))
      \<le> double (double (7 / 10) + double (double (3 / 10) * amount_ratio cr db))"
    by (intro double_mono add_nonneg_nonneg mult_nonneg_nonneg double_nonneg) auto
  moreover have "1 < double (double (7 / 10) + double (double (3 / 10) * double (101 / 100)))" by code_simp
  ultimately show ?thesis unfolding too_sure_def by linarith
qed

text \<open>C33: The search for rapid movement finds every pair of a credit and a later debit within the given hours of at least
  four fifths of the amount, credits and debits in the order of time, although it leaves the loop over
  the debits at the first that is too late, or else it raises: it raises when the confidence it computes for a pair exceeds
  one, which is so whenever the debit is larger than the credit by one per cent or more.\<close>

theorem rapid_movement_exact:
  "detect_rapid_movement a ts hours =
     (if list_ex (\<lambda>(c, d). too_sure c d) (rapid_pairs hours ts) then Err validation_error
      else Ok (map (\<lambda>(c, d). rapid_pattern a c d) (rapid_pairs hours ts))) \<and>
   ((c, d) \<in> set (rapid_pairs hours ts) \<and> 0 < pt_amount c \<and> 101 / 100 * pt_amount c \<le> pt_amount d \<longrightarrow>
     detect_rapid_movement a ts hours = Err validation_error)"
proof -
  have eq: "detect_rapid_movement a ts hours =
     (if list_ex (\<lambda>(c, d). too_sure c d) (rapid_pairs hours ts) then Err validation_error
      else Ok (map (\<lambda>(c, d). rapid_pattern a c d) (rapid_pairs hours ts)))"
    unfolding detect_rapid_movement_def rapid_pairs_def by (rule rapid_credits_eq [OF moving_sorted])
  then show ?thesis using bigger_debit [of c d] by (auto simp: list_ex_iff)
qed

definition demo_move :: "string \<Rightarrow> string \<Rightarrow> rat \<Rightarrow> time \<Rightarrow> ptxn" where
  "demo_move i dir x t = (demo_txn i [] [])\<lparr>pt_direction := Some dir, pt_amount := x, pt_time := Some t\<rparr>"

lemma rapid_movement_exact_witness:
  "detect_rapid_movement ''acc'' [demo_move ''1'' ''credit'' 1000 0, demo_move ''2'' ''debit'' 1010 (seconds 60)] 24 = Err validation_error"
proof -
  let ?c = "demo_move ''1'' ''credit'' 1000 0" and ?d = "demo_move ''2'' ''debit'' 1010 (seconds 60)"
  have "rapid_pairs 24 [?c, ?d] = [(?c, ?d)]" by code_simp
  moreover have "pt_amount ?c = 1000" "pt_amount ?d = 1010" by (simp_all add: demo_move_def)
  ultimately have "(?c, ?d) \<in> set (rapid_pairs 24 [?c, ?d]) \<and> 0 < pt_amount ?c \<and> 101 / 100 * pt_amount ?c \<le> pt_amount ?d"
    by simp
  then show ?thesis using rapid_movement_exact [of "''acc''" "[?c, ?d]" 24 ?c ?d] by blast
qed

section \<open>Structuring and round trips\<close>

text \<open>Where the confidence suffices, a pattern that lacks one of the indicators raises instead of being reported.\<close>

definition demo_cash :: "rat \<Rightarrow> ptxn" where
  "demo_cash x = (demo_txn ''1'' ''a'' ''b'')\<lparr>pt_type := Some ''cash'', pt_amount := x\<rparr>"

lemma structuring_demo: "detect_structuring ''c'' (map demo_cash [9510, 9420, 9435]) 10000 = Err validation_error"
proof -
  have "length (filter is_cash (map demo_cash [9510, 9420, 9435])) = 3" by code_simp
  moreover have "below_threshold 10000 (map demo_cash [9510, 9420, 9435]) = map demo_cash [9510, 9420, 9435]" by code_simp
  moreover have "map pt_amount (map demo_cash [9510, 9420, 9435]) = [9510, 9420, 9435]" by code_simp
  moreover have "float_sum [9510, 9420, 9435] = 28365" by code_simp
  moreover have "double (28365 / of_nat 3) = 9455" by code_simp
  moreover have "variance_of [9510, 9420, 9435] 9455 = 1550" by code_simp
  moreover have "round_share [9510, 9420, 9435] = 0" by code_simp
  moreover have "\<not> structuring_confidence 10000 3 28365 1550 0 < 1 / 2" by code_simp
  ultimately show ?thesis
    by (simp only: detect_structuring_def Let_def length_map) (simp add: structuring_indicators_def numeral_3_eq_3)
qed

text \<open>A transfer of an account to itself is a round trip.\<close>

lemma self_round_trip:
  "map de_transactions (detect_round_tripping [demo_txn ''1'' ''a'' ''a'']) = [[''1'', ''1'']]"
  by code_simp

end
