(* ===== verification/Money.thy ===== *)
theory Money
  imports Py_Cell
begin

text \<open>
  Money helpers (backend utils/money.py). Amounts are floats; \<open>format_money\<close> rounds one to cents, half
  up, by way of its decimal text. \<open>cents c\<close> is the float of c cents.

  The main fact is that arithmetic on whole cents is exact below a hundred billion dollars although
  every operation rounds: the errors of the floats never reach half a cent.
\<close>

definition cents :: "int \<Rightarrow> rat" where
  "cents c = double (of_int c / 100)"

definition half_up :: "rat \<Rightarrow> int" where
  "half_up x = (if 0 \<le> x then \<lfloor>x + 1/2\<rfloor> else - \<lfloor>1/2 - x\<rfloor>)"

definition invalid_operation :: py_error where
  "invalid_operation = CustomError ''InvalidOperation'' ''[<class 'decimal.InvalidOperation'>]''"

text \<open>\<open>quantize(Decimal('0.01'), ROUND_HALF_UP)\<close> needs the result to fit 28 digits.\<close>

definition quantize :: "rat \<Rightarrow> cell result" where
  "quantize v =
     (let c = half_up (100 * v) in if ndigits \<bar>c\<bar> \<le> 28 then Ok (CFloat (cents c)) else Err invalid_operation)"

text \<open>
  \<open>Decimal(s)\<close>: a sign, digits with at most one point, an exponent; blanks around it and underscores
  are dropped. (It also reads NaN and Infinity, which are not modelled.)
\<close>

definition split_at :: "string \<Rightarrow> string \<Rightarrow> string \<times> string option" where
  "split_at cs s = (let a = takeWhile (\<lambda>c. c \<notin> set cs) s; r = drop (length a) s
                    in (a, if r = [] then None else Some (tl r)))"

definition parse_signed :: "string \<Rightarrow> int option" where
  "parse_signed s =
     (case s of
        c # cs \<Rightarrow>
          let t = (if c = CHR ''+'' \<or> c = CHR ''-'' then cs else s)
          in if t = [] then None
             else map_option (\<lambda>n. if c = CHR ''-'' then - n else n) (parse_digits t 0)
      | [] \<Rightarrow> None)"

definition parse_decimal :: "string \<Rightarrow> rat option" where
  "parse_decimal s =
     (let (m, ex) = split_at ''eE'' (filter (\<lambda>c. c \<noteq> CHR ''_'') (py_strip s)); (a, f) = split_at ''.'' m;
          neg = (a \<noteq> [] \<and> hd a = CHR ''-'');
          ds = (if a \<noteq> [] \<and> hd a \<in> {CHR ''-'', CHR ''+''} then tl a else a);
          fs = (case f of None \<Rightarrow> '''' | Some t \<Rightarrow> t)
      in if ds @ fs = '''' then None
         else case (parse_digits (ds @ fs) 0, case ex of None \<Rightarrow> Some 0 | Some t \<Rightarrow> parse_signed t) of
                (Some n, Some k) \<Rightarrow>
                  Some ((if neg then - 1 else 1) * of_int n * 10 powi (k - int (length fs)))
              | _ \<Rightarrow> None)"

text \<open>\<open>float(v)\<close>; underscores stand between digits.\<close>

definition digit_gaps :: "string \<Rightarrow> bool" where
  "digit_gaps s \<longleftrightarrow> s = [] \<or> hd s \<noteq> CHR ''_'' \<and> last s \<noteq> CHR ''_'' \<and>
     list_all (\<lambda>(a, b). (a = CHR ''_'' \<longrightarrow> digit_value b \<noteq> None) \<and> (b = CHR ''_'' \<longrightarrow> digit_value a \<noteq> None)) (zip s (tl s))"

definition py_float :: "cell \<Rightarrow> rat result" where
  "py_float v =
     (case v of
        CBool b \<Rightarrow> Ok (if b then 1 else 0)
      | CInt i \<Rightarrow> Ok (double (of_int i))
      | CFloat x \<Rightarrow> Ok x
      | CDec d \<Rightarrow> Ok (double (dval d))
      | CStr s \<Rightarrow>
          (case (if digit_gaps (py_strip s) then parse_decimal s else None) of
             None \<Rightarrow> Err (ValueError (''could not convert string to float: '' @ quoted s))
           | Some x \<Rightarrow> Ok (double x))
      | _ \<Rightarrow> Err (TypeError (''float() argument must be a string or a real number, not '' @ quoted (type_name v))))"

definition format_money :: "cell \<Rightarrow> cell result" where
  "format_money v =
     (case v of
        CNone \<Rightarrow> Ok (CFloat 0)
      | CInt i \<Rightarrow> quantize (of_int i)
      | CFloat x \<Rightarrow> quantize (repr_val x)
      | CDec d \<Rightarrow> quantize (dval d)
      | CStr s \<Rightarrow> (case parse_decimal s of None \<Rightarrow> Err invalid_operation | Some d \<Rightarrow> quantize d)
      | _ \<Rightarrow> Err invalid_operation)"

text \<open>The operations on two amounts, each a float, an int or None.\<close>

definition on_money :: "(rat \<Rightarrow> rat \<Rightarrow> rat) \<Rightarrow> cell \<Rightarrow> cell \<Rightarrow> cell result" where
  "on_money f a b =
     (case format_money a of
        Inr (CFloat x) \<Rightarrow>
          (case format_money b of Inr (CFloat y) \<Rightarrow> format_money (CFloat (double (f x y))) | r \<Rightarrow> r)
      | r \<Rightarrow> r)"

definition safe_add_money :: "cell \<Rightarrow> cell \<Rightarrow> cell result" where
  "safe_add_money a b = on_money (+) a b"

definition safe_subtract_money :: "cell \<Rightarrow> cell \<Rightarrow> cell result" where
  "safe_subtract_money a b = on_money (-) a b"

text \<open>\<open>float(factor)\<close> of an int or a float.\<close>

definition safe_multiply_money :: "cell \<Rightarrow> rat option \<Rightarrow> cell result" where
  "safe_multiply_money a factor =
     (case format_money a of
        Inr (CFloat x) \<Rightarrow>
          format_money (CFloat (double (x * (case factor of None \<Rightarrow> 0 | Some f \<Rightarrow> double f))))
      | r \<Rightarrow> r)"

definition validate_positive_amount :: "cell \<Rightarrow> string \<Rightarrow> cell result" where
  "validate_positive_amount a field =
     (case format_money a of
        Inr (CFloat x) \<Rightarrow> if x < 0 then Err (ValueError (field @ '' must be positive'')) else Ok (CFloat x)
      | r \<Rightarrow> r)"

section \<open>Rounding to cents\<close>

text \<open>Adding up errors.\<close>

lemma err_sum:
  fixes d :: rat
  assumes "\<bar>d - (x + y)\<bar> \<le> 1/16384" "\<bar>x - p / 100\<bar> \<le> 1/16384" "\<bar>y - q / 100\<bar> \<le> 1/16384"
  shows "\<bar>d - (p + q) / 100\<bar> \<le> 3/16384"
  using assms unfolding abs_le_iff add_divide_distrib by (elim conjE, intro conjI) linarith+

lemma err_diff:
  fixes d :: rat
  assumes "\<bar>d - (x - y)\<bar> \<le> 1/16384" "\<bar>x - p / 100\<bar> \<le> 1/16384" "\<bar>y - q / 100\<bar> \<le> 1/16384"
  shows "\<bar>d - (p - q) / 100\<bar> \<le> 3/16384"
  using assms unfolding abs_le_iff diff_divide_distrib by (elim conjE, intro conjI) linarith+

lemma err_bound:
  fixes d :: rat
  shows "\<bar>d - (p + q) / 100\<bar> \<le> 3/16384 \<Longrightarrow> \<bar>p\<bar> \<le> 10000000000000 \<Longrightarrow> \<bar>q\<bar> \<le> 10000000000000
      \<Longrightarrow> \<bar>d\<bar> < 1000000000000"
    and "\<bar>d - (p - q) / 100\<bar> \<le> 3/16384 \<Longrightarrow> \<bar>p\<bar> \<le> 10000000000000 \<Longrightarrow> \<bar>q\<bar> \<le> 10000000000000
      \<Longrightarrow> \<bar>d\<bar> < 1000000000000"
  unfolding abs_le_iff abs_less_iff add_divide_distrib diff_divide_distrib
  by (elim conjE, intro conjI; linarith)+

lemma half_up_near: "\<bar>x - of_int c\<bar> < 1/2 \<Longrightarrow> half_up x = c"
proof -
  assume a: "\<bar>x - of_int c\<bar> < 1/2"
  show ?thesis
  proof (cases "0 \<le> x")
    case True
    have "\<lfloor>x + 1/2\<rfloor> = c" using a by (intro floor_unique) linarith+
    with True show ?thesis by (simp add: half_up_def)
  next
    case False
    have "\<lfloor>1/2 - x\<rfloor> = - c" using a by (intro floor_unique) linarith+
    with False show ?thesis by (simp add: half_up_def)
  qed
qed

lemma format_near:
  assumes x: "\<bar>x\<bar> < 10 ^ 12" and c: "\<bar>x - of_int c / 100\<bar> \<le> 1 / 300"
  shows "format_money (CFloat x) = Ok (CFloat (cents c))"
proof -
  have "\<bar>100 * repr_val x - of_int c\<bar> < 1/2" using repr_near [OF x] c by linarith
  then have "half_up (100 * repr_val x) = c" by (rule half_up_near)
  moreover have "\<bar>x\<bar> < 1000000000000" using x by simp
  then have "\<bar>of_int c :: rat\<bar> < 1000000000000000" using c by linarith
  then have "(of_int \<bar>c\<bar> :: rat) < of_int 1000000000000000" by simp
  then have "\<bar>c\<bar> < 1000000000000000" unfolding of_int_less_iff .
  then have "\<bar>c\<bar> < 10 ^ 28" by simp
  then have "ndigits \<bar>c\<bar> \<le> 28" by (rule ndigits_le [rotated]) simp
  ultimately show ?thesis by (simp add: format_money_def quantize_def Let_def)
qed

text \<open>Whole cents in the range where they are exact.\<close>

definition money_range :: int where
  "money_range = 10 ^ 13"

lemma range_rat: "\<bar>c\<bar> \<le> money_range \<Longrightarrow> \<bar>of_int c :: rat\<bar> \<le> 10000000000000"
proof -
  assume "\<bar>c\<bar> \<le> money_range"
  then have "\<bar>c\<bar> \<le> 10000000000000" by (simp add: money_range_def)
  then have "(of_int \<bar>c\<bar> :: rat) \<le> of_int 10000000000000" unfolding of_int_le_iff .
  then show ?thesis by simp
qed

lemma cents_near:
  assumes "\<bar>c\<bar> \<le> money_range"
  shows "\<bar>cents c - of_int c / 100\<bar> \<le> 1 / 16384"
  unfolding cents_def using range_rat [OF assms] by (intro double_near40) simp

lemma cents_bound: "\<bar>c\<bar> \<le> money_range \<Longrightarrow> \<bar>cents c\<bar> < 100000000001"
  using cents_near [of c] range_rat [of c] by linarith

lemma format_cents: "\<bar>c\<bar> \<le> money_range \<Longrightarrow> format_money (CFloat (cents c)) = Ok (CFloat (cents c))"
  using cents_bound [of c] cents_near [of c] by (intro format_near) auto

lemma cents_mono:
  assumes "\<bar>a\<bar> \<le> money_range" "\<bar>b\<bar> \<le> money_range"
  shows "cents a < cents b \<longleftrightarrow> a < b" and "cents a = cents b \<longleftrightarrow> a = b"
proof -
  have lt: "cents x < cents y" if "x < y" "\<bar>x\<bar> \<le> money_range" "\<bar>y\<bar> \<le> money_range" for x y
  proof -
    have "(of_int x :: rat) + 1 \<le> of_int y" using that(1) by linarith
    with cents_near [OF that(2)] cents_near [OF that(3)] show ?thesis by linarith
  qed
  show "cents a < cents b \<longleftrightarrow> a < b" "cents a = cents b \<longleftrightarrow> a = b"
    using lt [of a b] lt [of b a] assms by (cases a b rule: linorder_cases; force)+
qed

lemma double_cents_near:
  assumes "\<bar>a\<bar> \<le> money_range" "\<bar>b\<bar> \<le> money_range"
  shows "\<bar>double (cents a + cents b) - of_int (a + b) / 100\<bar> \<le> 3 / 16384"
    and "\<bar>double (cents a - cents b) - of_int (a - b) / 100\<bar> \<le> 3 / 16384"
proof -
  have "\<bar>cents a + cents b\<bar> < 2 ^ 40" "\<bar>cents a - cents b\<bar> < 2 ^ 40"
    using cents_bound [OF assms(1)] cents_bound [OF assms(2)] by simp_all
  note n = this [THEN double_near40] and c = cents_near [OF assms(1)] cents_near [OF assms(2)]
  show "\<bar>double (cents a + cents b) - of_int (a + b) / 100\<bar> \<le> 3 / 16384"
    unfolding of_int_add using err_sum [OF n(1) c] .
  show "\<bar>double (cents a - cents b) - of_int (a - b) / 100\<bar> \<le> 3 / 16384"
    unfolding of_int_diff using err_diff [OF n(2) c] .
qed

lemma format_sum:
  assumes "\<bar>a\<bar> \<le> money_range" "\<bar>b\<bar> \<le> money_range"
  shows "format_money (CFloat (double (cents a + cents b))) = Ok (CFloat (cents (a + b)))"
    and "format_money (CFloat (double (cents a - cents b))) = Ok (CFloat (cents (a - b)))"
proof -
  note n = double_cents_near [OF assms, unfolded of_int_add of_int_diff]
    and r = range_rat [OF assms(1)] range_rat [OF assms(2)]
  have "\<bar>double (cents a + cents b)\<bar> < 1000000000000" using err_bound(1) [OF n(1) r] .
  moreover have "\<bar>double (cents a - cents b)\<bar> < 1000000000000" using err_bound(2) [OF n(2) r] .
  ultimately have "\<bar>double (cents a + cents b)\<bar> < 10 ^ 12" "\<bar>double (cents a - cents b)\<bar> < 10 ^ 12"
    by simp_all
  then show "format_money (CFloat (double (cents a + cents b))) = Ok (CFloat (cents (a + b)))"
    "format_money (CFloat (double (cents a - cents b))) = Ok (CFloat (cents (a - b)))"
    using double_cents_near [OF assms] by (auto intro!: format_near)
qed

section \<open>Properties\<close>

text \<open>C19: Arithmetic on cents is exact, although it is done in floating point: for amounts of whole cents
  up to a hundred billion dollars, \<open>format_money\<close> changes nothing, \<open>safe_add_money\<close> and
  \<open>safe_subtract_money\<close> return the float of the exact sum and difference of the cents, and comparing
  the floats compares the cents.\<close>

theorem cents_exact:
  assumes "\<bar>a\<bar> \<le> money_range" "\<bar>b\<bar> \<le> money_range"
  shows "format_money (CFloat (cents a)) = Ok (CFloat (cents a))
    \<and> safe_add_money (CFloat (cents a)) (CFloat (cents b)) = Ok (CFloat (cents (a + b)))
    \<and> safe_subtract_money (CFloat (cents a)) (CFloat (cents b)) = Ok (CFloat (cents (a - b)))
    \<and> (cents a < cents b \<longleftrightarrow> a < b) \<and> (cents a = cents b \<longleftrightarrow> a = b)"
  using format_cents [OF assms(1)] format_cents [OF assms(2)] format_sum [OF assms] cents_mono [OF assms]
  by (simp add: safe_add_money_def safe_subtract_money_def on_money_def)

lemma cents_exact_witness:
  "safe_add_money (CFloat (cents 10)) (CFloat (cents 20)) = Ok (CFloat (cents 30))
   \<and> double (cents 10 + cents 20) \<noteq> cents 30"
proof -
  have "\<bar>10\<bar> \<le> money_range" "\<bar>20\<bar> \<le> money_range" by (simp_all add: money_range_def)
  note cents_exact [OF this]
  moreover have "double (cents 10 + cents 20) \<noteq> cents 30" by code_simp
  ultimately show ?thesis by simp
qed

end
