(* ===== verification/Memory_Model.thy ===== *)
theory Memory_Model
  imports Money
begin

text \<open>
  The model classes over the in-memory store (backend models/memory_models.py): a model instance wraps
  a dictionary; building one, also from a stored row, draws an identifier when the row has none, and
  runs the class's defaults. \<open>field r k\<close> is \<open>r.get(k)\<close>.

  A class is its name and a table the name of its list in the data manager. The defaults of a class
  are a list of steps in the order of its constructor. The values of a row are not shared: that two
  rows may hold the same nested dictionary, and change together, is not modelled.
\<close>

type_synonym row = "(string \<times> cell) list"

definition field :: "row \<Rightarrow> string \<Rightarrow> cell" where
  "field r k = dget_or r k CNone"

lemma field_dset [simp]: "field (dset k v r) k' = (if k' = k then v else field r k')"
  by (simp add: field_def)

record store =
  st_tables :: "string \<Rightarrow> row list"
  st_counters :: "(string, int) dict"
  st_ready :: bool

definition empty_store_of :: "(string \<Rightarrow> row list) \<Rightarrow> store" where
  "empty_store_of tabs = \<lparr>st_tables = tabs, st_counters = [], st_ready = False\<rparr>"

definition put_table :: "string \<Rightarrow> row list \<Rightarrow> store \<Rightarrow> store" where
  "put_table t rs st = st\<lparr>st_tables := (st_tables st)(t := rs)\<rparr>"

lemma put_table_simps [simp]:
  "st_tables (put_table t rs st) t' = (if t' = t then rs else st_tables st t')"
  "st_counters (put_table t rs st) = st_counters st" "st_ready (put_table t rs st) = st_ready st"
  by (simp_all add: put_table_def)

section \<open>Identifiers\<close>

text \<open>\<open>isinstance(x, int)\<close> holds of booleans too.\<close>

fun int_of_cell :: "cell \<Rightarrow> int option" where
  "int_of_cell (CInt i) = Some i"
| "int_of_cell (CBool b) = Some (if b then 1 else 0)"
| "int_of_cell c = None"

definition int_ids :: "row list \<Rightarrow> int list" where
  "int_ids rs = List.map_filter (\<lambda>r. int_of_cell (field r ''id'')) rs"

definition max_id :: "row list \<Rightarrow> int" where
  "max_id rs = (case int_ids rs of [] \<Rightarrow> 0 | i # is' \<Rightarrow> fold max is' i)"

definition counter_map :: "(string \<times> string) list" where
  "counter_map =
    [(''Goal'', ''goals''), (''User'', ''users''), (''Account'', ''accounts''),
     (''Transaction'', ''transactions''), (''Budget'', ''budgets''), (''Category'', ''categories''),
     (''Notification'', ''notifications''), (''Subscription'', ''subscriptions''),
     (''Card'', ''cards''), (''CardSpendingLimit'', ''spending_limits''), (''Contact'', ''contacts''),
     (''CryptoWallet'', ''crypto_wallets''), (''CryptoAsset'', ''crypto_assets''),
     (''NFTAsset'', ''nft_assets''), (''CryptoTransaction'', ''crypto_transactions''),
     (''DeFiPosition'', ''defi_positions''), (''CreditScore'', ''credit_scores''),
     (''CreditSimulation'', ''credit_simulations''), (''CreditAlert'', ''credit_alerts''),
     (''CreditDispute'', ''credit_disputes''), (''CreditBuilderAccount'', ''credit_builder_accounts''),
     (''UnifiedBalance'', ''unified_balances''), (''AssetBridge'', ''asset_bridges''),
     (''ConversionRate'', ''conversion_rates''), (''CollateralPosition'', ''collateral_positions''),
     (''UnifiedTransaction'', ''unified_transactions''), (''AuditLog'', ''audit_logs''),
     (''LoginAttempt'', ''login_attempts''), (''TransactionAnomaly'', ''transaction_anomalies''),
     (''SecurityIncident'', ''security_incidents''), (''AccountLockout'', ''account_lockouts''),
     (''TrustedDevice'', ''trusted_devices''), (''Invoice'', ''invoices''),
     (''ExpenseReport'', ''expense_reports''), (''Receipt'', ''receipts'')]"

definition initialize_counters :: "store \<Rightarrow> store" where
  "initialize_counters st =
     st\<lparr>st_counters := fold (\<lambda>(m, t) d. if st_tables st t = [] then d else dset m (max_id (st_tables st t) + 1) d)
          counter_map (st_counters st), st_ready := True\<rparr>"

definition base_init :: "env \<Rightarrow> string \<Rightarrow> row \<Rightarrow> store \<Rightarrow> row \<times> store" where
  "base_init e cls kw st =
     (let st1 = (if st_ready st then st else initialize_counters st);
          n = dget_or (st_counters st1) cls 1;
          (d, st2) = (if has_key kw ''id'' then (kw, st1)
                      else (dset ''id'' (CInt n) kw, st1\<lparr>st_counters := dset cls (n + 1) (st_counters st1)\<rparr>))
      in (if has_key d ''created_at'' then d else dset ''created_at'' (CTime True (clock e 0)) d, st2))"

section \<open>The constructors\<close>

text \<open>
  The steps: \<open>setdefault\<close>; a timestamp if the key is missing (plus some seconds), also as text; an
  amount formatted by \<open>format_money\<close>, or only if it is not None; a drawn token (the hash of a fresh
  uuid, of which the first n characters are kept); the owner of the account.
\<close>

datatype init_step =
    Default string cell
  | Stamp string int
  | Iso string
  | Amount string
  | AmountIf string
  | Draw string nat
  | OwnerOfAccount

fun owner_of :: "cell \<Rightarrow> row list \<Rightarrow> cell option" where
  "owner_of i [] = None"
| "owner_of i (r # rs) = (if py_eq (field r ''id'') i then Some (field r ''user_id'') else owner_of i rs)"

fun run_step :: "env \<Rightarrow> nat \<Rightarrow> store \<Rightarrow> init_step \<Rightarrow> row \<Rightarrow> row result" where
  "run_step e n st (Default k v) d = Ok (if has_key d k then d else dset k v d)"
| "run_step e n st (Stamp k s) d = Ok (if has_key d k then d else dset k (CTime True (clock e n + seconds s)) d)"
| "run_step e n st (Iso k) d = Ok (if has_key d k then d else dset k (CStr (time_str ''T'' True (clock e n))) d)"
| "run_step e n st (Amount k) d =
     (case format_money (dget_or d k (CFloat 0)) of Inl err \<Rightarrow> Err err | Inr v \<Rightarrow> Ok (dset k v d))"
| "run_step e n st (AmountIf k) d =
     (if field d k = CNone then Ok d
      else case format_money (field d k) of Inl err \<Rightarrow> Err err | Inr v \<Rightarrow> Ok (dset k v d))"
| "run_step e n st (Draw k l) d =
     Ok (if has_key d k then d else dset k (CStr (''0x'' @ take l (uuid e n))) d)"
| "run_step e n st OwnerOfAccount d =
     Ok (if \<not> has_key d ''user_id'' \<and> has_key d ''account_id''
         then (case owner_of (field d ''account_id'') (st_tables st ''accounts'') of
                 None \<Rightarrow> d | Some u \<Rightarrow> dset ''user_id'' u d)
         else d)"

fun run_steps :: "env \<Rightarrow> nat \<Rightarrow> store \<Rightarrow> init_step list \<Rightarrow> row \<Rightarrow> row result" where
  "run_steps e n st [] d = Ok d"
| "run_steps e n st (s # ss) d =
     (case run_step e n st s d of Inl err \<Rightarrow> Err err | Inr d' \<Rightarrow> run_steps e (Suc n) st ss d')"

definition user_steps :: "init_step list" where
  "user_steps =
    [Default ''role'' (CStr ''user''), Default ''is_active'' (CBool True),
     Default ''two_factor_enabled'' (CBool False), Default ''currency'' (CStr ''USD''),
     Default ''timezone'' (CStr ''UTC''), Default ''last_login'' CNone,
     Default ''privacy_settings'' (CDict [(''searchable'', CBool True), (''show_profile_stats'', CBool True), (''show_email'', CBool False), (''show_full_name'', CBool True)]),
     Default ''profile_stats'' (CDict [])]"

definition account_steps :: "init_step list" where
  "account_steps =
    [Default ''balance'' (CFloat 0), Default ''available_balance'' (CFloat 0),
     Default ''credit_limit'' (CFloat 0), Amount ''balance'', Amount ''available_balance'',
     Amount ''credit_limit'', Default ''is_active'' (CBool True), Default ''currency'' (CStr ''USD'')]"

definition transaction_steps :: "init_step list" where
  "transaction_steps =
    [Default ''amount'' (CFloat 0), Amount ''amount'', Default ''status'' (CStr ''completed''),
     Stamp ''transaction_date'' 0, OwnerOfAccount]"

definition category_steps :: "init_step list" where
  "category_steps =
    [Default ''is_income'' (CBool False), Default ''is_system'' (CBool False),
     Default ''icon'' (CStr (map char_of [240, 159, 147, 129 :: nat])),
     Default ''color'' (CStr ''#6B7280'')]"

definition budget_steps :: "init_step list" where
  "budget_steps =
    [Default ''amount'' (CFloat 0), Default ''spent_amount'' (CFloat 0), Amount ''amount'',
     Amount ''spent_amount'', Default ''is_active'' (CBool True),
     Default ''alert_threshold'' (CFloat (double (4/5))), Default ''alert_enabled'' (CBool True)]"

definition goal_steps :: "init_step list" where
  "goal_steps =
    [Default ''current_amount'' (CFloat 0), Default ''target_amount'' (CFloat 0),
     Amount ''current_amount'', Amount ''target_amount'', Default ''status'' (CStr ''active''),
     Default ''auto_transfer_enabled'' (CBool False), Default ''category'' (CStr ''other''),
     Default ''priority'' (CStr ''medium''), Default ''auto_allocate_percentage'' (CFloat 0),
     Default ''auto_allocate_fixed_amount'' (CFloat 0), Amount ''auto_allocate_fixed_amount'',
     Default ''allocation_priority'' (CInt 1),
     Default ''allocation_source_types'' (CList [CStr ''income'', CStr ''deposit''])]"

definition goal_contribution_steps :: "init_step list" where
  "goal_contribution_steps =
    [Stamp ''contribution_date'' 0, Default ''is_automatic'' (CBool False),
     Default ''source_transaction_id'' CNone, Default ''amount'' (CFloat 0), Amount ''amount'']"

definition notification_steps :: "init_step list" where
  "notification_steps =
    [Default ''is_read'' (CBool False)]"

definition contact_steps :: "init_step list" where
  "contact_steps =
    [Default ''status'' (CStr ''pending''), Default ''is_favorite'' (CBool False),
     Default ''blocked'' (CBool False)]"

definition conversation_steps :: "init_step list" where
  "conversation_steps =
    [Default ''participant_ids'' (CList []), Default ''last_message_at'' CNone,
     Default ''unread_count'' (CDict []), Default ''is_active'' (CBool True)]"

definition conversation_participant_steps :: "init_step list" where
  "conversation_participant_steps =
    [Default ''is_admin'' (CBool False), Default ''notification_enabled'' (CBool True),
     Stamp ''joined_at'' 0]"

definition message_steps :: "init_step list" where
  "message_steps =
    [Default ''message_type'' (CStr ''text''), Default ''status'' (CStr ''sent'')]"

definition message_read_receipt_steps :: "init_step list" where
  "message_read_receipt_steps =
    [Stamp ''read_at'' 0]"

definition recurring_rule_steps :: "init_step list" where
  "recurring_rule_steps =
    [Default ''is_active'' (CBool True)]"

definition note_steps :: "init_step list" where
  "note_steps =
    [Default ''is_encrypted'' (CBool False)]"

definition card_steps :: "init_step list" where
  "card_steps =
    [Default ''status'' (CStr ''active''), Default ''is_contactless_enabled'' (CBool True),
     Default ''is_online_enabled'' (CBool True), Default ''is_international_enabled'' (CBool True)]"

definition card_spending_limit_steps :: "init_step list" where
  "card_spending_limit_steps =
    [Default ''limit_amount'' (CFloat 0), Default ''current_usage'' (CFloat 0), Amount ''limit_amount'',
     Amount ''current_usage'', Default ''is_active'' (CBool True),
     Default ''limit_period'' (CStr ''daily''), Stamp ''period_start'' 0, Stamp ''period_end'' 86400]"

definition round_up_config_steps :: "init_step list" where
  "round_up_config_steps =
    [Default ''status'' (CStr ''active''), Default ''multiplier'' (CFloat 1),
     Default ''max_round_up_amount'' (CFloat 10), Default ''enabled_categories'' CNone,
     Default ''total_saved'' (CFloat 0), Default ''transaction_count'' (CInt 0),
     Default ''last_round_up_at'' CNone]"

definition round_up_transaction_steps :: "init_step list" where
  "round_up_transaction_steps =
    [Default ''original_amount'' (CFloat 0), Default ''round_up_amount'' (CFloat 0),
     Default ''multiplied_amount'' (CFloat 0)]"

definition savings_rule_steps :: "init_step list" where
  "savings_rule_steps =
    [Default ''is_active'' (CBool True), Default ''total_saved'' (CFloat 0),
     Default ''execution_count'' (CInt 0), Default ''last_executed_at'' CNone,
     Default ''trigger_conditions'' CNone]"

definition savings_challenge_steps :: "init_step list" where
  "savings_challenge_steps =
    [Default ''description'' (CStr ''''), Default ''challenge_type'' (CStr ''individual''),
     Default ''status'' (CStr ''active''), Default ''target_amount'' (CFloat 0),
     Default ''reward_description'' CNone, Default ''rules'' (CList []), Stamp ''start_date'' 0,
     Stamp ''end_date'' 2592000]"

definition challenge_participant_steps :: "init_step list" where
  "challenge_participant_steps =
    [Default ''current_amount'' (CFloat 0), Stamp ''joined_at'' 0]"

definition subscription_steps :: "init_step list" where
  "subscription_steps =
    [Default ''status'' (CStr ''active''), Default ''detected_automatically'' (CBool False)]"

definition security_event_steps :: "init_step list" where
  "security_event_steps =
    [Default ''success'' (CBool True)]"

definition payment_method_steps :: "init_step list" where
  "payment_method_steps =
    [Default ''status'' (CStr ''active''), Default ''is_default'' (CBool False)]"

definition two_factor_auth_steps :: "init_step list" where
  "two_factor_auth_steps =
    [Default ''is_enabled'' (CBool False), Default ''is_primary'' (CBool False),
     Default ''method'' (CStr ''totp''), Iso ''created_at'']"

definition user_device_steps :: "init_step list" where
  "user_device_steps =
    [Default ''is_trusted'' (CBool False), Iso ''first_seen'', Iso ''last_seen'']"

definition security_audit_log_steps :: "init_step list" where
  "security_audit_log_steps =
    [Default ''event_type'' (CStr ''unknown''), Iso ''timestamp'',
     Default ''ip_address'' (CStr ''127.0.0.1'')]"

definition log_steps :: "init_step list" where
  "log_steps =
    [Stamp ''timestamp'' 0]"

definition direct_message_steps :: "init_step list" where
  "direct_message_steps =
    [Default ''is_read'' (CBool False), Default ''deleted_by_sender'' (CBool False),
     Default ''deleted_by_recipient'' (CBool False), Default ''message_type'' (CStr ''text''),
     Default ''metadata'' (CDict []), Stamp ''sent_at'' 0]"

definition crypto_wallet_steps :: "init_step list" where
  "crypto_wallet_steps =
    [Default ''is_primary'' (CBool False), Default ''is_active'' (CBool True), Draw ''address'' 40]"

definition crypto_asset_steps :: "init_step list" where
  "crypto_asset_steps =
    [Default ''balance'' (CStr ''0.0''), Default ''usd_value'' (CFloat 0),
     Default ''price_usd'' (CFloat 0), Default ''change_24h'' (CFloat 0), Amount ''usd_value'',
     Amount ''price_usd'', Stamp ''last_updated'' 0]"

definition nftasset_steps :: "init_step list" where
  "nftasset_steps =
    [Default ''metadata'' (CDict []), Default ''floor_price_usd'' CNone,
     Default ''estimated_value_usd'' CNone, AmountIf ''floor_price_usd'',
     AmountIf ''estimated_value_usd'', Stamp ''acquired_at'' 0, Stamp ''last_updated'' 0]"

definition crypto_transaction_steps :: "init_step list" where
  "crypto_transaction_steps =
    [Default ''status'' (CStr ''pending''), Default ''confirmations'' (CInt 0),
     Default ''usd_value_at_time'' (CFloat 0), Default ''gas_fee_usd'' CNone,
     Amount ''usd_value_at_time'', AmountIf ''gas_fee_usd'', Draw ''transaction_hash'' 64]"

definition de_fi_position_steps :: "init_step list" where
  "de_fi_position_steps =
    [Default ''amount'' (CStr ''0.0''), Default ''usd_value'' (CFloat 0), Default ''apy'' (CFloat 0),
     Default ''rewards_earned'' (CStr ''0.0''), Default ''rewards_usd'' (CFloat 0),
     Amount ''usd_value'', Amount ''rewards_usd'', Stamp ''started_at'' 0, Stamp ''last_updated'' 0]"

definition credit_score_steps :: "init_step list" where
  "credit_score_steps =
    [Default ''score'' (CInt 650), Default ''provider'' (CStr ''equifax''),
     Default ''score_range'' (CStr ''good''), Default ''factors'' (CList []), Stamp ''last_updated'' 0,
     Stamp ''next_update'' 0]"

definition credit_simulation_steps :: "init_step list" where
  "credit_simulation_steps =
    [Default ''current_score'' (CInt 650), Default ''projected_score'' (CInt 650),
     Default ''score_change'' (CInt 0), Default ''time_to_change_months'' (CInt 0),
     Default ''simulation_type'' (CStr ''pay_off_debt''), Default ''simulation_details'' (CDict []),
     Default ''impact_factors'' (CList []), Default ''recommendations'' (CList []),
     Stamp ''simulation_date'' 0]"

definition credit_alert_steps :: "init_step list" where
  "credit_alert_steps =
    [Default ''alert_type'' (CStr ''score_change''), Default ''severity'' (CStr ''info''),
     Default ''title'' (CStr ''''), Default ''description'' (CStr ''''),
     Default ''is_read'' (CBool False), Default ''is_dismissed'' (CBool False),
     Default ''action_required'' (CBool False), Default ''action_url'' CNone,
     Default ''metadata'' (CDict []), Stamp ''alert_date'' 0]"

definition credit_dispute_steps :: "init_step list" where
  "credit_dispute_steps =
    [Default ''dispute_type'' (CStr ''incorrect_info''), Default ''status'' (CStr ''pending''),
     Default ''bureau'' (CStr ''equifax''), Default ''account_name'' (CStr ''''),
     Default ''dispute_reason'' (CStr ''''), Default ''dispute_details'' (CStr ''''),
     Default ''supporting_documents'' (CList []), Default ''bureau_response'' CNone,
     Default ''resolution_date'' CNone, Default ''outcome'' CNone, Stamp ''filed_date'' 0,
     Stamp ''last_updated'' 0]"

definition credit_builder_account_steps :: "init_step list" where
  "credit_builder_account_steps =
    [Default ''account_type'' (CStr ''secured_card''), Default ''status'' (CStr ''active''),
     Default ''secured_amount'' (CFloat 0), Default ''credit_limit'' (CFloat 0),
     Default ''current_balance'' (CFloat 0), Default ''payment_history'' (CList []),
     Default ''graduation_eligible'' (CBool False), Default ''graduation_date'' CNone,
     Default ''reports_to_bureaus'' (CList [CStr ''equifax'', CStr ''experian'', CStr ''transunion'']),
     Default ''auto_pay_enabled'' (CBool False), Default ''monthly_fee'' (CFloat 0),
     Amount ''secured_amount'', Amount ''credit_limit'', Amount ''current_balance'',
     Amount ''monthly_fee'', Stamp ''opened_date'' 0, Default ''last_payment_date'' CNone]"

definition unified_balance_steps :: "init_step list" where
  "unified_balance_steps =
    [Default ''total_net_worth_usd'' (CFloat 0), Default ''fiat_assets'' (CDict []),
     Default ''total_fiat_usd'' (CFloat 0), Default ''crypto_assets'' (CDict []),
     Default ''nft_collection_value'' (CFloat 0), Default ''total_crypto_usd'' (CFloat 0),
     Default ''total_credit_available'' (CFloat 0), Default ''credit_utilization'' (CFloat 0),
     Default ''total_loans'' (CFloat 0), Default ''total_monthly_obligations'' (CFloat 0),
     Default ''total_coverage_amount'' (CFloat 0), Default ''insurance_types_covered'' (CList []),
     Default ''defi_positions_value'' (CFloat 0), Default ''defi_yield_annual'' (CFloat 0),
     Default ''debt_to_asset_ratio'' (CFloat 0), Default ''liquid_assets'' (CFloat 0),
     Default ''illiquid_assets'' (CFloat 0), Amount ''total_net_worth_usd'', Amount ''total_fiat_usd'',
     Amount ''nft_collection_value'', Amount ''total_crypto_usd'', Amount ''total_credit_available'',
     Amount ''total_loans'', Amount ''total_monthly_obligations'', Amount ''total_coverage_amount'',
     Amount ''defi_positions_value'', Amount ''defi_yield_annual'', Amount ''liquid_assets'',
     Amount ''illiquid_assets'', Stamp ''last_updated'' 0]"

definition asset_bridge_steps :: "init_step list" where
  "asset_bridge_steps =
    [Default ''bridge_type'' (CStr ''fiat_to_crypto''), Default ''from_asset_class'' (CStr ''fiat''),
     Default ''to_asset_class'' (CStr ''crypto''), Default ''from_amount'' (CStr ''0.0''),
     Default ''to_amount'' (CStr ''0.0''), Default ''exchange_rate'' (CFloat 1),
     Default ''fees'' (CDict []), Default ''total_fees_usd'' (CFloat 0),
     Default ''status'' (CStr ''pending''), Default ''transaction_hash'' CNone,
     Default ''error_message'' CNone, Amount ''total_fees_usd'', Stamp ''initiated_at'' 0,
     Default ''completed_at'' CNone]"

definition conversion_rate_steps :: "init_step list" where
  "conversion_rate_steps =
    [Default ''from_asset'' (CStr ''USD''), Default ''to_asset'' (CStr ''EUR''),
     Default ''rate'' (CFloat 1), Default ''inverse_rate'' (CFloat 1),
     Default ''source'' (CStr ''market''), Default ''is_active'' (CBool True), Stamp ''last_updated'' 0,
     Stamp ''valid_until'' 3600]"

definition collateral_position_steps :: "init_step list" where
  "collateral_position_steps =
    [Default ''position_type'' (CStr ''loan''), Default ''collateral_assets'' (CList []),
     Default ''total_collateral_value_usd'' (CFloat 0), Default ''amount_borrowed'' (CFloat 0),
     Default ''currency_borrowed'' (CStr ''USD''), Default ''loan_to_value'' (CFloat 0),
     Default ''liquidation_ltv'' (CFloat (double (4/5))), Default ''health_factor'' (CFloat 1),
     Default ''interest_rate'' (CFloat 0), Default ''interest_type'' (CStr ''variable''),
     Default ''is_active'' (CBool True), Amount ''total_collateral_value_usd'',
     Amount ''amount_borrowed'', Stamp ''last_updated'' 0]"

definition unified_transaction_steps :: "init_step list" where
  "unified_transaction_steps =
    [Default ''transaction_type'' (CStr ''transfer''), Default ''source_system'' (CStr ''fiat''),
     Default ''destination_system'' (CStr ''crypto''), Default ''amount_usd'' (CFloat 0),
     Default ''source_amount'' (CStr ''0.0''), Default ''source_currency'' (CStr ''USD''),
     Default ''destination_amount'' (CStr ''0.0''), Default ''destination_currency'' (CStr ''USDC''),
     Default ''route_taken'' (CList []), Default ''total_fees_usd'' (CFloat 0),
     Default ''status'' (CStr ''pending''), Default ''reference_ids'' (CDict []), Amount ''amount_usd'',
     Amount ''total_fees_usd'', Stamp ''initiated_at'' 0, Default ''completed_at'' CNone]"

definition message_attachment_steps :: "init_step list" where
  "message_attachment_steps =
    [Stamp ''uploaded_at'' 0]"

definition message_folder_steps :: "init_step list" where
  "message_folder_steps =
    [Stamp ''created_at'' 0]"

definition blocked_user_steps :: "init_step list" where
  "blocked_user_steps =
    [Stamp ''blocked_at'' 0]"

definition message_settings_steps :: "init_step list" where
  "message_settings_steps =
    [Stamp ''created_at'' 0, Stamp ''updated_at'' 0]"

definition audit_log_steps :: "init_step list" where
  "audit_log_steps =
    [Default ''event_type'' (CStr ''action''), Default ''status'' (CStr ''success''),
     Stamp ''timestamp'' 0, Default ''encrypted'' (CInt 1)]"

definition login_attempt_steps :: "init_step list" where
  "login_attempt_steps =
    [Stamp ''timestamp'' 0, Default ''success'' (CBool False)]"

definition transaction_anomaly_steps :: "init_step list" where
  "transaction_anomaly_steps =
    [Stamp ''detected_at'' 0, Default ''risk_score'' (CFloat 0)]"

definition security_incident_steps :: "init_step list" where
  "security_incident_steps =
    [Stamp ''created_at'' 0, Default ''severity'' (CStr ''medium''), Default ''status'' (CStr ''open'')]"

definition account_lockout_steps :: "init_step list" where
  "account_lockout_steps =
    [Stamp ''locked_at'' 0, Default ''is_active'' (CBool True)]"

definition trusted_device_steps :: "init_step list" where
  "trusted_device_steps =
    [Stamp ''first_seen'' 0, Stamp ''last_seen'' 0, Default ''is_trusted'' (CBool False)]"

definition invoice_steps :: "init_step list" where
  "invoice_steps =
    [Default ''status'' (CStr ''draft''), Default ''amount_paid'' (CFloat 0),
     Default ''subtotal'' (CFloat 0), Default ''tax_amount'' (CFloat 0),
     Default ''discount_amount'' (CFloat 0), Default ''total_amount'' (CFloat 0),
     Default ''line_items'' (CList []), Default ''extra_data'' (CDict []), Amount ''amount_paid'',
     Amount ''subtotal'', Amount ''tax_amount'', Amount ''discount_amount'', Amount ''total_amount'',
     Default ''sent_at'' CNone, Default ''paid_at'' CNone]"

definition expense_report_steps :: "init_step list" where
  "expense_report_steps =
    [Default ''status'' (CStr ''draft''), Default ''total_amount'' (CFloat 0),
     Default ''reimbursable_amount'' (CFloat 0), Default ''expense_items'' (CList []),
     Amount ''total_amount'', Amount ''reimbursable_amount'', Default ''submitted_at'' CNone,
     Default ''approved_at'' CNone]"

definition receipt_steps :: "init_step list" where
  "receipt_steps =
    [Default ''amount'' (CFloat 0), Amount ''amount'', Default ''tax_deductible'' (CBool False),
     Default ''category'' (CStr ''other''), Stamp ''receipt_date'' 0]"

definition init_steps :: "(string \<times> init_step list) list" where
  "init_steps =
    [(''User'', user_steps), (''Account'', account_steps), (''Transaction'', transaction_steps),
     (''Category'', category_steps), (''Budget'', budget_steps), (''Goal'', goal_steps),
     (''GoalContribution'', goal_contribution_steps), (''Notification'', notification_steps),
     (''Contact'', contact_steps), (''Conversation'', conversation_steps),
     (''ConversationParticipant'', conversation_participant_steps), (''Message'', message_steps),
     (''MessageReadReceipt'', message_read_receipt_steps), (''RecurringRule'', recurring_rule_steps),
     (''Note'', note_steps), (''Card'', card_steps), (''CardSpendingLimit'', card_spending_limit_steps),
     (''RoundUpConfig'', round_up_config_steps), (''RoundUpTransaction'', round_up_transaction_steps),
     (''SavingsRule'', savings_rule_steps), (''SavingsChallenge'', savings_challenge_steps),
     (''ChallengeParticipant'', challenge_participant_steps), (''Subscription'', subscription_steps),
     (''SecurityEvent'', security_event_steps), (''PaymentMethod'', payment_method_steps),
     (''TwoFactorAuth'', two_factor_auth_steps), (''UserDevice'', user_device_steps),
     (''SecurityAuditLog'', security_audit_log_steps), (''Log'', log_steps),
     (''DirectMessage'', direct_message_steps), (''CryptoWallet'', crypto_wallet_steps),
     (''CryptoAsset'', crypto_asset_steps), (''NFTAsset'', nftasset_steps),
     (''CryptoTransaction'', crypto_transaction_steps), (''DeFiPosition'', de_fi_position_steps),
     (''CreditScore'', credit_score_steps), (''CreditSimulation'', credit_simulation_steps),
     (''CreditAlert'', credit_alert_steps), (''CreditDispute'', credit_dispute_steps),
     (''CreditBuilderAccount'', credit_builder_account_steps),
     (''UnifiedBalance'', unified_balance_steps), (''AssetBridge'', asset_bridge_steps),
     (''ConversionRate'', conversion_rate_steps), (''CollateralPosition'', collateral_position_steps),
     (''UnifiedTransaction'', unified_transaction_steps),
     (''MessageAttachment'', message_attachment_steps), (''MessageFolder'', message_folder_steps),
     (''BlockedUser'', blocked_user_steps), (''MessageSettings'', message_settings_steps),
     (''AuditLog'', audit_log_steps), (''LoginAttempt'', login_attempt_steps),
     (''TransactionAnomaly'', transaction_anomaly_steps),
     (''SecurityIncident'', security_incident_steps), (''AccountLockout'', account_lockout_steps),
     (''TrustedDevice'', trusted_device_steps), (''Invoice'', invoice_steps),
     (''ExpenseReport'', expense_report_steps), (''Receipt'', receipt_steps)]"

definition steps_of :: "string \<Rightarrow> init_step list" where
  "steps_of cls = dget_or init_steps cls []"

definition new_object :: "env \<Rightarrow> string \<Rightarrow> row \<Rightarrow> store \<Rightarrow> row result \<times> store" where
  "new_object e cls kw st =
     (let (d, st') = base_init e cls kw st in (run_steps e 1 st' (steps_of cls) d, st'))"

section \<open>What the constructors leave alone\<close>

fun step_key :: "init_step \<Rightarrow> string" where
  "step_key (Default k v) = k"
| "step_key (Stamp k s) = k"
| "step_key (Iso k) = k"
| "step_key (Amount k) = k"
| "step_key (AmountIf k) = k"
| "step_key (Draw k n) = k"
| "step_key OwnerOfAccount = ''user_id''"

lemma run_step_other:
  assumes "run_step e n st s d = Ok d'" "k \<noteq> step_key s"
  shows "dget d' k = dget d k"
  using assms by (cases s) (auto split: if_splits sum.splits option.splits)

lemma run_steps_other:
  assumes "run_steps e n st ss d = Ok d'" "k \<notin> set (map step_key ss)"
  shows "dget d' k = dget d k"
  using assms
proof (induction ss arbitrary: n d)
  case (Cons s ss)
  then obtain d1 where d1: "run_step e n st s d = Ok d1" "run_steps e (Suc n) st ss d1 = Ok d'"
    by (auto split: sum.splits)
  have "dget d1 k = dget d k" using run_step_other [OF d1(1)] Cons.prems(2) by auto
  with Cons.IH [OF d1(2)] Cons.prems(2) show ?case by auto
qed simp

lemma init_steps_no_id: "list_all (\<lambda>(c, ss). ''id'' \<notin> set (map step_key ss)) init_steps"
  by code_simp

lemma steps_no_id: "''id'' \<notin> set (map step_key (steps_of cls))"
proof (cases "dget init_steps cls")
  case (Some ss)
  then have "(cls, ss) \<in> set init_steps" by (rule map_of_SomeD)
  with init_steps_no_id Some show ?thesis by (auto simp: list_all_iff steps_of_def dget_or_def)
qed (simp add: steps_of_def dget_or_def)

lemma base_init_tables:
  assumes "base_init e cls kw st = (d, st')"
  shows "st_tables st' = st_tables st" and "has_key kw ''id'' \<Longrightarrow> field d ''id'' = field kw ''id''"
    and "k \<notin> {''id'', ''created_at''} \<Longrightarrow> dget d k = dget kw k" and "has_key d ''id''" and "st_ready st'"
  using assms by (auto simp: base_init_def Let_def initialize_counters_def split: if_splits)

text \<open>A new instance: the tables are unchanged and a given identifier is kept.\<close>

lemma new_object_facts:
  assumes "new_object e cls kw st = (r, st')"
  shows "st_tables st' = st_tables st"
    and "r = Ok d \<Longrightarrow> has_key kw ''id'' \<Longrightarrow> field d ''id'' = field kw ''id''"
    and "r = Ok d \<Longrightarrow> k \<notin> {''id'', ''created_at''} \<Longrightarrow> k \<notin> set (map step_key (steps_of cls)) \<Longrightarrow> dget d k = dget kw k"
proof -
  obtain d0 where b: "base_init e cls kw st = (d0, st')" and r: "r = run_steps e 1 st' (steps_of cls) d0"
    using assms by (auto simp: new_object_def split: prod.splits)
  note base_init_tables [OF b]
  then show "st_tables st' = st_tables st"
    "r = Ok d \<Longrightarrow> has_key kw ''id'' \<Longrightarrow> field d ''id'' = field kw ''id''"
    "r = Ok d \<Longrightarrow> k \<notin> {''id'', ''created_at''} \<Longrightarrow> k \<notin> set (map step_key (steps_of cls)) \<Longrightarrow> dget d k = dget kw k"
    using run_steps_other [of e 1 st' "steps_of cls" d0 d] steps_no_id [of cls] unfolding r
    by (auto simp: field_def dget_or_def)
qed

lemma new_object_fresh:
  assumes "new_object e cls kw st = (Ok d, st')" "\<not> has_key kw ''id''" "st_ready st"
  shows "field d ''id'' = CInt (dget_or (st_counters st) cls 1)"
    and "dget_or (st_counters st') cls 1 = dget_or (st_counters st) cls 1 + 1" and "st_ready st'"
proof -
  obtain d0 where b: "base_init e cls kw st = (d0, st')" and r: "run_steps e 1 st' (steps_of cls) d0 = Ok d"
    using assms by (auto simp: new_object_def split: prod.splits)
  have "dget d ''id'' = dget d0 ''id''" by (rule run_steps_other [OF r steps_no_id])
  then show "field d ''id'' = CInt (dget_or (st_counters st) cls 1)"
    "dget_or (st_counters st') cls 1 = dget_or (st_counters st) cls 1 + 1" "st_ready st'"
    using b assms(2,3) by (auto simp: base_init_def Let_def field_def dget_or_def split: if_splits)
qed

end
