(* ===== verification/Memory_Types.thy ===== *)
theory Memory_Types
  imports Memory_Model
begin

text \<open>
  The types of rows. Each constructor fixes which keys its rows have and which of them hold amounts; a row
  is \<open>typed\<close> if it has them and every amount is a float of whole cents. The constructors are exactly as
  partial as \<open>format_money\<close>: they return a typed row if the amounts given can be read, and raise otherwise.
\<close>

section \<open>Typed rows\<close>

fun amount_key :: "init_step \<Rightarrow> string option" where
  "amount_key (Amount k) = Some k"
| "amount_key (AmountIf k) = Some k"
| "amount_key s = None"

fun amount_keys :: "init_step list \<Rightarrow> string list" where
  "amount_keys [] = []"
| "amount_keys (s # ss) = (case amount_key s of None \<Rightarrow> amount_keys ss | Some k \<Rightarrow> k # amount_keys ss)"

definition is_amount :: "cell \<Rightarrow> bool" where
  "is_amount v \<longleftrightarrow> (\<exists>c. v = CFloat (cents c))"

fun step_typed :: "init_step \<Rightarrow> row \<Rightarrow> bool" where
  "step_typed (Amount k) d = (has_key d k \<and> is_amount (field d k))"
| "step_typed (AmountIf k) d = (field d k = CNone \<or> is_amount (field d k))"
| "step_typed OwnerOfAccount d = True"
| "step_typed (Default k v) d = has_key d k"
| "step_typed (Stamp k s) d = has_key d k"
| "step_typed (Iso k) d = has_key d k"
| "step_typed (Draw k n) d = has_key d k"

definition typed :: "string \<Rightarrow> row \<Rightarrow> bool" where
  "typed cls d \<longleftrightarrow> has_key d ''id'' \<and> has_key d ''created_at'' \<and> (\<forall>s \<in> set (steps_of cls). step_typed s d)"

definition money_ok :: "cell \<Rightarrow> bool" where
  "money_ok v \<longleftrightarrow> (\<exists>w. format_money v = Ok w)"

lemma amount_zero: "is_amount (CFloat 0)"
proof -
  have "cents 0 = 0" by code_simp
  then show ?thesis unfolding is_amount_def by metis
qed

lemma quantize_amount: "quantize v = Ok w \<Longrightarrow> is_amount w"
  by (auto simp: quantize_def is_amount_def Let_def split: if_splits)

lemma format_money_amount: "format_money v = Ok w \<Longrightarrow> is_amount w"
  using amount_zero by (auto simp: format_money_def split: cell.splits option.splits dest: quantize_amount)

lemma money_ok_zero [simp]: "money_ok (CFloat 0)" "money_ok CNone"
proof -
  have "format_money (CFloat 0) = Ok (CFloat 0)" by code_simp
  then show "money_ok (CFloat 0)" by (simp add: money_ok_def)
qed (simp add: money_ok_def format_money_def)

section \<open>The steps\<close>

text \<open>Each amount is formatted once, and no other step than a default of zero or None touches it.\<close>

definition plain_default :: "string list \<Rightarrow> init_step \<Rightarrow> bool" where
  "plain_default ks s =
     (case s of Default k v \<Rightarrow> k \<in> set ks \<longrightarrow> v = CNone \<or> v = CFloat 0
      | Stamp k _ \<Rightarrow> k \<notin> set ks | Iso k \<Rightarrow> k \<notin> set ks | Draw k _ \<Rightarrow> k \<notin> set ks | _ \<Rightarrow> True)"

definition steps_ok :: "string list \<Rightarrow> init_step list \<Rightarrow> bool" where
  "steps_ok ks ss \<longleftrightarrow>
     set (amount_keys ss) \<subseteq> set ks \<and> distinct (amount_keys ss) \<and> list_all (plain_default ks) ss \<and>
     ''user_id'' \<notin> set ks \<and> ''id'' \<notin> set ks \<and> ''created_at'' \<notin> set ks"

lemma init_steps_ok: "list_all (\<lambda>(c, ss). steps_ok (amount_keys ss) ss) init_steps"
  by code_simp

lemma run_step_keeps:
  assumes "run_step e n st s d = Ok d'"
  shows "has_key d k \<Longrightarrow> has_key d' k" and "amount_key s \<noteq> Some k \<Longrightarrow> has_key d k \<Longrightarrow> dget d' k = dget d k"
  using assms by (cases s; auto simp: has_key_def split: if_splits sum.splits option.splits)+

text \<open>A step that formats an amount fails if the amount cannot be read; no other step fails.\<close>

lemma run_step_amount:
  assumes "amount_key s = Some k"
  shows "(\<exists>d'. run_step e n st s d = Ok d') \<longleftrightarrow> money_ok (field d k)"
    and "run_step e n st s d = Ok d' \<Longrightarrow> step_typed s d' \<and>
         (field d k \<noteq> CNone \<longrightarrow> format_money (field d k) = Ok (field d' k))"
proof -
  have v: "money_ok (dget_or d k (CFloat 0)) = money_ok (field d k)"
    by (simp add: field_def dget_or_def split: option.split)
  have o: "(\<exists>w. r = Ok w) \<longleftrightarrow> (\<forall>err. r \<noteq> Err err)" for r :: "cell result" by (cases r) auto
  show "(\<exists>d'. run_step e n st s d = Ok d') \<longleftrightarrow> money_ok (field d k)"
  proof (cases s)
    case (Amount k')
    then have "(\<exists>d'. run_step e n st s d = Ok d') \<longleftrightarrow> money_ok (dget_or d k (CFloat 0))"
      using assms by (auto simp: money_ok_def split: sum.splits)
    then show ?thesis using v by simp
  next
    case (AmountIf k')
    then show ?thesis using assms by (auto simp: money_ok_def format_money_def split: sum.splits)
  qed (use assms in auto)
  have g: "field d k \<noteq> CNone \<Longrightarrow> dget_or d k (CFloat 0) = field d k"
    by (cases "dget d k") (simp_all add: field_def dget_or_def)
  show "step_typed s d' \<and> (field d k \<noteq> CNone \<longrightarrow> format_money (field d k) = Ok (field d' k))"
    if "run_step e n st s d = Ok d'"
    using that assms g by (cases s) (auto split: sum.splits if_splits dest: format_money_amount)
qed

lemma format_money_error: "format_money v = Err err \<Longrightarrow> err = invalid_operation"
  by (auto simp: format_money_def quantize_def Let_def split: cell.splits option.splits if_splits)

lemma run_step_error: "run_step e n st s d = Err err \<Longrightarrow> err = invalid_operation"
  by (cases s) (auto split: sum.splits if_splits option.splits dest: format_money_error)

lemma run_step_total: "amount_key s = None \<Longrightarrow> \<exists>d'. run_step e n st s d = Ok d' \<and> step_typed s d'"
  by (cases s) (auto simp: has_key_def)

lemma run_step_money:
  assumes "run_step e n st s d = Ok d'" "plain_default ks s" "k \<in> set ks" "''user_id'' \<notin> set ks" "amount_key s \<noteq> Some k"
  shows "money_ok (field d' k) = money_ok (field d k)"
  using assms by (cases s) (auto simp: plain_default_def field_def dget_or_def has_key_def split: if_splits sum.splits option.splits)

lemma run_step_amountish:
  assumes "run_step e n st s d = Ok d'" "plain_default ks s" "k \<in> set ks" "''user_id'' \<notin> set ks" "amount_key s \<noteq> Some k"
    and "field d k = CNone \<or> is_amount (field d k)"
  shows "field d' k = CNone \<or> is_amount (field d' k)"
  using assms amount_zero
  by (cases s) (auto simp: plain_default_def field_def dget_or_def has_key_def split: if_splits sum.splits option.splits)

section \<open>The constructors\<close>

lemma steps_ok_Cons:
  assumes "steps_ok ks (s # ss)"
  shows "steps_ok ks ss" "plain_default ks s" "''user_id'' \<notin> set ks"
    "amount_key s = Some k \<Longrightarrow> k \<in> set ks \<and> k \<notin> set (amount_keys ss)"
  using assms by (auto simp: steps_ok_def split: option.splits)

lemma run_steps_keep:
  assumes "steps_ok ks ss" "run_steps e n st ss d = Ok d'"
  shows "has_key d k \<Longrightarrow> has_key d' k"
    and "k \<notin> set (amount_keys ss) \<Longrightarrow> has_key d k \<Longrightarrow> dget d' k = dget d k"
    and "k \<notin> set (amount_keys ss) \<Longrightarrow> k \<in> set ks \<Longrightarrow> field d k = CNone \<or> is_amount (field d k) \<Longrightarrow>
         field d' k = CNone \<or> is_amount (field d' k)"
  using assms
proof (induction ss arbitrary: n d)
  case (Cons s ss)
  {
    case 1
    obtain d1 where d1: "run_step e n st s d = Ok d1" "run_steps e (Suc n) st ss d1 = Ok d'"
      using 1(3) by (auto split: sum.splits)
    show ?case by (rule Cons.IH(1) [OF run_step_keeps(1) [OF d1(1) 1(1)] steps_ok_Cons(1) [OF 1(2)] d1(2)])
  next
    case 2
    obtain d1 where d1: "run_step e n st s d = Ok d1" "run_steps e (Suc n) st ss d1 = Ok d'"
      using 2(4) by (auto split: sum.splits)
    have n: "amount_key s \<noteq> Some k" "k \<notin> set (amount_keys ss)" using 2(1) by (auto split: option.splits)
    have "dget d' k = dget d1 k"
      by (rule Cons.IH(2) [OF n(2) run_step_keeps(1) [OF d1(1) 2(2)] steps_ok_Cons(1) [OF 2(3)] d1(2)])
    then show ?case using run_step_keeps(2) [OF d1(1) n(1) 2(2)] by simp
  next
    case 3
    obtain d1 where d1: "run_step e n st s d = Ok d1" "run_steps e (Suc n) st ss d1 = Ok d'"
      using 3(5) by (auto split: sum.splits)
    have n: "amount_key s \<noteq> Some k" "k \<notin> set (amount_keys ss)" using 3(1) by (auto split: option.splits)
    show ?case
      by (rule Cons.IH(3) [OF n(2) 3(2) run_step_amountish [OF d1(1) steps_ok_Cons(2) [OF 3(4)] 3(2)
            steps_ok_Cons(3) [OF 3(4)] n(1) 3(3)] steps_ok_Cons(1) [OF 3(4)] d1(2)])
  }
qed simp_all

lemma step_typed_kept:
  assumes "steps_ok ks (s # ss)" "step_typed s d" "run_steps e n st ss d = Ok d'"
  shows "step_typed s d'"
proof (cases "amount_key s")
  case None
  then show ?thesis using assms(2) run_steps_keep(1) [OF steps_ok_Cons(1) [OF assms(1)] assms(3)] by (cases s) auto
next
  case (Some k)
  have k: "k \<in> set ks" "k \<notin> set (amount_keys ss)" using steps_ok_Cons(4) [OF assms(1) Some] by auto
  note keep = run_steps_keep [OF steps_ok_Cons(1) [OF assms(1)] assms(3)]
  show ?thesis
  proof (cases s)
    case (Amount k')
    then show ?thesis using assms(2) Some k(2) keep(1,2) [of k] by (auto simp: field_def dget_or_def)
  next
    case (AmountIf k')
    then show ?thesis using assms(2) Some keep(3) [OF k(2,1)] by auto
  qed (use Some in auto)
qed

lemma run_steps_typed:
  assumes "steps_ok ks ss"
  shows "(\<exists>d'. run_steps e n st ss d = Ok d') \<longleftrightarrow> (\<forall>k \<in> set (amount_keys ss). money_ok (field d k))"
    and "run_steps e n st ss d = Ok d' \<Longrightarrow> (\<forall>s \<in> set ss. step_typed s d') \<and>
         (\<forall>k \<in> set (amount_keys ss). field d k \<noteq> CNone \<longrightarrow> format_money (field d k) = Ok (field d' k))"
    and "run_steps e n st ss d = Err err \<Longrightarrow> err = invalid_operation"
  using assms
proof (induction ss arbitrary: n d)
  case (Cons s ss)
  note ok = steps_ok_Cons [OF _]
  {
    case 1
    have rest: "(\<exists>d'. run_steps e (Suc n) st ss d1 = Ok d') \<longleftrightarrow> (\<forall>k \<in> set (amount_keys ss). money_ok (field d k))"
      if d1: "run_step e n st s d = Ok d1" for d1
    proof -
      have "money_ok (field d1 k) = money_ok (field d k)" if "k \<in> set (amount_keys ss)" for k
      proof -
        have "k \<in> set ks" using that steps_ok_Cons(1) [OF 1] by (auto simp: steps_ok_def)
        moreover have "amount_key s \<noteq> Some k" using that steps_ok_Cons(4) [OF 1] by auto
        ultimately show ?thesis by (rule run_step_money [OF d1 steps_ok_Cons(2) [OF 1] _ steps_ok_Cons(3) [OF 1]])
      qed
      then show ?thesis using Cons.IH(1) [OF steps_ok_Cons(1) [OF 1]] by simp
    qed
    have two: "(\<exists>d'. run_steps e n st (s # ss) d = Ok d') \<longleftrightarrow>
        (\<exists>d1. run_step e n st s d = Ok d1 \<and> (\<exists>d'. run_steps e (Suc n) st ss d1 = Ok d'))"
      by (auto split: sum.splits)
    show ?case
    proof (cases "amount_key s")
      case None
      then obtain d1 where "run_step e n st s d = Ok d1" using run_step_total by blast
      then show ?thesis unfolding two using rest None by auto
    next
      case (Some k)
      show ?thesis unfolding two using rest run_step_amount(1) [OF Some, of e n st d] Some by auto
    qed
  next
    case 2
    obtain d1 where d1: "run_step e n st s d = Ok d1" "run_steps e (Suc n) st ss d1 = Ok d'"
      using 2(1) by (auto split: sum.splits)
    have IH: "(\<forall>s \<in> set ss. step_typed s d')" "k \<in> set (amount_keys ss) \<Longrightarrow> field d1 k \<noteq> CNone \<Longrightarrow>
        format_money (field d1 k) = Ok (field d' k)" for k
      using Cons.IH(2) [OF d1(2) steps_ok_Cons(1) [OF 2(2)]] by auto
    have "step_typed s d1"
      using run_step_total [of s e n st d] run_step_amount(2) [OF _ d1(1)] d1(1) by (cases "amount_key s") auto
    then have "step_typed s d'" by (rule step_typed_kept [OF 2(2) _ d1(2)])
    moreover have "format_money (field d k) = Ok (field d' k)"
      if k: "k \<in> set (amount_keys (s # ss))" and v: "field d k \<noteq> CNone" for k
    proof (cases "amount_key s = Some k")
      case True
      then have f: "format_money (field d k) = Ok (field d1 k)" using run_step_amount(2) [OF True d1(1)] v by simp
      have "k \<notin> set (amount_keys ss)" using steps_ok_Cons(4) [OF 2(2) True] by simp
      moreover have "has_key d1 k"
        using run_step_keeps(1) [OF d1(1), of k] v by (auto simp: field_def dget_or_def has_key_def split: option.splits)
      ultimately have "dget d' k = dget d1 k"
        by (rule run_steps_keep(2) [OF steps_ok_Cons(1) [OF 2(2)] d1(2)])
      then show ?thesis using f by (simp add: field_def dget_or_def)
    next
      case False
      then have k': "k \<in> set (amount_keys ss)" using k by (auto split: option.splits)
      have "has_key d k" using v by (auto simp: field_def dget_or_def has_key_def split: option.splits)
      then have "field d1 k = field d k"
        using run_step_keeps(2) [OF d1(1) False] by (simp add: field_def dget_or_def)
      then show ?thesis using IH(2) [OF k'] v by simp
    qed
    ultimately show ?case using IH(1) by auto
  next
    case 3
    then show ?case using Cons.IH(3) [OF _ steps_ok_Cons(1) [OF 3(2)]]
      by (auto split: sum.splits dest: run_step_error)
  }
qed simp_all

lemma steps_of_ok: "steps_ok (amount_keys (steps_of cls)) (steps_of cls)"
proof (cases "dget init_steps cls")
  case None
  then show ?thesis by (simp add: steps_of_def dget_or_def steps_ok_def)
next
  case (Some ss)
  then have "(cls, ss) \<in> set init_steps" by (rule map_of_SomeD)
  then show ?thesis using init_steps_ok Some by (auto simp: list_all_iff steps_of_def dget_or_def)
qed

text \<open>C20: The constructors of all model classes are type-correct and exactly as partial as the reading of
  amounts: building an instance returns a row if and only if every amount given can be read as money, and
  otherwise raises InvalidOperation; the row has its id, its creation time and every key its class
  declares, each amount it declares is a float of whole cents (or None where the class allows it), each
  amount given is the one read, and everything else given is kept as it is.\<close>

theorem constructors_typed:
  "((\<exists>d. fst (new_object e cls kw st) = Ok d) \<longleftrightarrow>
      (\<forall>k \<in> set (amount_keys (steps_of cls)). money_ok (field kw k))) \<and>
   (case fst (new_object e cls kw st) of
      Inl err \<Rightarrow> err = invalid_operation
    | Inr d \<Rightarrow> typed cls d \<and>
        (\<forall>k. has_key kw k \<and> k \<notin> set (amount_keys (steps_of cls)) \<longrightarrow> dget d k = dget kw k) \<and>
        (\<forall>k \<in> set (amount_keys (steps_of cls)). field kw k \<noteq> CNone \<longrightarrow> format_money (field kw k) = Ok (field d k)))"
proof -
  obtain d0 st' where b: "base_init e cls kw st = (d0, st')" by (cases "base_init e cls kw st")
  have r: "fst (new_object e cls kw st) = run_steps e 1 st' (steps_of cls) d0" by (simp add: new_object_def b)
  have k: "has_key kw k \<Longrightarrow> dget d0 k = dget kw k" "has_key d0 ''id''" "has_key d0 ''created_at''"
      "k \<notin> {''id'', ''created_at''} \<Longrightarrow> dget d0 k = dget kw k" for k
    using b by (auto simp: base_init_def Let_def has_key_def split: if_splits)
  note ok = steps_of_ok [of cls]
  have a: "field d0 k = field kw k" if "k \<in> set (amount_keys (steps_of cls))" for k
  proof -
    have "k \<notin> {''id'', ''created_at''}" using that ok by (auto simp: steps_ok_def)
    then show ?thesis using k(4) by (simp add: field_def dget_or_def)
  qed
  show ?thesis
  proof (cases "run_steps e 1 st' (steps_of cls) d0")
    case (Inl err)
    then show ?thesis using run_steps_typed(1,3) [OF ok, of e 1 st' d0] a by (simp add: r)
  next
    case (Inr d)
    have "typed cls d"
      using run_steps_typed(2) [OF ok Inr] run_steps_keep(1) [OF ok Inr] k(2,3) by (simp add: typed_def)
    moreover have "dget d k = dget kw k" if "has_key kw k" "k \<notin> set (amount_keys (steps_of cls))" for k
      using run_steps_keep(2) [OF ok Inr that(2)] k(1) [OF that(1)] that(1) by (simp add: has_key_def)
    ultimately show ?thesis
      using run_steps_typed(1) [OF ok, of e 1 st' d0] run_steps_typed(2) [OF ok Inr] a Inr by (simp add: r)
  qed
qed

lemma constructors_typed_witness:
  "typed ''Account'' (projr (fst (new_object env0 ''Account'' [(''balance'', CFloat (1 / 2))] (empty_store_of (\<lambda>_. [])))))
   \<and> (\<exists>d. fst (new_object env0 ''Account'' [(''balance'', CFloat (1 / 2))] (empty_store_of (\<lambda>_. []))) = Ok d)"
proof -
  let ?r = "fst (new_object env0 ''Account'' [(''balance'', CFloat (1 / 2))] (empty_store_of (\<lambda>_. [])))"
  have "case ?r of Inl _ \<Rightarrow> False | Inr _ \<Rightarrow> True" by code_simp
  then obtain d where "?r = Ok d" by (auto split: sum.splits)
  then show ?thesis using constructors_typed [of env0 "''Account''" "[(''balance'', CFloat (1 / 2))]" "empty_store_of (\<lambda>_. [])"]
    by simp
qed

end
