(* ===== verification/Memory_Query.thy ===== *)
theory Memory_Query
  imports Memory_Model "HOL-Library.Product_Lexorder" "HOL-Library.Multiset"
begin

text \<open>
  Queries over the in-memory store (MemoryQuery in backend storage/memory_adapter.py): filters in the
  style of SQLAlchemy, ordering, slices, aggregation. The definitions keep what the adapter does
  differently from a database: \<open>or_\<close> only looks at equality clauses, \<open>|\<close> takes every clause for an
  equality, an expression it does not recognise (such as the bare \<open>Account.is_active\<close>) filters
  nothing, and \<open>limit(0)\<close> does not limit.
\<close>

section \<open>Clauses\<close>

datatype cmp_op = OpEq | OpNe | OpLt | OpLe | OpGt | OpGe | OpLike

text \<open>
  A comparison of an attribute with a value, \<open>in_\<close> of a list or of a query (its model and filters), a
  chain of \<open>|\<close>, \<open>or_\<close>, \<open>and_\<close>, and any other expression.
\<close>

datatype clause =
    Compare string cmp_op cell
  | InList string "cell list"
  | InQuery string string "clause list"
  | Bar "clause list"
  | OrC "clause list"
  | AndC "clause list"
  | OtherC

definition store_map :: "(string \<times> string) list" where
  "store_map =
    [(''User'', ''users''), (''Account'', ''accounts''), (''Transaction'', ''transactions''),
     (''Category'', ''categories''), (''Budget'', ''budgets''), (''Goal'', ''goals''),
     (''GoalContribution'', ''goal_contributions''), (''Notification'', ''notifications''),
     (''Contact'', ''contacts''), (''Conversation'', ''conversations''),
     (''ConversationParticipant'', ''conversation_participants''), (''Message'', ''messages''),
     (''MessageReadReceipt'', ''message_read_receipts''), (''RecurringRule'', ''recurring_rules''),
     (''Merchant'', ''merchants''), (''Note'', ''notes''), (''Card'', ''cards''),
     (''VirtualCard'', ''cards''), (''Subscription'', ''subscriptions''),
     (''SecurityEvent'', ''security_events''), (''PaymentMethod'', ''payment_methods''),
     (''Log'', ''logs''), (''Bill'', ''bills''), (''CreditScore'', ''credit_scores''),
     (''SocialConnection'', ''social_connections''), (''P2PTransaction'', ''p2p_transactions''),
     (''InvestmentAccount'', ''investment_accounts''), (''Holding'', ''holdings''),
     (''Alert'', ''alerts''), (''AnalyticsEvent'', ''analytics_events''),
     (''BankLink'', ''bank_links''), (''PlaidAccount'', ''plaid_accounts''),
     (''TransactionsSyncStatus'', ''transactions_sync_status''),
     (''LinkedAccount'', ''linked_accounts''), (''CreditSimulation'', ''credit_simulations''),
     (''TwoFactorAuth'', ''two_factor_auth''), (''UserDevice'', ''user_devices''),
     (''SecurityAuditLog'', ''security_audit_logs''), (''SpendingLimit'', ''spending_limits''),
     (''CardSpendingLimit'', ''spending_limits''), (''RoundUpConfig'', ''round_up_configs''),
     (''RoundUpTransaction'', ''round_up_transactions''), (''SavingsRule'', ''savings_rules''),
     (''SavingsChallenge'', ''savings_challenges''),
     (''ChallengeParticipant'', ''challenge_participants''), (''Invoice'', ''invoices''),
     (''ExpenseReport'', ''expense_reports''), (''Receipt'', ''receipts''),
     (''CancellationReminder'', ''cancellation_reminders''), (''DirectMessage'', ''direct_messages''),
     (''MessageAttachment'', ''message_attachments''), (''MessageFolder'', ''message_folders''),
     (''BlockedUser'', ''blocked_users''), (''MessageSettings'', ''message_settings''),
     (''AuditLog'', ''audit_logs''), (''LoginAttempt'', ''login_attempts''),
     (''TransactionAnomaly'', ''transaction_anomalies''),
     (''SecurityIncident'', ''security_incidents''), (''AccountLockout'', ''account_lockouts''),
     (''TrustedDevice'', ''trusted_devices''), (''CryptoWallet'', ''crypto_wallets''),
     (''CryptoAsset'', ''crypto_assets''), (''CryptoTransaction'', ''crypto_transactions''),
     (''NFTAsset'', ''nft_assets''), (''DeFiPosition'', ''defi_positions''),
     (''AssetBridge'', ''asset_bridges''), (''CollateralPosition'', ''collateral_positions''),
     (''CreditAlert'', ''credit_alerts''), (''CreditBuilderAccount'', ''credit_builder_accounts''),
     (''CreditDispute'', ''credit_disputes'')]"

definition rows_of :: "store \<Rightarrow> string \<Rightarrow> row list" where
  "rows_of st m = (case dget store_map m of None \<Rightarrow> [] | Some t \<Rightarrow> st_tables st t)"

section \<open>One comparison\<close>

fun is_datetime :: "cell \<Rightarrow> bool" where
  "is_datetime (CTime z t) = True"
| "is_datetime c = False"

fun naive :: "cell \<Rightarrow> cell" where
  "naive (CTime z t) = CTime False t"
| "naive c = c"

fun at_time :: "time \<Rightarrow> cell \<Rightarrow> cell" where
  "at_time t (CDate d) = CTime False (seconds (d * 86400) + t)"
| "at_time t c = c"

definition end_of_day :: time where
  "end_of_day = 86399999999"

fun op_text :: "cmp_op \<Rightarrow> string" where
  "op_text OpLt = ''<''"
| "op_text OpLe = ''<=''"
| "op_text OpGt = ''>''"
| "op_text OpGe = ''>=''"
| "op_text opr = ''''"

fun op_holds :: "cmp_op \<Rightarrow> int \<Rightarrow> bool" where
  "op_holds OpLt c = (c < 0)"
| "op_holds OpLe c = (c \<le> 0)"
| "op_holds OpGt c = (0 < c)"
| "op_holds OpGe c = (0 \<le> c)"
| "op_holds opr c = False"

text \<open>
  \<open><=\<close> and \<open>>=\<close> on the date of a transaction take a date as the end, or the start, of its day; two
  datetimes are compared without their zones.
\<close>

definition order_holds :: "string \<Rightarrow> string \<Rightarrow> cmp_op \<Rightarrow> cell \<Rightarrow> cell \<Rightarrow> bool result" where
  "order_holds m f opr a v =
     (if a = CNone then Ok False
      else let by_day = (f = ''transaction_date'' \<and> m = ''Transaction'' \<and> (opr = OpLe \<or> opr = OpGe));
               t = (if opr = OpLe then end_of_day else 0);
               a1 = (if by_day then at_time t a else a); v1 = (if by_day then at_time t v else v);
               both = (is_datetime a1 \<and> is_datetime v1);
               a2 = (if both then naive a1 else a1); v2 = (if both then naive v1 else v1)
           in case py_cmp (op_text opr) a2 v2 of Inl err \<Rightarrow> Err err | Inr c \<Rightarrow> Ok (op_holds opr c))"

definition flag_fields :: "string list" where
  "flag_fields = [''deleted_by_sender'', ''deleted_by_recipient'', ''is_read'', ''is_draft'']"

definition eq_holds :: "string \<Rightarrow> cell \<Rightarrow> row \<Rightarrow> bool" where
  "eq_holds f v r =
     (if v = CBool False \<and> f \<in> set flag_fields then cell_in (field r f) [CBool False, CNone]
      else py_eq (field r f) v)"

text \<open>\<open>like\<close> and \<open>ilike\<close> drop every percent sign; a pattern that is not a string raises.\<close>

definition like_holds :: "cell \<Rightarrow> row \<Rightarrow> string \<Rightarrow> bool result" where
  "like_holds v r f =
     (case v of
        CStr p \<Rightarrow> Ok (in_str (py_lower (filter (\<lambda>c. c \<noteq> CHR ''%'') p)) (py_lower (cell_str (dget_or r f (CStr [])))))
      | _ \<Rightarrow> Err (CustomError ''AttributeError''
                (quoted (type_name v) @ '' object has no attribute '' @ quoted ''replace'')))"

definition compare_holds :: "string \<Rightarrow> string \<Rightarrow> cmp_op \<Rightarrow> cell \<Rightarrow> row \<Rightarrow> bool result" where
  "compare_holds m f opr v r =
     (case opr of
        OpEq \<Rightarrow> Ok (eq_holds f v r)
      | OpNe \<Rightarrow> Ok (\<not> py_eq (field r f) v)
      | OpLike \<Rightarrow> like_holds v r f
      | _ \<Rightarrow> order_holds m f opr (field r f) v)"

text \<open>A list comprehension whose condition may raise.\<close>

fun keep :: "('a \<Rightarrow> bool result) \<Rightarrow> 'a list \<Rightarrow> 'a list result" where
  "keep p [] = Ok []"
| "keep p (x # xs) =
     (case p x of
        Inl err \<Rightarrow> Err err
      | Inr b \<Rightarrow> (case keep p xs of Inl err \<Rightarrow> Err err | Inr ys \<Rightarrow> Ok (if b then x # ys else ys)))"

section \<open>Filters\<close>

definition row_in :: "row \<Rightarrow> row list \<Rightarrow> bool" where
  "row_in r rs = list_ex (\<lambda>q. py_eq (CDict r) (CDict q)) rs"

text \<open>
  A chain of \<open>|\<close> reads every clause with two sides as an equality; a query as the right side equals
  no value.
\<close>

fun bar_clause :: "clause \<Rightarrow> (row \<Rightarrow> bool) option" where
  "bar_clause (Compare f opr v) = Some (\<lambda>r. py_eq (field r f) v)"
| "bar_clause (InList f vs) = Some (\<lambda>r. py_eq (field r f) (CList vs))"
| "bar_clause (InQuery f m cs) = Some (\<lambda>r. False)"
| "bar_clause c = None"

fun bar_rows :: "row list \<Rightarrow> (row \<Rightarrow> bool) list \<Rightarrow> row list \<Rightarrow> row list" where
  "bar_rows base [] acc = acc"
| "bar_rows base (p # ps) acc = bar_rows base ps (acc @ filter (\<lambda>r. p r \<and> \<not> row_in r acc) base)"

text \<open>The field of a clause with two sides.\<close>

fun clause_field :: "clause \<Rightarrow> string option" where
  "clause_field (Compare f opr v) = Some f"
| "clause_field (InList f vs) = Some f"
| "clause_field (InQuery f m cs) = Some f"
| "clause_field c = None"

text \<open>
  A query on an attribute (\<open>query(Account.id)\<close>, model \<open>[]\<close>) has no rows until a filter on \<open>user_id\<close>
  makes it a query on accounts.
\<close>

definition infer_model :: "store \<Rightarrow> clause list \<Rightarrow> string \<times> row list \<Rightarrow> string \<times> row list" where
  "infer_model st cs q =
     (if fst q = [] \<and> snd q = [] \<and> Some ''user_id'' \<in> set (map clause_field cs)
      then (''Account'', st_tables st ''accounts'') else q)"

text \<open>A simple clause of \<open>or_\<close>: only equality adds rows.\<close>

fun or_simple :: "clause \<Rightarrow> row list \<Rightarrow> row list \<Rightarrow> row list" where
  "or_simple (Compare f OpEq v) rs acc = acc @ filter (\<lambda>r. eq_holds f v r \<and> \<not> row_in r acc) rs"
| "or_simple c rs acc = acc"

fun apply_clause :: "store \<Rightarrow> string \<Rightarrow> row list \<Rightarrow> clause \<Rightarrow> row list \<Rightarrow> row list result" where
  "apply_clause st m base (Compare f opr v) rs = keep (compare_holds m f opr v) rs"
| "apply_clause st m base (InList f vs) rs = Ok (filter (\<lambda>r. cell_in (field r f) vs) rs)"
| "apply_clause st m base (InQuery f m' cs) rs =
     (let q = infer_model st cs (m', rows_of st m')
      in case each_r (apply_clause st (fst q) (snd q)) cs (snd q) of
           Inl err \<Rightarrow> Err err
         | Inr qs \<Rightarrow> Ok (filter (\<lambda>r. cell_in (field r f) (map (\<lambda>q. field q ''id'') qs)) rs))"
| "apply_clause st m base (Bar cs) rs =
     (let ps = List.map_filter bar_clause cs
      in Ok (if ps = [] then rs else filter (\<lambda>r. row_in r (bar_rows base ps [])) rs))"
| "apply_clause st m base (OrC cs) rs =
     each_r (\<lambda>c acc.
        if clause_field c \<noteq> None then Ok (or_simple c rs acc)
        else let q = infer_model st [c] (m, rs)
             in case apply_clause st (fst q) (snd q) c (snd q) of
                  Inl err \<Rightarrow> Err err
                | Inr rs' \<Rightarrow> Ok (acc @ filter (\<lambda>r. \<not> row_in r acc) rs')) cs []"
| "apply_clause st m base (AndC cs) rs =
     each_r (\<lambda>c rs. let q = infer_model st [c] (m, rs) in apply_clause st (fst q) (snd q) c (snd q)) cs rs"
| "apply_clause st m base OtherC rs = Ok rs"

definition apply_filters :: "store \<Rightarrow> string \<Rightarrow> row list \<Rightarrow> clause list \<Rightarrow> row list result" where
  "apply_filters st m base cs = each_r (apply_clause st m base) cs base"

section \<open>The query object\<close>

text \<open>
  The model \<open>[]\<close> stands for a query on an attribute. Ordering by one field and by several are stored
  apart. An aggregate always runs over the transactions, because an attribute does not know its model.
\<close>

record query =
  qu_model :: string
  qu_filters :: "clause list"
  qu_by :: "(string \<times> bool) option" \<comment> \<open>field, descending?\<close>
  qu_many :: "(string \<times> bool) list"
  qu_limit :: "int option"
  qu_offset :: "int option"
  qu_agg :: "(string \<times> string) option" \<comment> \<open>function, field\<close>

definition new_query :: "string \<Rightarrow> query" where
  "new_query m = \<lparr>qu_model = m, qu_filters = [], qu_by = None, qu_many = [], qu_limit = None,
     qu_offset = None, qu_agg = None\<rparr>"

definition aggregate_query :: "string \<Rightarrow> string \<Rightarrow> query" where
  "aggregate_query fn f = (new_query ''Transaction'')\<lparr>qu_agg := Some (fn, f)\<rparr>"

definition filter_q :: "store \<Rightarrow> clause list \<Rightarrow> query \<Rightarrow> query" where
  "filter_q st cs q =
     q\<lparr>qu_model := fst (infer_model st cs (qu_model q, rows_of st (qu_model q))),
       qu_filters := qu_filters q @ cs\<rparr>"

definition filter_by :: "row \<Rightarrow> query \<Rightarrow> query" where
  "filter_by kw q = q\<lparr>qu_filters := qu_filters q @ map (\<lambda>(f, v). Compare f OpEq v) kw\<rparr>"

definition order_by :: "(string \<times> bool) list \<Rightarrow> query \<Rightarrow> query" where
  "order_by fs q =
     (case fs of
        [] \<Rightarrow> q
      | [f] \<Rightarrow> q\<lparr>qu_by := Some f\<rparr>
      | _ \<Rightarrow> q\<lparr>qu_many := fs\<rparr>)"

definition q_limit :: "int \<Rightarrow> query \<Rightarrow> query" where
  "q_limit n q = q\<lparr>qu_limit := Some n\<rparr>"

definition q_offset :: "int \<Rightarrow> query \<Rightarrow> query" where
  "q_offset n q = q\<lparr>qu_offset := Some n\<rparr>"

definition matching :: "store \<Rightarrow> query \<Rightarrow> row list result" where
  "matching st q = apply_filters st (qu_model q) (rows_of st (qu_model q)) (qu_filters q)"

section \<open>Ordering\<close>

text \<open>
  A sort key is a list of ranks: the kind of the value, then its number or its text. Two keys clash
  when Python cannot compare the first values in which they differ; then \<open>sorted\<close> raises (the text of
  the message depends on the pair it meets first and is not modelled, nor is sorting by a list).
\<close>

type_synonym rank = "nat \<times> rat \<times> string"

fun rank :: "cell \<Rightarrow> rank" where
  "rank CNone = (0, 0, [])"
| "rank (CBool b) = (1, if b then 1 else 0, [])"
| "rank (CInt i) = (1, of_int i, [])"
| "rank (CFloat x) = (1, x, [])"
| "rank (CStr s) = (2, 0, s)"
| "rank (CDate d) = (3, of_int d, [])"
| "rank (CTime z t) = (if z then 5 else 4, of_int t, [])"
| "rank (CList vs) = (6, 0, [])"
| "rank (CDict d) = (7, 0, [])"

fun clash :: "rank list \<Rightarrow> rank list \<Rightarrow> bool" where
  "clash (a # as) (b # bs) =
     (if a = b \<and> fst a < 6 then clash as bs else fst a \<noteq> fst b \<or> fst a = 0 \<or> 6 \<le> fst a)"
| "clash as bs = False"

fun any_clash :: "rank list list \<Rightarrow> bool" where
  "any_clash [] = False"
| "any_clash (k # ks) = (list_ex (clash k) ks \<or> any_clash ks)"

definition sorted_by :: "(row \<Rightarrow> rank list) \<Rightarrow> bool \<Rightarrow> row list \<Rightarrow> row list result" where
  "sorted_by k desc rs =
     (if any_clash (map k rs) then Err (TypeError ''values cannot be ordered'')
      else Ok (if desc then rev (sort_key k (rev rs)) else sort_key k rs))"

text \<open>One field: missing values and empty strings go last, in both directions.\<close>

definition one_key :: "string \<times> bool \<Rightarrow> row \<Rightarrow> rank list" where
  "one_key fd r =
     (let v = naive (at_time 0 (dget_or r (fst fd) (CStr [])));
          empty = (v = CNone \<or> v = CStr [])
      in [(1, if empty = snd fd then 0 else 1, []), rank v])"

text \<open>Several fields: only numbers are turned round for a descending one.\<close>

definition many_key :: "(string \<times> bool) list \<Rightarrow> row \<Rightarrow> rank list" where
  "many_key fs r =
     map (\<lambda>(f, desc).
        let v = dget_or r f (CStr []);
            v1 = (if v = CNone then CStr (if desc then ''zzzzz'' else []) else v)
        in case (desc, num_val v1) of
             (True, Some x) \<Rightarrow> rank (CFloat (- x))
           | _ \<Rightarrow> rank v1) fs"

definition apply_ordering :: "query \<Rightarrow> row list \<Rightarrow> row list result" where
  "apply_ordering q rs =
     (if qu_many q \<noteq> [] then sorted_by (many_key (qu_many q)) False rs
      else case qu_by q of
             None \<Rightarrow> Ok rs
           | Some fd \<Rightarrow> if fst fd = [] then Ok rs else sorted_by (one_key fd) (snd fd) rs)"

section \<open>Results\<close>

definition sliced :: "(int \<Rightarrow> 'a list \<Rightarrow> 'a list) \<Rightarrow> int option \<Rightarrow> 'a list \<Rightarrow> 'a list" where
  "sliced f n xs = (case n of None \<Rightarrow> xs | Some i \<Rightarrow> if i = 0 then xs else f i xs)"

definition ordered_rows :: "store \<Rightarrow> query \<Rightarrow> row list result" where
  "ordered_rows st q =
     (case matching st q of
        Inl err \<Rightarrow> Err err
      | Inr rs \<Rightarrow> (case apply_ordering q rs of
          Inl err \<Rightarrow> Err err | Inr rs' \<Rightarrow> Ok (sliced py_drop (qu_offset q) rs')))"

text \<open>\<open>first\<close> ignores the limit.\<close>

definition first_row :: "store \<Rightarrow> query \<Rightarrow> row option result" where
  "first_row st q =
     (case ordered_rows st q of
        Inl err \<Rightarrow> Err err
      | Inr rs \<Rightarrow> Ok (case rs of [] \<Rightarrow> None | r # _ \<Rightarrow> Some r))"

definition all_rows :: "store \<Rightarrow> query \<Rightarrow> row list result" where
  "all_rows st q =
     (case ordered_rows st q of Inl err \<Rightarrow> Err err | Inr rs \<Rightarrow> Ok (sliced py_take (qu_limit q) rs))"

definition q_count :: "store \<Rightarrow> query \<Rightarrow> nat result" where
  "q_count st q = (case matching st q of Inl err \<Rightarrow> Err err | Inr rs \<Rightarrow> Ok (length rs))"

definition get_row :: "store \<Rightarrow> query \<Rightarrow> cell \<Rightarrow> row option" where
  "get_row st q i = find (\<lambda>r. py_eq (field r ''id'') i) (rows_of st (qu_model q))"

section \<open>Bulk changes\<close>

definition put_rows :: "string \<Rightarrow> row list \<Rightarrow> store \<Rightarrow> store" where
  "put_rows m rs st = (case dget store_map m of None \<Rightarrow> st | Some t \<Rightarrow> put_table t rs st)"

fun remove_row :: "row \<Rightarrow> row list \<Rightarrow> row list" where
  "remove_row x [] = []"
| "remove_row x (r # rs) = (if py_eq (CDict r) (CDict x) then rs else r # remove_row x rs)"

definition delete_q :: "store \<Rightarrow> query \<Rightarrow> nat result \<times> store" where
  "delete_q st q =
     (case matching st q of
        Inl err \<Rightarrow> (Err err, st)
      | Inr xs \<Rightarrow> (Ok (length xs), put_rows (qu_model q) (fold remove_row xs (rows_of st (qu_model q))) st))"

definition set_fields :: "row \<Rightarrow> row \<Rightarrow> row" where
  "set_fields vs r = fold (\<lambda>(k, v) r. dset k v r) vs r"

text \<open>The first row of the identifier changes; the values do not change identifiers.\<close>

fun update_id :: "row \<Rightarrow> cell \<Rightarrow> row list \<Rightarrow> row list" where
  "update_id vs i [] = []"
| "update_id vs i (r # rs) =
     (if py_eq (field r ''id'') i then set_fields vs r # rs else r # update_id vs i rs)"

definition update_q :: "row \<Rightarrow> store \<Rightarrow> query \<Rightarrow> nat result \<times> store" where
  "update_q vs st q =
     (case matching st q of
        Inl err \<Rightarrow> (Err err, st)
      | Inr xs \<Rightarrow>
          (Ok (length xs),
           put_rows (qu_model q)
             (fold (\<lambda>x. update_id vs (field x ''id'')) xs (rows_of st (qu_model q))) st))"

section \<open>Aggregates\<close>

fun to_float :: "cell \<Rightarrow> rat" where
  "to_float (CInt i) = double (of_int i)"
| "to_float (CBool b) = (if b then 1 else 0)"
| "to_float (CFloat x) = x"
| "to_float c = 0"

definition py_add :: "cell \<Rightarrow> cell \<Rightarrow> cell result" where
  "py_add a b =
     (case (int_of_cell a, int_of_cell b) of
        (Some i, Some j) \<Rightarrow> Ok (CInt (i + j))
      | _ \<Rightarrow>
          if num_val a = None \<or> num_val b = None
          then Err (TypeError (''unsupported operand type(s) for +: '' @ quoted (type_name a) @ '' and '' @ quoted (type_name b)))
          else Ok (CFloat (double (to_float a + to_float b))))"

definition sum_field :: "string \<Rightarrow> row list \<Rightarrow> cell result" where
  "sum_field f rs =
     each_r (\<lambda>r tot. let v = dget_or r f (CInt 0) in py_add tot (if cell_true v then v else CInt 0)) rs (CInt 0)"

definition divide_by :: "nat \<Rightarrow> cell \<Rightarrow> cell" where
  "divide_by n c = (case c of CInt i \<Rightarrow> CFloat (double (of_int i / of_nat n)) | _ \<Rightarrow> CFloat (double (to_float c / of_nat n)))"

definition extreme :: "string \<Rightarrow> (int \<Rightarrow> bool) \<Rightarrow> string \<Rightarrow> row list \<Rightarrow> cell result" where
  "extreme opr better f rs =
     (case filter (\<lambda>v. v \<noteq> CNone) (map (\<lambda>r. field r f) rs) of
        [] \<Rightarrow> Ok CNone
      | v # vs \<Rightarrow>
          each_r (\<lambda>w m. case py_cmp opr w m of Inl err \<Rightarrow> Err err | Inr c \<Rightarrow> Ok (if better c then w else m)) vs v)"

definition scalar :: "store \<Rightarrow> query \<Rightarrow> cell result" where
  "scalar st q =
     (case matching st q of
        Inl err \<Rightarrow> Err err
      | Inr rs \<Rightarrow>
          (let other = Ok (case rs of ((k, v) # _) # _ \<Rightarrow> v | _ \<Rightarrow> CNone)
           in case qu_agg q of
                Some (fn, f) \<Rightarrow>
                  if fn = ''sum'' then sum_field f rs
                  else if fn = ''count'' then Ok (CInt (int (length rs)))
                  else if fn = ''avg'' then
                    (if rs = [] then Ok (CInt 0)
                     else case sum_field f rs of Inl err \<Rightarrow> Err err | Inr t \<Rightarrow> Ok (divide_by (length rs) t))
                  else if fn = ''max'' then extreme ''>'' (\<lambda>c. 0 < c) f rs
                  else if fn = ''min'' then extreme ''<'' (\<lambda>c. c < 0) f rs
                  else other
              | None \<Rightarrow> other))"

section \<open>Rows and identifiers\<close>

text \<open>Values without repeated keys; equality is reflexive on them.\<close>

fun cell_ok :: "cell \<Rightarrow> bool" where
  "cell_ok (CList vs) = list_all cell_ok vs"
| "cell_ok (CDict d) = (dict_ok d \<and> list_all (\<lambda>(k, v). cell_ok v) d)"
| "cell_ok c = True"

lemma py_eq_refl: "cell_ok c \<Longrightarrow> py_eq c c"
proof (induction c)
  case (CList vs)
  then show ?case by (auto simp: list_all_iff list.rel_refl_strong intro!: list.rel_refl_strong)
next
  case (CDict d)
  have "dget d k = Some v" if "(k, v) \<in> set d" for k v
    using CDict.prems that by (simp add: dict_ok_def)
  with CDict show ?case by (auto simp: list_all_iff)
qed simp_all

text \<open>A table as the store keeps it: integer identifiers, all different.\<close>

definition table_ok :: "row list \<Rightarrow> bool" where
  "table_ok rs = ((\<forall>r \<in> set rs. cell_ok (CDict r) \<and> (\<exists>n. field r ''id'' = CInt n))
     \<and> distinct (map (\<lambda>r. field r ''id'') rs))"

lemma row_eq_field:
  assumes "py_eq (CDict r) (CDict q)" "has_key r k"
  shows "py_eq (field r k) (field q k)"
proof -
  obtain v where v: "dget r k = Some v" using assms(2) by (auto simp: has_key_def)
  then have "(k, v) \<in> set r" by (rule map_of_SomeD)
  with assms(1) show ?thesis
    by (auto simp: list_all_iff v field_def dget_or_def split: option.splits)
qed

lemma table_row_eq:
  assumes "table_ok rs" "r \<in> set rs" "q \<in> set rs"
  shows "py_eq (CDict r) (CDict q) \<longleftrightarrow> r = q"
proof
  assume e: "py_eq (CDict r) (CDict q)"
  obtain n m where n: "field r ''id'' = CInt n" "field q ''id'' = CInt m"
    using assms unfolding table_ok_def by meson
  then have "has_key r ''id''" by (auto simp: field_def dget_or_def has_key_def split: option.splits)
  from row_eq_field [OF e this] have "field r ''id'' = field q ''id''" by (simp add: n)
  with assms show "r = q" unfolding table_ok_def by (metis (no_types, lifting) distinct_map inj_on_def)
next
  assume "r = q"
  with assms show "py_eq (CDict r) (CDict q)" using py_eq_refl unfolding table_ok_def by blast
qed

lemma row_in_table:
  assumes "table_ok rs" "r \<in> set rs" "set acc \<subseteq> set rs"
  shows "row_in r acc \<longleftrightarrow> r \<in> set acc"
  using assms(3) table_row_eq [OF assms(1,2)] by (auto simp: row_in_def list_ex_iff)

lemma table_ok_distinct: "table_ok rs \<Longrightarrow> distinct rs"
  by (simp add: table_ok_def distinct_map)

section \<open>What a filter means\<close>

text \<open>The rows a database would return, for one row at a time; comparisons are Python's.\<close>

fun means :: "string \<Rightarrow> clause \<Rightarrow> row \<Rightarrow> bool" where
  "means m (Compare f opr v) r = (compare_holds m f opr v r = Ok True)"
| "means m (InList f vs) r = cell_in (field r f) vs"
| "means m (InQuery f m' cs) r = False"
| "means m (Bar cs) r = list_ex (\<lambda>c. means m c r) cs"
| "means m (OrC cs) r = list_ex (\<lambda>c. means m c r) cs"
| "means m (AndC cs) r = list_all (\<lambda>c. means m c r) cs"
| "means m OtherC r = True"

text \<open>
  Where the adapter agrees with it: no subqueries, the alternatives of a disjunction are equalities
  (or, under \<open>or_\<close>, nested conditions).
\<close>

fun equality :: "clause \<Rightarrow> bool" where
  "equality (Compare f OpEq v) = (v \<noteq> CBool False \<or> f \<notin> set flag_fields)"
| "equality c = False"

fun plain :: "clause \<Rightarrow> bool" where
  "plain (InQuery f m cs) = False"
| "plain (Bar cs) = (cs \<noteq> [] \<and> list_all equality cs)"
| "plain (OrC cs) = list_all (\<lambda>c. equality c \<or> clause_field c = None \<and> plain c) cs"
| "plain (AndC cs) = list_all plain cs"
| "plain c = True"

lemma keep_Ok:
  assumes "keep p xs = Ok ys"
  shows "ys = filter (\<lambda>x. p x = Ok True) xs"
  using assms by (induction xs arbitrary: ys) (auto split: sum.splits)

lemma equality_cases:
  assumes "equality c"
  obtains f v where "c = Compare f OpEq v" "v \<noteq> CBool False \<or> f \<notin> set flag_fields"
  using assms by (cases c rule: equality.cases) auto

lemma infer_model_same [simp]: "m \<noteq> [] \<Longrightarrow> infer_model st cs (m, rs) = (m, rs)"
  by (simp add: infer_model_def)

text \<open>The two loops that collect alternatives.\<close>

lemma bar_rows_set:
  assumes T: "table_ok T" "set base \<subseteq> set T" "set acc \<subseteq> set base"
  shows "set (bar_rows base ps acc) = set acc \<union> {r \<in> set base. \<exists>p \<in> set ps. p r}"
  using assms(3)
proof (induction ps arbitrary: acc)
  case (Cons p ps)
  have s: "set (acc @ filter (\<lambda>r. p r \<and> \<not> row_in r acc) base) = set acc \<union> {r \<in> set base. p r}"
    using row_in_table [OF T(1)] T(2) Cons.prems by auto
  show ?case using Cons.IH [of "acc @ filter (\<lambda>r. p r \<and> \<not> row_in r acc) base"] Cons.prems s by auto
qed simp

lemma map_filter_equality:
  assumes "list_all equality cs"
  shows "(\<exists>p \<in> set (List.map_filter bar_clause cs). p r) \<longleftrightarrow> list_ex (\<lambda>c. means m c r) cs"
    and "List.map_filter bar_clause cs = [] \<longleftrightarrow> cs = []"
proof -
  have b: "\<exists>p. bar_clause c = Some p \<and> (\<forall>r. p r = means m c r)" if "equality c" for c
    using that by (elim equality_cases) (auto simp add: compare_holds_def eq_holds_def)
  have "((\<exists>p \<in> set (List.map_filter bar_clause cs). p r) \<longleftrightarrow> list_ex (\<lambda>c. means m c r) cs)
    \<and> (List.map_filter bar_clause cs = [] \<longleftrightarrow> cs = [])"
    using assms
  proof (induction cs)
    case (Cons c cs)
    from b [of c] Cons.prems obtain p where p: "bar_clause c = Some p" "\<And>r. p r = means m c r" by auto
    from Cons show ?case by (simp add: map_filter_simps p)
  qed (simp add: map_filter_simps)
  then show "(\<exists>p \<in> set (List.map_filter bar_clause cs). p r) \<longleftrightarrow> list_ex (\<lambda>c. means m c r) cs"
    "List.map_filter bar_clause cs = [] \<longleftrightarrow> cs = []" by blast+
qed

lemma or_step:
  assumes T: "table_ok T" "set rs \<subseteq> set T" "set acc \<subseteq> set rs" "distinct acc" "distinct rs"
    and "set rs' = {r \<in> set rs. p r}" "distinct rs'"
  shows "set (acc @ filter (\<lambda>r. \<not> row_in r acc) rs') = set acc \<union> {r \<in> set rs. p r}
    \<and> distinct (acc @ filter (\<lambda>r. \<not> row_in r acc) rs')"
proof -
  have i: "row_in r acc \<longleftrightarrow> r \<in> set acc" if "r \<in> set rs" for r
    using row_in_table [OF T(1), of r acc] that T(2,3) by blast
  have "r \<in> set rs' \<Longrightarrow> r \<in> set rs" for r using assms(6) by blast
  then show ?thesis using i assms by auto
qed

lemma apply_clause_plain:
  assumes "table_ok T" "m \<noteq> []" "plain c"
    and "set base \<subseteq> set T" "set rs \<subseteq> set base" "distinct rs"
    and "apply_clause st m base c rs = Ok rs'"
  shows "set rs' = {r \<in> set rs. means m c r} \<and> distinct rs'"
  using assms(3-)
proof (induction c arbitrary: base rs rs')
  case (Compare f opr v)
  then show ?case by (auto dest!: keep_Ok)
next
  case (Bar cs)
  then have cs: "cs \<noteq> []" "list_all equality cs" by auto
  have "set rs' = {r \<in> set rs. row_in r (bar_rows base (List.map_filter bar_clause cs) [])}" "distinct rs'"
    using Bar.prems map_filter_equality(2) [OF cs(2)] cs(1) by (auto simp: Let_def)
  moreover have "row_in r (bar_rows base (List.map_filter bar_clause cs) []) \<longleftrightarrow> means m (Bar cs) r"
    if r: "r \<in> set rs" for r
  proof -
    have b: "set (bar_rows base (List.map_filter bar_clause cs) [])
        = {r \<in> set base. list_ex (\<lambda>c. means m c r) cs}"
      using bar_rows_set [OF assms(1) Bar.prems(2), of "[]"] map_filter_equality(1) [OF cs(2)] by simp
    with r Bar.prems(2,3) show ?thesis
      by (subst row_in_table [OF assms(1)]) auto
  qed
  ultimately show ?case by blast
next
  case (OrC cs)
  let ?f = "\<lambda>c acc. if clause_field c \<noteq> None then Ok (or_simple c rs acc)
      else let q = infer_model st [c] (m, rs)
           in case apply_clause st (fst q) (snd q) c (snd q) of
                Inl err \<Rightarrow> Err err | Inr rs' \<Rightarrow> Ok (acc @ filter (\<lambda>r. \<not> row_in r acc) rs')"
  have rsT: "set rs \<subseteq> set T" using OrC.prems by blast
  have "set out = set acc \<union> {r \<in> set rs. list_ex (\<lambda>c. means m c r) ds} \<and> distinct out"
    if "each_r ?f ds acc = Ok out" "set ds \<subseteq> set cs" "set acc \<subseteq> set rs" "distinct acc" for ds acc out
    using that
  proof (induction ds arbitrary: acc)
    case (Cons d ds)
    then obtain acc1 where a: "?f d acc = Ok acc1" "each_r ?f ds acc1 = Ok out"
      by (auto split: sum.splits)
    have pd: "equality d \<or> clause_field d = None \<and> plain d"
      using OrC.prems(1) Cons.prems(2) by (auto simp: list_all_iff)
    have "set acc1 = set acc \<union> {r \<in> set rs. means m d r} \<and> distinct acc1"
    proof (cases "equality d")
      case True
      then obtain f v where d: "d = Compare f OpEq v" by (rule equality_cases)
      have "set (filter (eq_holds f v) rs) = {r \<in> set rs. means m d r}" "distinct (filter (eq_holds f v) rs)"
        using OrC.prems(4) by (auto simp: d compare_holds_def)
      note s = or_step [OF assms(1) rsT Cons.prems(3,4) OrC.prems(4) this]
      have "acc1 = acc @ filter (\<lambda>r. \<not> row_in r acc) (filter (eq_holds f v) rs)"
        using a(1) by (simp add: d filter_filter)
      with s show ?thesis by blast
    next
      case False
      with pd have c: "clause_field d = None" "plain d" by auto
      then obtain rs1 where r1: "apply_clause st m rs d rs = Ok rs1"
        "acc1 = acc @ filter (\<lambda>r. \<not> row_in r acc) rs1"
        using a(1) assms(2) by (auto simp: Let_def split: sum.splits)
      have "set rs1 = {r \<in> set rs. means m d r} \<and> distinct rs1"
        by (rule OrC.IH [of d rs]) (use Cons.prems(2) c r1 rsT OrC.prems(4) in auto)
      then show ?thesis using or_step [OF assms(1) rsT Cons.prems(3,4) OrC.prems(4)] r1(2) by blast
    qed
    moreover from this Cons.prems(3) have "set acc1 \<subseteq> set rs" by auto
    ultimately show ?case using Cons.IH [OF a(2)] Cons.prems(2) by auto
  qed simp
  from this [of cs "[]" rs'] OrC.prems(5) show ?case by simp
next
  case (AndC cs)
  let ?f = "\<lambda>c rs. let q = infer_model st [c] (m, rs) in apply_clause st (fst q) (snd q) c (snd q)"
  have "set out = {r \<in> set xs. list_all (\<lambda>c. means m c r) ds} \<and> distinct out"
    if "each_r ?f ds xs = Ok out" "set ds \<subseteq> set cs" "set xs \<subseteq> set T" "distinct xs" for ds xs out
    using that
  proof (induction ds arbitrary: xs)
    case (Cons d ds)
    then obtain ys where a: "apply_clause st m xs d xs = Ok ys" "each_r ?f ds ys = Ok out"
      using assms(2) by (auto simp: Let_def split: sum.splits)
    have "set ys = {r \<in> set xs. means m d r} \<and> distinct ys"
      by (rule AndC.IH [of d xs]) (use Cons.prems AndC.prems(1) a(1) in \<open>auto simp: list_all_iff\<close>)
    then show ?case using Cons.IH [OF a(2)] Cons.prems by auto
  qed simp
  from this [of cs rs rs'] AndC.prems show ?case by auto
qed auto

text \<open>Without \<open>or_\<close> the rows stay in the order of the table.\<close>

fun in_order :: "clause \<Rightarrow> bool" where
  "in_order (OrC cs) = False"
| "in_order (AndC cs) = list_all in_order cs"
| "in_order c = True"

lemma filter_ex: "\<exists>p. xs = filter p xs" "\<exists>p'. filter p xs = filter p' xs"
  by (rule exI [of _ "\<lambda>_. True"], simp) blast

lemma apply_clause_filter:
  assumes "m \<noteq> []" "in_order c" "apply_clause st m base c rs = Ok rs'"
  shows "\<exists>p. rs' = filter p rs"
  using assms(2-)
proof (induction c arbitrary: base rs rs')
  case (Compare f opr v)
  then show ?case by (auto dest: keep_Ok)
next
  case (Bar cs)
  then have "rs' = (if List.map_filter bar_clause cs = [] then rs
      else filter (\<lambda>r. row_in r (bar_rows base (List.map_filter bar_clause cs) [])) rs)"
    by (simp add: Let_def)
  then show ?case using filter_ex by (auto split: if_splits)
next
  case (AndC cs)
  let ?f = "\<lambda>c rs. let q = infer_model st [c] (m, rs) in apply_clause st (fst q) (snd q) c (snd q)"
  have "\<exists>p. out = filter p xs" if "each_r ?f ds xs = Ok out" "set ds \<subseteq> set cs" for ds xs out
    using that
  proof (induction ds arbitrary: xs)
    case Nil
    then show ?case using filter_ex(1) by auto
  next
    case (Cons d ds)
    then obtain ys where a: "apply_clause st m xs d xs = Ok ys" "each_r ?f ds ys = Ok out"
      using assms(1) by (auto simp: Let_def split: sum.splits)
    obtain p where "ys = filter p xs"
      using AndC.IH [of d xs xs ys] Cons.prems AndC.prems(1) a(1) by (auto simp: list_all_iff)
    moreover obtain p' where "out = filter p' ys" using Cons.IH [OF a(2)] Cons.prems by auto
    ultimately show ?case by auto
  qed
  with AndC.prems show ?case by auto
next
  case OtherC
  then show ?case using filter_ex(1) by auto
qed (auto split: sum.splits simp: Let_def)

lemma filters_plain:
  assumes "table_ok base" "m \<noteq> []" "list_all plain cs"
    and "set rs \<subseteq> set base" "distinct rs" "each_r (apply_clause st m base) cs rs = Ok rs'"
  shows "set rs' = {r \<in> set rs. list_all (\<lambda>c. means m c r) cs} \<and> distinct rs'"
  using assms(3-)
proof (induction cs arbitrary: rs)
  case (Cons c cs)
  then obtain ys where a: "apply_clause st m base c rs = Ok ys" "each_r (apply_clause st m base) cs ys = Ok rs'"
    by (auto split: sum.splits)
  have "set ys = {r \<in> set rs. means m c r} \<and> distinct ys"
    by (rule apply_clause_plain [OF assms(1,2) _ order_refl _ _ a(1)]) (use Cons.prems in auto)
  then show ?case using Cons.IH [OF _ _ _ a(2)] Cons.prems by auto
qed simp

lemma filters_filter:
  assumes "m \<noteq> []" "list_all in_order cs" "each_r (apply_clause st m base) cs rs = Ok rs'"
  shows "\<exists>p. rs' = filter p rs"
  using assms(2-)
proof (induction cs arbitrary: rs)
  case Nil
  then show ?case using filter_ex(1) by auto
next
  case (Cons c cs)
  then obtain ys where a: "apply_clause st m base c rs = Ok ys" "each_r (apply_clause st m base) cs ys = Ok rs'"
    by (auto split: sum.splits)
  from apply_clause_filter [OF assms(1) _ a(1)] Cons.prems(1) obtain p where "ys = filter p rs" by auto
  moreover obtain p' where "rs' = filter p' ys" using Cons.IH [OF _ a(2)] Cons.prems(1) by auto
  ultimately show ?case by auto
qed

section \<open>Properties\<close>


definition two_rows :: store where
  "two_rows = empty_store_of (\<lambda>t. if t = ''accounts''
     then [[(''id'', CInt 1), (''user_id'', CInt 7)], [(''id'', CInt 2), (''user_id'', CInt 8)]] else [])"

lemma rows_two_rows:
  "rows_of two_rows ''Account'' = [[(''id'', CInt 1), (''user_id'', CInt 7)], [(''id'', CInt 2), (''user_id'', CInt 8)]]"
  by (simp add: rows_of_def store_map_def two_rows_def empty_store_of_def)


text \<open>A value that ordering puts last.\<close>

definition blank_at :: "string \<Rightarrow> row \<Rightarrow> bool" where
  "blank_at f r = (dget_or r f (CStr []) = CNone \<or> dget_or r f (CStr []) = CStr [])"

lemma one_key_tag:
  "one_key (f, desc) r = [(1, if blank_at f r = desc then 0 else 1, []), rank (naive (at_time 0 (dget_or r f (CStr []))))]"
  by (cases "dget_or r f (CStr [])") (auto simp: one_key_def blank_at_def Let_def)

lemma sorted_by_spec:
  assumes "sorted_by k desc rs = Ok rs'"
  shows "mset rs' = mset rs"
    and "if desc then sorted (rev (map k rs')) else sorted (map k rs')"
    and "\<forall>x. filter (\<lambda>r. k r = x) rs' = filter (\<lambda>r. k r = x) rs"
proof -
  have r: "rs' = (if desc then rev (sort_key k (rev rs)) else sort_key k rs)"
    using assms by (auto simp: sorted_by_def split: if_splits)
  show "mset rs' = mset rs" by (simp add: r)
  show "if desc then sorted (rev (map k rs')) else sorted (map k rs')" by (simp add: r rev_map)
  show "\<forall>x. filter (\<lambda>r. k r = x) rs' = filter (\<lambda>r. k r = x) rs"
    by (auto simp: r sort_key_stable rev_filter [symmetric])
qed

text \<open>C18: Ordering by one field is a stable sort: the rows are rearranged, sorted by their rank in the
  direction asked for, rows of equal rank stay in the order they had (also when descending), and rows
  without a value come last in both directions.\<close>

theorem ordering_exact:
  assumes "apply_ordering q rs = Ok rs'" "qu_many q = []" "qu_by q = Some (f, desc)" "f \<noteq> []"
  shows "mset rs' = mset rs
    \<and> (if desc then sorted (rev (map (one_key (f, desc)) rs')) else sorted (map (one_key (f, desc)) rs'))
    \<and> (\<forall>k. filter (\<lambda>r. one_key (f, desc) r = k) rs' = filter (\<lambda>r. one_key (f, desc) r = k) rs)
    \<and> sorted_wrt (\<lambda>a b. blank_at f a \<longrightarrow> blank_at f b) rs'"
proof -
  let ?k = "one_key (f, desc)"
  have "sorted_by ?k desc rs = Ok rs'" using assms by (simp add: apply_ordering_def)
  note r = sorted_by_spec [OF this]
  have tag: "blank_at f b" if "blank_at f a" "if desc then ?k b \<le> ?k a else ?k a \<le> ?k b" for a b
    using that by (auto simp: one_key_tag split: if_splits)
  have "sorted_wrt (\<lambda>a b. if desc then ?k b \<le> ?k a else ?k a \<le> ?k b) rs'"
    using r(2) by (cases desc) (simp_all add: sorted_map sorted_wrt_rev rev_map)
  then have "sorted_wrt (\<lambda>a b. blank_at f a \<longrightarrow> blank_at f b) rs'"
    by (rule sorted_wrt_mono_rel [rotated]) (use tag in blast)
  with r show ?thesis by blast
qed

lemma ordering_exact_witness:
  "apply_ordering (order_by [(''name'', True)] (new_query ''User''))
     [[(''name'', CStr ''al'')], [], [(''name'', CStr ''bo'')]]
   = Ok [[(''name'', CStr ''bo'')], [(''name'', CStr ''al'')], []]
   \<and> sorted_wrt (\<lambda>a b. blank_at ''name'' a \<longrightarrow> blank_at ''name'' b)
       [[(''name'', CStr ''bo'')], [(''name'', CStr ''al'')], []]"
proof -
  let ?q = "order_by [(''name'', True)] (new_query ''User'')"
  have o: "apply_ordering ?q [[(''name'', CStr ''al'')], [], [(''name'', CStr ''bo'')]]
      = Ok [[(''name'', CStr ''bo'')], [(''name'', CStr ''al'')], []]" by code_simp
  have "qu_many ?q = []" "qu_by ?q = Some (''name'', True)" by (simp_all add: order_by_def new_query_def)
  from ordering_exact [OF o this] o show ?thesis by simp
qed

end
