(* ===== verification/Memory_Session.thy ===== *)
theory Memory_Session
  imports Memory_Query
begin

text \<open>
  Sessions over the in-memory store (MemorySession in backend storage/memory_adapter.py). A session
  holds the instances it made or loaded, in the order it got them, and the three lists of pending
  work; an instance is its position. Loading a row builds a new instance every time, copies the row
  into it and puts it on the list of updates, so \<open>commit\<close> writes back every instance that was loaded,
  changed or not, in the order of loading.
\<close>

section \<open>Instances\<close>

record obj =
  ob_class :: string
  ob_data :: row
  ob_orig :: "row option" \<comment> \<open>the loaded row; None for an instance made by the code\<close>

record session =
  se_objs :: "obj list"
  se_adds :: "nat list"
  se_updates :: "nat list"
  se_deletes :: "nat list"
  se_active :: bool

type_synonym ctx = "store \<times> session"

definition new_session :: session where
  "new_session = \<lparr>se_objs = [], se_adds = [], se_updates = [], se_deletes = [], se_active = True\<rparr>"

definition ob :: "session \<Rightarrow> nat \<Rightarrow> obj" where
  "ob se i = se_objs se ! i"

definition get_attr :: "session \<Rightarrow> nat \<Rightarrow> string \<Rightarrow> cell" where
  "get_attr se i k = field (ob_data (ob se i)) k"

definition put_data :: "nat \<Rightarrow> row \<Rightarrow> session \<Rightarrow> session" where
  "put_data i d se = se\<lparr>se_objs := (se_objs se)[i := (ob se i)\<lparr>ob_data := d\<rparr>]\<rparr>"

definition goal_money :: "string list" where
  "goal_money = [''current_amount'', ''target_amount'', ''auto_allocate_fixed_amount'']"

text \<open>Setting an attribute of a loaded instance makes it pending again after a commit.\<close>

definition set_attr :: "nat \<Rightarrow> string \<Rightarrow> cell \<Rightarrow> session \<Rightarrow> unit result \<times> session" where
  "set_attr i k v se =
     (case (if ob_class (ob se i) = ''Goal'' \<and> k \<in> set goal_money then format_money v else Ok v) of
        Inl err \<Rightarrow> (Err err, se)
      | Inr w \<Rightarrow>
          (let se1 = put_data i (dset k w (ob_data (ob se i))) se
           in (Ok (), if ob_orig (ob se i) \<noteq> None \<and> i \<notin> set (se_updates se)
                      then se1\<lparr>se_updates := se_updates se @ [i]\<rparr> else se1)))"

definition make_obj :: "env \<Rightarrow> string \<Rightarrow> row \<Rightarrow> ctx \<Rightarrow> nat result \<times> ctx" where
  "make_obj e cls kw c =
     (case new_object e cls kw (fst c) of
        (Inl err, st) \<Rightarrow> (Err err, (st, snd c))
      | (Inr d, st) \<Rightarrow>
          (Ok (length (se_objs (snd c))),
           (st, (snd c)\<lparr>se_objs := se_objs (snd c) @ [\<lparr>ob_class = cls, ob_data = d, ob_orig = None\<rparr>]\<rparr>)))"

definition se_add :: "nat \<Rightarrow> session \<Rightarrow> session" where
  "se_add i se = se\<lparr>se_adds := se_adds se @ [i]\<rparr>"

definition se_delete :: "nat \<Rightarrow> session \<Rightarrow> session" where
  "se_delete i se = se\<lparr>se_deletes := se_deletes se @ [i]\<rparr>"

section \<open>Loading\<close>

text \<open>Only these models are loaded as their own class; any other row becomes a \<open>BaseMemoryModel\<close>.\<close>

definition model_map :: "string list" where
  "model_map =
    [''User'', ''Account'', ''Transaction'', ''Category'', ''Budget'', ''Goal'', ''Notification'',
     ''Contact'', ''DirectMessage'', ''Log'', ''Merchant'', ''Card'', ''AuditLog'', ''LoginAttempt'',
     ''TransactionAnomaly'', ''SecurityIncident'', ''AccountLockout'', ''TrustedDevice'',
     ''TwoFactorAuth'']"

definition class_of :: "string \<Rightarrow> string" where
  "class_of m = (if m \<in> set model_map then m else ''BaseMemoryModel'')"

definition load :: "env \<Rightarrow> string \<Rightarrow> row \<Rightarrow> ctx \<Rightarrow> nat result \<times> ctx" where
  "load e m r c =
     (case new_object e (class_of m) r (fst c) of
        (Inl err, st) \<Rightarrow> (Err err, (st, snd c))
      | (Inr d, st) \<Rightarrow>
          (let i = length (se_objs (snd c))
           in (Ok i, (st, (snd c)\<lparr>se_objs := se_objs (snd c) @ [\<lparr>ob_class = class_of m, ob_data = d, ob_orig = Some r\<rparr>],
                           se_updates := se_updates (snd c) @ [i]\<rparr>))))"

fun load_list :: "env \<Rightarrow> string \<Rightarrow> row list \<Rightarrow> ctx \<Rightarrow> nat list result \<times> ctx" where
  "load_list e m [] c = (Ok [], c)"
| "load_list e m (r # rs) c =
     (case load e m r c of
        (Inl err, c') \<Rightarrow> (Err err, c')
      | (Inr i, c') \<Rightarrow>
          (case load_list (later 64 e) m rs c' of
             (Inl err, c2) \<Rightarrow> (Err err, c2)
           | (Inr is', c2) \<Rightarrow> (Ok (i # is'), c2)))"

definition q_all :: "env \<Rightarrow> query \<Rightarrow> ctx \<Rightarrow> nat list result \<times> ctx" where
  "q_all e q c =
     (case all_rows (fst c) q of Inl err \<Rightarrow> (Err err, c) | Inr rs \<Rightarrow> load_list e (qu_model q) rs c)"

definition load_option :: "env \<Rightarrow> string \<Rightarrow> row option \<Rightarrow> ctx \<Rightarrow> nat option result \<times> ctx" where
  "load_option e m r c =
     (case r of
        None \<Rightarrow> (Ok None, c)
      | Some x \<Rightarrow> (case load e m x c of (Inl err, c') \<Rightarrow> (Err err, c') | (Inr i, c') \<Rightarrow> (Ok (Some i), c')))"

definition q_first :: "env \<Rightarrow> query \<Rightarrow> ctx \<Rightarrow> nat option result \<times> ctx" where
  "q_first e q c =
     (case first_row (fst c) q of Inl err \<Rightarrow> (Err err, c) | Inr r \<Rightarrow> load_option e (qu_model q) r c)"

definition q_get :: "env \<Rightarrow> query \<Rightarrow> cell \<Rightarrow> ctx \<Rightarrow> nat option result \<times> ctx" where
  "q_get e q i c = load_option e (qu_model q) (get_row (fst c) q i) c"

section \<open>Commit\<close>

definition tablenames :: "(string \<times> string) list" where
  "tablenames =
    [(''User'', ''users''), (''Account'', ''accounts''), (''Transaction'', ''transactions''),
     (''Category'', ''categories''), (''Budget'', ''budgets''), (''Goal'', ''goals''),
     (''GoalContribution'', ''goal_contributions''), (''Notification'', ''notifications''),
     (''Contact'', ''contacts''), (''Conversation'', ''conversations''),
     (''ConversationParticipant'', ''conversation_participants''), (''Message'', ''messages''),
     (''MessageReadReceipt'', ''message_read_receipts''), (''RecurringRule'', ''recurring_rules''),
     (''Merchant'', ''merchants''), (''Note'', ''notes''), (''Card'', ''cards''),
     (''CardSpendingLimit'', ''card_spending_limits''), (''RoundUpConfig'', ''round_up_configs''),
     (''RoundUpTransaction'', ''round_up_transactions''), (''SavingsRule'', ''savings_rules''),
     (''SavingsChallenge'', ''savings_challenges''),
     (''ChallengeParticipant'', ''challenge_participants''), (''Subscription'', ''subscriptions''),
     (''SecurityEvent'', ''security_events''), (''PaymentMethod'', ''payment_methods''),
     (''TwoFactorAuth'', ''two_factor_auth''), (''UserDevice'', ''user_devices''),
     (''SecurityAuditLog'', ''security_audit_logs''), (''Log'', ''logs''),
     (''DirectMessage'', ''direct_messages''), (''CryptoWallet'', ''crypto_wallets''),
     (''CryptoAsset'', ''crypto_assets''), (''NFTAsset'', ''nft_assets''),
     (''CryptoTransaction'', ''crypto_transactions''), (''DeFiPosition'', ''defi_positions''),
     (''CreditScore'', ''credit_scores''), (''CreditSimulation'', ''credit_simulations''),
     (''CreditAlert'', ''credit_alerts''), (''CreditDispute'', ''credit_disputes''),
     (''CreditBuilderAccount'', ''credit_builder_accounts''),
     (''UnifiedBalance'', ''unified_balances''), (''AssetBridge'', ''asset_bridges''),
     (''ConversionRate'', ''conversion_rates''), (''CollateralPosition'', ''collateral_positions''),
     (''UnifiedTransaction'', ''unified_transactions''),
     (''MessageAttachment'', ''message_attachments''), (''MessageFolder'', ''message_folders''),
     (''BlockedUser'', ''blocked_users''), (''MessageSettings'', ''message_settings''),
     (''AuditLog'', ''audit_logs''), (''LoginAttempt'', ''login_attempts''),
     (''TransactionAnomaly'', ''transaction_anomalies''),
     (''SecurityIncident'', ''security_incidents''), (''AccountLockout'', ''account_lockouts''),
     (''TrustedDevice'', ''trusted_devices''), (''Invoice'', ''invoices''),
     (''ExpenseReport'', ''expense_reports''), (''Receipt'', ''receipts'')]"

definition table_map :: "(string \<times> string) list" where
  "table_map =
    [(''users'', ''users''), (''accounts'', ''accounts''), (''transactions'', ''transactions''),
     (''categories'', ''categories''), (''budgets'', ''budgets''), (''goals'', ''goals''),
     (''goal_contributions'', ''goal_contributions''), (''notifications'', ''notifications''),
     (''contacts'', ''contacts''), (''conversations'', ''conversations''),
     (''conversation_participants'', ''conversation_participants''), (''messages'', ''messages''),
     (''message_read_receipts'', ''message_read_receipts''), (''recurring_rules'', ''recurring_rules''),
     (''merchants'', ''merchants''), (''notes'', ''notes''), (''cards'', ''cards''),
     (''virtualcards'', ''cards''), (''subscriptions'', ''subscriptions''),
     (''security_events'', ''security_events''), (''payment_methods'', ''payment_methods''),
     (''bills'', ''bills''), (''credit_scores'', ''credit_scores''),
     (''social_connections'', ''social_connections''), (''p2p_transactions'', ''p2p_transactions''),
     (''investment_accounts'', ''investment_accounts''), (''holdings'', ''holdings''),
     (''alerts'', ''alerts''), (''analytics_events'', ''analytics_events''),
     (''bank_links'', ''bank_links''), (''plaid_accounts'', ''plaid_accounts''),
     (''transactions_sync_status'', ''transactions_sync_status''),
     (''linked_accounts'', ''linked_accounts''), (''credit_simulations'', ''credit_simulations''),
     (''two_factor_auth'', ''two_factor_auth''), (''user_devices'', ''user_devices''),
     (''security_audit_logs'', ''security_audit_logs''), (''spending_limits'', ''spending_limits''),
     (''card_spending_limits'', ''spending_limits''), (''round_up_configs'', ''round_up_configs''),
     (''round_up_transactions'', ''round_up_transactions''), (''savings_rules'', ''savings_rules''),
     (''savings_challenges'', ''savings_challenges''),
     (''challenge_participants'', ''challenge_participants''), (''invoices'', ''invoices''),
     (''expense_reports'', ''expense_reports''), (''receipts'', ''receipts''),
     (''cancellation_reminders'', ''cancellation_reminders''),
     (''direct_messages'', ''direct_messages''), (''message_attachments'', ''message_attachments''),
     (''message_folders'', ''message_folders''), (''blocked_users'', ''blocked_users''),
     (''message_settings'', ''message_settings''), (''logs'', ''logs''),
     (''audit_logs'', ''audit_logs''), (''login_attempts'', ''login_attempts''),
     (''transaction_anomalies'', ''transaction_anomalies''),
     (''security_incidents'', ''security_incidents''), (''account_lockouts'', ''account_lockouts''),
     (''trusted_devices'', ''trusted_devices''), (''crypto_wallets'', ''crypto_wallets''),
     (''crypto_assets'', ''crypto_assets''), (''crypto_transactions'', ''crypto_transactions''),
     (''nft_assets'', ''nft_assets''), (''defi_positions'', ''defi_positions''),
     (''asset_bridges'', ''asset_bridges''), (''collateral_positions'', ''collateral_positions''),
     (''credit_alerts'', ''credit_alerts''), (''credit_builder_accounts'', ''credit_builder_accounts''),
     (''credit_disputes'', ''credit_disputes'')]"

text \<open>The list a new row goes to: by the table name of its class, or by the keys it has.\<close>

definition guess_table :: "row \<Rightarrow> string option" where
  "guess_table d =
     (let has = (\<lambda>ks. \<forall>k \<in> set ks. has_key d k)
      in if has [''username'', ''email''] then Some ''users''
         else if has [''account_type'', ''balance''] then Some ''accounts''
         else if has [''amount'', ''transaction_type''] then Some ''transactions''
         else if has [''category_id'', ''amount'', ''period''] then Some ''budgets''
         else if has [''target_amount'', ''current_amount''] then Some ''goals''
         else if has [''type'', ''title'', ''message''] then Some ''notifications''
         else if has [''session_id'', ''action_type'', ''payload''] then Some ''logs''
         else None)"

definition target_table :: "string \<Rightarrow> row \<Rightarrow> string option" where
  "target_table cls d =
     (case dget tablenames cls of
        None \<Rightarrow> guess_table d
      | Some t \<Rightarrow> (case dget table_map t of None \<Rightarrow> guess_table d | Some u \<Rightarrow> Some u))"

definition add_to_store :: "string \<Rightarrow> row \<Rightarrow> store \<Rightarrow> store" where
  "add_to_store cls d st =
     (case target_table cls d of None \<Rightarrow> st | Some t \<Rightarrow> put_table t (st_tables st t @ [d]) st)"

definition commit_add :: "nat \<Rightarrow> ctx \<Rightarrow> ctx" where
  "commit_add i c =
     (let o' = ob (snd c) i;
          d = dset ''id'' (CInt (max_id (rows_of (fst c) (ob_class o')) + 1)) (ob_data o')
      in (add_to_store (ob_class o') d (fst c), put_data i d (snd c)))"

fun replace_row :: "cell \<Rightarrow> row \<Rightarrow> row list \<Rightarrow> row list" where
  "replace_row i d [] = []"
| "replace_row i d (r # rs) = (if py_eq (field r ''id'') i then d # rs else r # replace_row i d rs)"

definition stamped :: "time \<Rightarrow> row \<Rightarrow> row \<Rightarrow> row" where
  "stamped now orig d =
     (if \<not> has_key d ''updated_at'' \<or> py_eq (field d ''updated_at'') (field orig ''updated_at'')
      then dset ''updated_at'' (CTime True now) d else d)"

definition commit_update :: "time \<Rightarrow> obj \<Rightarrow> store \<Rightarrow> store" where
  "commit_update now o' st =
     (case ob_orig o' of
        None \<Rightarrow> st
      | Some orig \<Rightarrow>
          (let i = field (ob_data o') ''id''
           in if cell_true i
              then put_rows (ob_class o')
                     (replace_row i (stamped now orig (ob_data o')) (rows_of st (ob_class o'))) st
              else st))"

definition commit_delete :: "obj \<Rightarrow> store \<Rightarrow> store" where
  "commit_delete o' st =
     (let i = field (ob_data o') ''id''
      in if cell_true i
         then put_rows (ob_class o')
                (filter (\<lambda>r. \<not> py_eq (field r ''id'') i) (rows_of st (ob_class o'))) st
         else st)"

definition commit_adds :: "ctx \<Rightarrow> ctx" where
  "commit_adds c = fold commit_add (se_adds (snd c)) c"

definition commit_updates :: "env \<Rightarrow> session \<Rightarrow> store \<Rightarrow> store" where
  "commit_updates e se st =
     fold (\<lambda>(n, i). commit_update (clock e n) (ob se i)) (enumerate 0 (se_updates se)) st"

definition commit_deletes :: "session \<Rightarrow> store \<Rightarrow> store" where
  "commit_deletes se st = fold (\<lambda>i. commit_delete (ob se i)) (se_deletes se) st"

definition clear_pending :: "session \<Rightarrow> session" where
  "clear_pending se = se\<lparr>se_adds := [], se_updates := [], se_deletes := []\<rparr>"

definition commit :: "env \<Rightarrow> ctx \<Rightarrow> ctx" where
  "commit e c =
     (let (st, se) = commit_adds c
      in (commit_deletes se (commit_updates e se st), clear_pending se))"

definition rollback :: "session \<Rightarrow> session" where
  "rollback se = clear_pending se"

definition close_session :: "session \<Rightarrow> session" where
  "close_session se = se\<lparr>se_active := False\<rparr>"

text \<open>\<open>flush\<close> only gives an identifier to an instance that has none.\<close>

definition flush :: "ctx \<Rightarrow> session" where
  "flush c =
     fold (\<lambda>i se.
        if get_attr se i ''id'' = CNone
        then put_data i (dset ''id'' (CInt (max_id (rows_of (fst c) (ob_class (ob se i))) + 1)) (ob_data (ob se i))) se
        else se) (se_adds (snd c)) (snd c)"

definition refresh :: "nat \<Rightarrow> ctx \<Rightarrow> session" where
  "refresh i c =
     (let o' = ob (snd c) i; x = field (ob_data o') ''id''
      in if cell_true x \<and> has_key tablenames (ob_class o')
         then (case find (\<lambda>r. py_eq (field r ''id'') x) (rows_of (fst c) (ob_class o')) of
                 None \<Rightarrow> snd c | Some r \<Rightarrow> put_data i r (snd c))
         else snd c)"

section \<open>Rows by identifier\<close>

definition ids_ok :: "row list \<Rightarrow> bool" where
  "ids_ok rs = (\<forall>r \<in> set rs. \<exists>n. field r ''id'' = CInt n)"

definition row_at :: "row list \<Rightarrow> int \<Rightarrow> row option" where
  "row_at rs n = find (\<lambda>r. field r ''id'' = CInt n) rs"

lemma row_at_simps [simp]:
  "row_at [] n = None"
  "row_at (r # rs) n = (if field r ''id'' = CInt n then Some r else row_at rs n)"
  by (simp_all add: row_at_def)

lemma row_at_Some: "row_at rs n = Some r \<Longrightarrow> r \<in> set rs \<and> field r ''id'' = CInt n"
  by (induction rs) (auto split: if_splits)

lemma row_at_append: "row_at (rs @ rs') n = (case row_at rs n of None \<Rightarrow> row_at rs' n | Some r \<Rightarrow> Some r)"
  by (induction rs) auto

lemma ids_ok_simps [simp]:
  "ids_ok []" "ids_ok (r # rs) = ((\<exists>n. field r ''id'' = CInt n) \<and> ids_ok rs)"
  "ids_ok (rs @ rs') = (ids_ok rs \<and> ids_ok rs')"
  by (auto simp: ids_ok_def)

lemma replace_row_at:
  assumes "ids_ok rs" "field d ''id'' = CInt k"
  shows "row_at (replace_row (CInt k) d rs) n = (if n = k \<and> row_at rs k \<noteq> None then Some d else row_at rs n)"
  using assms by (induction rs) (auto simp: py_eq_CInt)

lemma replace_row_ids:
  assumes "ids_ok rs" "field d ''id'' = CInt k"
  shows "map (\<lambda>r. field r ''id'') (replace_row (CInt k) d rs) = map (\<lambda>r. field r ''id'') rs"
    and "ids_ok (replace_row (CInt k) d rs)"
  using assms by (induction rs) auto

lemma stamped_field [simp]: "k \<noteq> ''updated_at'' \<Longrightarrow> field (stamped now orig d) k = field d k"
  by (simp add: stamped_def)

lemma put_rows_tables:
  "st_tables (put_rows m rs st) t = (if dget store_map m = Some t then rs else st_tables st t)"
  by (auto simp: put_rows_def split: option.splits)

lemma rows_of_table: "dget store_map m = Some t \<Longrightarrow> rows_of st m = st_tables st t"
  by (simp add: rows_of_def)

section \<open>What a commit writes\<close>

text \<open>Instance i is written to row n of table t.\<close>

definition writes_to :: "session \<Rightarrow> string \<Rightarrow> int \<Rightarrow> nat \<Rightarrow> bool" where
  "writes_to se t n i =
     (ob_orig (ob se i) \<noteq> None \<and> dget store_map (ob_class (ob se i)) = Some t
      \<and> field (ob_data (ob se i)) ''id'' = CInt n \<and> n \<noteq> 0)"

definition written :: "env \<Rightarrow> session \<Rightarrow> nat \<times> nat \<Rightarrow> row" where
  "written e se p = stamped (clock e (fst p)) (the (ob_orig (ob se (snd p)))) (ob_data (ob se (snd p)))"

definition int_objs :: "session \<Rightarrow> bool" where
  "int_objs se = (\<forall>i \<in> set (se_updates se). \<exists>n. field (ob_data (ob se i)) ''id'' = CInt n)"

definition run_updates :: "env \<Rightarrow> session \<Rightarrow> (nat \<times> nat) list \<Rightarrow> store \<Rightarrow> store" where
  "run_updates e se ps st = fold (\<lambda>(k, i). commit_update (clock e k) (ob se i)) ps st"

lemma commit_update_table:
  assumes "field (ob_data (ob se i)) ''id'' = CInt k"
  shows "st_tables (commit_update (clock e j) (ob se i) st) t =
    (if writes_to se t k i then replace_row (CInt k) (written e se (j, i)) (st_tables st t) else st_tables st t)"
  using assms
  by (auto simp: commit_update_def writes_to_def written_def put_rows_tables rows_of_table Let_def
      split: option.split)

lemma written_id: "field (written e se p) ''id'' = field (ob_data (ob se (snd p))) ''id''"
  by (simp add: written_def)

text \<open>The last write to a row decides; no row is added or moved.\<close>

lemma run_updates_row:
  assumes "ids_ok (st_tables st t)" "\<forall>p \<in> set ps. \<exists>k. field (ob_data (ob se (snd p))) ''id'' = CInt k"
  shows "ids_ok (st_tables (run_updates e se ps st) t)
    \<and> map (\<lambda>r. field r ''id'') (st_tables (run_updates e se ps st) t) = map (\<lambda>r. field r ''id'') (st_tables st t)
    \<and> row_at (st_tables (run_updates e se ps st) t) n =
       (let ws = filter (\<lambda>p. writes_to se t n (snd p)) ps
        in if ws = [] \<or> row_at (st_tables st t) n = None then row_at (st_tables st t) n
           else Some (written e se (last ws)))"
  using assms(2)
proof (induction ps rule: rev_induct)
  case Nil
  then show ?case using assms(1) by (simp add: run_updates_def)
next
  case (snoc p ps)
  obtain j i where p: "p = (j, i)" by (cases p)
  let ?st = "run_updates e se ps st"
  from snoc have ih: "ids_ok (st_tables ?st t)"
    "map (\<lambda>r. field r ''id'') (st_tables ?st t) = map (\<lambda>r. field r ''id'') (st_tables st t)"
    "row_at (st_tables ?st t) n =
       (let ws = filter (\<lambda>p. writes_to se t n (snd p)) ps
        in if ws = [] \<or> row_at (st_tables st t) n = None then row_at (st_tables st t) n
           else Some (written e se (last ws)))" by auto
  obtain k where k: "field (ob_data (ob se i)) ''id'' = CInt k" using snoc.prems by (auto simp: p)
  have run: "st_tables (run_updates e se (ps @ [p]) st) t =
      (if writes_to se t k i then replace_row (CInt k) (written e se (j, i)) (st_tables ?st t) else st_tables ?st t)"
    by (simp add: run_updates_def p commit_update_table [OF k])
  have w: "writes_to se t n i \<longleftrightarrow> writes_to se t k i \<and> n = k" using k by (auto simp: writes_to_def)
  have wid: "field (written e se (j, i)) ''id'' = CInt k" by (simp add: written_id k)
  note r = replace_row_at [OF ih(1) wid, of n] replace_row_ids [OF ih(1) wid]
  show ?case
  proof (cases "writes_to se t k i")
    case True
    then show ?thesis unfolding run using r ih w by (auto simp: p Let_def split: if_splits)
  next
    case False
    then show ?thesis unfolding run using ih w by (simp add: p)
  qed
qed

lemma commit_no_adds:
  assumes "se_adds se = []"
  shows "fst (commit e (st, se)) = commit_deletes se (run_updates e se (enumerate 0 (se_updates se)) st)"
  using assms by (simp add: commit_def commit_adds_def commit_updates_def run_updates_def)

lemma run_updates_enumerate:
  assumes "ids_ok (st_tables st t)" "int_objs se"
  shows "row_at (st_tables (run_updates e se (enumerate 0 (se_updates se)) st) t) n =
       (let ws = filter (\<lambda>p. writes_to se t n (snd p)) (enumerate 0 (se_updates se))
        in if ws = [] \<or> row_at (st_tables st t) n = None then row_at (st_tables st t) n
           else Some (written e se (last ws)))"
    and "map (\<lambda>r. field r ''id'') (st_tables (run_updates e se (enumerate 0 (se_updates se)) st) t)
       = map (\<lambda>r. field r ''id'') (st_tables st t)"
proof -
  have "\<forall>p \<in> set (enumerate 0 (se_updates se)). \<exists>k. field (ob_data (ob se (snd p))) ''id'' = CInt k"
    using assms(2) by (auto simp: int_objs_def in_set_enumerate_eq)
  note r = run_updates_row [OF assms(1) this, of e n]
  show "row_at (st_tables (run_updates e se (enumerate 0 (se_updates se)) st) t) n =
       (let ws = filter (\<lambda>p. writes_to se t n (snd p)) (enumerate 0 (se_updates se))
        in if ws = [] \<or> row_at (st_tables st t) n = None then row_at (st_tables st t) n
           else Some (written e se (last ws)))"
    "map (\<lambda>r. field r ''id'') (st_tables (run_updates e se (enumerate 0 (se_updates se)) st) t)
       = map (\<lambda>r. field r ''id'') (st_tables st t)"
    using r by blast+
qed

lemma filter_enumerate:
  "map snd (filter (\<lambda>p. P (snd p)) (enumerate k xs)) = filter P xs"
proof -
  have "filter P (map snd (enumerate k xs)) = map snd (filter (P \<circ> snd) (enumerate k xs))" by (rule filter_map)
  then show ?thesis by (simp add: comp_def)
qed

lemma last_filter_enumerate:
  assumes "filter (\<lambda>p. P (snd p)) (enumerate k xs) \<noteq> []"
  shows "snd (last (filter (\<lambda>p. P (snd p)) (enumerate k xs))) = last (filter P xs)"
  using assms filter_enumerate [of P k xs] last_map [OF assms, of snd] by simp

text \<open>Changing data of an instance that keeps its identifier does not change what is written where.\<close>

lemma ob_put_data:
  "ob (put_data i d se) j = (if j = i \<and> i < length (se_objs se) then (ob se i)\<lparr>ob_data := d\<rparr> else ob se j)"
  by (cases "i < length (se_objs se)") (auto simp: ob_def put_data_def nth_list_update list_update_beyond)

lemma put_data_simps [simp]:
  "se_adds (put_data i d se) = se_adds se" "se_updates (put_data i d se) = se_updates se"
  "se_deletes (put_data i d se) = se_deletes se" "length (se_objs (put_data i d se)) = length (se_objs se)"
  by (simp_all add: put_data_def)

lemma set_attr_tracked:
  assumes "i \<in> set (se_updates se)" "set_attr i k v se = (Ok (), se')"
  shows "\<exists>w. se' = put_data i (dset k w (ob_data (ob se i))) se"
proof -
  let ?r = "if ob_class (ob se i) = ''Goal'' \<and> k \<in> set goal_money then format_money v else Ok v"
  obtain w where "?r = Ok w" using assms(2) by (cases ?r) (auto simp: set_attr_def)
  then have "set_attr i k v se = (Ok (), put_data i (dset k w (ob_data (ob se i))) se)"
    unfolding set_attr_def by (simp add: Let_def assms(1))
  with assms(2) show ?thesis by auto
qed

lemma put_data_writes:
  assumes "field d ''id'' = field (ob_data (ob se i)) ''id''"
  shows "writes_to (put_data i d se) t n j = writes_to se t n j"
    and "int_objs (put_data i d se) = int_objs se"
    and "snd p \<noteq> i \<Longrightarrow> written e (put_data i d se) p = written e se p"
  using assms by (auto simp: writes_to_def ob_put_data int_objs_def written_def)

lemma last_filter_after:
  assumes "P j" shows "last (filter P (us @ j # vs)) \<in> set (j # vs)"
proof -
  have "last (filter P (us @ j # vs)) = last (filter P (j # vs))" using assms by simp
  moreover have "last (filter P (j # vs)) \<in> set (filter P (j # vs))" using assms by (intro last_in_set) simp
  ultimately show ?thesis by (metis filter_is_subset subsetD)
qed

section \<open>Properties\<close>

text \<open>C16: Commit writes back every loaded instance, and the last one wins: after a commit without additions
  and deletions the table has the same identifiers in the same order, a row no instance of the session
  stands for is unchanged, and any other row holds, in every field but \<open>updated_at\<close>, the data of the
  instance of it that comes last on the list of updates, whichever of them was changed.\<close>

theorem last_instance_wins:
  assumes "se_adds se = []" "se_deletes se = []" "ids_ok (st_tables st t)" "int_objs se"
    and "row_at (st_tables st t) n = Some r"
  shows "map (\<lambda>r. field r ''id'') (st_tables (fst (commit e (st, se))) t) = map (\<lambda>r. field r ''id'') (st_tables st t)
    \<and> (\<exists>r'. row_at (st_tables (fst (commit e (st, se))) t) n = Some r'
        \<and> (if filter (writes_to se t n) (se_updates se) = [] then r' = r
           else \<forall>f. f \<noteq> ''updated_at'' \<longrightarrow>
             field r' f = field (ob_data (ob se (last (filter (writes_to se t n) (se_updates se))))) f))"
proof -
  let ?st' = "run_updates e se (enumerate 0 (se_updates se)) st"
  let ?ws = "filter (\<lambda>p. writes_to se t n (snd p)) (enumerate 0 (se_updates se))"
  have c: "fst (commit e (st, se)) = ?st'"
    using assms(2) by (simp add: commit_no_adds [OF assms(1)] commit_deletes_def)
  note u = run_updates_enumerate [OF assms(3,4)]
  have "map snd ?ws = filter (writes_to se t n) (se_updates se)" by (rule filter_enumerate)
  then have empty: "?ws = [] \<longleftrightarrow> filter (writes_to se t n) (se_updates se) = []" by (metis map_is_Nil_conv)
  have "\<exists>r'. row_at (st_tables ?st' t) n = Some r'
        \<and> (if filter (writes_to se t n) (se_updates se) = [] then r' = r
           else \<forall>f. f \<noteq> ''updated_at'' \<longrightarrow>
             field r' f = field (ob_data (ob se (last (filter (writes_to se t n) (se_updates se))))) f)"
  proof (cases "?ws = []")
    case True
    then show ?thesis using u(1) [of e n] assms(5) empty by (simp add: Let_def)
  next
    case False
    then have "row_at (st_tables ?st' t) n = Some (written e se (last ?ws))"
      using u(1) [of e n] assms(5) by (simp add: Let_def)
    with False empty last_filter_enumerate [OF False] show ?thesis by (simp add: written_def)
  qed
  then show ?thesis unfolding c using u(2) [of e] by blast
qed

text \<open>Two instances of one row do not see each other: if a session has loaded a row twice, every change
  made to an instance that is not the last of its row is lost. The commit leaves every row of every
  table as it would have been without the change.\<close>

theorem earlier_change_lost:
  assumes "set_attr i k v se = (Ok (), se')" "k \<noteq> ''id''"
    and "se_updates se = us @ j # vs" "i \<in> set us" "i \<notin> set (j # vs)" "i < length (se_objs se)"
    and "writes_to se t n i" "writes_to se t n j"
    and "se_adds se = []" "se_deletes se = []" "int_objs se" "\<forall>u. ids_ok (st_tables st u)"
  shows "row_at (st_tables (fst (commit e (st, se'))) u) m = row_at (st_tables (fst (commit e (st, se))) u) m"
proof -
  from set_attr_tracked [OF _ assms(1)] assms(3,4)
  obtain w where se': "se' = put_data i (dset k w (ob_data (ob se i))) se" by auto
  have id: "field (dset k w (ob_data (ob se i))) ''id'' = field (ob_data (ob se i)) ''id''" using assms(2) by simp
  note w = put_data_writes [OF id, folded se']
  have upd: "se_adds se' = []" "se_deletes se' = []" "se_updates se' = se_updates se"
    using assms(9,10) by (simp_all add: se')
  let ?ws = "filter (\<lambda>p. writes_to se u m (snd p)) (enumerate 0 (se_updates se))"
  have c: "fst (commit e (st, se)) = run_updates e se (enumerate 0 (se_updates se)) st"
    "fst (commit e (st, se')) = run_updates e se' (enumerate 0 (se_updates se)) st"
    using assms(10) upd by (simp_all add: commit_no_adds assms(9) commit_deletes_def)
  have "written e se' (last ?ws) = written e se (last ?ws)" if ne: "?ws \<noteq> []"
  proof (rule w(3), rule notI)
    assume l: "snd (last ?ws) = i"
    have "last ?ws \<in> set ?ws" by (rule last_in_set [OF ne])
    with l have "writes_to se u m i" by auto
    with assms(7,8) have "writes_to se u m j" by (auto simp: writes_to_def)
    from last_filter_after [where P = "writes_to se u m", OF this, of us vs] assms(3,5)
      last_filter_enumerate [OF ne] l show False by simp
  qed
  moreover have "ids_ok (st_tables st u)" "int_objs se" "int_objs se'" using assms(11,12) w(2) by auto
  ultimately show ?thesis
    unfolding c using run_updates_enumerate(1) [of st u se e m] run_updates_enumerate(1) [of st u se' e m]
    by (simp add: Let_def w(1) upd(3))
qed

text \<open>Edits of the loaded instances of a request.\<close>

datatype edit = EditAttr nat string cell | EditDelete nat

fun edit_index :: "edit \<Rightarrow> nat" where
  "edit_index (EditAttr i k v) = i"
| "edit_index (EditDelete i) = i"

fun run_edit :: "edit \<Rightarrow> session \<Rightarrow> session" where
  "run_edit (EditAttr i k v) se = snd (set_attr i k v se)"
| "run_edit (EditDelete i) se = se_delete i se"

text \<open>A session that only knows instances of \<open>BaseMemoryModel\<close>.\<close>

definition base_only :: "session \<Rightarrow> bool" where
  "base_only se = (se_adds se = [] \<and> (\<forall>x \<in> set (se_objs se). ob_class x = ''BaseMemoryModel'')
     \<and> (\<forall>i \<in> set (se_updates se) \<union> set (se_deletes se). i < length (se_objs se)))"

lemma set_attr_objs:
  "length (se_objs (snd (set_attr i k v se))) = length (se_objs se)"
  "base_only se \<Longrightarrow> i < length (se_objs se) \<Longrightarrow> base_only (snd (set_attr i k v se))"
  by (auto simp: set_attr_def Let_def put_data_def base_only_def ob_def dest!: set_update_subset_insert [THEN subsetD]
      split: sum.split)

lemma run_edits_base:
  assumes "base_only se" "\<forall>x \<in> set es. edit_index x < length (se_objs se)"
  shows "base_only (fold run_edit es se)"
  using assms
proof (induction es arbitrary: se)
  case (Cons x es)
  have "base_only (run_edit x se) \<and> length (se_objs (run_edit x se)) = length (se_objs se)"
  proof (cases x)
    case (EditAttr i k v)
    then show ?thesis using Cons.prems set_attr_objs [where se = se and i = i and k = k and v = v] by simp
  next
    case (EditDelete i)
    then show ?thesis using Cons.prems by (simp add: base_only_def se_delete_def)
  qed
  with Cons.IH [of "run_edit x se"] Cons.prems show ?case by simp
qed simp

lemma load_Ok:
  assumes "load e m r c = (Ok i, c')"
  obtains d st where "new_object e (class_of m) r (fst c) = (Ok d, st)" "i = length (se_objs (snd c))"
    "c' = (st, (snd c)\<lparr>se_objs := se_objs (snd c) @ [\<lparr>ob_class = class_of m, ob_data = d, ob_orig = Some r\<rparr>],
        se_updates := se_updates (snd c) @ [i]\<rparr>)"
  using assms by (auto simp: load_def Let_def split: prod.splits sum.splits)

lemma load_list_base:
  assumes "load_list e m rs c = (Ok is', c')" "m \<notin> set model_map" "base_only (snd c)"
  shows "base_only (snd c') \<and> st_tables (fst c') = st_tables (fst c)
    \<and> length (se_objs (snd c')) = length (se_objs (snd c)) + length is'"
  using assms(1,3)
proof (induction rs arbitrary: e c is')
  case (Cons r rs)
  obtain i c1 is2 where l: "load e m r c = (Ok i, c1)" "load_list (later 64 e) m rs c1 = (Ok is2, c')" "is' = i # is2"
    using Cons.prems(1) by (auto split: prod.splits sum.splits)
  obtain d st where d: "new_object e (class_of m) r (fst c) = (Ok d, st)" and i: "i = length (se_objs (snd c))"
    and c1: "c1 = (st, (snd c)\<lparr>se_objs := se_objs (snd c) @ [\<lparr>ob_class = class_of m, ob_data = d, ob_orig = Some r\<rparr>],
        se_updates := se_updates (snd c) @ [i]\<rparr>)"
    using load_Ok [OF l(1)] by metis
  have "\<forall>k \<in> set (se_updates (snd c)) \<union> set (se_deletes (snd c)). k < Suc (length (se_objs (snd c)))"
    using Cons.prems(2) unfolding base_only_def by (meson less_SucI)
  then have "base_only (snd c1)"
    using Cons.prems(2) assms(2) by (auto simp: c1 i base_only_def class_of_def)
  moreover have "st_tables (fst c1) = st_tables (fst c)" using new_object_facts(1) [OF d] by (simp add: c1)
  ultimately have "base_only (snd c1) \<and> st_tables (fst c1) = st_tables (fst c)
      \<and> length (se_objs (snd c1)) = Suc (length (se_objs (snd c)))" by (simp add: c1)
  with Cons.IH [OF l(2)] l(3) show ?case by auto
qed simp

lemma commit_base:
  assumes "base_only se"
  shows "fst (commit e (st, se)) = st"
proof -
  have none: "put_rows ''BaseMemoryModel'' rs st = st" for rs st
    by (simp add: put_rows_def store_map_def)
  have cls: "ob_class (ob se i) = ''BaseMemoryModel''" if "i \<in> set (se_updates se) \<union> set (se_deletes se)" for i
    using assms that by (auto simp: base_only_def ob_def)
  have "commit_update t (ob se i) st = st" if "i \<in> set (se_updates se)" for t i st
    using cls [of i] that none by (simp add: commit_update_def Let_def split: option.split)
  then have u: "run_updates e se ps st = st" if "snd ` set ps \<subseteq> set (se_updates se)" for ps
    using that by (induction ps) (auto simp: run_updates_def)
  have "commit_delete (ob se i) st = st" if "i \<in> set (se_deletes se)" for i st
    using cls [of i] that none by (simp add: commit_delete_def Let_def)
  then have d: "fold (\<lambda>i. commit_delete (ob se i)) is' st = st" if "set is' \<subseteq> set (se_deletes se)" for is'
    using that by (induction is') auto
  have "run_updates e se (enumerate 0 (se_updates se)) st = st" by (rule u) (auto simp: in_set_enumerate_eq)
  then show ?thesis using assms d [OF order_refl]
    by (simp add: commit_no_adds base_only_def commit_deletes_def)
qed

text \<open>Changes to rows of an unmapped model are silently lost: whatever a request does to the instances
  it got from a query of a model outside \<open>model_map\<close> (subscriptions, goal contributions, invoices and
  many more), setting attributes or deleting them, its commit leaves every table as it was, because the
  instances are \<open>BaseMemoryModel\<close>s, which have no table.\<close>

theorem unmapped_changes_lost:
  assumes "qu_model q \<notin> set model_map" "q_all e q (st, new_session) = (Ok is', (st1, se))"
    and "\<forall>x \<in> set es. edit_index x < length is'"
  shows "st_tables (fst (commit e' (st1, fold run_edit es se))) = st_tables st"
proof -
  obtain rs where l: "load_list e (qu_model q) rs (st, new_session) = (Ok is', (st1, se))"
    using assms(2) by (auto simp: q_all_def split: sum.splits)
  have "base_only (snd (st, new_session))" by (simp add: base_only_def new_session_def)
  from load_list_base [OF l assms(1) this] have b: "base_only se" "st_tables st1 = st_tables st"
    "length (se_objs se) = length is'" by (simp_all add: new_session_def)
  have "base_only (fold run_edit es se)" by (rule run_edits_base) (use b assms(3) in auto)
  from commit_base [OF this] b(2) show ?thesis by simp
qed

text \<open>Classes whose new rows go to the table their identifiers are taken from.\<close>

definition regular :: "string \<Rightarrow> string \<Rightarrow> bool" where
  "regular cls t = (dget store_map cls = Some t
     \<and> (case dget tablenames cls of None \<Rightarrow> False | Some tn \<Rightarrow> dget table_map tn = Some t))"

definition unique_ids :: "row list \<Rightarrow> bool" where
  "unique_ids rs = (ids_ok rs \<and> distinct (map (\<lambda>r. field r ''id'') rs))"

lemma fold_max_ge: "(i :: int) \<le> fold max is' i" "j \<in> set is' \<Longrightarrow> j \<le> fold max is' i"
proof (induction is' arbitrary: i)
  case (Cons k is')
  { case 1 show ?case using Cons.IH(1) [of "max k i"] by simp }
  { case 2
    show ?case
    proof (cases "j = k")
      case True
      then show ?thesis using Cons.IH(1) [of "max k i"] by simp
    next
      case False
      then show ?thesis using Cons.IH(2) [of "max k i"] 2 by simp
    qed }
qed simp_all

lemma max_id_ge:
  assumes "r \<in> set rs" "field r ''id'' = CInt n"
  shows "n \<le> max_id rs"
proof -
  have "n \<in> set (int_ids rs)" using assms by (force simp: int_ids_def map_filter_def)
  then show ?thesis using fold_max_ge by (auto simp: max_id_def split: list.split)
qed

lemma add_regular:
  assumes "regular cls t"
  shows "st_tables (add_to_store cls d st) u = (if u = t then st_tables st t @ [d] else st_tables st u)"
  using assms by (auto simp: add_to_store_def target_table_def regular_def split: option.splits)

lemma commit_add_facts:
  assumes "regular (ob_class (ob se i)) t"
  shows "fst (commit_add i (st, se)) = add_to_store (ob_class (ob se i))
      (dset ''id'' (CInt (max_id (st_tables st t) + 1)) (ob_data (ob se i))) st"
    and "snd (commit_add i (st, se)) = put_data i (dset ''id'' (CInt (max_id (st_tables st t) + 1)) (ob_data (ob se i))) se"
  using assms by (simp_all add: commit_add_def Let_def regular_def rows_of_table)

lemma commit_add_class [simp]: "ob_class (ob (snd (commit_add i c)) j) = ob_class (ob (snd c) j)"
  "se_adds (snd (commit_add i c)) = se_adds (snd c)" "se_updates (snd (commit_add i c)) = se_updates (snd c)"
  "se_deletes (snd (commit_add i c)) = se_deletes (snd c)"
  by (simp_all add: commit_add_def Let_def ob_put_data)

text \<open>Additions append rows with new identifiers.\<close>

lemma commit_adds_unique:
  assumes "\<forall>t. unique_ids (st_tables (fst c) t)" "\<forall>i \<in> set is'. \<exists>t. regular (ob_class (ob (snd c) i)) t"
  shows "unique_ids (st_tables (fst (fold commit_add is' c)) t)
    \<and> (\<exists>new. st_tables (fst (fold commit_add is' c)) t = st_tables (fst c) t @ new
        \<and> (\<forall>r \<in> set new. \<exists>n. field r ''id'' = CInt n \<and> max_id (st_tables (fst c) t) < n))"
  using assms
proof (induction is' arbitrary: c)
  case (Cons i is')
  obtain st se where c: "c = (st, se)" by (cases c)
  obtain u where u: "regular (ob_class (ob se i)) u" using Cons.prems(2) by (auto simp: c)
  let ?m = "max_id (st_tables st u)" and ?d = "dset ''id'' (CInt (max_id (st_tables st u) + 1)) (ob_data (ob se i))"
  let ?c = "commit_add i c"
  have tab: "st_tables (fst ?c) t = (if t = u then st_tables st u @ [?d] else st_tables st t)" for t
    unfolding c commit_add_facts(1) [OF u] by (rule add_regular [OF u])
  have "CInt (?m + 1) \<notin> (\<lambda>r. field r ''id'') ` set (st_tables st u)"
    using max_id_ge [of _ "st_tables st u" "?m + 1"] by force
  then have uq: "\<forall>t. unique_ids (st_tables (fst ?c) t)"
    unfolding tab using Cons.prems(1) by (auto simp: unique_ids_def c)
  have "\<forall>j \<in> set is'. \<exists>t. regular (ob_class (ob (snd ?c) j)) t" using Cons.prems(2) by simp
  note ih = Cons.IH [OF uq this]
  then obtain new where new: "st_tables (fst (fold commit_add is' ?c)) t = st_tables (fst ?c) t @ new"
    "\<forall>r \<in> set new. \<exists>n. field r ''id'' = CInt n \<and> max_id (st_tables (fst ?c) t) < n" by blast
  have "max_id (st_tables st t) \<le> max_id (st_tables (fst ?c) t)"
    using max_id_ge [of ?d "st_tables (fst ?c) u" "?m + 1"] by (cases "t = u") (auto simp: tab)
  then have "\<forall>r \<in> set new. \<exists>n. field r ''id'' = CInt n \<and> max_id (st_tables st t) < n"
    using new(2) by fastforce
  moreover have "st_tables (fst ?c) t = st_tables st t @ (if t = u then [?d] else [])"
    unfolding tab by simp
  moreover have "\<forall>r \<in> set (if t = u then [?d] else []). \<exists>n. field r ''id'' = CInt n \<and> max_id (st_tables st t) < n"
    by auto
  ultimately have "\<exists>new. st_tables (fst (fold commit_add is' ?c)) t = st_tables st t @ new
      \<and> (\<forall>r \<in> set new. \<exists>n. field r ''id'' = CInt n \<and> max_id (st_tables st t) < n)"
    using new(1) by (intro exI [of _ "(if t = u then [?d] else []) @ new"]) auto
  with ih show ?case by (simp add: c)
qed auto

lemma commit_delete_unique: "unique_ids (st_tables st t) \<Longrightarrow> unique_ids (st_tables (commit_delete x st) t)"
proof -
  assume u: "unique_ids (st_tables st t)"
  have "unique_ids (filter p (st_tables st t))" for p
    using u by (auto simp: unique_ids_def ids_ok_def distinct_map_filter)
  with u show ?thesis by (auto simp: commit_delete_def Let_def put_rows_tables rows_of_table)
qed

lemma commit_deletes_unique:
  "unique_ids (st_tables st t) \<Longrightarrow> unique_ids (st_tables (commit_deletes se st) t)"
proof -
  have "unique_ids (st_tables st t) \<Longrightarrow> unique_ids (st_tables (fold (\<lambda>i. commit_delete (ob se i)) is' st) t)" for is'
    by (induction is' arbitrary: st) (auto intro: commit_delete_unique)
  then show "unique_ids (st_tables st t) \<Longrightarrow> ?thesis" by (simp add: commit_deletes_def)
qed

lemma commit_adds_int_objs:
  assumes "int_objs (snd c)"
  shows "int_objs (snd (fold commit_add is' c))"
  using assms
proof (induction is' arbitrary: c)
  case (Cons i is')
  have "int_objs (snd (commit_add i c))"
    using Cons.prems by (auto simp: int_objs_def commit_add_def Let_def ob_put_data)
  with Cons.IH show ?case by simp
qed simp

text \<open>Identifiers stay unique: if in every table the rows have distinct integer identifiers, they do so
  after a commit of any additions of regular classes, changes and deletions, and the additions append
  rows with identifiers above all those their table had, leaving the rows before them in place.\<close>

theorem commit_keeps_ids:
  assumes "\<forall>t. unique_ids (st_tables st t)" "int_objs se" "\<forall>i \<in> set (se_adds se). \<exists>t. regular (ob_class (ob se i)) t"
  shows "unique_ids (st_tables (fst (commit e (st, se))) t)
    \<and> (\<exists>new. st_tables (fst (commit_adds (st, se))) t = st_tables st t @ new
        \<and> (\<forall>r \<in> set new. \<exists>n. field r ''id'' = CInt n \<and> max_id (st_tables st t) < n))"
proof -
  obtain st1 se1 where c: "commit_adds (st, se) = (st1, se1)" by fastforce
  then have f: "fold commit_add (se_adds se) (st, se) = (st1, se1)" by (simp add: commit_adds_def)
  have a: "unique_ids (st_tables st1 t) \<and> (\<exists>new. st_tables st1 t = st_tables st t @ new
        \<and> (\<forall>r \<in> set new. \<exists>n. field r ''id'' = CInt n \<and> max_id (st_tables st t) < n))" for t
    using commit_adds_unique [of "(st, se)" "se_adds se" t] assms(1,3) by (simp add: f)
  have "int_objs se1" using commit_adds_int_objs [of "(st, se)" "se_adds se"] assms(2) by (simp add: f)
  moreover have "ids_ok (st_tables st1 t)" using a by (simp add: unique_ids_def)
  ultimately have "unique_ids (st_tables (commit_updates e se1 st1) t)"
  proof -
    have i: "\<forall>p \<in> set (enumerate 0 (se_updates se1)). \<exists>k. field (ob_data (ob se1 (snd p))) ''id'' = CInt k"
      using \<open>int_objs se1\<close> by (auto simp: int_objs_def in_set_enumerate_eq)
    from run_updates_row [OF \<open>ids_ok (st_tables st1 t)\<close> i, of e 0] a [of t] show ?thesis
      by (simp add: unique_ids_def commit_updates_def run_updates_def)
  qed
  then have "unique_ids (st_tables (fst (commit e (st, se))) t)"
    by (simp add: commit_def c commit_deletes_unique)
  with a show ?thesis by (simp add: c)
qed

text \<open>The identifier an instance shows before the commit is not the one it is stored under: when one
  instance of a class was built and given up, the next one has, also after \<open>flush\<close>, the identifier
  after next, but the commit stores it under the next identifier of its table and renames it.\<close>

theorem flush_id_not_final:
  assumes "make_obj e1 cls kw1 (st, se) = (Ok i, c1)" "make_obj e2 cls kw2 c1 = (Ok j, c2)"
    and "\<not> has_key kw1 ''id''" "\<not> has_key kw2 ''id''" "st_ready st" "regular cls t" "se_adds se = []"
    and "dget_or (st_counters st) cls 1 = max_id (st_tables st t) + 1"
    and "c3 = (fst c2, se_add j (snd c2))"
  shows "get_attr (flush c3) j ''id'' = CInt (max_id (st_tables st t) + 2)
    \<and> get_attr (snd (commit e c3)) j ''id'' = CInt (max_id (st_tables st t) + 1)"
proof -
  obtain d1 st1 where n1: "new_object e1 cls kw1 st = (Ok d1, st1)" and c1: "fst c1 = st1" "se_adds (snd c1) = []"
    using assms(1,7) by (auto simp: make_obj_def split: prod.splits sum.splits)
  obtain d2 st2 where n2: "new_object e2 cls kw2 st1 = (Ok d2, st2)" and j: "j = length (se_objs (snd c1))"
    and c2: "c2 = (st2, (snd c1)\<lparr>se_objs := se_objs (snd c1) @ [\<lparr>ob_class = cls, ob_data = d2, ob_orig = None\<rparr>]\<rparr>)"
    using assms(2) c1 by (auto simp: make_obj_def split: prod.splits sum.splits)
  note f1 = new_object_fresh [OF n1 assms(3,5)]
  note f2 = new_object_fresh [OF n2 assms(4) f1(3)]
  have id: "field d2 ''id'' = CInt (max_id (st_tables st t) + 2)" using f2(1) f1(2) assms(8) by simp
  have tab: "st_tables st2 = st_tables st"
    using new_object_facts(1) [OF n1] new_object_facts(1) [OF n2] by simp
  let ?se = "se_add j (snd c2)"
  have o: "ob ?se j = \<lparr>ob_class = cls, ob_data = d2, ob_orig = None\<rparr>" "j < length (se_objs ?se)" "se_adds ?se = [j]"
    using c1(2) by (simp_all add: c2 se_add_def ob_def j)
  have "get_attr (flush c3) j ''id'' = CInt (max_id (st_tables st t) + 2)"
    by (simp add: flush_def assms(9) o get_attr_def id)
  moreover have "get_attr (snd (commit e c3)) j ''id'' = CInt (max_id (st_tables st t) + 1)"
  proof -
    have "regular (ob_class (ob ?se j)) t" using assms(6) by (simp add: o)
    moreover have "fst c2 = st2" by (simp add: c2)
    moreover have "commit_adds c3 = commit_add j (fst c2, ?se)" by (simp add: assms(9) commit_adds_def o(3))
    ultimately have "snd (commit_adds c3) = put_data j (dset ''id'' (CInt (max_id (st_tables st t) + 1)) d2) ?se"
      using commit_add_facts(2) [of ?se j t "fst c2"] by (simp add: o(1) tab)
    moreover have "snd (commit e c3) = clear_pending (snd (commit_adds c3))"
      by (simp add: commit_def split: prod.split)
    ultimately show ?thesis using o(2) by (simp add: get_attr_def clear_pending_def ob_def put_data_def)
  qed
  ultimately show ?thesis by blast
qed

section \<open>Witnesses\<close>

definition held :: "int \<Rightarrow> obj" where
  "held b = \<lparr>ob_class = ''Account'', ob_data = [(''id'', CInt 1), (''balance'', CInt b)],
     ob_orig = Some [(''id'', CInt 1), (''balance'', CInt b)]\<rparr>"

definition pair_session :: session where
  "pair_session = \<lparr>se_objs = [held 10, held 20], se_adds = [], se_updates = [0, 1], se_deletes = [], se_active = True\<rparr>"

lemma pair_session_facts:
  "se_adds pair_session = []" "se_deletes pair_session = []" "se_updates pair_session = [0, 1]"
  "ob pair_session 0 = held 10" "ob pair_session (Suc 0) = held 20" "length (se_objs pair_session) = 2"
  "int_objs pair_session" "writes_to pair_session ''accounts'' 1 0" "writes_to pair_session ''accounts'' 1 (Suc 0)"
  by (simp_all add: pair_session_def ob_def held_def int_objs_def writes_to_def store_map_def field_def dget_or_def)

lemma two_rows_ids: "unique_ids (st_tables two_rows t)"
  by (simp add: two_rows_def empty_store_of_def unique_ids_def field_def dget_or_def)

lemma two_rows_row: "row_at (st_tables two_rows ''accounts'') 1 = Some [(''id'', CInt 1), (''user_id'', CInt 7)]"
  by (simp add: two_rows_def empty_store_of_def field_def dget_or_def)

lemma last_instance_wins_witness:
  "\<exists>r. row_at (st_tables (fst (commit env0 (two_rows, pair_session))) ''accounts'') 1 = Some r
     \<and> field r ''balance'' = CInt 20"
proof -
  have "ids_ok (st_tables two_rows ''accounts'')" using two_rows_ids by (simp add: unique_ids_def)
  from last_instance_wins [OF pair_session_facts(1,2) this pair_session_facts(7) two_rows_row, of env0]
  obtain r where "row_at (st_tables (fst (commit env0 (two_rows, pair_session))) ''accounts'') 1 = Some r"
    "\<forall>f. f \<noteq> ''updated_at'' \<longrightarrow> field r f = field (ob_data (held 20)) f"
    by (auto simp: pair_session_facts)
  then show ?thesis by (intro exI [of _ r]) (simp add: held_def field_def dget_or_def)
qed

lemma earlier_change_lost_witness:
  "\<exists>se'. set_attr 0 ''balance'' (CInt 99) pair_session = (Ok (), se')
     \<and> row_at (st_tables (fst (commit env0 (two_rows, se'))) ''accounts'') 1
       = row_at (st_tables (fst (commit env0 (two_rows, pair_session))) ''accounts'') 1"
proof -
  let ?se = "put_data 0 [(''id'', CInt 1), (''balance'', CInt 99)] pair_session"
  have s: "set_attr 0 ''balance'' (CInt 99) pair_session = (Ok (), ?se)"
    by (simp add: set_attr_def pair_session_facts held_def Let_def)
  have "\<forall>u. ids_ok (st_tables two_rows u)" using two_rows_ids by (simp add: unique_ids_def)
  from earlier_change_lost [OF s, where us = "[0]" and j = 1 and vs = "[]" and t = "''accounts''" and n = 1
      and e = env0, OF _ _ _ _ _ _ _ _ _ _ this]
  have "row_at (st_tables (fst (commit env0 (two_rows, ?se))) ''accounts'') 1
      = row_at (st_tables (fst (commit env0 (two_rows, pair_session))) ''accounts'') 1"
    by (simp add: pair_session_facts)
  with s show ?thesis by blast
qed

definition one_subscription :: store where
  "one_subscription = (empty_store_of (\<lambda>t. if t = ''subscriptions''
     then [[(''id'', CInt 1), (''created_at'', CInt 0), (''status'', CStr ''active'')]] else []))\<lparr>st_ready := True\<rparr>"

lemma unmapped_changes_lost_witness:
  "\<exists>st1 se. q_all env0 (new_query ''Subscription'') (one_subscription, new_session) = (Ok [0], (st1, se))
     \<and> st_tables (fst (commit env0 (st1, fold run_edit [EditAttr 0 ''status'' (CStr ''cancelled''), EditDelete 0] se)))
       = st_tables one_subscription"
proof -
  obtain st1 se where q: "q_all env0 (new_query ''Subscription'') (one_subscription, new_session) = (Ok [0], (st1, se))"
    by (simp add: q_all_def all_rows_def ordered_rows_def matching_def apply_filters_def new_query_def rows_of_def
        store_map_def one_subscription_def empty_store_of_def apply_ordering_def sliced_def load_def class_of_def
        model_map_def new_object_def base_init_def has_key_def steps_of_def init_steps_def dget_or_def
        new_session_def Let_def)
  have m: "qu_model (new_query ''Subscription'') \<notin> set model_map" by (simp add: new_query_def model_map_def)
  have "\<forall>x \<in> set [EditAttr 0 ''status'' (CStr ''cancelled''), EditDelete 0]. edit_index x < length [0 :: nat]" by simp
  from unmapped_changes_lost [OF m q this] q show ?thesis by blast
qed

lemma commit_keeps_ids_witness:
  "unique_ids (st_tables (fst (commit env0 (two_rows, se_add 0 pair_session))) ''accounts'')"
proof -
  have "\<forall>t. unique_ids (st_tables two_rows t)" using two_rows_ids by blast
  moreover have "int_objs (se_add 0 pair_session)"
    using pair_session_facts(7) by (simp add: int_objs_def se_add_def ob_def)
  moreover have "ob_class (ob (se_add 0 pair_session) 0) = ''Account''"
    by (simp add: se_add_def ob_def pair_session_def held_def)
  then have "\<forall>i \<in> set (se_adds (se_add 0 pair_session)). \<exists>t. regular (ob_class (ob (se_add 0 pair_session) i)) t"
    by (auto simp: se_add_def pair_session_facts(1) regular_def store_map_def tablenames_def table_map_def
        intro!: exI [of _ "''accounts''"])
  ultimately show ?thesis using commit_keeps_ids [of two_rows "se_add 0 pair_session" env0 "''accounts''"] by blast
qed

lemma flush_id_not_final_witness:
  "\<exists>c. get_attr (flush c) 1 ''id'' = CInt 2 \<and> get_attr (snd (commit env0 c)) 1 ''id'' = CInt 1"
proof -
  let ?st = "(empty_store_of (\<lambda>t. []))\<lparr>st_ready := True\<rparr>"
  obtain c1 where m1: "make_obj env0 ''Merchant'' [] (?st, new_session) = (Ok 0, c1)"
    and c1: "se_objs (snd c1) \<noteq> []" "length (se_objs (snd c1)) = 1"
    by (simp add: make_obj_def new_object_def base_init_def empty_store_of_def steps_of_def init_steps_def
        dget_or_def has_key_def new_session_def Let_def)
  then obtain c2 where m2: "make_obj env0 ''Merchant'' [] c1 = (Ok 1, c2)"
    by (auto simp add: make_obj_def new_object_def base_init_def steps_of_def init_steps_def dget_or_def has_key_def
        Let_def split: prod.splits if_splits)
  have r: "regular ''Merchant'' ''merchants''" by (simp add: regular_def store_map_def tablenames_def table_map_def)
  have z: "max_id [] = 0" by (simp add: max_id_def int_ids_def map_filter_simps)
  from flush_id_not_final [OF m1 m2 _ _ _ r _ _ refl, of env0]
  have "get_attr (flush (fst c2, se_add 1 (snd c2))) 1 ''id'' = CInt 2
      \<and> get_attr (snd (commit env0 (fst c2, se_add 1 (snd c2)))) 1 ''id'' = CInt 1"
    by (simp add: new_session_def empty_store_of_def z)
  then show ?thesis by blast
qed

end
