(* ===== verification/Actions.thy ===== *)
theory Actions
  imports Memory_Session
begin

text \<open>
  Request handlers over a session of the memory store as actions: functions from a store and a session
  to a result and the new store and session. An action that raises keeps what it did so far, as the
  handlers do. The rules are those of a Hoare logic with a second postcondition for exceptions.

  \<open>sealed t rs tr us X\<close> describes a session by what it holds of one table: the table's rows \<open>rs\<close>, the
  instances \<open>tr\<close> of its class and the order \<open>us\<close> in which they are pending, while any number of
  instances of other classes come and go. A commit writes \<open>us\<close> back to \<open>rs\<close> and nothing else.
\<close>

section \<open>Actions\<close>

type_synonym 'a act = "ctx \<Rightarrow> 'a result \<times> ctx"

definition ret :: "'a \<Rightarrow> 'a act" where
  "ret x c = (Ok x, c)"

definition throw :: "py_error \<Rightarrow> 'a act" where
  "throw err c = (Err err, c)"

definition bind_act :: "'a act \<Rightarrow> ('a \<Rightarrow> 'b act) \<Rightarrow> 'b act" where
  "bind_act f g c = (case f c of (Inl err, c') \<Rightarrow> (Err err, c') | (Inr x, c') \<Rightarrow> g x c')"

definition then_act :: "'a act \<Rightarrow> 'b act \<Rightarrow> 'b act" where
  "then_act f g = bind_act f (\<lambda>_. g)"

definition on_session :: "(session \<Rightarrow> 'a result \<times> session) \<Rightarrow> 'a act" where
  "on_session f c = (let (r, se) = f (snd c) in (r, (fst c, se)))"

definition add_act :: "nat \<Rightarrow> unit act" where
  "add_act i = on_session (\<lambda>se. (Ok (), se_add i se))"

definition commit_act :: "env \<Rightarrow> unit act" where
  "commit_act e c = (Ok (), commit e c)"

definition refresh_act :: "nat \<Rightarrow> unit act" where
  "refresh_act i c = (Ok (), (fst c, refresh i c))"

definition attr :: "nat \<Rightarrow> string \<Rightarrow> cell act" where
  "attr i k c = (Ok (get_attr (snd c) i k), c)"

text \<open>\<open>obj.balance += x\<close>: the balance of a loaded account is a float.\<close>

definition change_balance :: "nat \<Rightarrow> (rat \<Rightarrow> rat) \<Rightarrow> unit act" where
  "change_balance i f =
     bind_act (attr i ''balance'') (\<lambda>b. on_session (set_attr i ''balance'' (CFloat (double (f (to_float b))))))"

definition query_where :: "env \<Rightarrow> string \<Rightarrow> clause list \<Rightarrow> nat option act" where
  "query_where e m cs c = q_first e (filter_q (fst c) cs (new_query m)) c"

definition query_by :: "env \<Rightarrow> string \<Rightarrow> row \<Rightarrow> nat option act" where
  "query_by e m kw c = q_first e (filter_by kw (new_query m)) c"

text \<open>Build an instance and put it on the list of additions.\<close>

definition create :: "env \<Rightarrow> string \<Rightarrow> row \<Rightarrow> nat act" where
  "create e cls kw = bind_act (make_obj e cls kw) (\<lambda>i. then_act (add_act i) (ret i))"


section \<open>Hoare triples\<close>

definition triple :: "(ctx \<Rightarrow> bool) \<Rightarrow> 'a act \<Rightarrow> ('a \<Rightarrow> ctx \<Rightarrow> bool) \<Rightarrow> (py_error \<Rightarrow> ctx \<Rightarrow> bool) \<Rightarrow> bool" where
  "triple P f Q E = (\<forall>c r c'. P c \<longrightarrow> f c = (r, c') \<longrightarrow> (case r of Inl err \<Rightarrow> E err c' | Inr x \<Rightarrow> Q x c'))"

lemma tripleI:
  assumes "\<And>c err c'. P c \<Longrightarrow> f c = (Err err, c') \<Longrightarrow> E err c'" "\<And>c x c'. P c \<Longrightarrow> f c = (Ok x, c') \<Longrightarrow> Q x c'"
  shows "triple P f Q E"
  unfolding triple_def using assms by (metis sum.case_eq_if sum.collapse)

lemma tripleD:
  assumes "triple P f Q E" "P c"
  shows "f c = (Err err, c') \<Longrightarrow> E err c'" and "f c = (Ok x, c') \<Longrightarrow> Q x c'"
proof -
  have r: "f c = (r, c') \<longrightarrow> (case r of Inl err \<Rightarrow> E err c' | Inr x \<Rightarrow> Q x c')" for r
    using assms unfolding triple_def by blast
  show "f c = (Err err, c') \<Longrightarrow> E err c'" using r [of "Err err"] by simp
  show "f c = (Ok x, c') \<Longrightarrow> Q x c'" using r [of "Ok x"] by simp
qed

text \<open>A triple without one of its outcomes.\<close>

lemma triple_raises: "triple P f (\<lambda>_ _. False) E \<Longrightarrow> P c \<Longrightarrow> \<exists>err c'. f c = (Err err, c') \<and> E err c'"
  unfolding triple_def by (cases "fst (f c)"; cases "f c") fastforce+

lemma triple_succeeds: "triple P f Q (\<lambda>_ _. False) \<Longrightarrow> P c \<Longrightarrow> \<exists>x c'. f c = (Ok x, c') \<and> Q x c'"
  unfolding triple_def by (cases "fst (f c)"; cases "f c") fastforce+

lemma bind_cases:
  assumes "bind_act f g c = (r, c')"
  obtains (raised) err where "f c = (Err err, c')" "r = Err err"
    | (went) x c1 where "f c = (Ok x, c1)" "g x c1 = (r, c')"
proof -
  obtain r1 c1 where f: "f c = (r1, c1)" by (cases "f c")
  show ?thesis
  proof (cases r1)
    case (Inl err)
    with f assms raised show ?thesis by (simp add: bind_act_def)
  next
    case (Inr x)
    with f assms went show ?thesis by (simp add: bind_act_def)
  qed
qed

lemma triple_bind:
  assumes f: "triple P f R E" and g: "\<And>x. triple (R x) (g x) Q E"
  shows "triple P (bind_act f g) Q E"
proof (rule tripleI)
  fix c err c' assume p: "P c" and b: "bind_act f g c = (Err err, c')"
  from b show "E err c'"
  proof (cases rule: bind_cases)
    case (raised err')
    then show ?thesis using tripleD(1) [OF f p] by simp
  next
    case (went x c1)
    show ?thesis by (rule tripleD(1) [OF g tripleD(2) [OF f p went(1)] went(2)])
  qed
next
  fix c x c' assume p: "P c" and b: "bind_act f g c = (Ok x, c')"
  from b show "Q x c'"
  proof (cases rule: bind_cases)
    case (went y c1)
    show ?thesis by (rule tripleD(2) [OF g tripleD(2) [OF f p went(1)] went(2)])
  qed simp
qed

lemma triple_then: "triple P f (\<lambda>_. R) E \<Longrightarrow> triple R g Q E \<Longrightarrow> triple P (then_act f g) Q E"
  unfolding then_act_def by (rule triple_bind)

lemma triple_post:
  assumes "triple P f Q E" "\<And>x c. Q x c \<Longrightarrow> Q' x c" "\<And>err c. E err c \<Longrightarrow> E' err c"
  shows "triple P f Q' E'"
  by (rule tripleI; rule assms(2,3); erule (1) tripleD [OF assms(1)])

lemma triple_pre:
  assumes "triple P f Q E" "\<And>c. P' c \<Longrightarrow> P c"
  shows "triple P' f Q E"
  by (rule tripleI; drule assms(2); erule (1) tripleD [OF assms(1)])

lemma triple_fact:
  assumes "\<phi> \<Longrightarrow> triple P f Q E"
  shows "triple (\<lambda>c. \<phi> \<and> P c) f Q E"
  by (rule tripleI; elim conjE; erule (1) tripleD [OF assms])

lemma triple_ex:
  assumes "\<And>y. triple (P y) f Q E"
  shows "triple (\<lambda>c. \<exists>y. P y c) f Q E"
  by (rule tripleI; elim exE; erule (1) tripleD [OF assms])

lemma triple_ret: "(\<And>c. P c \<Longrightarrow> Q x c) \<Longrightarrow> triple P (ret x) Q E"
  by (rule tripleI) (simp_all add: ret_def)

lemma triple_throw: "(\<And>c. P c \<Longrightarrow> E err c) \<Longrightarrow> triple P (throw err) Q E"
  by (rule tripleI) (simp_all add: throw_def)

lemma triple_attr: "triple P (attr i k) (\<lambda>v c. v = get_attr (snd c) i k \<and> P c) E"
  by (rule tripleI) (simp_all add: attr_def)

lemma triple_attr_any: "triple P (attr i k) (\<lambda>_. P) E"
  by (rule tripleI) (simp_all add: attr_def)

lemma triple_if: "(b \<Longrightarrow> triple P f Q E) \<Longrightarrow> (\<not> b \<Longrightarrow> triple P g Q E) \<Longrightarrow> triple P (if b then f else g) Q E"
  by simp

lemma triple_option:
  "(x = None \<Longrightarrow> triple P f Q E) \<Longrightarrow> (\<And>y. x = Some y \<Longrightarrow> triple P (g y) Q E)
   \<Longrightarrow> triple P (case x of None \<Rightarrow> f | Some y \<Rightarrow> g y) Q E"
  by (cases x) simp_all

section \<open>Sealed sessions\<close>

definition sealed :: "string \<Rightarrow> row list \<Rightarrow> (nat \<Rightarrow> obj option) \<Rightarrow> nat list \<Rightarrow> nat set \<Rightarrow> ctx \<Rightarrow> bool" where
  "sealed t rs tr us X c =
     (st_tables (fst c) t = rs
      \<and> (\<forall>i x. tr i = Some x \<longrightarrow> i < length (se_objs (snd c)) \<and> ob (snd c) i = x)
      \<and> (\<forall>i < length (se_objs (snd c)). tr i = None \<longrightarrow> dget store_map (ob_class (ob (snd c) i)) \<noteq> Some t)
      \<and> filter (\<lambda>i. tr i \<noteq> None) (se_updates (snd c)) = us
      \<and> (\<forall>i \<in> set (se_updates (snd c)). i < length (se_objs (snd c)))
      \<and> (\<forall>i \<in> X \<union> set (se_adds (snd c)). i < length (se_objs (snd c)) \<and> tr i = None
            \<and> (\<exists>u. u \<noteq> t \<and> regular (ob_class (ob (snd c) i)) u))
      \<and> se_deletes (snd c) = [])"

lemma sealed_new: "sealed t (st_tables st t) (\<lambda>_. None) [] {} (st, new_session)"
  by (simp add: sealed_def new_session_def)

lemma sealedD:
  assumes "sealed t rs tr us X c"
  shows "st_tables (fst c) t = rs"
    and "tr i = Some x \<Longrightarrow> i < length (se_objs (snd c))" and "tr i = Some x \<Longrightarrow> ob (snd c) i = x"
    and "i < length (se_objs (snd c)) \<Longrightarrow> tr i = None \<Longrightarrow> dget store_map (ob_class (ob (snd c) i)) \<noteq> Some t"
    and "filter (\<lambda>i. tr i \<noteq> None) (se_updates (snd c)) = us"
    and "i \<in> set (se_updates (snd c)) \<Longrightarrow> i < length (se_objs (snd c))"
    and "i \<in> X \<union> set (se_adds (snd c)) \<Longrightarrow> i < length (se_objs (snd c)) \<and> tr i = None
            \<and> (\<exists>u. u \<noteq> t \<and> regular (ob_class (ob (snd c) i)) u)"
    and "se_deletes (snd c) = []"
  using assms unfolding sealed_def by blast+

text \<open>A new instance at the end.\<close>

lemma sealed_grow:
  assumes s: "sealed t rs tr us X (st, se)" and tab: "st_tables st' t = st_tables st t"
    and cls: "dget store_map (ob_class x) \<noteq> Some t"
    and ups: "se_updates se' = se_updates se \<or> se_updates se' = se_updates se @ [length (se_objs se)]"
    and se': "se_objs se' = se_objs se @ [x]" "se_adds se' = se_adds se" "se_deletes se' = se_deletes se"
    and Y: "Y = X \<or> Y = insert (length (se_objs se)) X \<and> (\<exists>u. u \<noteq> t \<and> regular (ob_class x) u)"
  shows "sealed t rs tr us Y (st', se')"
proof -
  have old: "ob se' i = ob se i" if "i < length (se_objs se)" for i using that by (simp add: ob_def se' nth_append)
  have new: "ob se' (length (se_objs se)) = x" by (simp add: ob_def se')
  have no: "tr (length (se_objs se)) = None" using s by (cases "tr (length (se_objs se))") (auto simp: sealed_def)
  have 1: "st_tables st' t = rs" using s tab by (simp add: sealed_def)
  have 2: "\<forall>i y. tr i = Some y \<longrightarrow> i < length (se_objs se') \<and> ob se' i = y"
    using s old by (auto simp: sealed_def se' less_SucI)
  have 3: "\<forall>i < length (se_objs se'). tr i = None \<longrightarrow> dget store_map (ob_class (ob se' i)) \<noteq> Some t"
  proof (intro allI impI)
    fix i assume i: "i < length (se_objs se')" "tr i = None"
    show "dget store_map (ob_class (ob se' i)) \<noteq> Some t"
    proof (cases "i = length (se_objs se)")
      case True
      then show ?thesis using new cls by simp
    next
      case False
      then have "i < length (se_objs se)" using i(1) by (simp add: se')
      then show ?thesis using s i(2) old by (simp add: sealed_def)
    qed
  qed
  have 4: "filter (\<lambda>i. tr i \<noteq> None) (se_updates se') = us" using s ups no by (auto simp: sealed_def)
  have 5: "\<forall>i \<in> set (se_updates se'). i < length (se_objs se')"
    using s ups by (auto simp: sealed_def se' less_SucI)
  have 6: "\<forall>i \<in> Y \<union> set (se_adds se'). i < length (se_objs se') \<and> tr i = None
      \<and> (\<exists>u. u \<noteq> t \<and> regular (ob_class (ob se' i)) u)"
  proof
    fix i assume "i \<in> Y \<union> set (se_adds se')"
    with Y have "i \<in> X \<union> set (se_adds se) \<or> i = length (se_objs se) \<and> (\<exists>u. u \<noteq> t \<and> regular (ob_class x) u)"
      by (auto simp: se'(2))
    then show "i < length (se_objs se') \<and> tr i = None \<and> (\<exists>u. u \<noteq> t \<and> regular (ob_class (ob se' i)) u)"
    proof
      assume "i \<in> X \<union> set (se_adds se)"
      then have "i < length (se_objs se)" "tr i = None" "\<exists>u. u \<noteq> t \<and> regular (ob_class (ob se i)) u"
        using s by (auto simp: sealed_def)
      then show ?thesis using old [of i] by (simp add: se'(1))
    next
      assume "i = length (se_objs se) \<and> (\<exists>u. u \<noteq> t \<and> regular (ob_class x) u)"
      then show ?thesis using new no by (simp add: se'(1))
    qed
  qed
  have "se_deletes se' = []" using s se'(3) by (simp add: sealed_def)
  with 1 2 3 4 5 6 show ?thesis by (simp add: sealed_def)
qed

section \<open>The steps of a handler\<close>

lemma sealed_make:
  assumes "sealed t rs tr us X c" "make_obj e cls kw c = (r, c')" "regular cls u" "u \<noteq> t"
  shows "(case r of Inl err \<Rightarrow> sealed t rs tr us X c' | Inr i \<Rightarrow> sealed t rs tr us (insert i X) c')"
proof -
  obtain st se where c: "c = (st, se)" by (cases c)
  obtain r0 st' where n: "new_object e cls kw st = (r0, st')" by fastforce
  have tab: "st_tables st' = st_tables st" using new_object_facts(1) [OF n] .
  have cls: "dget store_map cls \<noteq> Some t" using assms(3,4) by (simp add: regular_def)
  show ?thesis
  proof (cases r0)
    case (Inl err)
    with assms(1,2) tab show ?thesis by (auto simp: make_obj_def c n sealed_def)
  next
    case (Inr d)
    have r: "r = Ok (length (se_objs se))" and c': "c' = (st', se\<lparr>se_objs := se_objs se @ [\<lparr>ob_class = cls, ob_data = d, ob_orig = None\<rparr>]\<rparr>)"
      using assms(2) by (auto simp: make_obj_def c n Inr)
    have "sealed t rs tr us (insert (length (se_objs se)) X) c'"
      unfolding c' using assms(3,4) cls tab by (intro sealed_grow [OF assms(1) [unfolded c]]) auto
    then show ?thesis by (simp add: r)
  qed
qed

text \<open>Classes whose constructor cannot raise, whatever the row.\<close>

definition total_class :: "string \<Rightarrow> bool" where
  "total_class cls = list_all (\<lambda>s. case s of Amount k \<Rightarrow> False | AmountIf k \<Rightarrow> False | _ \<Rightarrow> True) (steps_of cls)"

lemma run_total:
  assumes "list_all (\<lambda>s. case s of Amount k \<Rightarrow> False | AmountIf k \<Rightarrow> False | _ \<Rightarrow> True) ss"
  shows "\<exists>d'. run_steps e n st ss d = Ok d'"
  using assms
proof (induction ss arbitrary: n d)
  case (Cons s ss)
  have "\<exists>d'. run_step e n st s d = Ok d'" using Cons.prems by (cases s) auto
  then obtain d' where "run_step e n st s d = Ok d'" ..
  with Cons show ?case by auto
qed simp

lemma total_new:
  assumes "total_class cls"
  shows "\<exists>d st'. new_object e cls kw st = (Ok d, st')"
proof -
  obtain d st' where b: "base_init e cls kw st = (d, st')" by (cases "base_init e cls kw st")
  obtain d' where "run_steps e 1 st' (steps_of cls) d = Ok d'" using run_total assms unfolding total_class_def by blast
  then show ?thesis by (simp add: new_object_def b)
qed

definition makes :: "string \<Rightarrow> row \<Rightarrow> bool" where
  "makes cls kw = (\<forall>e st. \<exists>d st'. new_object e cls kw st = (Ok d, st'))"

lemma total_makes: "total_class cls \<Longrightarrow> makes cls kw"
  using total_new by (simp add: makes_def)

lemma triple_make:
  assumes "regular cls u" "u \<noteq> t" "makes cls kw"
  shows "triple (sealed t rs tr us X) (make_obj e cls kw) (\<lambda>i. sealed t rs tr us (insert i X)) E"
proof (rule tripleI)
  fix c err c' assume "sealed t rs tr us X c" and m: "make_obj e cls kw c = (Err err, c')"
  obtain d st' where n: "new_object e cls kw (fst c) = (Ok d, st')" using assms(3) unfolding makes_def by blast
  from m show "E err c'" by (simp add: make_obj_def n)
next
  fix c i c' assume s: "sealed t rs tr us X c" and m: "make_obj e cls kw c = (Ok i, c')"
  show "sealed t rs tr us (insert i X) c'" using sealed_make [OF s m assms(1,2)] by simp
qed

lemma sealed_add: "sealed t rs tr us X c \<Longrightarrow> i \<in> X \<Longrightarrow> sealed t rs tr us X (fst c, se_add i (snd c))"
  by (auto simp: sealed_def se_add_def ob_def)

lemma triple_add: "i \<in> X \<Longrightarrow> triple (sealed t rs tr us X) (add_act i) (\<lambda>_. sealed t rs tr us X) E"
  using sealed_add [of t rs tr us X _ i] by (intro tripleI) (auto simp: add_act_def on_session_def)

lemma triple_create:
  assumes "regular cls u" "u \<noteq> t" "makes cls kw"
  shows "triple (sealed t rs tr us X) (create e cls kw) (\<lambda>i. sealed t rs tr us (insert i X)) E"
  unfolding create_def
  by (rule triple_bind [OF triple_make [OF assms]], rule triple_then [OF triple_add]) (auto intro: triple_ret)

text \<open>Loading rows of other models.\<close>

lemma sealed_load:
  assumes "sealed t rs tr us X c" "load e m r c = (res, c')" "dget store_map (class_of m) \<noteq> Some t"
  shows "sealed t rs tr us X c'"
proof -
  obtain st se where c: "c = (st, se)" by (cases c)
  obtain r0 st' where n: "new_object e (class_of m) r st = (r0, st')" by fastforce
  have tab: "st_tables st' = st_tables st" using new_object_facts(1) [OF n] .
  show ?thesis
  proof (cases r0)
    case (Inl err)
    with assms(1,2) tab show ?thesis by (auto simp: load_def c n sealed_def)
  next
    case (Inr d)
    have c': "c' = (st', se\<lparr>se_objs := se_objs se @ [\<lparr>ob_class = class_of m, ob_data = d, ob_orig = Some r\<rparr>],
        se_updates := se_updates se @ [length (se_objs se)]\<rparr>)"
      using assms(2) by (auto simp: load_def Let_def c n Inr)
    show ?thesis unfolding c' using assms(3) tab by (intro sealed_grow [OF assms(1) [unfolded c]]) auto
  qed
qed

lemma sealed_load_list:
  assumes "sealed t rs tr us X c" "load_list e m rows c = (res, c')" "dget store_map (class_of m) \<noteq> Some t"
  shows "sealed t rs tr us X c'"
  using assms(1,2)
proof (induction rows arbitrary: e c res c')
  case (Cons r rows)
  obtain r1 c1 where l: "load e m r c = (r1, c1)" by (cases "load e m r c")
  have s1: "sealed t rs tr us X c1" by (rule sealed_load [OF Cons.prems(1) l assms(3)])
  show ?case
  proof (cases r1)
    case (Inl err)
    with l Cons.prems(2) s1 show ?thesis by simp
  next
    case (Inr i)
    obtain r2 c2 where l2: "load_list (later 64 e) m rows c1 = (r2, c2)"
      by (cases "load_list (later 64 e) m rows c1")
    have "c' = c2" using Cons.prems(2) by (simp add: l Inr l2 split: sum.splits)
    with Cons.IH [OF s1 l2] show ?thesis by simp
  qed
qed simp

text \<open>Queries of a model whose instances do not belong to the table.\<close>

definition other_model :: "string \<Rightarrow> string \<Rightarrow> bool" where
  "other_model t m = (m \<noteq> [] \<and> dget store_map (class_of m) \<noteq> Some t)"

lemma qu_model_simps [simp]:
  "qu_model (new_query m) = m" "qu_model (filter_by kw q) = qu_model q"
  "m \<noteq> [] \<Longrightarrow> qu_model (filter_q st cs (new_query m)) = m"
  by (simp_all add: new_query_def filter_by_def filter_q_def)

lemma sealed_first:
  assumes "sealed t rs tr us X c" "q_first e q c = (r, c')" "other_model t (qu_model q)"
  shows "sealed t rs tr us X c'"
proof (cases "first_row (fst c) q")
  case (Inl err)
  with assms(1,2) show ?thesis by (simp add: q_first_def)
next
  case (Inr x)
  show ?thesis
  proof (cases x)
    case None
    with assms(1,2) Inr show ?thesis by (simp add: q_first_def load_option_def)
  next
    case (Some y)
    obtain r1 c1 where l: "load e (qu_model q) y c = (r1, c1)" by (cases "load e (qu_model q) y c")
    have "c' = c1" using assms(2) by (simp add: q_first_def load_option_def Inr Some l split: sum.splits)
    with sealed_load [OF assms(1) l] assms(3) show ?thesis by (simp add: other_model_def)
  qed
qed

lemma sealed_all:
  assumes "sealed t rs tr us X c" "q_all e q c = (r, c')" "other_model t (qu_model q)"
  shows "sealed t rs tr us X c'"
proof (cases "all_rows (fst c) q")
  case (Inl err)
  with assms(1,2) show ?thesis by (simp add: q_all_def)
next
  case (Inr rows)
  with assms(2) have l: "load_list e (qu_model q) rows c = (r, c')" by (simp add: q_all_def)
  from sealed_load_list [OF assms(1) l] assms(3) show ?thesis by (simp add: other_model_def)
qed

text \<open>These queries only compare for equality, so they do not raise.\<close>

lemma keep_total: "(\<And>x. x \<in> set xs \<Longrightarrow> p x = Ok (q x)) \<Longrightarrow> keep p xs = Ok (filter q xs)"
  by (induction xs) auto

fun eq_clause :: "clause \<Rightarrow> (row \<Rightarrow> bool) option" where
  "eq_clause (Compare f OpEq v) = Some (eq_holds f v)"
| "eq_clause OtherC = Some (\<lambda>_. True)"
| "eq_clause c = None"

lemma apply_eq_clause: "eq_clause c = Some p \<Longrightarrow> apply_clause st m base c rs = Ok (filter p rs)"
  by (cases c rule: eq_clause.cases) (auto simp: compare_holds_def intro!: keep_total)

lemma apply_eq_clauses:
  "list_all (\<lambda>c. eq_clause c \<noteq> None) cs \<Longrightarrow>
   each_r (apply_clause st m base) cs rs = Ok (filter (\<lambda>r. list_all (\<lambda>c. the (eq_clause c) r) cs) rs)"
proof (induction cs arbitrary: rs)
  case (Cons c cs)
  then obtain p where "eq_clause c = Some p" by auto
  with Cons show ?case by (simp add: apply_eq_clause conj_commute)
qed simp

definition eq_query :: "string \<Rightarrow> clause list \<Rightarrow> query" where
  "eq_query m cs = (new_query m)\<lparr>qu_filters := cs\<rparr>"

lemma eq_query_forms:
  "filter_by kw (new_query m) = eq_query m (map (\<lambda>(f, v). Compare f OpEq v) kw)"
  "m \<noteq> [] \<Longrightarrow> filter_q st cs (new_query m) = eq_query m cs"
  by (simp_all add: filter_by_def filter_q_def eq_query_def new_query_def)

lemma ordered_eq_query:
  assumes "list_all (\<lambda>c. eq_clause c \<noteq> None) cs"
  shows "ordered_rows st (eq_query m cs) = Ok (filter (\<lambda>r. list_all (\<lambda>c. the (eq_clause c) r) cs) (rows_of st m))"
  using assms
  by (simp add: ordered_rows_def matching_def eq_query_def new_query_def apply_filters_def apply_eq_clauses
      apply_ordering_def sliced_def)

lemma first_eq_query:
  assumes "list_all (\<lambda>c. eq_clause c \<noteq> None) cs"
  shows "first_row st (eq_query m cs) = Ok (find (\<lambda>r. list_all (\<lambda>c. the (eq_clause c) r) cs) (rows_of st m))"
proof -
  have "(case filter p xs of [] \<Rightarrow> None | r # _ \<Rightarrow> Some r) = find p xs" for p and xs :: "row list"
    by (induction xs) auto
  then show ?thesis by (simp add: first_row_def ordered_eq_query [OF assms])
qed

lemma q_first_eq_query:
  assumes "list_all (\<lambda>c. eq_clause c \<noteq> None) cs"
  shows "q_first e (eq_query m cs) c =
    load_option e m (find (\<lambda>r. list_all (\<lambda>c. the (eq_clause c) r) cs) (rows_of (fst c) m)) c"
proof -
  have "qu_model (eq_query m cs) = m" by (simp add: eq_query_def)
  then show ?thesis by (simp add: q_first_def first_eq_query [OF assms])
qed

lemma load_total:
  assumes "total_class (class_of m)"
  obtains i c' where "load e m r c = (Ok i, c')"
proof -
  obtain d st' where "new_object e (class_of m) r (fst c) = (Ok d, st')" using total_new [OF assms] by blast
  then show thesis by (intro that) (simp add: load_def Let_def)
qed

lemma load_option_total:
  assumes "total_class (class_of m)"
  shows "load_option e m x c \<noteq> (Err err, c')"
proof (cases x)
  case (Some r)
  obtain i c1 where "load e m r c = (Ok i, c1)" by (rule load_total [OF assms])
  then show ?thesis by (simp add: load_option_def Some)
qed (simp add: load_option_def)

lemma triple_query_other:
  assumes "list_all (\<lambda>c. eq_clause c \<noteq> None) cs" "other_model t m" "total_class (class_of m)"
  shows "triple (sealed t rs tr us X) (q_first e (eq_query m cs)) (\<lambda>_. sealed t rs tr us X) E"
proof (rule tripleI)
  fix c err c' assume "q_first e (eq_query m cs) c = (Err err, c')"
  then show "E err c'" using load_option_total [OF assms(3)] by (simp add: q_first_eq_query [OF assms(1)])
next
  fix c x c' assume s: "sealed t rs tr us X c" and f: "q_first e (eq_query m cs) c = (Ok x, c')"
  show "sealed t rs tr us X c'" by (rule sealed_first [OF s f]) (simp add: assms(2) eq_query_def)
qed

section \<open>The instances of the table\<close>

lemma sealed_load_own:
  assumes s: "sealed t rs tr us X (st, se)" and l: "load e m r (st, se) = (Ok i, c')"
    and cls: "dget store_map (class_of m) = Some t"
  shows "\<exists>d st'. new_object e (class_of m) r st = (Ok d, st') \<and> tr i = None
    \<and> sealed t rs (tr(i \<mapsto> \<lparr>ob_class = class_of m, ob_data = d, ob_orig = Some r\<rparr>)) (us @ [i]) X c'"
proof -
  obtain d st' where n: "new_object e (class_of m) r st = (Ok d, st')" and i: "i = length (se_objs se)"
    and c': "c' = (st', se\<lparr>se_objs := se_objs se @ [\<lparr>ob_class = class_of m, ob_data = d, ob_orig = Some r\<rparr>],
        se_updates := se_updates se @ [i]\<rparr>)"
    using load_Ok [OF l] by auto
  let ?x = "\<lparr>ob_class = class_of m, ob_data = d, ob_orig = Some r\<rparr>"
  let ?se = "se\<lparr>se_objs := se_objs se @ [?x], se_updates := se_updates se @ [i]\<rparr>"
  have tab: "st_tables st' = st_tables st" using new_object_facts(1) [OF n] .
  have old: "ob ?se j = ob se j" if "j < length (se_objs se)" for j using that by (simp add: ob_def nth_append)
  have new: "ob ?se i = ?x" by (simp add: ob_def i)
  have no: "tr i = None" using s by (cases "tr i") (auto simp: sealed_def i)
  have lt: "j < i" if "tr j = Some y \<or> j \<in> set (se_updates se) \<or> j \<in> X \<union> set (se_adds se)" for j y
    using s that by (auto simp: sealed_def i)
  have 1: "\<forall>j y. (tr(i \<mapsto> ?x)) j = Some y \<longrightarrow> j < length (se_objs ?se) \<and> ob ?se j = y"
  proof (intro allI impI)
    fix j y assume a: "(tr(i \<mapsto> ?x)) j = Some y"
    show "j < length (se_objs ?se) \<and> ob ?se j = y"
    proof (cases "j = i")
      case True
      then show ?thesis using a new by (simp add: i)
    next
      case False
      then have t: "tr j = Some y" using a by simp
      then have "j < length (se_objs se)" "ob se j = y" using s by (auto simp: sealed_def)
      then show ?thesis using old by simp
    qed
  qed
  have 2: "\<forall>j < length (se_objs ?se). (tr(i \<mapsto> ?x)) j = None \<longrightarrow> dget store_map (ob_class (ob ?se j)) \<noteq> Some t"
  proof (intro allI impI)
    fix j assume j: "j < length (se_objs ?se)" "(tr(i \<mapsto> ?x)) j = None"
    then have "j \<noteq> i" by (metis fun_upd_same option.distinct(1))
    then have "j < length (se_objs se)" "tr j = None" using j by (auto simp: i)
    then show "dget store_map (ob_class (ob ?se j)) \<noteq> Some t" using s old [of j] by (simp add: sealed_def)
  qed
  have "filter (\<lambda>j. (tr(i \<mapsto> ?x)) j \<noteq> None) (se_updates se) = filter (\<lambda>j. tr j \<noteq> None) (se_updates se)"
    using lt by (intro filter_cong) auto
  then have 3: "filter (\<lambda>j. (tr(i \<mapsto> ?x)) j \<noteq> None) (se_updates ?se) = us @ [i]" using s by (simp add: sealed_def)
  have 4: "\<forall>j \<in> set (se_updates ?se). j < length (se_objs ?se)" using s by (auto simp: sealed_def i less_SucI)
  have 5: "\<forall>j \<in> X \<union> set (se_adds ?se). j < length (se_objs ?se) \<and> (tr(i \<mapsto> ?x)) j = None
      \<and> (\<exists>u. u \<noteq> t \<and> regular (ob_class (ob ?se j)) u)"
  proof
    fix j assume "j \<in> X \<union> set (se_adds ?se)"
    then have j: "j \<in> X \<union> set (se_adds se)" by simp
    then have "j < length (se_objs se)" "tr j = None" "\<exists>u. u \<noteq> t \<and> regular (ob_class (ob se j)) u"
      using s by (auto simp: sealed_def)
    then show "j < length (se_objs ?se) \<and> (tr(i \<mapsto> ?x)) j = None \<and> (\<exists>u. u \<noteq> t \<and> regular (ob_class (ob ?se j)) u)"
      using lt [of j] j old [of j] by simp
  qed
  have "sealed t rs (tr(i \<mapsto> ?x)) (us @ [i]) X (st', ?se)"
    using s tab 1 2 3 4 5 by (simp add: sealed_def)
  with n no c' show ?thesis by blast
qed

lemma sealed_change:
  assumes s: "sealed t rs tr us X (st, se)" and x: "tr i = Some x" "i \<in> set us"
  shows "sealed t rs (tr(i \<mapsto> x\<lparr>ob_data := d\<rparr>)) us X (st, put_data i d se)"
proof -
  have "i < length (se_objs se)" "ob se i = x" using s x(1) by (auto simp: sealed_def)
  then have o: "ob (put_data i d se) j = (if j = i then x\<lparr>ob_data := d\<rparr> else ob se j)" for j
    by (simp add: ob_put_data)
  have f: "((tr(i \<mapsto> x\<lparr>ob_data := d\<rparr>)) j \<noteq> None) = (tr j \<noteq> None)" for j using x(1) by simp
  then have g: "((tr(i \<mapsto> x\<lparr>ob_data := d\<rparr>)) j = None) = (tr j = None)" for j by blast
  show ?thesis
    using s x(1) unfolding sealed_def f g by (auto simp: o)
qed

lemma triple_balance:
  assumes "tr i = Some x" "i \<in> set us" "ob_class x \<noteq> ''Goal''"
  shows "triple (sealed t rs tr us X) (change_balance i f)
    (\<lambda>_. sealed t rs (tr(i \<mapsto> x\<lparr>ob_data := dset ''balance'' (CFloat (double (f (to_float (field (ob_data x) ''balance'')))))
        (ob_data x)\<rparr>)) us X) E"
proof -
  have run: "change_balance i f c = (Ok (), (fst c, put_data i (dset ''balance''
      (CFloat (double (f (to_float (field (ob_data x) ''balance''))))) (ob_data x)) (snd c)))"
    if s: "sealed t rs tr us X c" for c
  proof -
    have "ob (snd c) i = x" "i \<in> set (se_updates (snd c))" using s assms(1,2) by (auto simp: sealed_def)
    then show ?thesis using assms(3)
      by (simp add: change_balance_def bind_act_def attr_def get_attr_def on_session_def set_attr_def Let_def)
  qed
  show ?thesis
  proof (rule tripleI)
    fix c err c' assume "sealed t rs tr us X c" "change_balance i f c = (Err err, c')"
    then show "E err c'" using run by simp
  next
    fix c u c' assume s: "sealed t rs tr us X c" and r: "change_balance i f c = (Ok u, c')"
    obtain st se where c: "c = (st, se)" by (cases c)
    from r run [OF s] sealed_change [OF s [unfolded c] assms(1,2)]
    show "sealed t rs (tr(i \<mapsto> x\<lparr>ob_data := dset ''balance'' (CFloat (double (f (to_float (field (ob_data x) ''balance'')))))
        (ob_data x)\<rparr>)) us X c'" by (auto simp: c)
  qed
qed

lemma triple_attr_own:
  assumes "tr i = Some x"
  shows "triple (sealed t rs tr us X) (attr i k) (\<lambda>v c. v = field (ob_data x) k \<and> sealed t rs tr us X c) E"
  using assms by (intro tripleI) (auto simp: attr_def get_attr_def sealed_def)

section \<open>Commit\<close>

lemma sealed_put:
  assumes "sealed t rs tr us X (st, se)" "tr i = None" "st_tables st' t = rs"
  shows "sealed t rs tr us X (st', put_data i d se)"
proof -
  have o: "ob_class (ob (put_data i d se) j) = ob_class (ob se j)" for j by (simp add: ob_put_data)
  have k: "tr j = Some x \<Longrightarrow> ob (put_data i d se) j = ob se j" for j x using assms(2) by (auto simp: ob_put_data)
  show ?thesis using assms k unfolding sealed_def fst_conv snd_conv o put_data_simps by blast
qed

lemma sealed_commit_add:
  assumes s: "sealed t rs tr us X c" and i: "i \<in> set (se_adds (snd c))"
  shows "sealed t rs tr us X (commit_add i c)"
proof -
  obtain st se where c: "c = (st, se)" by (cases c)
  obtain u where u: "u \<noteq> t" "regular (ob_class (ob se i)) u" and no: "tr i = None"
    using sealedD(7) [OF s, of i] i by (auto simp: c)
  have "st_tables (fst (commit_add i (st, se))) t = rs"
    using s u(1) by (simp add: commit_add_facts(1) [OF u(2)] add_regular [OF u(2)] sealed_def c)
  from sealed_put [OF s [unfolded c] no this] show ?thesis
    by (metis c commit_add_facts(2) [OF u(2)] prod.collapse)
qed

lemma sealed_commit_adds: "sealed t rs tr us X c \<Longrightarrow> sealed t rs tr us X (commit_adds c)"
proof -
  have "sealed t rs tr us X c \<Longrightarrow> set is' \<subseteq> set (se_adds (snd c)) \<Longrightarrow> sealed t rs tr us X (fold commit_add is' c)" for is'
  proof (induction is' arbitrary: c)
    case (Cons i is')
    have "sealed t rs tr us X (commit_add i c)" using Cons.prems by (intro sealed_commit_add) auto
    then show ?case using Cons.IH [of "commit_add i c"] Cons.prems(2) by simp
  qed simp
  then show "sealed t rs tr us X c \<Longrightarrow> ?thesis" by (simp add: commit_adds_def)
qed

definition writes_back :: "row list \<Rightarrow> (nat \<Rightarrow> obj option) \<Rightarrow> nat list \<Rightarrow> row list \<Rightarrow> bool" where
  "writes_back rs tr us rs' =
     (map (\<lambda>r. field r ''id'') rs' = map (\<lambda>r. field r ''id'') rs
      \<and> (\<forall>n. let ws = filter (\<lambda>i. field (ob_data (the (tr i))) ''id'' = CInt n) us
             in if ws = [] \<or> row_at rs n = None then row_at rs' n = row_at rs n
                else \<exists>r'. row_at rs' n = Some r'
                   \<and> (\<forall>f. f \<noteq> ''updated_at'' \<longrightarrow> field r' f = field (ob_data (the (tr (last ws)))) f)))"

definition owned :: "string \<Rightarrow> obj \<Rightarrow> bool" where
  "owned t x = (dget store_map (ob_class x) = Some t \<and> ob_orig x \<noteq> None
     \<and> (\<exists>n. field (ob_data x) ''id'' = CInt n \<and> n \<noteq> 0))"

lemma run_updates_tracked:
  assumes "\<forall>p \<in> set ps. tr (snd p) = None \<longrightarrow> dget store_map (ob_class (ob se (snd p))) \<noteq> Some t"
    and "\<forall>p \<in> set ps. tr (snd p) \<noteq> None \<longrightarrow> (\<exists>k. field (ob_data (ob se (snd p))) ''id'' = CInt k)"
  shows "st_tables (run_updates e se ps st) t = st_tables (run_updates e se (filter (\<lambda>p. tr (snd p) \<noteq> None) ps) st) t"
  using assms
proof (induction ps rule: rev_induct)
  case (snoc p ps)
  obtain j i where p: "p = (j, i)" by (cases p)
  show ?case
  proof (cases "tr i")
    case None
    then have "dget store_map (ob_class (ob se i)) \<noteq> Some t" using snoc.prems(1) by (auto simp: p)
    then have "st_tables (commit_update (clock e j) (ob se i) st') t = st_tables st' t" for st'
      by (auto simp: commit_update_def Let_def put_rows_tables split: option.split)
    with None snoc show ?thesis by (simp add: run_updates_def p)
  next
    case (Some x)
    then obtain k where k: "field (ob_data (ob se i)) ''id'' = CInt k" using snoc.prems(2) by (auto simp: p)
    from Some snoc show ?thesis by (simp add: run_updates_def p commit_update_table [OF k])
  qed
qed simp

lemma sealed_clear: "sealed t rs tr us X (st, se) \<Longrightarrow> sealed t (st_tables st' t) tr [] X (st', clear_pending se)"
  by (auto simp: sealed_def clear_pending_def ob_def)

lemma last_write:
  assumes "map snd qs = us" "\<forall>p \<in> set qs. P (snd p) = R (snd p)"
  shows "filter (\<lambda>p. P (snd p)) qs = [] \<longleftrightarrow> filter R us = []"
    and "filter (\<lambda>p. P (snd p)) qs \<noteq> [] \<Longrightarrow> last (filter R us) = snd (last (filter (\<lambda>p. P (snd p)) qs))"
    and "filter (\<lambda>p. P (snd p)) qs \<noteq> [] \<Longrightarrow> last (filter (\<lambda>p. P (snd p)) qs) \<in> set qs"
proof -
  let ?ws = "filter (\<lambda>p. P (snd p)) qs"
  have "?ws = filter (\<lambda>p. R (snd p)) qs" using assms(2) by (intro filter_cong [OF refl]) blast
  moreover have "filter R us = map snd (filter (R \<circ> snd) qs)" unfolding assms(1) [symmetric] by (rule filter_map)
  ultimately have m: "map snd ?ws = filter R us" by (simp add: comp_def)
  show "?ws = [] \<longleftrightarrow> filter R us = []" unfolding m [symmetric] by simp
  show "?ws \<noteq> [] \<Longrightarrow> last (filter R us) = snd (last ?ws)" unfolding m [symmetric] by (rule last_map)
  show "?ws \<noteq> [] \<Longrightarrow> last ?ws \<in> set qs" using last_in_set [of ?ws] by auto
qed

lemma sealed_commit:
  assumes s: "sealed t rs tr us X c" and own: "\<forall>i \<in> set us. owned t (the (tr i))" and ids: "ids_ok rs"
  shows "\<exists>rs'. writes_back rs tr us rs' \<and> sealed t rs' tr [] X (commit e c)"
proof -
  obtain st se where c: "commit_adds c = (st, se)" by (cases "commit_adds c")
  have s1: "sealed t rs tr us X (st, se)" using sealed_commit_adds [OF s] by (simp add: c)
  let ?ps = "enumerate 0 (se_updates se)"
  let ?qs = "filter (\<lambda>p. tr (snd p) \<noteq> None) ?ps"
  let ?st = "run_updates e se ?ps st"
  have us: "map snd ?qs = us" using sealedD(5) [OF s1] filter_enumerate [of "\<lambda>i. tr i \<noteq> None" 0 "se_updates se"] by simp
  then have mem: "p \<in> set ?qs \<Longrightarrow> snd p \<in> set us" for p
    using imageI [of p "set ?qs" snd] unfolding set_map [symmetric] us by blast
  have obs: "i \<in> set us \<Longrightarrow> ob se i = the (tr i)" for i
  proof -
    assume "i \<in> set us"
    then obtain x where "tr i = Some x" unfolding sealedD(5) [OF s1, symmetric] by auto
    then show ?thesis using sealedD(3) [OF s1] by simp
  qed
  have ints: "\<forall>p \<in> set ?qs. \<exists>k. field (ob_data (ob se (snd p))) ''id'' = CInt k"
  proof
    fix p assume "p \<in> set ?qs"
    then have "snd p \<in> set us" by (rule mem)
    with own obs show "\<exists>k. field (ob_data (ob se (snd p))) ''id'' = CInt k" unfolding owned_def by metis
  qed
  have split: "st_tables ?st t = st_tables (run_updates e se ?qs st) t"
  proof (rule run_updates_tracked)
    show "\<forall>p \<in> set ?ps. tr (snd p) = None \<longrightarrow> dget store_map (ob_class (ob se (snd p))) \<noteq> Some t"
      using sealedD(4,6) [OF s1] by (auto simp: in_set_enumerate_eq)
    show "\<forall>p \<in> set ?ps. tr (snd p) \<noteq> None \<longrightarrow> (\<exists>k. field (ob_data (ob se (snd p))) ''id'' = CInt k)"
      using ints by auto
  qed
  have tab: "st_tables st t = rs" using sealedD(1) [OF s1] by simp
  with ids have "ids_ok (st_tables st t)" by simp
  note run = run_updates_row [OF this ints, unfolded tab]
  have same: "map (\<lambda>r. field r ''id'') (st_tables ?st t) = map (\<lambda>r. field r ''id'') rs"
    unfolding split using run by blast
  have row: "row_at (st_tables ?st t) n =
       (let ws = filter (\<lambda>p. writes_to se t n (snd p)) ?qs
        in if ws = [] \<or> row_at rs n = None then row_at rs n else Some (written e se (last ws)))" for n
    unfolding split by (rule run [THEN conjunct2, THEN conjunct2])
  have ws: "\<forall>p \<in> set ?qs. writes_to se t n (snd p) = (field (ob_data (the (tr (snd p)))) ''id'' = CInt n)" for n
  proof
    fix p assume p: "p \<in> set ?qs"
    show "writes_to se t n (snd p) = (field (ob_data (the (tr (snd p)))) ''id'' = CInt n)"
      using own mem [OF p] obs [OF mem [OF p]] by (auto simp: writes_to_def owned_def)
  qed
  have "writes_back rs tr us (st_tables ?st t)"
    unfolding writes_back_def Let_def
  proof (intro conjI allI same)
    fix n
    let ?ws = "filter (\<lambda>p. writes_to se t n (snd p)) ?qs"
    let ?vs = "filter (\<lambda>i. field (ob_data (the (tr i))) ''id'' = CInt n) us"
    note l = last_write [OF us, of "writes_to se t n" "\<lambda>i. field (ob_data (the (tr i))) ''id'' = CInt n", OF ws]
    show "if ?vs = [] \<or> row_at rs n = None then row_at (st_tables ?st t) n = row_at rs n
        else \<exists>r'. row_at (st_tables ?st t) n = Some r'
          \<and> (\<forall>f. f \<noteq> ''updated_at'' \<longrightarrow> field r' f = field (ob_data (the (tr (last ?vs)))) f)"
    proof (cases "?ws = [] \<or> row_at rs n = None")
      case True
      then have "row_at (st_tables ?st t) n = row_at rs n" using row [of n] unfolding Let_def by (simp only: if_True)
      moreover have "?vs = [] \<or> row_at rs n = None" using True unfolding l(1) .
      ultimately show ?thesis by (simp only: if_True)
    next
      case False
      then have "row_at (st_tables ?st t) n = Some (written e se (last ?ws))"
        using row [of n] unfolding Let_def by (simp only: if_False)
      moreover have "?ws \<noteq> []" using False by blast
      from l(2) [OF this] obs [OF mem [OF l(3) [OF this]]]
      have "ob se (snd (last ?ws)) = the (tr (last ?vs))" by (simp only:)
      moreover have "f \<noteq> ''updated_at'' \<Longrightarrow> field (written e se p) f = field (ob_data (ob se (snd p))) f" for f p
        by (simp add: written_def)
      ultimately have "\<exists>r'. row_at (st_tables ?st t) n = Some r'
          \<and> (\<forall>f. f \<noteq> ''updated_at'' \<longrightarrow> field r' f = field (ob_data (the (tr (last ?vs)))) f)"
        by (intro exI [of _ "written e se (last ?ws)"] conjI allI impI) simp_all
      moreover have "\<not> (?vs = [] \<or> row_at rs n = None)" using False unfolding l(1) .
      ultimately show ?thesis by (simp only: if_False)
    qed
  qed
  moreover have "commit e c = (?st, clear_pending se)"
    using sealedD(8) [OF s1] by (simp add: commit_def c commit_updates_def run_updates_def commit_deletes_def)
  moreover have "sealed t (st_tables ?st t) tr [] X (?st, clear_pending se)"
    by (rule sealed_clear [OF s1])
  ultimately show ?thesis by (intro exI [of _ "st_tables ?st t"]) simp
qed

lemma triple_commit:
  assumes "\<forall>i \<in> set us. owned t (the (tr i))" "ids_ok rs"
  shows "triple (sealed t rs tr us X) (commit_act e)
    (\<lambda>_ c. \<exists>rs'. writes_back rs tr us rs' \<and> sealed t rs' tr [] X c) E"
proof (rule tripleI)
  fix c u c' assume s: "sealed t rs tr us X c" and r: "commit_act e c = (Ok u, c')"
  then have "c' = commit e c" by (simp add: commit_act_def)
  with sealed_commit [OF s assms, of e]
  show "\<exists>rs'. writes_back rs tr us rs' \<and> sealed t rs' tr [] X c'" by simp
qed (simp add: commit_act_def)

text \<open>With none of the table's instances pending, a commit leaves the table as it is.\<close>

lemma triple_commit_idle:
  "triple (sealed t rs tr [] X) (commit_act e) (\<lambda>_. sealed t rs tr [] X) E"
proof (rule tripleI)
  fix c u c' assume s: "sealed t rs tr [] X c" and r: "commit_act e c = (Ok u, c')"
  obtain st se where c: "commit_adds c = (st, se)" by (cases "commit_adds c")
  have s1: "sealed t rs tr [] X (st, se)" using sealed_commit_adds [OF s] by (simp add: c)
  let ?ps = "enumerate 0 (se_updates se)"
  let ?st = "run_updates e se ?ps st"
  have none: "i \<in> set (se_updates se) \<Longrightarrow> tr i = None" for i
    using sealedD(5) [OF s1] by (auto simp: filter_empty_conv)
  have "st_tables ?st t = st_tables (run_updates e se (filter (\<lambda>p. tr (snd p) \<noteq> None) ?ps) st) t"
    using sealedD(4,6) [OF s1] none by (intro run_updates_tracked) (auto simp: in_set_enumerate_eq)
  moreover have "filter (\<lambda>p. tr (snd p) \<noteq> None) ?ps = []" using none by (auto simp: filter_empty_conv in_set_enumerate_eq)
  ultimately have "st_tables ?st t = rs" using sealedD(1) [OF s1] by (simp add: run_updates_def)
  moreover have "commit e c = (?st, clear_pending se)"
    using sealedD(8) [OF s1] by (simp add: commit_def c commit_updates_def run_updates_def commit_deletes_def)
  ultimately show "sealed t rs tr [] X c'" using sealed_clear [OF s1, of ?st] r by (simp add: commit_act_def)
qed (simp add: commit_act_def)

lemma triple_refresh: "i \<in> X \<Longrightarrow> triple (sealed t rs tr us X) (refresh_act i) (\<lambda>_. sealed t rs tr us X) E"
proof (rule tripleI)
  fix c u c' assume i: "i \<in> X" and s: "sealed t rs tr us X c" and r: "refresh_act i c = (Ok u, c')"
  obtain st se where c: "c = (st, se)" by (cases c)
  have "refresh i c = se \<or> (\<exists>d. refresh i c = put_data i d se)"
    by (auto simp: refresh_def Let_def c split: option.split)
  moreover have "tr i = None" using sealedD(7) [OF s, of i] i by simp
  ultimately show "sealed t rs tr us X c'"
    using r s sealed_put [OF s [unfolded c], of i st] sealedD(1) [OF s] by (auto simp: refresh_act_def c)
qed (simp add: refresh_act_def)

lemma sealed_forget: "sealed t rs tr us X c \<Longrightarrow> Y \<subseteq> X \<Longrightarrow> sealed t rs tr us Y c"
  unfolding sealed_def by blast

text \<open>Queries of other models, whether they raise or not.\<close>

lemma triple_first:
  "other_model t m \<Longrightarrow> triple (sealed t rs tr us X) (query_where e m cs) (\<lambda>_. sealed t rs tr us X) (\<lambda>_. sealed t rs tr us X)"
  by (intro tripleI) (auto simp: query_where_def other_model_def elim!: sealed_first)

lemma triple_all:
  "other_model t m \<Longrightarrow> triple (sealed t rs tr us X) (\<lambda>c. q_all e (filter_q (fst c) cs (new_query m)) c)
     (\<lambda>_. sealed t rs tr us X) (\<lambda>_. sealed t rs tr us X)"
  by (intro tripleI) (auto simp: other_model_def elim!: sealed_all)

lemma triple_by:
  assumes "other_model t m" "total_class (class_of m)"
  shows "triple (sealed t rs tr us X) (query_by e m kw) (\<lambda>_. sealed t rs tr us X) E"
proof -
  have "list_all (\<lambda>c. eq_clause c \<noteq> None) (map (\<lambda>(f, v). Compare f OpEq v) kw)" by (auto simp: list_all_iff)
  from triple_query_other [OF this assms] show ?thesis by (simp add: query_by_def [abs_def] eq_query_forms)
qed

text \<open>The account classes and tables the handlers use.\<close>

lemma regular_classes [simp]:
  "regular ''Transaction'' ''transactions''" "regular ''Notification'' ''notifications''"
  "regular ''Conversation'' ''conversations''" "regular ''ConversationParticipant'' ''conversation_participants''"
  by code_simp+

lemma other_models [simp]:
  "other_model ''accounts'' ''User''" "other_model ''accounts'' ''Contact''"
  "other_model ''accounts'' ''Conversation''" "other_model ''accounts'' ''ConversationParticipant''"
  by code_simp+

lemma total_classes [simp]:
  "total_class ''User''" "total_class ''Notification''" "total_class ''Conversation''"
  "total_class ''ConversationParticipant''" "total_class ''Contact''"
  by code_simp+

lemma class_of_simps [simp]: "class_of ''User'' = ''User''" "class_of ''Account'' = ''Account''"
  by code_simp+

lemma account_table [simp]: "dget store_map ''Account'' = Some ''accounts''"
  by code_simp

end
