(* ===== verification/Accounts.thy ===== *)
theory Accounts
  imports Actions
begin

text \<open>
  Accounts as the handlers see them: the ownership check of utils/validators.py, and what a row of the
  accounts table reads as. \<open>holds r c\<close> says that loading row r gives an account with a balance of c
  cents; the stored balance need not be rounded, because the constructor of the class rounds it.
\<close>

section \<open>Ownership\<close>

definition access_denied :: py_error where
  "access_denied = HTTPException 400 ''Account not found or access denied''"

text \<open>Iterating over stored joint accounts, which are not instances, raises.\<close>

definition joint_error :: "cell \<Rightarrow> py_error" where
  "joint_error v =
     (case v of
        CList (x # _) \<Rightarrow> CustomError ''AttributeError'' (quoted (type_name x) @ '' object has no attribute '' @ quoted ''id'')
      | CStr s \<Rightarrow> CustomError ''AttributeError'' (quoted ''str'' @ '' object has no attribute '' @ quoted ''id'')
      | CDict d \<Rightarrow> CustomError ''AttributeError'' (quoted ''str'' @ '' object has no attribute '' @ quoted ''id'')
      | _ \<Rightarrow> TypeError (quoted (type_name v) @ '' object is not iterable''))"

definition validate_account_ownership :: "env \<Rightarrow> int \<Rightarrow> int \<Rightarrow> nat act" where
  "validate_account_ownership e aid uid =
     bind_act (query_where e ''Account'' [Compare ''id'' OpEq (CInt aid), Compare ''user_id'' OpEq (CInt uid), OtherC])
       (\<lambda>a. case a of
          Some i \<Rightarrow> ret i
        | None \<Rightarrow>
            bind_act (q_get (later 100 e) (new_query ''User'') (CInt uid))
              (\<lambda>u. case u of
                 None \<Rightarrow> throw access_denied
               | Some j \<Rightarrow> bind_act (attr j ''joint_accounts'')
                   (\<lambda>v. throw (if cell_true v then joint_error v else access_denied))))"


section \<open>What a row reads as\<close>

definition reads :: "row \<Rightarrow> string \<Rightarrow> int \<Rightarrow> bool" where
  "reads r k c = (\<bar>c\<bar> \<le> money_range \<and> format_money (field r k) = Ok (CFloat (cents c)))"

definition readable :: "row \<Rightarrow> bool" where
  "readable r = (field r ''id'' \<noteq> CNone \<and> (\<exists>c. reads r ''available_balance'' c) \<and> (\<exists>c. reads r ''credit_limit'' c))"

definition holds :: "row \<Rightarrow> int \<Rightarrow> bool" where
  "holds r c = (readable r \<and> reads r ''balance'' c)"

lemma holds_cong:
  "holds r c \<Longrightarrow> (\<And>k. k \<noteq> ''updated_at'' \<Longrightarrow> field r' k = field r k) \<Longrightarrow> holds r' c"
  by (simp add: holds_def readable_def reads_def)

lemma format_zero: "format_money (CFloat 0) = Ok (CFloat 0)" "format_money CNone = Ok (CFloat 0)"
  by code_simp+

definition setdefault :: "string \<Rightarrow> cell \<Rightarrow> row \<Rightarrow> row" where
  "setdefault k v d = (if has_key d k then d else dset k v d)"

lemma dget_setdefault: "dget (setdefault k v d) j = (if j = k \<and> dget d k = None then Some v else dget d j)"
  by (auto simp: setdefault_def has_key_def)

lemma run_default: "run_steps e n st (Default k v # ss) d = run_steps e (Suc n) st ss (setdefault k v d)"
  by (simp add: setdefault_def)

lemma run_amount:
  "format_money (dget_or d k (CFloat 0)) = Ok v \<Longrightarrow> run_steps e n st (Amount k # ss) d = run_steps e (Suc n) st ss (dset k v d)"
  by simp

lemma format_default:
  "dget d' k = (case dget d k of None \<Rightarrow> Some (CFloat 0) | Some v \<Rightarrow> Some v) \<Longrightarrow>
   format_money (dget_or d' k (CFloat 0)) = format_money (field d k)"
  by (auto simp: field_def dget_or_def format_zero split: option.splits)

lemma steps_of_account: "steps_of ''Account'' = account_steps"
  by code_simp

lemma reads_format: "reads r k c \<Longrightarrow> format_money (field r k) = Ok (CFloat (cents c))"
  by (simp add: reads_def)

lemma reads_cents: "reads r k c \<Longrightarrow> field d k = CFloat (cents c) \<Longrightarrow> reads d k c"
  by (simp add: reads_def format_cents)

text \<open>A loaded account reads as its row, and its balance is rounded.\<close>

lemma account_new:
  assumes "holds r c"
  shows "\<exists>d st'. new_object e ''Account'' r st = (Ok d, st') \<and> st_tables st' = st_tables st \<and> holds d c
    \<and> field d ''balance'' = CFloat (cents c) \<and> field d ''id'' = field r ''id'' \<and> field d ''user_id'' = field r ''user_id''"
proof -
  obtain d0 st' where b: "base_init e ''Account'' r st = (d0, st')" by (cases "base_init e ''Account'' r st")
  note f = base_init_tables [OF b]
  have key: "has_key r ''id''" using assms by (auto simp: holds_def readable_def field_def dget_or_def has_key_def split: option.splits)
  obtain v w where vw: "reads r ''available_balance'' v" "reads r ''credit_limit'' w" and c: "reads r ''balance'' c"
    using assms by (auto simp: holds_def readable_def)
  let ?b = "CFloat (cents c)" and ?v = "CFloat (cents v)" and ?w = "CFloat (cents w)"
  define d3 where "d3 = setdefault ''credit_limit'' (CFloat 0) (setdefault ''available_balance'' (CFloat 0)
    (setdefault ''balance'' (CFloat 0) d0))"
  have amount: "format_money (dget_or d3 k (CFloat 0)) = format_money (field r k)"
    if k: "k = ''balance'' \<or> k = ''available_balance'' \<or> k = ''credit_limit''" for k
  proof (rule format_default)
    have "dget d0 k = dget r k" using k by (intro f(3)) auto
    then show "dget d3 k = (case dget r k of None \<Rightarrow> Some (CFloat 0) | Some v \<Rightarrow> Some v)"
      using k by (cases "dget d0 k"; elim disjE; simp add: d3_def dget_setdefault)
  qed
  have a1: "format_money (dget_or d3 ''balance'' (CFloat 0)) = Ok ?b" using amount reads_format [OF c] by simp
  have a2: "format_money (dget_or (dset ''balance'' ?b d3) ''available_balance'' (CFloat 0)) = Ok ?v"
    using amount reads_format [OF vw(1)] by (simp add: dget_or_def)
  have a3: "format_money (dget_or (dset ''available_balance'' ?v (dset ''balance'' ?b d3)) ''credit_limit'' (CFloat 0)) = Ok ?w"
    using amount reads_format [OF vw(2)] by (simp add: dget_or_def)
  define d where "d = setdefault ''currency'' (CStr ''USD'') (setdefault ''is_active'' (CBool True)
    (dset ''credit_limit'' ?w (dset ''available_balance'' ?v (dset ''balance'' ?b d3))))"
  have "run_steps e 1 st' account_steps d0 = Ok d"
    unfolding account_steps_def run_default d3_def [symmetric] run_amount [OF a1] run_amount [OF a2] run_amount [OF a3]
    by (simp only: run_steps.simps d_def)
  then have new: "new_object e ''Account'' r st = (Ok d, st')" by (simp add: new_object_def b steps_of_account)
  have amounts: "field d ''balance'' = ?b" "field d ''available_balance'' = ?v" "field d ''credit_limit'' = ?w"
    by (simp_all add: d_def field_def dget_or_def dget_setdefault)
  have other: "field d k = field r k" if "k = ''id'' \<or> k = ''user_id''" for k
  proof -
    have "dget d k = dget d0 k" using that by (elim disjE; simp add: d_def d3_def dget_setdefault)
    moreover have "field d0 k = field r k"
    proof (cases "k = ''id''")
      case True
      then show ?thesis using f(2) key by simp
    next
      case False
      then have "dget d0 k = dget r k" using that by (intro f(3)) auto
      then show ?thesis by (simp add: field_def dget_or_def)
    qed
    ultimately show ?thesis by (simp add: field_def dget_or_def)
  qed
  have "field d ''id'' \<noteq> CNone" using other assms by (simp add: holds_def readable_def)
  moreover note reads_cents [OF c amounts(1)] reads_cents [OF vw(1) amounts(2)] reads_cents [OF vw(2) amounts(3)]
  ultimately have "holds d c" unfolding holds_def readable_def by blast
  with new f(1) amounts(1) other show ?thesis by blast
qed

definition is_account :: "row \<Rightarrow> int \<Rightarrow> obj \<Rightarrow> bool" where
  "is_account r c x = (ob_class x = ''Account'' \<and> ob_orig x = Some r \<and> field (ob_data x) ''balance'' = CFloat (cents c)
     \<and> holds (ob_data x) c \<and> field (ob_data x) ''id'' = field r ''id'' \<and> field (ob_data x) ''user_id'' = field r ''user_id'')"

lemma load_account:
  assumes "holds r b"
  shows "\<exists>x i c'. load e ''Account'' r c = (Ok i, c') \<and> st_tables (fst c') = st_tables (fst c) \<and> is_account r b x
    \<and> (sealed ''accounts'' rs tr us X c \<longrightarrow> tr i = None \<and> sealed ''accounts'' rs (tr(i \<mapsto> x)) (us @ [i]) X c')"
proof -
  obtain st se where c: "c = (st, se)" by (cases c)
  obtain d st' where n: "new_object e ''Account'' r st = (Ok d, st')" and t: "st_tables st' = st_tables st"
    and d: "holds d b" "field d ''balance'' = CFloat (cents b)" "field d ''id'' = field r ''id''" "field d ''user_id'' = field r ''user_id''"
    using account_new [OF assms] by blast
  let ?x = "\<lparr>ob_class = ''Account'', ob_data = d, ob_orig = Some r\<rparr>"
  obtain i c' where l: "load e ''Account'' r (st, se) = (Ok i, c')" and f: "fst c' = st'"
    by (simp add: load_def n Let_def)
  have "tr i = None \<and> sealed ''accounts'' rs (tr(i \<mapsto> ?x)) (us @ [i]) X c'" if s: "sealed ''accounts'' rs tr us X (st, se)"
    using sealed_load_own [OF s l] n by simp
  moreover have "is_account r b ?x" using d by (simp add: is_account_def)
  ultimately show ?thesis using l f t c by (intro exI [of _ ?x] exI [of _ i] exI [of _ c']) simp
qed

text \<open>A transaction can be built from an amount that can be formatted.\<close>

lemma steps_of_transaction: "steps_of ''Transaction'' = transaction_steps"
  by code_simp

lemma makes_transaction:
  assumes "format_money (field kw ''amount'') = Ok v"
  shows "makes ''Transaction'' kw"
  unfolding makes_def
proof (intro allI)
  fix e st
  obtain d0 st' where b: "base_init e ''Transaction'' kw st = (d0, st')" by (cases "base_init e ''Transaction'' kw st")
  define d1 where "d1 = setdefault ''amount'' (CFloat 0) d0"
  have "dget d0 ''amount'' = dget kw ''amount''" by (intro base_init_tables(3) [OF b]) simp
  then have "dget d1 ''amount'' = (case dget kw ''amount'' of None \<Rightarrow> Some (CFloat 0) | Some v \<Rightarrow> Some v)"
    by (simp add: d1_def dget_setdefault split: option.split)
  from format_default [OF this] assms have f: "format_money (dget_or d1 ''amount'' (CFloat 0)) = Ok v" by simp
  have "run_steps e 1 st' (Default ''amount'' (CFloat 0) # Amount ''amount'' # ss) d0
      = run_steps e (Suc (Suc 1)) st' ss (dset ''amount'' v d1)" for ss
    unfolding run_default d1_def [symmetric] run_amount [OF f] ..
  moreover have "\<exists>d2. run_steps e (Suc (Suc 1)) st' [Default ''status'' (CStr ''completed''),
      Stamp ''transaction_date'' 0, OwnerOfAccount] (dset ''amount'' v d1) = Ok d2"
    by (rule run_total) simp
  ultimately have "\<exists>d2. run_steps e 1 st' transaction_steps d0 = Ok d2" unfolding transaction_steps_def by simp
  then show "\<exists>d st'. new_object e ''Transaction'' kw st = (Ok d, st')"
    by (auto simp: new_object_def b steps_of_transaction)
qed

section \<open>Finding accounts\<close>

lemma find_row_at:
  assumes "ids_ok rs" "distinct (map (\<lambda>r. field r ''id'') rs)" "row_at rs n = Some r"
  shows "find (\<lambda>r. py_eq (field r ''id'') (CInt n) \<and> p r) rs = (if p r then Some r else None)"
  using assms
proof (induction rs)
  case (Cons y ys)
  obtain k where k: "field y ''id'' = CInt k" using Cons.prems(1) by auto
  show ?case
  proof (cases "k = n")
    case True
    then have "r = y" using Cons.prems(3) k by simp
    moreover have "\<not> py_eq (field z ''id'') (CInt n)" if "z \<in> set ys" for z
    proof -
      have "ids_ok ys" using Cons.prems(1) by simp
      then have "\<exists>m. field z ''id'' = CInt m" unfolding ids_ok_def by (rule bspec) (rule that)
      then obtain m where m: "field z ''id'' = CInt m" ..
      have "CInt n \<noteq> field z ''id''"
      proof
        assume "CInt n = field z ''id''"
        then have "field y ''id'' \<in> (\<lambda>r. field r ''id'') ` set ys" using that k True by (intro image_eqI [of _ _ z]) simp
        with Cons.prems(2) show False by simp
      qed
      with m show ?thesis by simp
    qed
    then have "find (\<lambda>r. py_eq (field r ''id'') (CInt n) \<and> p r) ys = None" by (auto simp: find_None_iff)
    ultimately show ?thesis using k True by simp
  next
    case False
    then show ?thesis using Cons k by simp
  qed
qed simp

lemma rows_of_account [simp]: "rows_of st ''Account'' = st_tables st ''accounts''"
  by (simp add: rows_of_table)

lemma validate_owner:
  assumes "unique_ids (st_tables (fst c) ''accounts'')" "row_at (st_tables (fst c) ''accounts'') n = Some r"
    and "py_eq (field r ''user_id'') (CInt uid)" "load e ''Account'' r c = (Ok i, c')"
  shows "validate_account_ownership e n uid c = (Ok i, c')"
proof -
  let ?cs = "[Compare ''id'' OpEq (CInt n), Compare ''user_id'' OpEq (CInt uid), OtherC]"
  have "find (\<lambda>r. list_all (\<lambda>c. the (eq_clause c) r) ?cs) (rows_of (fst c) ''Account'') = Some r"
    using find_row_at [of _ n r "\<lambda>r. py_eq (field r ''user_id'') (CInt uid)"] assms(1-3)
    by (simp add: eq_holds_def unique_ids_def)
  then have "query_where e ''Account'' ?cs c = (Ok (Some i), c')"
    by (simp add: query_where_def eq_query_forms q_first_eq_query load_option_def assms(4))
  then show ?thesis by (simp add: validate_account_ownership_def bind_act_def ret_def)
qed

lemma query_account:
  assumes "unique_ids (st_tables (fst c) ''accounts'')" "row_at (st_tables (fst c) ''accounts'') n = Some r"
    and "load e ''Account'' r c = (Ok i, c')"
  shows "query_by e ''Account'' [(''id'', CInt n)] c = (Ok (Some i), c')"
proof -
  have "find (\<lambda>r. list_all (\<lambda>c. the (eq_clause c) r) [Compare ''id'' OpEq (CInt n)]) (rows_of (fst c) ''Account'') = Some r"
    using find_row_at [of _ n r "\<lambda>_. True"] assms(1,2) by (simp add: eq_holds_def unique_ids_def)
  then show ?thesis by (simp add: query_by_def eq_query_forms q_first_eq_query load_option_def assms(3))
qed

text \<open>The row a changed account is written back to.\<close>

lemma written_back:
  assumes w: "writes_back rs tr us rs'" and i: "filter (\<lambda>i. field (ob_data (the (tr i))) ''id'' = CInt n) us = ws @ [i]"
    and x: "tr i = Some x" "row_at rs n = Some r"
  shows "\<exists>r'. row_at rs' n = Some r' \<and> (\<forall>f. f \<noteq> ''updated_at'' \<longrightarrow> field r' f = field (ob_data x) f)"
  using w [unfolded writes_back_def Let_def, THEN conjunct2, rule_format, of n] i x by simp

lemma not_written_back:
  assumes "writes_back rs tr us rs'" "\<forall>i \<in> set us. field (ob_data (the (tr i))) ''id'' \<noteq> CInt n"
  shows "row_at rs' n = row_at rs n"
proof -
  have "filter (\<lambda>i. field (ob_data (the (tr i))) ''id'' = CInt n) us = []" using assms(2) by (simp add: filter_empty_conv)
  then show ?thesis using assms(1) [unfolded writes_back_def Let_def, THEN conjunct2, rule_format, of n] by simp
qed

text \<open>Two instances written back in turn.\<close>

lemma pair_written:
  assumes w: "writes_back rs [i \<mapsto> x, j \<mapsto> y] [i, j] rs'" and ij: "i \<noteq> j"
    and id: "field (ob_data x) ''id'' = CInt m" "field (ob_data y) ''id'' = CInt n"
    and rows: "row_at rs m \<noteq> None" "row_at rs n \<noteq> None"
  shows "m \<noteq> n \<Longrightarrow> \<exists>s. row_at rs' m = Some s \<and> (\<forall>f. f \<noteq> ''updated_at'' \<longrightarrow> field s f = field (ob_data x) f)"
    and "\<exists>s. row_at rs' n = Some s \<and> (\<forall>f. f \<noteq> ''updated_at'' \<longrightarrow> field s f = field (ob_data y) f)"
    and "l \<noteq> m \<Longrightarrow> l \<noteq> n \<Longrightarrow> row_at rs' l = row_at rs l"
proof -
  show "m \<noteq> n \<Longrightarrow> \<exists>s. row_at rs' m = Some s \<and> (\<forall>f. f \<noteq> ''updated_at'' \<longrightarrow> field s f = field (ob_data x) f)"
  proof -
    assume "m \<noteq> n"
    with ij id have "filter (\<lambda>k. field (ob_data (the ([i \<mapsto> x, j \<mapsto> y] k))) ''id'' = CInt m) [i, j] = [] @ [i]" by simp
    with rows(1) ij show ?thesis by (auto intro!: written_back [OF w])
  qed
  from ij id have "filter (\<lambda>k. field (ob_data (the ([i \<mapsto> x, j \<mapsto> y] k))) ''id'' = CInt n) [i, j]
      = (if m = n then [i] else []) @ [j]" by simp
  with rows(2) show "\<exists>s. row_at rs' n = Some s \<and> (\<forall>f. f \<noteq> ''updated_at'' \<longrightarrow> field s f = field (ob_data y) f)"
    by (auto intro!: written_back [OF w])
  show "l \<noteq> m \<Longrightarrow> l \<noteq> n \<Longrightarrow> row_at rs' l = row_at rs l"
    using ij id by (intro not_written_back [OF w]) auto
qed

text \<open>The row of an account whose balance was changed by some cents.\<close>

lemma changed_holds:
  assumes x: "is_account r c x" and k: "\<bar>k\<bar> \<le> money_range"
    and r': "\<And>f. f \<noteq> ''updated_at'' \<Longrightarrow> field r' f = (if f = ''balance'' then CFloat (double v) else field (ob_data x) f)"
  shows "v = cents c + cents k \<Longrightarrow> \<bar>c + k\<bar> \<le> money_range \<Longrightarrow> holds r' (c + k)"
    and "v = cents c - cents k \<Longrightarrow> \<bar>c - k\<bar> \<le> money_range \<Longrightarrow> holds r' (c - k)"
proof -
  have c: "\<bar>c\<bar> \<le> money_range" and re: "readable (ob_data x)" using x by (auto simp: is_account_def holds_def reads_def)
  have "readable r'" using re by (simp add: readable_def reads_def r')
  then show "v = cents c + cents k \<Longrightarrow> \<bar>c + k\<bar> \<le> money_range \<Longrightarrow> holds r' (c + k)"
    "v = cents c - cents k \<Longrightarrow> \<bar>c - k\<bar> \<le> money_range \<Longrightarrow> holds r' (c - k)"
    using format_sum [OF c k] by (simp_all add: holds_def reads_def r')
qed

end
