(* ===== verification/Transfers.thy ===== *)
theory Transfers
  imports Accounts
begin

text \<open>
  The money endpoints (backend routes/transfers.py) with \<open>get_or_create_conversation\<close> of
  routes/conversations.py, over a session of the memory store.

  An endpoint is an action on a store and a session that may raise. The validation of the request by
  pydantic (amounts positive) is a hypothesis of the theorems; building the response is not modelled.
  The environment of an endpoint is split among its steps.
\<close>

section \<open>Texts\<close>

text \<open>\<open>f"{x:.2f}"\<close> and the time stamp of the reference numbers.\<close>

definition fixed2 :: "rat \<Rightarrow> string" where
  "fixed2 x =
     (let n = round_even (100 * \<bar>x\<bar>)
      in (if x < 0 then ''-'' else []) @ str_nat (n div 100) @ ''.'' @ pad 2 (n mod 100))"

definition compact_time :: "time \<Rightarrow> string" where
  "compact_time t =
     (let s = t div 1000000; r = s mod 86400
      in (case civil (s div 86400) of (y, m, d) \<Rightarrow> pad 4 y @ pad 2 m @ pad 2 d)
         @ pad 2 (r div 3600) @ pad 2 (r div 60 mod 60) @ pad 2 (r mod 60))"

definition text_or :: "string option \<Rightarrow> string \<Rightarrow> string" where
  "text_or s t = (case s of Some (c # cs) \<Rightarrow> c # cs | _ \<Rightarrow> t)"

definition opt_cell :: "('a \<Rightarrow> cell) \<Rightarrow> 'a option \<Rightarrow> cell" where
  "opt_cell f v = (case v of None \<Rightarrow> CNone | Some x \<Rightarrow> f x)"

section \<open>Transfer\<close>

record login =
  lo_user :: int
  lo_name :: string

record transfer_request =
  tq_source :: int
  tq_dest :: int
  tq_amount :: rat
  tq_description :: "string option"
  tq_external :: bool

datatype response = Refused string | Booked nat

definition transfer_debit :: "env \<Rightarrow> int \<Rightarrow> transfer_request \<Rightarrow> cell \<Rightarrow> row" where
  "transfer_debit e uid q src =
     [(''user_id'', CInt uid), (''account_id'', src), (''amount'', CFloat (tq_amount q)),
      (''transaction_type'', CStr ''debit''), (''status'', CStr ''completed''),
      (''description'', CStr (text_or (tq_description q) (''Transfer to '' @ str_int (tq_dest q)))),
      (''reference_number'', CStr (''TRF'' @ compact_time (clock e 0))),
      (''transaction_date'', CTime True (clock e 1)), (''category_id'', CInt 15),
      (''metadata'', CDict [(''transfer_type'', CStr ''debit''), (''destination_account_id'', CInt (tq_dest q)),
         (''is_external'', CBool (tq_external q))])]"

definition transfer_credit :: "env \<Rightarrow> cell \<Rightarrow> cell \<Rightarrow> rat \<Rightarrow> cell \<Rightarrow> cell \<Rightarrow> row" where
  "transfer_credit e uid dst amount src_name src =
     [(''user_id'', uid), (''account_id'', dst), (''amount'', CFloat amount),
      (''transaction_type'', CStr ''credit''), (''status'', CStr ''completed''),
      (''description'', CStr (''Transfer from '' @ cell_str src_name)),
      (''reference_number'', CStr (''TRF'' @ compact_time (clock e 0))),
      (''transaction_date'', CTime True (clock e 1)), (''category_id'', CInt 15),
      (''metadata'', CDict [(''transfer_type'', CStr ''credit''), (''source_account_id'', src),
         (''is_external'', CBool False)])]"

definition notification :: "cell \<Rightarrow> string \<Rightarrow> string \<Rightarrow> cell \<Rightarrow> row \<Rightarrow> row" where
  "notification uid title msg txn meta =
     [(''user_id'', uid), (''type'', CStr ''transaction_alert''), (''title'', CStr title), (''message'', CStr msg),
      (''action_url'', CStr (''/transactions/'' @ cell_str txn)), (''is_read'', CBool False),
      (''metadata'', CDict meta)]"

definition sender_notice :: "env \<Rightarrow> int \<Rightarrow> transfer_request \<Rightarrow> nat \<Rightarrow> nat act" where
  "sender_notice e uid q txn =
     bind_act (attr txn ''id'') (\<lambda>t.
       create e ''Notification''
         (notification (CInt uid) ''Transfer Complete''
            (''You transferred $'' @ fixed2 (tq_amount q) @
              (if tq_external q then '' (External Transfer)'' else '' to account '' @ str_int (tq_dest q))) t
            [(''transaction_id'', t), (''amount'', CFloat (tq_amount q)),
             (''transfer_type'', CStr (if tq_external q then ''external'' else ''internal''))]))"

definition name_of :: "nat option \<Rightarrow> string \<Rightarrow> cell act" where
  "name_of u other = (case u of None \<Rightarrow> ret (CStr other) | Some j \<Rightarrow> attr j ''username'')"

definition recipient_notice :: "env \<Rightarrow> int \<Rightarrow> transfer_request \<Rightarrow> cell \<Rightarrow> nat \<Rightarrow> unit act" where
  "recipient_notice e uid q dest_uid txn =
     (if \<not> cell_true dest_uid then ret ()
      else then_act (query_by e ''User'' [(''id'', dest_uid)])
        (bind_act (query_by (later 100 e) ''User'' [(''id'', CInt uid)]) (\<lambda>u.
         bind_act (name_of u ''a user'') (\<lambda>n1.
         bind_act (name_of u ''Unknown'') (\<lambda>n2.
         bind_act (attr txn ''id'') (\<lambda>t.
         then_act (create (later 200 e) ''Notification''
           (notification dest_uid ''Transfer Received''
              (''You received $'' @ fixed2 (tq_amount q) @ '' from '' @ cell_str n1) t
              [(''transaction_id'', t), (''amount'', CFloat (tq_amount q)), (''sender'', n2)])) (ret ())))))))"

text \<open>Up to the first commit: the two sides, the notifications.\<close>

definition internal_side :: "env \<Rightarrow> transfer_request \<Rightarrow> nat \<Rightarrow> nat \<Rightarrow> nat act" where
  "internal_side e q src dst =
     bind_act (attr dst ''user_id'') (\<lambda>u. bind_act (attr dst ''id'') (\<lambda>d.
     bind_act (attr src ''name'') (\<lambda>n. bind_act (attr src ''id'') (\<lambda>s.
     bind_act (make_obj e ''Transaction'' (transfer_credit (later 64 e) u d (tq_amount q) n s)) (\<lambda>t.
     then_act (change_balance dst (\<lambda>b. b + tq_amount q))
     (then_act (add_act t) (ret t)))))))"

definition book_transfer :: "env \<Rightarrow> int \<Rightarrow> transfer_request \<Rightarrow> nat \<Rightarrow> nat option \<Rightarrow> nat act" where
  "book_transfer e uid q src dst =
     bind_act (attr src ''id'') (\<lambda>s.
     bind_act (make_obj (later 200 e) ''Transaction'' (transfer_debit (later 300 e) uid q s)) (\<lambda>debit.
     then_act (change_balance src (\<lambda>b. b - tq_amount q))
     (then_act (add_act debit)
     (case dst of
        None \<Rightarrow> then_act (sender_notice (later 600 e) uid q debit) (then_act (commit_act (later 900 e)) (ret debit))
      | Some d \<Rightarrow>
          bind_act (internal_side (later 400 e) q src d) (\<lambda>credit.
          then_act (sender_notice (later 600 e) uid q debit)
          (bind_act (attr d ''user_id'') (\<lambda>du.
           then_act (recipient_notice (later 700 e) uid q du credit)
           (then_act (commit_act (later 900 e)) (ret debit)))))))))"

section \<open>The message between contacts\<close>

definition new_conversation :: "env \<Rightarrow> int \<Rightarrow> cell \<Rightarrow> nat act" where
  "new_conversation e u1 u2 =
     bind_act (create e ''Conversation'' [(''is_group'', CBool False), (''created_by_id'', CInt u1),
         (''created_at'', CTime True (clock e 50))]) (\<lambda>i.
     then_act (commit_act (later 100 e))
     (then_act (refresh_act i)
     (bind_act (attr i ''id'') (\<lambda>cid.
      then_act (create (later 200 e) ''ConversationParticipant'' [(''conversation_id'', cid), (''user_id'', CInt u1),
         (''is_admin'', CBool False), (''joined_at'', CTime True (clock e 51))])
      (then_act (create (later 300 e) ''ConversationParticipant'' [(''conversation_id'', cid), (''user_id'', u2),
         (''is_admin'', CBool False), (''joined_at'', CTime True (clock e 52))])
      (then_act (commit_act (later 400 e)) (ret i)))))))"

text \<open>\<open>sorted\<close> on a list of identifiers.\<close>

definition sorted_cells :: "cell list \<Rightarrow> cell list result" where
  "sorted_cells vs =
     (if any_clash (map (\<lambda>v. [rank v]) vs) then Err (TypeError ''values cannot be ordered'')
      else Ok (sort_key rank vs))"

fun find_conversation :: "env \<Rightarrow> cell list \<Rightarrow> nat list \<Rightarrow> nat option act" where
  "find_conversation e ids [] c = (Ok None, c)"
| "find_conversation e ids (i # is') c =
     bind_act (attr i ''id'') (\<lambda>cid.
     bind_act (\<lambda>c. q_all e (filter_q (fst c) [Compare ''conversation_id'' OpEq cid] (new_query ''ConversationParticipant'')) c)
       (\<lambda>ps c. case sorted_cells (map (\<lambda>p. get_attr (snd c) p ''user_id'') ps) of
          Inl err \<Rightarrow> (Err err, c)
        | Inr us \<Rightarrow> if py_eq (CList us) (CList ids) then (Ok (Some i), c)
                    else find_conversation (later 10000 e) ids is' c)) c"

definition get_or_create_conversation :: "env \<Rightarrow> int \<Rightarrow> cell \<Rightarrow> nat act" where
  "get_or_create_conversation e u1 u2 =
     (case sorted_cells [CInt u1, u2] of
        Inl err \<Rightarrow> throw err
      | Inr ids \<Rightarrow>
          bind_act (\<lambda>c. q_all (later 1000 e) (filter_q (fst c) [Compare ''is_group'' OpEq (CBool False)] (new_query ''Conversation'')) c)
            (\<lambda>cs. bind_act (find_conversation (later 10000 e) ids cs)
              (\<lambda>r. case r of Some i \<Rightarrow> ret i | None \<Rightarrow> new_conversation e u1 u2)))"

text \<open>
  \<open>TransferRequest\<close> has no field \<open>note\<close>: between contacts the message text raises, after the
  conversation was found or made.
\<close>

definition no_note :: py_error where
  "no_note = CustomError ''AttributeError''
     (quoted ''TransferRequest'' @ '' object has no attribute '' @ quoted ''note'')"

definition contact_message :: "env \<Rightarrow> int \<Rightarrow> nat \<Rightarrow> unit act" where
  "contact_message e uid dst =
     bind_act (attr dst ''user_id'') (\<lambda>du.
     bind_act (query_where e ''Contact''
       [OrC [AndC [Compare ''user_id'' OpEq (CInt uid), Compare ''contact_id'' OpEq du, Compare ''status'' OpEq (CStr ''accepted'')],
             AndC [Compare ''user_id'' OpEq du, Compare ''contact_id'' OpEq (CInt uid), Compare ''status'' OpEq (CStr ''accepted'')]]])
       (\<lambda>k. case k of
          None \<Rightarrow> ret ()
        | Some i \<Rightarrow> then_act (get_or_create_conversation (later 100 e) uid du) (throw no_note)))"

definition transfer_money :: "env \<Rightarrow> login \<Rightarrow> transfer_request \<Rightarrow> response act" where
  "transfer_money e u q =
     bind_act (validate_account_ownership e (tq_source q) (lo_user u)) (\<lambda>src.
     bind_act (if tq_external q then ret None
               else bind_act (query_by (later 1000 e) ''Account'' [(''id'', CInt (tq_dest q))])
                 (\<lambda>d. case d of
                    None \<Rightarrow> throw (HTTPException 404 ''Destination account not found'')
                  | Some i \<Rightarrow> ret (Some i))) (\<lambda>dst.
     bind_act (attr src ''balance'') (\<lambda>b.
       if to_float b < tq_amount q then ret (Refused ''Insufficient balance'')
       else bind_act (book_transfer (later 2000 e) (lo_user u) q src dst) (\<lambda>t.
         case dst of
           None \<Rightarrow> ret (Booked t)
         | Some d \<Rightarrow> then_act (contact_message (later 4000 e) (lo_user u) d) (ret (Booked t))))))"

section \<open>What a transfer does to the accounts\<close>

lemma triple_sender: "triple (sealed ''accounts'' rs tr us X) (sender_notice e uid q txn) (\<lambda>_. sealed ''accounts'' rs tr us X) E"
  unfolding sender_notice_def
  by (rule triple_bind [OF triple_attr_any],
      rule triple_post [OF triple_create [of _ "''notifications''"]])
    (simp_all add: total_makes, erule sealed_forget, blast)

lemma triple_name: "triple P (name_of u other) (\<lambda>_. P) E"
  unfolding name_of_def by (rule triple_option) (auto intro: triple_ret triple_attr_any)

lemma triple_recipient:
  "triple (sealed ''accounts'' rs tr us X) (recipient_notice e uid q du txn) (\<lambda>_. sealed ''accounts'' rs tr us X) E"
proof -
  note user = triple_by [of "''accounts''" "''User''", simplified]
  have note_made: "triple (sealed ''accounts'' rs tr us X) (create e' ''Notification'' kw) (\<lambda>_. sealed ''accounts'' rs tr us X) E"
    for e' kw
    by (rule triple_post [OF triple_create [of _ "''notifications''"]])
      (simp_all add: total_makes, erule sealed_forget, blast)
  show ?thesis
    unfolding recipient_notice_def
    by (rule triple_if, rule triple_ret, assumption,
        rule triple_then [OF user], rule triple_bind [OF user], rule triple_bind [OF triple_name],
        rule triple_bind [OF triple_name], rule triple_bind [OF triple_attr_any],
        rule triple_then [OF note_made], rule triple_ret, assumption)
qed

text \<open>The account with its balance changed.\<close>

definition moved :: "(rat \<Rightarrow> rat) \<Rightarrow> obj \<Rightarrow> obj" where
  "moved f x = x\<lparr>ob_data := dset ''balance'' (CFloat (double (f (to_float (field (ob_data x) ''balance''))))) (ob_data x)\<rparr>"

lemma moved_simps [simp]:
  "ob_class (moved f x) = ob_class x" "ob_orig (moved f x) = ob_orig x"
  "field (ob_data (moved f x)) k = (if k = ''balance'' then CFloat (double (f (to_float (field (ob_data x) ''balance''))))
     else field (ob_data x) k)"
  "owned t (moved f x) = owned t x"
  by (simp_all add: moved_def owned_def)

lemmas triple_moved = triple_balance [folded moved_def]

lemma triple_txn:
  assumes "format_money (field kw ''amount'') = Ok v"
  shows "triple (sealed ''accounts'' rs tr us X) (make_obj e ''Transaction'' kw)
    (\<lambda>i. sealed ''accounts'' rs tr us (insert i X)) E"
  by (rule triple_make [of _ "''transactions''"]) (simp_all add: makes_transaction [OF assms])

lemma book_internal:
  assumes tr: "tr src = Some x" "tr d = Some y" "src \<noteq> d" and own: "owned ''accounts'' x" "owned ''accounts'' y"
    and cls: "ob_class x = ''Account''" "ob_class y = ''Account''"
    and amt: "format_money (CFloat (tq_amount q)) = Ok v" and ids: "ids_ok rs"
    and tr': "tr' = tr(src \<mapsto> moved (\<lambda>b. b - tq_amount q) x, d \<mapsto> moved (\<lambda>b. b + tq_amount q) y)"
  shows "triple (sealed ''accounts'' rs tr [src, d] X) (book_transfer e uid q src (Some d))
    (\<lambda>_ c. \<exists>rs'. writes_back rs tr' [src, d] rs' \<and> sealed ''accounts'' rs' tr' [] {} c) E"
proof -
  let ?t1 = "tr(src \<mapsto> moved (\<lambda>b. b - tq_amount q) x)"
  have out: "triple (sealed ''accounts'' rs tr [src, d] X) (change_balance src (\<lambda>b. b - tq_amount q))
      (\<lambda>_. sealed ''accounts'' rs ?t1 [src, d] X) E" for X
    by (rule triple_moved) (simp_all add: tr cls)
  have "triple (sealed ''accounts'' rs ?t1 [src, d] X) (change_balance d (\<lambda>b. b + tq_amount q))
      (\<lambda>_. sealed ''accounts'' rs (?t1(d \<mapsto> moved (\<lambda>b. b + tq_amount q) y)) [src, d] X) E" for X
    by (rule triple_moved) (simp_all add: tr tr(3) [symmetric] cls)
  then have into: "triple (sealed ''accounts'' rs ?t1 [src, d] X) (change_balance d (\<lambda>b. b + tq_amount q))
      (\<lambda>_. sealed ''accounts'' rs tr' [src, d] X) E" for X
    by (simp add: tr')
  have debit: "triple (sealed ''accounts'' rs tr us X) (make_obj e' ''Transaction'' (transfer_debit e2 uid q s))
    (\<lambda>i. sealed ''accounts'' rs tr us (insert i X)) E" for tr us X e' e2 s
    by (rule triple_txn [of _ v]) (simp add: transfer_debit_def field_def dget_or_def amt)
  have credit: "triple (sealed ''accounts'' rs tr us X) (make_obj e' ''Transaction'' (transfer_credit e2 u2 d2 (tq_amount q) n s))
    (\<lambda>i. sealed ''accounts'' rs tr us (insert i X)) E" for tr us X e' e2 u2 d2 n s
    by (rule triple_txn [of _ v]) (simp add: transfer_credit_def field_def dget_or_def amt)
  have side: "triple (sealed ''accounts'' rs ?t1 [src, d] X) (internal_side e' q src d)
      (\<lambda>_. sealed ''accounts'' rs tr' [src, d] {}) E" for e' X
    unfolding internal_side_def
    by (rule triple_bind [OF triple_attr_any], rule triple_bind [OF triple_attr_any],
        rule triple_bind [OF triple_attr_any], rule triple_bind [OF triple_attr_any],
        rule triple_bind [OF credit], rule triple_then [OF into], rule triple_then [OF triple_add],
        rule insertI1, rule triple_ret, erule sealed_forget, rule empty_subsetI)
  have own': "\<forall>i \<in> set [src, d]. owned ''accounts'' (the (tr' i))" using own tr(3) by (simp add: tr')
  show ?thesis
    unfolding book_transfer_def option.case
    by (rule triple_bind [OF triple_attr_any], rule triple_bind [OF debit], rule triple_then [OF out],
        rule triple_then [OF triple_add], rule insertI1, rule triple_bind [OF side],
        rule triple_then [OF triple_sender], rule triple_bind [OF triple_attr_any],
        rule triple_then [OF triple_recipient], rule triple_then [OF triple_commit [OF own' ids]],
        rule triple_ret, assumption)
qed

text \<open>The message between contacts leaves the accounts alone, whether it raises or not.\<close>

abbreviation quiet :: "row list \<Rightarrow> (nat \<Rightarrow> obj option) \<Rightarrow> ctx \<Rightarrow> bool" where
  "quiet rs tr c \<equiv> sealed ''accounts'' rs tr [] {} c"

lemma quiet_create:
  assumes "regular cls u" "u \<noteq> ''accounts''" "total_class cls"
  shows "triple (sealed ''accounts'' rs tr [] X) (create e cls kw) (\<lambda>_. sealed ''accounts'' rs tr [] X) E"
  by (rule triple_post [OF triple_create [OF assms(1,2)]])
    (simp_all add: total_makes assms(3), erule sealed_forget, blast)

lemma quiet_conversation:
  "triple (quiet rs tr) (new_conversation e u1 u2) (\<lambda>_. quiet rs tr) (\<lambda>_. quiet rs tr)"
proof -
  note conv = triple_create [of "''Conversation''" "''conversations''" "''accounts''", simplified, OF total_makes]
  note part = quiet_create [of "''ConversationParticipant''" "''conversation_participants''", simplified]
  show ?thesis
    unfolding new_conversation_def
    by (rule triple_bind [OF conv], simp, rule triple_then [OF triple_commit_idle],
        rule triple_then [OF triple_refresh], rule insertI1, rule triple_bind [OF triple_attr_any],
        rule triple_then [OF part], rule triple_then [OF part], rule triple_then [OF triple_commit_idle],
        rule triple_ret, erule sealed_forget, rule empty_subsetI)
qed

lemma quiet_find: "triple (quiet rs tr) (find_conversation e ids is') (\<lambda>_. quiet rs tr) (\<lambda>_. quiet rs tr)"
proof (induction is' arbitrary: e)
  case Nil
  show ?case by (rule tripleI) simp_all
next
  case (Cons i is')
  have act: "find_conversation e ids (i # is') =
     bind_act (attr i ''id'') (\<lambda>cid.
     bind_act (\<lambda>c. q_all e (filter_q (fst c) [Compare ''conversation_id'' OpEq cid] (new_query ''ConversationParticipant'')) c)
       (\<lambda>ps c. case sorted_cells (map (\<lambda>p. get_attr (snd c) p ''user_id'') ps) of
          Inl err \<Rightarrow> (Err err, c)
        | Inr us \<Rightarrow> if py_eq (CList us) (CList ids) then (Ok (Some i), c)
                    else find_conversation (later 10000 e) ids is' c))"
    by (rule ext) simp
  have rest: "triple (quiet rs tr) (\<lambda>c. case sorted_cells (map (\<lambda>p. get_attr (snd c) p ''user_id'') ps) of
          Inl err \<Rightarrow> (Err err, c)
        | Inr us \<Rightarrow> if py_eq (CList us) (CList ids) then (Ok (Some i), c)
                    else find_conversation (later 10000 e) ids is' c) (\<lambda>_. quiet rs tr) (\<lambda>_. quiet rs tr)" for ps
  proof (rule tripleI)
    fix c err c'
    assume q: "quiet rs tr c" and r: "(case sorted_cells (map (\<lambda>p. get_attr (snd c) p ''user_id'') ps) of
          Inl err \<Rightarrow> (Err err, c)
        | Inr us \<Rightarrow> if py_eq (CList us) (CList ids) then (Ok (Some i), c)
                    else find_conversation (later 10000 e) ids is' c) = (Err err, c')"
    show "quiet rs tr c'"
      using r q tripleD(1) [OF Cons.IH [of "later 10000 e"] q]
      by (cases "sorted_cells (map (\<lambda>p. get_attr (snd c) p ''user_id'') ps)") (simp_all split: if_splits)
  next
    fix c x c'
    assume q: "quiet rs tr c" and r: "(case sorted_cells (map (\<lambda>p. get_attr (snd c) p ''user_id'') ps) of
          Inl err \<Rightarrow> (Err err, c)
        | Inr us \<Rightarrow> if py_eq (CList us) (CList ids) then (Ok (Some i), c)
                    else find_conversation (later 10000 e) ids is' c) = (Ok x, c')"
    show "quiet rs tr c'"
      using r q tripleD(2) [OF Cons.IH [of "later 10000 e"] q]
      by (cases "sorted_cells (map (\<lambda>p. get_attr (snd c) p ''user_id'') ps)") (simp_all split: if_splits)
  qed
  show ?case
    unfolding act
    by (rule triple_bind [OF triple_attr_any], rule triple_bind [OF triple_all], simp, rule rest)
qed

lemma quiet_get_or_create:
  "triple (quiet rs tr) (get_or_create_conversation e u1 u2) (\<lambda>_. quiet rs tr) (\<lambda>_. quiet rs tr)"
proof (cases "sorted_cells [CInt u1, u2]")
  case (Inl err)
  then show ?thesis by (simp add: get_or_create_conversation_def triple_throw)
next
  case (Inr ids)
  have f: "triple (quiet rs tr) (case r of Some i \<Rightarrow> ret i | None \<Rightarrow> new_conversation e u1 u2) (\<lambda>_. quiet rs tr) (\<lambda>_. quiet rs tr)" for r
    by (rule triple_option) (auto intro: triple_ret quiet_conversation)
  show ?thesis
    unfolding get_or_create_conversation_def Inr sum.case
    by (rule triple_bind [OF triple_all], simp, rule triple_bind [OF quiet_find], rule f)
qed

lemma quiet_message: "triple (quiet rs tr) (contact_message e uid d) (\<lambda>_. quiet rs tr) (\<lambda>_. quiet rs tr)"
proof -
  have f: "triple (quiet rs tr) (case k of None \<Rightarrow> ret ()
      | Some i \<Rightarrow> then_act (get_or_create_conversation e uid du) (throw no_note)) (\<lambda>_. quiet rs tr) (\<lambda>_. quiet rs tr)" for e k du
    by (rule triple_option)
      (auto intro: triple_ret triple_then [OF quiet_get_or_create] triple_throw)
  show ?thesis
    unfolding contact_message_def
    by (rule triple_bind [OF triple_attr_any], rule triple_bind [OF triple_first], simp, rule f)
qed

text \<open>The start of a transfer: both accounts are loaded, the source first.\<close>

lemma transfer_start:
  assumes ids: "unique_ids (st_tables st ''accounts'')"
    and s: "row_at (st_tables st ''accounts'') (tq_source q) = Some r" "holds r a" "py_eq (field r ''user_id'') (CInt (lo_user u))"
    and d: "row_at (st_tables st ''accounts'') (tq_dest q) = Some r'" "holds r' b" and int: "\<not> tq_external q"
  shows "\<exists>i j x y c. i \<noteq> j \<and> is_account r a x \<and> is_account r' b y
    \<and> st_tables (fst c) = st_tables st \<and> sealed ''accounts'' (st_tables st ''accounts'') [i \<mapsto> x, j \<mapsto> y] [i, j] {} c
    \<and> transfer_money e u q (st, new_session) =
       (if cents a < tq_amount q then (Ok (Refused ''Insufficient balance''), c)
        else bind_act (book_transfer (later 2000 e) (lo_user u) q i (Some j))
               (\<lambda>t. then_act (contact_message (later 4000 e) (lo_user u) j) (ret (Booked t))) c)"
proof -
  let ?A = "st_tables st ''accounts''" and ?c0 = "(st, new_session)"
  obtain x i c1 where l1: "load e ''Account'' r ?c0 = (Ok i, c1)" "st_tables (fst c1) = st_tables (fst ?c0)"
    "is_account r a x" "sealed ''accounts'' ?A [i \<mapsto> x] [i] {} c1"
    using load_account [OF s(2), where e = e and c = ?c0 and rs = ?A and tr = "\<lambda>_. None" and us = "[]" and X = "{}"] sealed_new by auto
  obtain y j c2 where l2: "load (later 1000 e) ''Account'' r' c1 = (Ok j, c2)" "st_tables (fst c2) = st_tables (fst c1)"
    "is_account r' b y" "[i \<mapsto> x] j = None" "sealed ''accounts'' ?A ([i \<mapsto> x, j \<mapsto> y]) [i, j] {} c2"
    using load_account [OF d(2), where e = "later 1000 e" and c = c1 and rs = ?A and tr = "[i \<mapsto> x]" and us = "[i]" and X = "{}"] l1(4)
    by auto
  have ne: "i \<noteq> j" using l2(4) by auto
  have v: "validate_account_ownership e (tq_source q) (lo_user u) ?c0 = (Ok i, c1)"
    using validate_owner [OF _ _ s(3) l1(1)] ids s(1) by simp
  have w: "query_by (later 1000 e) ''Account'' [(''id'', CInt (tq_dest q))] c1 = (Ok (Some j), c2)"
    using query_account [OF _ _ l2(1)] ids d(1) l1(2) by simp
  have "ob (snd c2) i = x" using sealedD(3) [OF l2(5), of i x] ne by simp
  then have b: "get_attr (snd c2) i ''balance'' = CFloat (cents a)" using l1(3) by (simp add: get_attr_def is_account_def)
  have "transfer_money e u q ?c0 =
       (if cents a < tq_amount q then (Ok (Refused ''Insufficient balance''), c2)
        else bind_act (book_transfer (later 2000 e) (lo_user u) q i (Some j))
               (\<lambda>t. then_act (contact_message (later 4000 e) (lo_user u) j) (ret (Booked t))) c2)"
    unfolding transfer_money_def using int
    by (simp add: bind_act_def [of "validate_account_ownership e (tq_source q) (lo_user u)"] v
        bind_act_def [of "bind_act (query_by (later 1000 e) ''Account'' [(''id'', CInt (tq_dest q))]) g" for g]
        bind_act_def [of "query_by (later 1000 e) ''Account'' [(''id'', CInt (tq_dest q))]"] w
        bind_act_def [of "attr i ''balance''"] attr_def b ret_def)
  then show ?thesis using ne l1(2,3) l2(2,3,5) by (intro exI [of _ i] exI [of _ j] exI [of _ x] exI [of _ y] exI [of _ c2]) simp
qed

lemma transfer_effect:
  assumes ids: "unique_ids (st_tables st ''accounts'')" and nz: "tq_source q \<noteq> 0" "tq_dest q \<noteq> 0"
    and s: "row_at (st_tables st ''accounts'') (tq_source q) = Some r" "holds r a" "py_eq (field r ''user_id'') (CInt (lo_user u))"
    and d: "row_at (st_tables st ''accounts'') (tq_dest q) = Some r'" "holds r' b" and int: "\<not> tq_external q"
    and k: "tq_amount q = cents k" "\<bar>k\<bar> \<le> money_range" "k \<le> a" and run: "transfer_money e u q (st, new_session) = (res, c')"
  shows "\<exists>i j x y. i \<noteq> j \<and> is_account r a x \<and> is_account r' b y
    \<and> writes_back (st_tables st ''accounts'') [i \<mapsto> moved (\<lambda>b. b - tq_amount q) x, j \<mapsto> moved (\<lambda>b. b + tq_amount q) y] [i, j]
        (st_tables (fst c') ''accounts'')"
proof -
  let ?A = "st_tables st ''accounts''"
  obtain i j x y c where ij: "i \<noteq> j" and x: "is_account r a x" and y: "is_account r' b y"
    and sl: "sealed ''accounts'' ?A [i \<mapsto> x, j \<mapsto> y] [i, j] {} c"
    and t: "transfer_money e u q (st, new_session) = (if cents a < tq_amount q then (Ok (Refused ''Insufficient balance''), c)
        else bind_act (book_transfer (later 2000 e) (lo_user u) q i (Some j))
               (\<lambda>t. then_act (contact_message (later 4000 e) (lo_user u) j) (ret (Booked t))) c)"
    using transfer_start [OF ids s d int, of e] by blast
  let ?tr = "[i \<mapsto> moved (\<lambda>b. b - tq_amount q) x, j \<mapsto> moved (\<lambda>b. b + tq_amount q) y]"
  have a: "\<bar>a\<bar> \<le> money_range" using s(2) by (simp add: holds_def reads_def)
  have own: "owned ''accounts'' x" "owned ''accounts'' y"
    using x y nz row_at_Some [OF s(1)] row_at_Some [OF d(1)] by (auto simp: owned_def is_account_def)
  have "triple (sealed ''accounts'' ?A [i \<mapsto> x, j \<mapsto> y] [i, j] {}) (book_transfer (later 2000 e) (lo_user u) q i (Some j))
    (\<lambda>_ c. \<exists>rs'. writes_back ?A ?tr [i, j] rs' \<and> quiet rs' ?tr c) E" for E
    by (rule book_internal [of _ _ x _ y])
      (use ij x y own ids k(1,2) in \<open>auto simp: is_account_def unique_ids_def format_cents fun_upd_twist\<close>)
  moreover have "triple (\<lambda>c. \<exists>rs'. writes_back ?A ?tr [i, j] rs' \<and> quiet rs' ?tr c)
      (then_act (contact_message (later 4000 e) (lo_user u) j) (ret (Booked t)))
      (\<lambda>_ c. writes_back ?A ?tr [i, j] (st_tables (fst c) ''accounts''))
      (\<lambda>_ c. writes_back ?A ?tr [i, j] (st_tables (fst c) ''accounts''))" for t
    by (rule triple_ex, rule triple_fact, rule triple_then [OF triple_post [OF quiet_message]], assumption)
      (auto dest: sealedD(1) intro: triple_ret)
  ultimately have "triple (sealed ''accounts'' ?A [i \<mapsto> x, j \<mapsto> y] [i, j] {})
      (bind_act (book_transfer (later 2000 e) (lo_user u) q i (Some j))
         (\<lambda>t. then_act (contact_message (later 4000 e) (lo_user u) j) (ret (Booked t))))
      (\<lambda>_ c. writes_back ?A ?tr [i, j] (st_tables (fst c) ''accounts''))
      (\<lambda>_ c. writes_back ?A ?tr [i, j] (st_tables (fst c) ''accounts''))" by (rule triple_bind)
  note hoare = tripleD [OF this sl]
  have "\<not> cents a < tq_amount q" using k cents_mono(1) [OF a k(2)] by simp
  with t run have run': "bind_act (book_transfer (later 2000 e) (lo_user u) q i (Some j))
         (\<lambda>t. then_act (contact_message (later 4000 e) (lo_user u) j) (ret (Booked t))) c = (res, c')" by simp
  have "writes_back ?A ?tr [i, j] (st_tables (fst c') ''accounts'')"
  proof (cases res)
    case (Inl err)
    with run' show ?thesis by (intro hoare(1)) simp
  next
    case (Inr v)
    with run' show ?thesis by (intro hoare(2)) simp
  qed
  with ij x y show ?thesis by blast
qed

section \<open>Properties\<close>

text \<open>C1: A transfer between two accounts is exact and atomic: for amounts of whole cents, if the balance of
  the source is too small the request is refused and no table changes; otherwise, however the request
  ends (it may still raise when it writes the message to a contact), the source has lost and the
  destination has gained exactly the amount, to the cent, no row is added, removed or moved, and every
  other account is as it was.\<close>

theorem transfer_exact:
  assumes "unique_ids (st_tables st ''accounts'')" "tq_source q \<noteq> 0" "tq_dest q \<noteq> 0" "tq_source q \<noteq> tq_dest q"
    and "row_at (st_tables st ''accounts'') (tq_source q) = Some r" "holds r a" "py_eq (field r ''user_id'') (CInt (lo_user u))"
    and "row_at (st_tables st ''accounts'') (tq_dest q) = Some r'" "holds r' b" "\<not> tq_external q"
    and "tq_amount q = cents k" "0 < k" "k \<le> 5000000" "b + k \<le> money_range"
    and "transfer_money e u q (st, new_session) = (res, c')"
  shows "if a < k then res = Ok (Refused ''Insufficient balance'') \<and> st_tables (fst c') = st_tables st
    else map (\<lambda>r. field r ''id'') (st_tables (fst c') ''accounts'') = map (\<lambda>r. field r ''id'') (st_tables st ''accounts'')
      \<and> (\<exists>s. row_at (st_tables (fst c') ''accounts'') (tq_source q) = Some s \<and> holds s (a - k))
      \<and> (\<exists>s. row_at (st_tables (fst c') ''accounts'') (tq_dest q) = Some s \<and> holds s (b + k))
      \<and> (\<forall>n. n \<noteq> tq_source q \<longrightarrow> n \<noteq> tq_dest q \<longrightarrow>
           row_at (st_tables (fst c') ''accounts'') n = row_at (st_tables st ''accounts'') n)"
proof (cases "a < k")
  case True
  have k: "\<bar>k\<bar> \<le> money_range" using assms(12,13) by (simp add: money_range_def)
  have "\<bar>a\<bar> \<le> money_range" using assms(6) by (simp add: holds_def reads_def)
  with True assms(11) k have "cents a < tq_amount q" by (simp add: cents_mono)
  with transfer_start [OF assms(1,5-10), of e] assms(15) True show ?thesis by auto
next
  case False
  have k: "\<bar>k\<bar> \<le> money_range" "k \<le> a" using assms(12,13) False by (simp_all add: money_range_def)
  obtain i j x y where ij: "i \<noteq> j" and x: "is_account r a x" and y: "is_account r' b y"
    and w: "writes_back (st_tables st ''accounts'') [i \<mapsto> moved (\<lambda>b. b - tq_amount q) x, j \<mapsto> moved (\<lambda>b. b + tq_amount q) y] [i, j]
        (st_tables (fst c') ''accounts'')"
    using transfer_effect [OF assms(1-3,5-11) k assms(15)] by blast
  have id: "field (ob_data x) ''id'' = CInt (tq_source q)" "field (ob_data y) ''id'' = CInt (tq_dest q)"
    using x y row_at_Some [OF assms(5)] row_at_Some [OF assms(8)] by (simp_all add: is_account_def)
  have bal: "field (ob_data x) ''balance'' = CFloat (cents a)" "field (ob_data y) ''balance'' = CFloat (cents b)"
    using x y by (simp_all add: is_account_def)
  note p = pair_written [OF w ij, of "tq_source q" "tq_dest q"]
  obtain s where s: "row_at (st_tables (fst c') ''accounts'') (tq_source q) = Some s"
    "\<forall>f. f \<noteq> ''updated_at'' \<longrightarrow> field s f = field (ob_data (moved (\<lambda>b. b - tq_amount q) x)) f"
    using p(1) id assms(4,5,8) by auto
  obtain s' where s': "row_at (st_tables (fst c') ''accounts'') (tq_dest q) = Some s'"
    "\<forall>f. f \<noteq> ''updated_at'' \<longrightarrow> field s' f = field (ob_data (moved (\<lambda>b. b + tq_amount q) y)) f"
    using p(2) id assms(5,8) by auto
  have a: "\<bar>a\<bar> \<le> money_range" "\<bar>b\<bar> \<le> money_range" using assms(6,9) by (simp_all add: holds_def reads_def)
  have "holds s (a - k)" using s(2) bal a k assms(11,12) by (intro changed_holds(2) [OF x k(1)]) auto
  moreover have "holds s' (b + k)" using s'(2) bal a k assms(11,12,14) by (intro changed_holds(1) [OF y k(1)]) auto
  moreover have "row_at (st_tables (fst c') ''accounts'') n = row_at (st_tables st ''accounts'') n"
    if "n \<noteq> tq_source q" "n \<noteq> tq_dest q" for n
    using p(3) id assms(5,8) that by simp
  moreover have "map (\<lambda>r. field r ''id'') (st_tables (fst c') ''accounts'') = map (\<lambda>r. field r ''id'') (st_tables st ''accounts'')"
    using w by (simp add: writes_back_def)
  ultimately show ?thesis using False s(1) s'(1) by auto
qed

text \<open>C2: A transfer from an account to itself creates money: nothing compares the source with the
  destination, each is loaded as an instance of its own, and the instance that received the amount is
  written back last. The balance grows by the amount transferred.\<close>

theorem own_transfer_mints:
  assumes "unique_ids (st_tables st ''accounts'')" "tq_source q \<noteq> 0" "tq_dest q = tq_source q"
    and "row_at (st_tables st ''accounts'') (tq_source q) = Some r" "holds r a" "py_eq (field r ''user_id'') (CInt (lo_user u))"
    and "\<not> tq_external q" "tq_amount q = cents k" "0 < k" "k \<le> 5000000" "k \<le> a" "a + k \<le> money_range"
  shows "\<exists>s. row_at (st_tables (fst (snd (transfer_money e u q (st, new_session)))) ''accounts'') (tq_source q) = Some s
    \<and> holds s (a + k)"
proof -
  obtain res c' where run: "transfer_money e u q (st, new_session) = (res, c')"
    by (cases "transfer_money e u q (st, new_session)")
  have k: "\<bar>k\<bar> \<le> money_range" using assms(9,10) by (simp add: money_range_def)
  have nz: "tq_dest q \<noteq> 0" and d: "row_at (st_tables st ''accounts'') (tq_dest q) = Some r" using assms(2,3,4) by simp_all
  obtain i j x y where ij: "i \<noteq> j" and x: "is_account r a x" and y: "is_account r a y"
    and w: "writes_back (st_tables st ''accounts'') [i \<mapsto> moved (\<lambda>b. b - tq_amount q) x, j \<mapsto> moved (\<lambda>b. b + tq_amount q) y] [i, j]
        (st_tables (fst c') ''accounts'')"
    using transfer_effect [OF assms(1,2) nz assms(4,5,6) d assms(5,7,8) k assms(11) run] by blast
  have id: "field (ob_data x) ''id'' = CInt (tq_source q)" "field (ob_data y) ''id'' = CInt (tq_source q)"
    using x y row_at_Some [OF assms(4)] by (simp_all add: is_account_def)
  have bal: "field (ob_data y) ''balance'' = CFloat (cents a)" using y by (simp add: is_account_def)
  obtain s where s: "row_at (st_tables (fst c') ''accounts'') (tq_source q) = Some s"
    "\<forall>f. f \<noteq> ''updated_at'' \<longrightarrow> field s f = field (ob_data (moved (\<lambda>b. b + tq_amount q) y)) f"
    using pair_written(2) [OF w ij, of "tq_source q" "tq_source q"] id assms(4) by auto
  have "\<bar>a\<bar> \<le> money_range" using assms(5) by (simp add: holds_def reads_def)
  then have "holds s (a + k)" using s(2) bal k assms(8,9,12) by (intro changed_holds(1) [OF y k]) auto
  with s(1) run show ?thesis by simp
qed

section \<open>Witnesses\<close>

definition account_row :: "int \<Rightarrow> int \<Rightarrow> int \<Rightarrow> row" where
  "account_row n uid c = [(''id'', CInt n), (''user_id'', CInt uid), (''balance'', CFloat (cents c))]"

definition two_accounts :: store where
  "two_accounts = empty_store_of (\<lambda>t. if t = ''accounts'' then [account_row 1 7 10000, account_row 2 8 2550] else [])"

lemma account_row_fields:
  "field (account_row n uid c) ''id'' = CInt n" "field (account_row n uid c) ''user_id'' = CInt uid"
  "field (account_row n uid c) ''balance'' = CFloat (cents c)"
  "field (account_row n uid c) ''available_balance'' = CNone" "field (account_row n uid c) ''credit_limit'' = CNone"
  by (simp_all add: account_row_def field_def dget_or_def)

lemma account_row_holds: "\<bar>c\<bar> \<le> money_range \<Longrightarrow> holds (account_row n uid c) c"
proof -
  have "cents 0 = 0" by code_simp
  then have zero: "reads (account_row n uid c) k 0" if "field (account_row n uid c) k = CNone" for k
    using that by (simp add: reads_def format_zero money_range_def)
  have "readable (account_row n uid c)"
    unfolding readable_def using account_row_fields by (intro conjI exI [of _ 0] zero) simp_all
  then show "\<bar>c\<bar> \<le> money_range \<Longrightarrow> ?thesis" by (simp add: holds_def account_row_fields reads_def format_cents)
qed

lemma two_accounts_facts:
  "unique_ids (st_tables two_accounts ''accounts'')"
  "row_at (st_tables two_accounts ''accounts'') 1 = Some (account_row 1 7 10000)"
  "row_at (st_tables two_accounts ''accounts'') 2 = Some (account_row 2 8 2550)"
  "holds (account_row 1 7 10000) 10000" "holds (account_row 2 8 2550) 2550"
  "py_eq (field (account_row 1 7 10000) ''user_id'') (CInt 7)"
  by (simp_all add: two_accounts_def empty_store_of_def unique_ids_def account_row_fields)
    (rule account_row_holds, simp add: money_range_def)+

definition alice :: login where
  "alice = \<lparr>lo_user = 7, lo_name = ''alice''\<rparr>"

lemma transfer_exact_witness:
  "\<exists>s. row_at (st_tables (fst (snd (transfer_money env0 alice \<lparr>tq_source = 1, tq_dest = 2, tq_amount = cents 2500,
      tq_description = None, tq_external = False\<rparr> (two_accounts, new_session)))) ''accounts'') 2 = Some s \<and> holds s 5050"
proof -
  let ?q = "\<lparr>tq_source = 1, tq_dest = 2, tq_amount = cents 2500, tq_description = None, tq_external = False\<rparr>"
  obtain res c' where "transfer_money env0 alice ?q (two_accounts, new_session) = (res, c')"
    by (cases "transfer_money env0 alice ?q (two_accounts, new_session)")
  with transfer_exact [where q = ?q and st = two_accounts and u = alice and e = env0 and k = 2500 and a = 10000 and b = 2550]
  show ?thesis by (simp add: two_accounts_facts alice_def money_range_def)
qed

lemma own_transfer_mints_witness:
  "\<exists>s. row_at (st_tables (fst (snd (transfer_money env0 alice \<lparr>tq_source = 1, tq_dest = 1, tq_amount = cents 2500,
      tq_description = None, tq_external = False\<rparr> (two_accounts, new_session)))) ''accounts'') 1 = Some s \<and> holds s 12500"
  using own_transfer_mints [where q = "\<lparr>tq_source = 1, tq_dest = 1, tq_amount = cents 2500, tq_description = None,
      tq_external = False\<rparr>" and st = two_accounts and u = alice and e = env0 and k = 2500 and a = 10000]
  by (simp add: two_accounts_facts alice_def money_range_def)

end
