(* ===== verification/Payments.thy ===== *)
theory Payments
  imports Transfers
begin

text \<open>
  The other money endpoints of backend routes/transfers.py: deposit, withdrawal, bill payment and
  sending money to another user. An endpoint returns the transaction it booked.
\<close>

section \<open>Deposit and withdrawal\<close>

record deposit_request =
  dq_account :: int
  dq_amount :: rat
  dq_description :: "string option"

record withdrawal_request =
  wq_account :: int
  wq_amount :: rat
  wq_description :: "string option"
  wq_method :: string

record bill_request =
  bq_account :: int
  bq_amount :: rat
  bq_payee :: string
  bq_payee_account :: string
  bq_type :: string
  bq_category :: "int option"
  bq_due :: "int option" \<comment> \<open>a date, as a day number\<close>

definition no_funds :: py_error where
  "no_funds = HTTPException 400 ''Insufficient balance''"

text \<open>Book one transaction on a loaded account and commit.\<close>

definition book_one :: "env \<Rightarrow> nat \<Rightarrow> (cell \<Rightarrow> row) \<Rightarrow> (rat \<Rightarrow> rat) \<Rightarrow> nat act" where
  "book_one e i kw f =
     bind_act (attr i ''id'') (\<lambda>a.
     bind_act (make_obj (later 200 e) ''Transaction'' (kw a)) (\<lambda>t.
     then_act (change_balance i f)
     (then_act (add_act t)
     (then_act (commit_act (later 300 e))
     (then_act (refresh_act t) (ret t))))))"

definition deposit_row :: "env \<Rightarrow> deposit_request \<Rightarrow> cell \<Rightarrow> row" where
  "deposit_row e q a =
     [(''account_id'', a), (''amount'', CFloat (dq_amount q)), (''transaction_type'', CStr ''credit''),
      (''status'', CStr ''completed''), (''description'', CStr (text_or (dq_description q) ''Deposit'')),
      (''reference_number'', CStr (''DEP'' @ compact_time (clock e 0))), (''transaction_date'', CTime True (clock e 1))]"

definition deposit_money :: "env \<Rightarrow> login \<Rightarrow> deposit_request \<Rightarrow> nat act" where
  "deposit_money e u q =
     bind_act (validate_account_ownership e (dq_account q) (lo_user u))
       (\<lambda>i. book_one (later 1000 e) i (deposit_row (later 1900 e) q) (\<lambda>b. b + dq_amount q))"

text \<open>A withdrawal and a bill payment check the balance first.\<close>

definition pay_out :: "env \<Rightarrow> int \<Rightarrow> int \<Rightarrow> rat \<Rightarrow> (cell \<Rightarrow> row) \<Rightarrow> nat act" where
  "pay_out e uid aid x kw =
     bind_act (validate_account_ownership e aid uid) (\<lambda>i.
     bind_act (attr i ''balance'') (\<lambda>b.
       if to_float b < x then throw no_funds else book_one (later 1000 e) i kw (\<lambda>b. b - x)))"

definition withdrawal_row :: "env \<Rightarrow> int \<Rightarrow> withdrawal_request \<Rightarrow> cell \<Rightarrow> row" where
  "withdrawal_row e uid q a =
     [(''user_id'', CInt uid), (''account_id'', a), (''amount'', CFloat (wq_amount q)),
      (''transaction_type'', CStr ''debit''), (''status'', CStr ''completed''),
      (''description'', CStr (text_or (wq_description q) ''Withdrawal'')),
      (''reference_number'', CStr (''WDR'' @ compact_time (clock e 0))),
      (''metadata'', CDict [(''withdrawal_method'', CStr (wq_method q))])]"

definition withdraw_money :: "env \<Rightarrow> login \<Rightarrow> withdrawal_request \<Rightarrow> nat act" where
  "withdraw_money e u q =
     pay_out e (lo_user u) (wq_account q) (wq_amount q) (withdrawal_row (later 1900 e) (lo_user u) q)"

definition bill_row :: "env \<Rightarrow> int \<Rightarrow> bill_request \<Rightarrow> cell \<Rightarrow> row" where
  "bill_row e uid q a =
     [(''user_id'', CInt uid), (''account_id'', a), (''amount'', CFloat (bq_amount q)),
      (''transaction_type'', CStr ''debit''), (''status'', CStr ''completed''),
      (''description'', CStr (''Bill payment to '' @ bq_payee q)), (''merchant_name'', CStr (bq_payee q)),
      (''category_id'', opt_cell CInt (bq_category q)),
      (''reference_number'', CStr (''BILL'' @ compact_time (clock e 0))),
      (''metadata'', CDict [(''bill_type'', CStr (bq_type q)), (''account_number'', CStr (bq_payee_account q)),
         (''due_date'', opt_cell (\<lambda>d. CStr (date_str d)) (bq_due q))])]"

definition pay_bill :: "env \<Rightarrow> login \<Rightarrow> bill_request \<Rightarrow> nat act" where
  "pay_bill e u q = pay_out e (lo_user u) (bq_account q) (bq_amount q) (bill_row (later 1900 e) (lo_user u) q)"

section \<open>Sending money\<close>

record send_request =
  sq_recipient :: string \<comment> \<open>user name or e-mail address\<close>
  sq_source :: int
  sq_amount :: rat
  sq_description :: "string option"
  sq_fee :: "rat option"

definition send_debit :: "env \<Rightarrow> int \<Rightarrow> send_request \<Rightarrow> rat \<Rightarrow> rat \<Rightarrow> cell \<Rightarrow> cell \<Rightarrow> cell \<Rightarrow> cell \<Rightarrow> row" where
  "send_debit e uid q fee debt src name rid dst =
     [(''user_id'', CInt uid), (''account_id'', src), (''amount'', CFloat debt), (''transaction_type'', CStr ''debit''),
      (''status'', CStr ''completed''), (''description'', CStr (text_or (sq_description q) (''Sent to '' @ cell_str name))),
      (''reference_number'', CStr (''SND'' @ compact_time (clock e 0))), (''transaction_date'', CTime True (clock e 1)),
      (''category_id'', CInt 15),
      (''metadata'', CDict [(''transfer_type'', CStr ''send_money''), (''recipient_user_id'', rid),
         (''recipient_account_id'', dst), (''recipient_identifier'', CStr (sq_recipient q)), (''fee'', CFloat fee),
         (''base_amount'', CFloat (sq_amount q))])]"

definition send_credit :: "env \<Rightarrow> login \<Rightarrow> send_request \<Rightarrow> cell \<Rightarrow> cell \<Rightarrow> cell \<Rightarrow> row" where
  "send_credit e u q rid dst src =
     [(''user_id'', rid), (''account_id'', dst), (''amount'', CFloat (sq_amount q)), (''transaction_type'', CStr ''credit''),
      (''status'', CStr ''completed''), (''description'', CStr (''Received from '' @ lo_name u)),
      (''reference_number'', CStr (''RCV'' @ compact_time (clock e 0))), (''transaction_date'', CTime True (clock e 1)),
      (''category_id'', CInt 15),
      (''metadata'', CDict [(''transfer_type'', CStr ''receive_money''), (''sender_user_id'', CInt (lo_user u)),
         (''sender_account_id'', src), (''sender_username'', CStr (lo_name u))])]"

text \<open>The recipient's account: of type CHECKING, else any; the bare column \<open>is_active\<close> filters nothing.\<close>

definition recipient_account :: "env \<Rightarrow> cell \<Rightarrow> nat option act" where
  "recipient_account e rid =
     bind_act (query_where e ''Account'' [Compare ''user_id'' OpEq rid, Compare ''account_type'' OpEq (CStr ''CHECKING''), OtherC])
       (\<lambda>a. case a of
          Some i \<Rightarrow> ret (Some i)
        | None \<Rightarrow> query_where (later 100 e) ''Account'' [Compare ''user_id'' OpEq rid, OtherC])"

definition book_send :: "env \<Rightarrow> login \<Rightarrow> send_request \<Rightarrow> rat \<Rightarrow> rat \<Rightarrow> nat \<Rightarrow> nat \<Rightarrow> nat \<Rightarrow> nat act" where
  "book_send e u q fee debt src r dst =
     bind_act (attr src ''id'') (\<lambda>s. bind_act (attr r ''username'') (\<lambda>n.
     bind_act (attr r ''id'') (\<lambda>rid. bind_act (attr dst ''id'') (\<lambda>d.
     bind_act (make_obj e ''Transaction'' (send_debit (later 100 e) (lo_user u) q fee debt s n rid d)) (\<lambda>debit.
     bind_act (make_obj (later 200 e) ''Transaction'' (send_credit (later 300 e) u q rid d s)) (\<lambda>credit.
     then_act (change_balance src (\<lambda>b. b - debt))
     (then_act (change_balance dst (\<lambda>b. b + sq_amount q))
     (then_act (add_act debit)
     (then_act (add_act credit)
     (bind_act (attr debit ''id'') (\<lambda>t1. bind_act (attr credit ''id'') (\<lambda>t2.
      then_act (create (later 400 e) ''Notification''
        (notification (CInt (lo_user u)) ''Money Sent''
           (''You sent $'' @ fixed2 (sq_amount q) @ '' to '' @ cell_str n) t1
           [(''transaction_id'', t1), (''amount'', CFloat (sq_amount q)), (''recipient'', n)]))
      (then_act (create (later 500 e) ''Notification''
        (notification rid ''Money Received''
           (''You received $'' @ fixed2 (sq_amount q) @ '' from '' @ lo_name u) t2
           [(''transaction_id'', t2), (''amount'', CFloat (sq_amount q)), (''sender'', CStr (lo_name u))]))
      (then_act (commit_act (later 600 e))
      (then_act (refresh_act debit) (then_act (refresh_act credit) (ret debit)))))))))))))))))"

definition send_money :: "env \<Rightarrow> login \<Rightarrow> send_request \<Rightarrow> nat act" where
  "send_money e u q =
     bind_act (validate_account_ownership e (sq_source q) (lo_user u)) (\<lambda>src.
     bind_act (query_where (later 1000 e) ''User''
       [Bar [Compare ''username'' OpEq (CStr (sq_recipient q)), Compare ''email'' OpEq (CStr (sq_recipient q))]]) (\<lambda>u2.
     case u2 of
       None \<Rightarrow> throw (HTTPException 404 ''Recipient not found'')
     | Some r \<Rightarrow>
         bind_act (attr r ''id'') (\<lambda>rid.
         if py_eq rid (CInt (lo_user u)) then throw (HTTPException 400 ''Cannot send money to yourself'')
         else bind_act (recipient_account (later 2000 e) rid) (\<lambda>a.
         case a of
           None \<Rightarrow> throw (HTTPException 400 ''Recipient has no active accounts'')
         | Some dst \<Rightarrow>
             let fee = (case sq_fee q of None \<Rightarrow> 0 | Some x \<Rightarrow> x); debt = double (sq_amount q + fee)
             in bind_act (attr src ''balance'') (\<lambda>b.
                if to_float b < debt then throw no_funds
                else book_send (later 3000 e) u q fee debt src r dst)))))"

section \<open>One account\<close>

lemma book_one_holds:
  assumes x: "tr i = Some x" "owned ''accounts'' x" "ob_class x = ''Account''" and ids: "ids_ok rs"
    and kw: "\<And>a. format_money (field (kw a) ''amount'') = Ok v"
  shows "triple (sealed ''accounts'' rs tr [i] {}) (book_one e i kw f)
    (\<lambda>_ c. \<exists>rs'. writes_back rs (tr(i \<mapsto> moved f x)) [i] rs' \<and> sealed ''accounts'' rs' (tr(i \<mapsto> moved f x)) [] {} c) E"
proof -
  have own: "\<forall>k \<in> set [i]. owned ''accounts'' (the ((tr(i \<mapsto> moved f x)) k))" using x(2) by simp
  have txn: "triple (sealed ''accounts'' rs tr [i] {}) (make_obj e' ''Transaction'' (kw a))
      (\<lambda>t. sealed ''accounts'' rs tr [i] {t}) E" for e' a
    using triple_txn [OF kw, where X = "{}"] by simp
  have bal: "triple (sealed ''accounts'' rs tr [i] X) (change_balance i f) (\<lambda>_. sealed ''accounts'' rs (tr(i \<mapsto> moved f x)) [i] X) E" for X
    by (rule triple_moved) (simp_all add: x)
  have fin: "triple (\<lambda>c. \<exists>rs'. writes_back rs tr' [i] rs' \<and> sealed ''accounts'' rs' tr' [] {t} c)
      (then_act (refresh_act t) (ret t)) (\<lambda>_ c. \<exists>rs'. writes_back rs tr' [i] rs' \<and> sealed ''accounts'' rs' tr' [] {} c) E" for t tr'
    by (rule triple_ex, rule triple_fact, rule triple_then [OF triple_refresh], rule insertI1, rule triple_ret)
      (use sealed_forget in blast)
  show ?thesis
    unfolding book_one_def
    by (rule triple_bind [OF triple_attr_any], rule triple_bind [OF txn], rule triple_then [OF bal],
        rule triple_then [OF triple_add], rule insertI1, rule triple_then [OF triple_commit [OF own ids]], rule fin)
qed

text \<open>An action on one loaded account after its ownership was checked.\<close>

lemma owner_loaded:
  assumes "unique_ids (st_tables st ''accounts'')" "row_at (st_tables st ''accounts'') n = Some r" "holds r a"
    and "py_eq (field r ''user_id'') (CInt uid)"
  shows "\<exists>i x c. validate_account_ownership e n uid (st, new_session) = (Ok i, c) \<and> is_account r a x
    \<and> st_tables (fst c) = st_tables st \<and> sealed ''accounts'' (st_tables st ''accounts'') [i \<mapsto> x] [i] {} c
    \<and> get_attr (snd c) i ''balance'' = CFloat (cents a)"
proof -
  obtain x i c1 where l: "load e ''Account'' r (st, new_session) = (Ok i, c1)" "st_tables (fst c1) = st_tables st"
    "is_account r a x" "sealed ''accounts'' (st_tables st ''accounts'') [i \<mapsto> x] [i] {} c1"
    using load_account [OF assms(3), where e = e and c = "(st, new_session)" and rs = "st_tables st ''accounts''"
        and tr = "\<lambda>_. None" and us = "[]" and X = "{}"] sealed_new by auto
  have "ob (snd c1) i = x" using sealedD(3) [OF l(4), of i x] by simp
  then have "get_attr (snd c1) i ''balance'' = CFloat (cents a)" using l(3) by (simp add: get_attr_def is_account_def)
  with validate_owner [OF _ _ assms(4) l(1)] assms(1,2) l(2-4) show ?thesis by auto
qed

lemma one_written:
  assumes w: "writes_back rs [i \<mapsto> x] [i] rs'" and id: "field (ob_data x) ''id'' = CInt n" and row: "row_at rs n \<noteq> None"
  shows "\<exists>s. row_at rs' n = Some s \<and> (\<forall>f. f \<noteq> ''updated_at'' \<longrightarrow> field s f = field (ob_data x) f)"
    and "l \<noteq> n \<Longrightarrow> row_at rs' l = row_at rs l"
proof -
  have "filter (\<lambda>k. field (ob_data (the ([i \<mapsto> x] k))) ''id'' = CInt n) [i] = [] @ [i]" using id by simp
  with row show "\<exists>s. row_at rs' n = Some s \<and> (\<forall>f. f \<noteq> ''updated_at'' \<longrightarrow> field s f = field (ob_data x) f)"
    by (auto intro!: written_back [OF w])
  show "l \<noteq> n \<Longrightarrow> row_at rs' l = row_at rs l" using id by (intro not_written_back [OF w]) auto
qed

text \<open>What booking one transaction does to the accounts.\<close>

definition only_changed :: "row list \<Rightarrow> int \<Rightarrow> int \<Rightarrow> row list \<Rightarrow> bool" where
  "only_changed rs n c rs' =
     (map (\<lambda>r. field r ''id'') rs' = map (\<lambda>r. field r ''id'') rs
      \<and> (\<exists>s. row_at rs' n = Some s \<and> holds s c) \<and> (\<forall>l. l \<noteq> n \<longrightarrow> row_at rs' l = row_at rs l))"

lemma book_one_effect:
  assumes ids: "unique_ids (st_tables st ''accounts'')" and row: "row_at (st_tables st ''accounts'') n = Some r" "n \<noteq> 0"
    and x: "is_account r a x" and s: "sealed ''accounts'' (st_tables st ''accounts'') [i \<mapsto> x] [i] {} c"
    and kw: "\<And>a. format_money (field (kw a) ''amount'') = Ok v" and k: "\<bar>k\<bar> \<le> money_range"
    and f: "f = (\<lambda>b. b + cents k) \<and> d = a + k \<or> f = (\<lambda>b. b - cents k) \<and> d = a - k" and d: "\<bar>d\<bar> \<le> money_range"
  shows "\<exists>t c'. book_one e i kw f c = (Ok t, c') \<and> only_changed (st_tables st ''accounts'') n d (st_tables (fst c') ''accounts'')"
proof -
  let ?A = "st_tables st ''accounts''"
  have id: "field (ob_data x) ''id'' = CInt n" using x row_at_Some [OF row(1)] by (simp add: is_account_def)
  have "ob_class x = ''Account''" "ob_orig x \<noteq> None" using x by (simp_all add: is_account_def)
  then have own: "owned ''accounts'' x" "ob_class x = ''Account''" by (simp_all add: owned_def id row(2))
  have "ids_ok ?A" using ids by (simp add: unique_ids_def)
  note h = book_one_holds [of "[i \<mapsto> x]" i x, OF _ own this, of kw v e f "\<lambda>_ _. False", OF _ kw, simplified]
  obtain res c' where run: "book_one e i kw f c = (res, c')" by (cases "book_one e i kw f c")
  obtain t where t: "res = Ok t" using tripleD(1) [OF h s, of _ c'] run by (cases res) auto
  obtain rs' where w: "writes_back ?A [i \<mapsto> moved f x] [i] rs'" and q: "quiet rs' [i \<mapsto> moved f x] c'"
    using tripleD(2) [OF h s, of t c'] run t by auto
  note s' = sealedD(1) [OF q]
  have id': "field (ob_data (moved f x)) ''id'' = CInt n" using id by simp
  have "row_at ?A n \<noteq> None" using row(1) by simp
  note o = one_written [OF w id' this]
  obtain y where y: "row_at rs' n = Some y" "\<forall>g. g \<noteq> ''updated_at'' \<longrightarrow> field y g = field (ob_data (moved f x)) g"
    using o(1) by blast
  have bal: "field (ob_data x) ''balance'' = CFloat (cents a)" using x by (simp add: is_account_def)
  have "holds y d" using f
  proof
    assume "f = (\<lambda>b. b + cents k) \<and> d = a + k"
    with y(2) bal d show ?thesis using changed_holds(1) [OF x k, of y "cents a + cents k"] by auto
  next
    assume "f = (\<lambda>b. b - cents k) \<and> d = a - k"
    with y(2) bal d show ?thesis using changed_holds(2) [OF x k, of y "cents a - cents k"] by auto
  qed
  with y(1) o(2) w run t s' show ?thesis by (auto simp: only_changed_def writes_back_def)
qed

lemma range_small: "0 < (k :: int) \<Longrightarrow> k \<le> 10000000 \<Longrightarrow> \<bar>k\<bar> \<le> money_range"
  by (simp add: money_range_def)

lemma pay_out_effect:
  assumes ids: "unique_ids (st_tables st ''accounts'')" and row: "row_at (st_tables st ''accounts'') n = Some r" "n \<noteq> 0"
    and r: "holds r a" "py_eq (field r ''user_id'') (CInt uid)" and k: "x = cents k" "0 < k" "\<bar>k\<bar> \<le> money_range"
    and kw: "\<And>a. field (kw a) ''amount'' = CFloat x"
  shows "\<exists>res c'. pay_out e uid n x kw (st, new_session) = (res, c')
    \<and> (if a < k then res = Err no_funds \<and> st_tables (fst c') = st_tables st
       else (\<exists>t. res = Ok t) \<and> only_changed (st_tables st ''accounts'') n (a - k) (st_tables (fst c') ''accounts''))"
proof -
  obtain i y c where v: "validate_account_ownership e n uid (st, new_session) = (Ok i, c)" and y: "is_account r a y"
    and t: "st_tables (fst c) = st_tables st" and s: "sealed ''accounts'' (st_tables st ''accounts'') [i \<mapsto> y] [i] {} c"
    and b: "get_attr (snd c) i ''balance'' = CFloat (cents a)"
    using owner_loaded [OF ids row(1) r, of e] by blast
  have a: "\<bar>a\<bar> \<le> money_range" using r(1) by (simp add: holds_def reads_def)
  have p: "pay_out e uid n x kw (st, new_session) =
      (if a < k then (Err no_funds, c) else book_one (later 1000 e) i kw (\<lambda>b. b - cents k) c)"
    using cents_mono(1) [OF a k(3)] by (simp add: pay_out_def bind_act_def v attr_def b k(1) throw_def)
  show ?thesis
  proof (cases "a < k")
    case True
    then show ?thesis using p t by simp
  next
    case False
    have "format_money (field (kw a) ''amount'') = Ok (CFloat x)" for a using kw format_cents [OF k(3)] k(1) by simp
    moreover have "\<bar>a - k\<bar> \<le> money_range" using False k(2) a by auto
    ultimately obtain u c' where "book_one (later 1000 e) i kw (\<lambda>b. b - cents k) c = (Ok u, c')"
      "only_changed (st_tables st ''accounts'') n (a - k) (st_tables (fst c') ''accounts'')"
      using book_one_effect [OF ids row y s, of kw _ k "\<lambda>b. b - cents k" "a - k" "later 1000 e"] k(3) by blast
    then show ?thesis using p False by simp
  qed
qed

section \<open>Sending money\<close>

lemma book_send_effect:
  assumes tr: "tr src = Some x" "tr d = Some y" "src \<noteq> d" and own: "owned ''accounts'' x" "owned ''accounts'' y"
    and cls: "ob_class x = ''Account''" "ob_class y = ''Account''"
    and amt: "format_money (CFloat debt) = Ok v" "format_money (CFloat (sq_amount q)) = Ok w" and ids: "ids_ok rs"
    and tr': "tr' = tr(src \<mapsto> moved (\<lambda>b. b - debt) x, d \<mapsto> moved (\<lambda>b. b + sq_amount q) y)"
  shows "triple (sealed ''accounts'' rs tr [src, d] X) (book_send e u q fee debt src r d)
    (\<lambda>_ c. \<exists>rs'. writes_back rs tr' [src, d] rs' \<and> quiet rs' tr' c) E"
proof -
  let ?t1 = "tr(src \<mapsto> moved (\<lambda>b. b - debt) x)"
  have out: "triple (sealed ''accounts'' rs tr [src, d] X) (change_balance src (\<lambda>b. b - debt))
      (\<lambda>_. sealed ''accounts'' rs ?t1 [src, d] X) E" for X
    by (rule triple_moved) (simp_all add: tr cls)
  have "triple (sealed ''accounts'' rs ?t1 [src, d] X) (change_balance d (\<lambda>b. b + sq_amount q))
      (\<lambda>_. sealed ''accounts'' rs (?t1(d \<mapsto> moved (\<lambda>b. b + sq_amount q) y)) [src, d] X) E" for X
    by (rule triple_moved) (simp_all add: tr tr(3) [symmetric] cls)
  then have into: "triple (sealed ''accounts'' rs ?t1 [src, d] X) (change_balance d (\<lambda>b. b + sq_amount q))
      (\<lambda>_. sealed ''accounts'' rs tr' [src, d] X) E" for X
    by (simp add: tr')
  have debit: "triple (sealed ''accounts'' rs tr us X) (make_obj e' ''Transaction'' (send_debit e2 uid q fee debt s n rid d2))
    (\<lambda>i. sealed ''accounts'' rs tr us (insert i X)) E" for tr us X e' e2 uid s n rid d2
    by (rule triple_txn [of _ v]) (simp add: send_debit_def field_def dget_or_def amt)
  have credit: "triple (sealed ''accounts'' rs tr us X) (make_obj e' ''Transaction'' (send_credit e2 u q rid d2 s))
    (\<lambda>i. sealed ''accounts'' rs tr us (insert i X)) E" for tr us X e' e2 rid d2 s
    by (rule triple_txn [of _ w]) (simp add: send_credit_def field_def dget_or_def amt)
  have note_made: "triple (sealed ''accounts'' rs tr us X) (create e' ''Notification'' kw) (\<lambda>_. sealed ''accounts'' rs tr us X) E"
    for tr us X e' kw
    by (rule triple_post [OF triple_create [of _ "''notifications''"]])
      (simp_all add: total_makes, erule sealed_forget, blast)
  have own': "\<forall>i \<in> set [src, d]. owned ''accounts'' (the (tr' i))" using own tr(3) by (simp add: tr')
  have fin: "triple (\<lambda>c. \<exists>rs'. writes_back rs tr' [src, d] rs' \<and> sealed ''accounts'' rs' tr' [] {c2, t} c)
      (then_act (refresh_act t) (then_act (refresh_act c2) (ret t)))
      (\<lambda>_ c. \<exists>rs'. writes_back rs tr' [src, d] rs' \<and> quiet rs' tr' c) E" for t c2
    by (rule triple_ex, rule triple_fact, rule triple_then [OF triple_refresh], simp,
        rule triple_then [OF triple_refresh], simp, rule triple_ret) (use sealed_forget in blast)
  show ?thesis
    unfolding book_send_def
    by (rule triple_bind [OF triple_attr_any], rule triple_bind [OF triple_attr_any],
        rule triple_bind [OF triple_attr_any], rule triple_bind [OF triple_attr_any],
        rule triple_bind [OF debit], rule triple_bind [OF credit], rule triple_then [OF out], rule triple_then [OF into],
        rule triple_then [OF triple_add], simp, rule triple_then [OF triple_add], simp,
        rule triple_bind [OF triple_attr_any], rule triple_bind [OF triple_attr_any],
        rule triple_then [OF note_made], rule triple_then [OF note_made],
        rule triple_then [OF triple_commit [OF own' ids]], rule triple_pre [OF fin], elim exE conjE, intro exI conjI, assumption, erule sealed_forget, blast)
qed

text \<open>Three roundings are still far from half a cent.\<close>

lemma err_gap:
  fixes d :: rat
  assumes "\<bar>d - p / 100\<bar> \<le> 3 / 16384" "\<bar>c - q / 100\<bar> \<le> 1 / 16384"
  shows "p + 1 \<le> q \<Longrightarrow> d < c" and "q + 1 \<le> p \<Longrightarrow> c < d"
proof -
  have "d - p / 100 \<le> 3 / 16384" "p / 100 - d \<le> 3 / 16384" "c - q / 100 \<le> 1 / 16384" "q / 100 - c \<le> 1 / 16384"
    using assms unfolding abs_le_iff by simp_all
  then show "p + 1 \<le> q \<Longrightarrow> d < c" "q + 1 \<le> p \<Longrightarrow> c < d" by (simp_all add: field_simps)
qed

lemma err_debt:
  fixes d :: rat
  assumes "\<bar>d - p / 100\<bar> \<le> 3 / 16384" "\<bar>c - q / 100\<bar> \<le> 1 / 16384"
  shows "\<bar>p\<bar> \<le> 20000000000000 \<Longrightarrow> \<bar>q\<bar> \<le> 10000000000000 \<Longrightarrow> \<bar>c - d\<bar> < 400000000000"
    and "\<bar>n - (c - d)\<bar> \<le> 1 / 16384 \<Longrightarrow> \<bar>n - (q - p) / 100\<bar> \<le> 1 / 300"
    and "\<bar>n - (c - d)\<bar> \<le> 1 / 16384 \<Longrightarrow> \<bar>c - d\<bar> < 400000000000 \<Longrightarrow> \<bar>n\<bar> < 1000000000000"
  using assms unfolding abs_le_iff abs_less_iff diff_divide_distrib by (elim conjE, intro conjI; linarith)+

lemma debt_near:
  assumes "\<bar>k\<bar> \<le> money_range" "\<bar>f\<bar> \<le> money_range" "\<bar>a\<bar> \<le> money_range"
  shows "k + f < a \<Longrightarrow> double (cents k + cents f) \<le> cents a"
    and "a < k + f \<Longrightarrow> cents a < double (cents k + cents f)"
    and "format_money (CFloat (double (cents a - double (cents k + cents f)))) = Ok (CFloat (cents (a - (k + f))))"
proof -
  let ?d = "double (cents k + cents f)"
  have d: "\<bar>?d - of_int (k + f) / 100\<bar> \<le> 3 / 16384" by (rule double_cents_near [OF assms(1,2)])
  have a: "\<bar>cents a - of_int a / 100\<bar> \<le> 1 / 16384" by (rule cents_near [OF assms(3)])
  show "k + f < a \<Longrightarrow> ?d \<le> cents a"
  proof -
    assume "k + f < a"
    then have "(of_int (k + f) :: rat) + 1 \<le> of_int a" by linarith
    then show ?thesis using err_gap [OF d a] by simp
  qed
  show "a < k + f \<Longrightarrow> cents a < ?d"
  proof -
    assume "a < k + f"
    then have "(of_int a :: rat) + 1 \<le> of_int (k + f)" by linarith
    then show ?thesis using err_gap [OF d a] by simp
  qed
  have r: "\<bar>of_int k :: rat\<bar> \<le> 10000000000000" "\<bar>of_int f :: rat\<bar> \<le> 10000000000000" "\<bar>of_int a :: rat\<bar> \<le> 10000000000000"
    using range_rat assms by auto
  have "\<bar>of_int (k + f) :: rat\<bar> \<le> 20000000000000" using r(1,2) unfolding of_int_add abs_le_iff by (elim conjE, intro conjI) linarith+
  then have x: "\<bar>cents a - ?d\<bar> < 400000000000" by (rule err_debt(1) [OF d a _ r(3)])
  then have "\<bar>cents a - ?d\<bar> < 2 ^ 40" by simp
  from double_near40 [OF this] have n: "\<bar>double (cents a - ?d) - (cents a - ?d)\<bar> \<le> 1 / 16384" .
  have near: "\<bar>double (cents a - ?d) - of_int (a - (k + f)) / 100\<bar> \<le> 1 / 300"
    unfolding of_int_diff [of a] by (rule err_debt(2) [OF d a n])
  have "\<bar>double (cents a - ?d)\<bar> < 10 ^ 12" using err_debt(3) [OF d a n x] by simp
  then show "format_money (CFloat (double (cents a - ?d))) = Ok (CFloat (cents (a - (k + f))))"
    using near by (rule format_near)
qed

lemma changed_reads:
  assumes "is_account r c x" "format_money (CFloat w) = Ok (CFloat (cents d))" "\<bar>d\<bar> \<le> money_range"
    and r': "\<And>f. f \<noteq> ''updated_at'' \<Longrightarrow> field r' f = (if f = ''balance'' then CFloat w else field (ob_data x) f)"
  shows "holds r' d"
proof -
  have "readable (ob_data x)" using assms(1) by (simp add: is_account_def holds_def)
  then have "readable r'" by (simp add: readable_def reads_def r')
  with assms(2,3) show ?thesis by (simp add: holds_def reads_def r')
qed

text \<open>The queries of \<open>send_money\<close>.\<close>

definition named :: "string \<Rightarrow> clause list" where
  "named s = [Bar [Compare ''username'' OpEq (CStr s), Compare ''email'' OpEq (CStr s)]]"

lemma first_named:
  assumes "st_tables st' = st_tables st"
  shows "first_row st' (filter_q st' (named s) (new_query ''User'')) = first_row st (filter_q st (named s) (new_query ''User''))"
proof -
  have "rows_of st' m = rows_of st m" for m using assms by (simp add: rows_of_def split: option.split)
  then show ?thesis
    by (simp add: first_row_def ordered_rows_def matching_def filter_q_def new_query_def apply_filters_def named_def
        apply_ordering_def)
qed

lemma load_user:
  assumes "has_key r ''id''" "sealed ''accounts'' rs tr us X c"
  shows "\<exists>j c'. load e ''User'' r c = (Ok j, c') \<and> st_tables (fst c') = st_tables (fst c)
    \<and> get_attr (snd c') j ''id'' = field r ''id'' \<and> sealed ''accounts'' rs tr us X c'"
proof -
  obtain st se where c: "c = (st, se)" by (cases c)
  obtain d st' where n: "new_object e ''User'' r st = (Ok d, st')" using total_new [of "''User''" e r st] by auto
  have id: "field d ''id'' = field r ''id''" and t: "st_tables st' = st_tables st"
    using new_object_facts(1,2) [OF n] assms(1) by auto
  let ?c' = "(st', se\<lparr>se_objs := se_objs se @ [\<lparr>ob_class = ''User'', ob_data = d, ob_orig = Some r\<rparr>],
        se_updates := se_updates se @ [length (se_objs se)]\<rparr>)"
  have l: "load e ''User'' r c = (Ok (length (se_objs se)), ?c')" by (simp add: load_def c n Let_def)
  have "sealed ''accounts'' rs tr us X ?c'"
    by (rule sealed_load [OF assms(2) l]) (simp add: store_map_def)
  with l t id show ?thesis by (intro exI [of _ "length (se_objs se)"] exI [of _ ?c']) (simp add: c get_attr_def ob_def)
qed

lemma recipient_found:
  assumes none: "\<forall>r \<in> set (st_tables (fst c) ''accounts''). field r ''account_type'' \<noteq> CStr ''CHECKING''"
    and first: "find (\<lambda>r. py_eq (field r ''user_id'') (CInt m)) (st_tables (fst c) ''accounts'') = Some r"
    and l: "load (later 100 e) ''Account'' r c = (Ok j, c')"
  shows "recipient_account e (CInt m) c = (Ok (Some j), c')"
proof -
  let ?cs = "[Compare ''user_id'' OpEq (CInt m), Compare ''account_type'' OpEq (CStr ''CHECKING''), OtherC]"
  have 1: "find (\<lambda>r. list_all (\<lambda>c. the (eq_clause c) r) ?cs) (rows_of (fst c) ''Account'') = None"
    using none by (simp add: find_None_iff eq_holds_def)
  have 2: "find (\<lambda>r. list_all (\<lambda>c. the (eq_clause c) r) [Compare ''user_id'' OpEq (CInt m), OtherC]) (rows_of (fst c) ''Account'')
      = Some r"
    using first by (simp add: eq_holds_def)
  have q: "query_where e' ''Account'' cs c =
      load_option e' ''Account'' (find (\<lambda>r. list_all (\<lambda>c. the (eq_clause c) r) cs) (rows_of (fst c) ''Account'')) c"
    if "list_all (\<lambda>c. eq_clause c \<noteq> None) cs" for e' cs
    by (simp add: query_where_def eq_query_forms q_first_eq_query [OF that])
  have "query_where e' ''Account'' ?cs c = (Ok None, c)" for e'
    by (subst q, simp, unfold 1) (simp add: load_option_def)
  moreover have "query_where (later 100 e) ''Account'' [Compare ''user_id'' OpEq (CInt m), OtherC] c = (Ok (Some j), c')"
    by (subst q, simp, unfold 2) (simp add: load_option_def l)
  ultimately show ?thesis by (simp add: recipient_account_def bind_act_def)
qed

text \<open>Up to the check of the balance.\<close>

lemma send_start:
  assumes ids: "unique_ids (st_tables st ''accounts'')"
    and s: "row_at (st_tables st ''accounts'') (sq_source q) = Some r" "holds r a" "py_eq (field r ''user_id'') (CInt (lo_user u))"
    and ru: "first_row st (filter_q st (named (sq_recipient q)) (new_query ''User'')) = Ok (Some ru)"
      "field ru ''id'' = CInt m" "m \<noteq> lo_user u"
    and none: "\<forall>r \<in> set (st_tables st ''accounts''). field r ''account_type'' \<noteq> CStr ''CHECKING''"
    and d: "find (\<lambda>r. py_eq (field r ''user_id'') (CInt m)) (st_tables st ''accounts'') = Some r'" "holds r' b"
    and f: "debt = double (sq_amount q + (case sq_fee q of None \<Rightarrow> 0 | Some x \<Rightarrow> x))"
  shows "\<exists>i j ui x y c. i \<noteq> j \<and> is_account r a x \<and> is_account r' b y
    \<and> st_tables (fst c) = st_tables st \<and> sealed ''accounts'' (st_tables st ''accounts'') [i \<mapsto> x, j \<mapsto> y] [i, j] {} c
    \<and> send_money e u q (st, new_session) =
       (if cents a < debt then (Err no_funds, c)
        else book_send (later 3000 e) u q (case sq_fee q of None \<Rightarrow> 0 | Some x \<Rightarrow> x) debt i ui j c)"
proof -
  let ?A = "st_tables st ''accounts''"
  obtain i x c1 where v: "validate_account_ownership e (sq_source q) (lo_user u) (st, new_session) = (Ok i, c1)"
    and x: "is_account r a x" and t1: "st_tables (fst c1) = st_tables st"
    and s1: "sealed ''accounts'' ?A [i \<mapsto> x] [i] {} c1"
    using owner_loaded [OF ids s, of e] by blast
  have key: "has_key ru ''id''" using ru(2) by (auto simp: field_def dget_or_def has_key_def split: option.splits)
  obtain ui c2 where l2: "load (later 1000 e) ''User'' ru c1 = (Ok ui, c2)" "st_tables (fst c2) = st_tables st"
    "get_attr (snd c2) ui ''id'' = CInt m" "sealed ''accounts'' ?A [i \<mapsto> x] [i] {} c2"
    using load_user [OF key s1, of "later 1000 e"] t1 ru(2) by auto
  have q2: "query_where (later 1000 e) ''User'' (named (sq_recipient q)) c1 = (Ok (Some ui), c2)"
    using first_named [OF t1, of "sq_recipient q"] ru(1) by (simp add: query_where_def q_first_def load_option_def l2(1))
  obtain y j c3 where l3: "load (later 100 (later 2000 e)) ''Account'' r' c2 = (Ok j, c3)" "st_tables (fst c3) = st_tables st"
    "is_account r' b y" "[i \<mapsto> x] j = None" "sealed ''accounts'' ?A [i \<mapsto> x, j \<mapsto> y] [i, j] {} c3"
    using load_account [OF d(2), where e = "later 100 (later 2000 e)" and c = c2 and rs = ?A and tr = "[i \<mapsto> x]" and us = "[i]" and X = "{}"]
      l2(2,4) by auto
  have q3: "recipient_account (later 2000 e) (CInt m) c2 = (Ok (Some j), c3)"
    by (rule recipient_found [OF _ _ l3(1)]) (use none d(1) l2(2) in simp_all)
  have ne: "i \<noteq> j" using l3(4) by auto
  have "ob (snd c3) i = x" using sealedD(3) [OF l3(5), of i x] ne by simp
  then have bal: "get_attr (snd c3) i ''balance'' = CFloat (cents a)" using x by (simp add: get_attr_def is_account_def)
  have "send_money e u q (st, new_session) =
       (if cents a < debt then (Err no_funds, c3)
        else book_send (later 3000 e) u q (case sq_fee q of None \<Rightarrow> 0 | Some x \<Rightarrow> x) debt i ui j c3)"
    unfolding send_money_def named_def [symmetric] using ru(3)
    by (simp add: bind_act_def [of "validate_account_ownership e (sq_source q) (lo_user u)"] v
        bind_act_def [of "query_where (later 1000 e) ''User'' (named (sq_recipient q))"] q2
        bind_act_def [of "attr ui ''id''"] bind_act_def [of "attr i ''balance''"] attr_def l2(3)
        bind_act_def [of "recipient_account (later 2000 e) (CInt m)"] q3 bal f [symmetric] throw_def Let_def)
  then show ?thesis using ne x l3(2,3,5)
    by (intro exI [of _ i] exI [of _ j] exI [of _ ui] exI [of _ x] exI [of _ y] exI [of _ c3]) simp
qed

section \<open>Properties\<close>

text \<open>C3: Deposits, withdrawals and bill payments are exact: for amounts of whole cents, a deposit always
  succeeds and adds the amount to the balance; a withdrawal or a bill payment larger than the balance
  raises and changes no table, any other succeeds and takes the amount off the balance; no other
  account changes.\<close>

theorem payments_exact:
  assumes "unique_ids (st_tables st ''accounts'')" "row_at (st_tables st ''accounts'') n = Some r" "n \<noteq> 0"
    and "holds r a" "py_eq (field r ''user_id'') (CInt (lo_user u))" "0 < k" "k \<le> 10000000" "a + k \<le> money_range"
    and "dq_account d = n" "dq_amount d = cents k" "wq_account w = n" "wq_amount w = cents k"
    and "bq_account b = n" "bq_amount b = cents k"
  shows "(\<exists>t c'. deposit_money e u d (st, new_session) = (Ok t, c')
      \<and> only_changed (st_tables st ''accounts'') n (a + k) (st_tables (fst c') ''accounts''))
    \<and> (\<exists>res c'. withdraw_money e u w (st, new_session) = (res, c')
      \<and> (if a < k then res = Err no_funds \<and> st_tables (fst c') = st_tables st
         else (\<exists>t. res = Ok t) \<and> only_changed (st_tables st ''accounts'') n (a - k) (st_tables (fst c') ''accounts'')))
    \<and> (\<exists>res c'. pay_bill e u b (st, new_session) = (res, c')
      \<and> (if a < k then res = Err no_funds \<and> st_tables (fst c') = st_tables st
         else (\<exists>t. res = Ok t) \<and> only_changed (st_tables st ''accounts'') n (a - k) (st_tables (fst c') ''accounts'')))"
proof (intro conjI)
  note k = range_small [OF assms(6,7)]
  obtain i y c where v: "validate_account_ownership e n (lo_user u) (st, new_session) = (Ok i, c)" and y: "is_account r a y"
    and t: "st_tables (fst c) = st_tables st" and s: "sealed ''accounts'' (st_tables st ''accounts'') [i \<mapsto> y] [i] {} c"
    using owner_loaded [OF assms(1,2,4,5), of e] by blast
  have a: "\<bar>a + k\<bar> \<le> money_range" using assms(4,6,8) by (auto simp: holds_def reads_def)
  have "format_money (field (deposit_row (later 1900 e) d v) ''amount'') = Ok (CFloat (cents k))" for v
    using format_cents [OF k] by (simp add: deposit_row_def field_def dget_or_def assms(10))
  then obtain u' c' where "book_one (later 1000 e) i (deposit_row (later 1900 e) d) (\<lambda>b. b + cents k) c = (Ok u', c')"
    "only_changed (st_tables st ''accounts'') n (a + k) (st_tables (fst c') ''accounts'')"
    using book_one_effect [OF assms(1-3) y s, of "deposit_row (later 1900 e) d" _ k "\<lambda>b. b + cents k" "a + k" "later 1000 e"] k a
    by blast
  then show "\<exists>t c'. deposit_money e u d (st, new_session) = (Ok t, c')
      \<and> only_changed (st_tables st ''accounts'') n (a + k) (st_tables (fst c') ''accounts'')"
    by (simp add: deposit_money_def bind_act_def v assms(9,10))
  show "\<exists>res c'. withdraw_money e u w (st, new_session) = (res, c')
      \<and> (if a < k then res = Err no_funds \<and> st_tables (fst c') = st_tables st
         else (\<exists>t. res = Ok t) \<and> only_changed (st_tables st ''accounts'') n (a - k) (st_tables (fst c') ''accounts''))"
    unfolding withdraw_money_def assms(11)
    by (rule pay_out_effect [OF assms(1-5) assms(12,6) k]) (simp add: withdrawal_row_def field_def dget_or_def)
  show "\<exists>res c'. pay_bill e u b (st, new_session) = (res, c')
      \<and> (if a < k then res = Err no_funds \<and> st_tables (fst c') = st_tables st
         else (\<exists>t. res = Ok t) \<and> only_changed (st_tables st ''accounts'') n (a - k) (st_tables (fst c') ''accounts''))"
    unfolding pay_bill_def assms(13)
    by (rule pay_out_effect [OF assms(1-5) assms(14,6) k]) (simp add: bill_row_def field_def dget_or_def)
qed

text \<open>C4: Sending money moves the amount and burns the fee: when the recipient is found and is not the
  sender, and amount and fee are whole cents, the request is refused without a change if the sender's
  balance is below their sum and succeeds if it is above it; then the sender has lost amount and fee,
  and the recipient's first account, whatever its kind, has gained the amount, so the two balances
  together have changed by minus the fee. Nothing asks that the fee be positive: a negative fee creates
  money.\<close>

theorem send_money_exact:
  assumes "unique_ids (st_tables st ''accounts'')" "sq_source q \<noteq> 0" "n \<noteq> 0"
    and "row_at (st_tables st ''accounts'') (sq_source q) = Some r" "holds r a" "field r ''user_id'' = CInt (lo_user u)"
    and "first_row st (filter_q st (named (sq_recipient q)) (new_query ''User'')) = Ok (Some ru)"
    and "field ru ''id'' = CInt m" "m \<noteq> lo_user u"
    and "\<forall>r \<in> set (st_tables st ''accounts''). field r ''account_type'' \<noteq> CStr ''CHECKING''"
    and "find (\<lambda>r. py_eq (field r ''user_id'') (CInt m)) (st_tables st ''accounts'') = Some r'"
    and "field r' ''id'' = CInt n" "holds r' b"
    and "sq_amount q = cents k" "sq_fee q = Some (cents f)" "\<bar>k\<bar> \<le> money_range" "\<bar>f\<bar> \<le> money_range"
    and "\<bar>k + f\<bar> \<le> money_range" "\<bar>a - (k + f)\<bar> \<le> money_range" "\<bar>b + k\<bar> \<le> money_range"
    and "send_money e u q (st, new_session) = (res, c')"
  shows "(a < k + f \<longrightarrow> res = Err no_funds \<and> st_tables (fst c') = st_tables st)
    \<and> (k + f < a \<longrightarrow> (\<exists>t. res = Ok t)
        \<and> (\<exists>s. row_at (st_tables (fst c') ''accounts'') (sq_source q) = Some s \<and> holds s (a - (k + f)))
        \<and> (\<exists>s. row_at (st_tables (fst c') ''accounts'') n = Some s \<and> holds s (b + k))
        \<and> (\<forall>l. l \<noteq> sq_source q \<longrightarrow> l \<noteq> n \<longrightarrow>
             row_at (st_tables (fst c') ''accounts'') l = row_at (st_tables st ''accounts'') l))"
proof -
  let ?A = "st_tables st ''accounts''" and ?debt = "double (cents k + cents f)"
  have py: "py_eq (field r ''user_id'') (CInt (lo_user u))" using assms(6) by simp
  have debt: "?debt = double (sq_amount q + (case sq_fee q of None \<Rightarrow> 0 | Some x \<Rightarrow> x))" using assms(14,15) by simp
  obtain i j ui x y c where ij: "i \<noteq> j" and x: "is_account r a x" and y: "is_account r' b y" and t: "st_tables (fst c) = st_tables st"
    and sl: "sealed ''accounts'' ?A [i \<mapsto> x, j \<mapsto> y] [i, j] {} c"
    and run: "send_money e u q (st, new_session) = (if cents a < ?debt then (Err no_funds, c)
        else book_send (later 3000 e) u q (case sq_fee q of None \<Rightarrow> 0 | Some x \<Rightarrow> x) ?debt i ui j c)"
    using send_start [OF assms(1,4,5) py assms(7-11,13) debt, of e] by blast
  have a: "\<bar>a\<bar> \<le> money_range" using assms(5) by (simp add: holds_def reads_def)
  note near = debt_near [OF assms(16,17) a]
  have r': "r' \<in> set ?A" "py_eq (field r' ''user_id'') (CInt m)" using assms(11) by (auto simp: find_Some_iff)
  have ne: "sq_source q \<noteq> n"
  proof
    assume "sq_source q = n"
    then have r: "row_at ?A n = Some r" using assms(4) by simp
    have "inj_on (\<lambda>r. field r ''id'') (set ?A)" using assms(1) by (simp add: unique_ids_def distinct_map)
    moreover have "r \<in> set ?A" "field r' ''id'' = field r ''id''" using row_at_Some [OF r] assms(12) by simp_all
    ultimately have "r' = r" using r'(1) by (simp add: inj_on_def)
    with r'(2) assms(6,9) show False by simp
  qed
  have rown: "row_at ?A n \<noteq> None" using r'(1) assms(12) by (auto simp: row_at_def find_None_iff)
  have id: "field (ob_data x) ''id'' = CInt (sq_source q)" "field (ob_data y) ''id'' = CInt n"
    using x y row_at_Some [OF assms(4)] assms(12) by (simp_all add: is_account_def)
  have cls: "ob_class x = ''Account''" "ob_class y = ''Account''" "ob_orig x \<noteq> None" "ob_orig y \<noteq> None"
    using x y by (simp_all add: is_account_def)
  then have own: "owned ''accounts'' x" "owned ''accounts'' y" using assms(2,3) by (simp_all add: owned_def id)
  have "k + f < a \<longrightarrow> (\<exists>t. res = Ok t)
        \<and> (\<exists>s. row_at (st_tables (fst c') ''accounts'') (sq_source q) = Some s \<and> holds s (a - (k + f)))
        \<and> (\<exists>s. row_at (st_tables (fst c') ''accounts'') n = Some s \<and> holds s (b + k))
        \<and> (\<forall>l. l \<noteq> sq_source q \<longrightarrow> l \<noteq> n \<longrightarrow> row_at (st_tables (fst c') ''accounts'') l = row_at ?A l)"
  proof
    assume "k + f < a"
    with near(1) have "\<not> cents a < ?debt" by auto
    with run assms(21) have run': "book_send (later 3000 e) u q (case sq_fee q of None \<Rightarrow> 0 | Some x \<Rightarrow> x) ?debt i ui j c = (res, c')"
      by simp
    let ?tr = "[i \<mapsto> moved (\<lambda>b. b - ?debt) x, j \<mapsto> moved (\<lambda>b. b + sq_amount q) y]"
    have h: "triple (sealed ''accounts'' ?A [i \<mapsto> x, j \<mapsto> y] [i, j] {})
        (book_send (later 3000 e) u q (case sq_fee q of None \<Rightarrow> 0 | Some x \<Rightarrow> x) ?debt i ui j)
        (\<lambda>_ c. \<exists>rs'. writes_back ?A ?tr [i, j] rs' \<and> quiet rs' ?tr c) (\<lambda>_ _. False)"
      by (rule book_send_effect [where x = x and y = y])
        (use ij own cls assms(1,14,16,17) in \<open>auto simp: unique_ids_def format_sum format_cents fun_upd_twist\<close>)
    obtain v where v: "res = Ok v" using tripleD(1) [OF h sl, of _ c'] run' by (cases res) auto
    obtain rs' where w: "writes_back ?A ?tr [i, j] rs'" and q: "quiet rs' ?tr c'"
      using tripleD(2) [OF h sl, of v c'] run' v by auto
    note rs = sealedD(1) [OF q]
    note p = pair_written [OF w ij, of "sq_source q" n]
    obtain s where s: "row_at rs' (sq_source q) = Some s"
      "\<forall>f. f \<noteq> ''updated_at'' \<longrightarrow> field s f = field (ob_data (moved (\<lambda>b. b - ?debt) x)) f"
      using p(1) id assms(4) ne rown by auto
    obtain s' where s': "row_at rs' n = Some s'"
      "\<forall>f. f \<noteq> ''updated_at'' \<longrightarrow> field s' f = field (ob_data (moved (\<lambda>b. b + sq_amount q) y)) f"
      using p(2) id assms(4) rown by auto
    have bal: "field (ob_data x) ''balance'' = CFloat (cents a)" "field (ob_data y) ''balance'' = CFloat (cents b)"
      using x y by (simp_all add: is_account_def)
    have "holds s (a - (k + f))"
      using s(2) bal near(3) assms(19) by (intro changed_reads [OF x, of "double (cents a - ?debt)"]) auto
    moreover have "holds s' (b + k)" using s'(2) bal assms(14,20) by (intro changed_holds(1) [OF y assms(16)]) auto
    moreover have "row_at rs' l = row_at ?A l" if "l \<noteq> sq_source q" "l \<noteq> n" for l
      using p(3) id assms(4) rown that by simp
    ultimately show "(\<exists>t. res = Ok t)
        \<and> (\<exists>s. row_at (st_tables (fst c') ''accounts'') (sq_source q) = Some s \<and> holds s (a - (k + f)))
        \<and> (\<exists>s. row_at (st_tables (fst c') ''accounts'') n = Some s \<and> holds s (b + k))
        \<and> (\<forall>l. l \<noteq> sq_source q \<longrightarrow> l \<noteq> n \<longrightarrow> row_at (st_tables (fst c') ''accounts'') l = row_at ?A l)"
      unfolding rs using v s(1) s'(1) by auto
  qed
  moreover have "a < k + f \<longrightarrow> res = Err no_funds \<and> st_tables (fst c') = st_tables st"
    using run assms(21) near(2) t by auto
  ultimately show ?thesis by blast
qed

section \<open>Witnesses\<close>

definition named_accounts :: store where
  "named_accounts = empty_store_of (\<lambda>t. if t = ''accounts'' then [account_row 1 7 10000, account_row 2 8 2550]
     else if t = ''users'' then [[(''id'', CInt 8), (''username'', CStr ''bob'')]] else [])"

text \<open>A fee of minus twenty: ten are sent, the sender ends with ten more.\<close>

lemma send_money_exact_witness:
  "\<exists>c'. snd (send_money env0 alice \<lparr>sq_recipient = ''bob'', sq_source = 1, sq_amount = cents 1000, sq_description = None,
        sq_fee = Some (cents (- 2000))\<rparr> (named_accounts, new_session)) = c'
    \<and> (\<exists>s. row_at (st_tables (fst c') ''accounts'') 1 = Some s \<and> holds s 11000)
    \<and> (\<exists>s. row_at (st_tables (fst c') ''accounts'') 2 = Some s \<and> holds s 3550)"
proof -
  let ?q = "\<lparr>sq_recipient = ''bob'', sq_source = 1, sq_amount = cents 1000, sq_description = None, sq_fee = Some (cents (- 2000))\<rparr>"
  obtain res c' where run: "send_money env0 alice ?q (named_accounts, new_session) = (res, c')"
    by (cases "send_money env0 alice ?q (named_accounts, new_session)")
  have A: "st_tables named_accounts ''accounts'' = [account_row 1 7 10000, account_row 2 8 2550]"
    by (simp add: named_accounts_def empty_store_of_def)
  have "first_row named_accounts (filter_q named_accounts (named ''bob'') (new_query ''User''))
      = Ok (Some [(''id'', CInt 8), (''username'', CStr ''bob'')])"
    by code_simp
  with send_money_exact [where q = ?q and st = named_accounts and u = alice and e = env0 and k = 1000 and f = "- 2000"
      and a = 10000 and b = 2550 and n = 2 and m = 8 and r = "account_row 1 7 10000" and r' = "account_row 2 8 2550"
      and ru = "[(''id'', CInt 8), (''username'', CStr ''bob'')]" and res = res and c' = c'] run
  show ?thesis
    by (simp add: A alice_def money_range_def two_accounts_facts(4,5) unique_ids_def account_row_fields)
      (simp add: account_row_def field_def dget_or_def)
qed

lemma payments_exact_witness:
  "\<exists>t c'. withdraw_money env0 alice \<lparr>wq_account = 1, wq_amount = cents 10000, wq_description = None, wq_method = ''atm''\<rparr>
      (two_accounts, new_session) = (Ok t, c')
    \<and> only_changed (st_tables two_accounts ''accounts'') 1 0 (st_tables (fst c') ''accounts'')"
  using payments_exact [where st = two_accounts and n = 1 and k = 10000 and a = 10000 and u = alice and e = env0
      and d = "\<lparr>dq_account = 1, dq_amount = cents 10000, dq_description = None\<rparr>"
      and w = "\<lparr>wq_account = 1, wq_amount = cents 10000, wq_description = None, wq_method = ''atm''\<rparr>"
      and b = "\<lparr>bq_account = 1, bq_amount = cents 10000, bq_payee = [], bq_payee_account = [], bq_type = ''rent'',
        bq_category = None, bq_due = None\<rparr>"]
  by (auto simp: two_accounts_facts alice_def money_range_def)

end
