(* ===== verification/P2p.thy ===== *)
theory P2p
  imports Payments
begin

text \<open>
  Payments between people (backend routes/p2p.py): transfers, split payments, payment requests, the contacts
  and the payment link of a QR code. Amounts of requests are decimals, balances floats; an endpoint is an
  action as in Transfers. The validation of a request by pydantic (positive amounts with at most two places, the
  methods and kinds of split) is a hypothesis of the theorems. Drawing the QR code is the argument \<open>draw\<close>.

  The lemmas: the arithmetic of a transfer is exact, and what its commit leaves in the accounts.
\<close>

section \<open>Transfers\<close>

record p2p_request =
  pq_recipient :: string
  pq_amount :: decimal
  pq_description :: "string option"
  pq_method :: string \<comment> \<open>instant or standard\<close>
  pq_source :: string

record p2p_reply =
  pr_transaction :: cell
  pr_amount :: decimal
  pr_fee :: decimal
  pr_total :: decimal
  pr_status :: cell
  pr_method :: string

definition bad_account_id :: py_error where
  "bad_account_id = HTTPException 400 ''Invalid account ID''"

definition no_funds_fee :: py_error where
  "no_funds_fee = HTTPException 400 ''Insufficient balance including fees''"

definition p2p_fee :: "p2p_request \<Rightarrow> decimal" where
  "p2p_fee q = (if pq_method q = ''instant'' then dec_mul (pq_amount q) (Dec 1 (- 2)) else Dec 0 0)"

definition p2p_total :: "p2p_request \<Rightarrow> decimal" where
  "p2p_total q = dec_add (pq_amount q) (p2p_fee q)"

definition p2p_row :: "int \<Rightarrow> int \<Rightarrow> p2p_request \<Rightarrow> row" where
  "p2p_row uid aid q =
     [(''user_id'', CInt uid), (''account_id'', CInt aid), (''amount'', CDec (dec_neg (p2p_total q))),
      (''transaction_type'', CStr ''p2p_transfer''),
      (''status'', CStr (if pq_method q = ''instant'' then ''completed'' else ''pending'')),
      (''description'', CStr (text_or (pq_description q) (''P2P transfer to '' @ pq_recipient q))),
      (''metadata'', CDict [(''recipient_id'', CStr (pq_recipient q)), (''method'', CStr (pq_method q)),
         (''fee'', CStr (dec_str (p2p_fee q)))])]"

definition set_balance :: "nat \<Rightarrow> rat \<Rightarrow> unit act" where
  "set_balance i x = on_session (set_attr i ''balance'' (CFloat x))"

definition book_p2p :: "env \<Rightarrow> nat \<Rightarrow> row \<Rightarrow> rat \<Rightarrow> (cell \<Rightarrow> cell \<Rightarrow> 'a) \<Rightarrow> 'a act" where
  "book_p2p e i kw x answer =
     bind_act (make_obj e ''Transaction'' kw) (\<lambda>t.
     then_act (set_balance i x)
     (then_act (add_act t)
     (then_act (commit_act (later 100 e))
     (bind_act (attr t ''id'') (\<lambda>n. bind_act (attr t ''status'') (\<lambda>s. ret (answer n s)))))))"

definition create_p2p_transfer :: "env \<Rightarrow> login \<Rightarrow> p2p_request \<Rightarrow> p2p_reply act" where
  "create_p2p_transfer e u q =
     (case parse_int (pq_source q) of
        None \<Rightarrow> throw bad_account_id
      | Some aid \<Rightarrow>
          bind_act (validate_account_ownership e aid (lo_user u)) (\<lambda>i.
          bind_act (attr i ''balance'') (\<lambda>b.
            let balance = float_dec (to_float b); total = p2p_total q
            in if dec_less balance (pq_amount q) then throw no_funds
               else if dec_less balance total then throw no_funds_fee
               else book_p2p (later 1000 e) i (p2p_row (lo_user u) aid q) (double (dval (dec_sub balance total)))
                 (\<lambda>n s. \<lparr>pr_transaction = n, pr_amount = pq_amount q, pr_fee = p2p_fee q, pr_total = total,
                         pr_status = s, pr_method = pq_method q\<rparr>))))"

section \<open>Split payments\<close>

record split_request =
  sp_total :: decimal
  sp_participants :: "string list"
  sp_type :: string \<comment> \<open>equal, percentage or amount\<close>
  sp_details :: "(string, decimal) dict option"
  sp_description :: string
  sp_source :: string

record split_share =
  ss_id :: string
  ss_requester :: int
  ss_payer :: string
  ss_amount :: decimal
  ss_description :: string
  ss_created :: time

record split_reply =
  sy_id :: string
  sy_total :: decimal
  sy_amounts :: "(string, decimal) dict"
  sy_requests :: "split_share list"

text \<open>\<open>datetime.now().timestamp()\<close> as a text.\<close>

definition stamp_text :: "time \<Rightarrow> string" where
  "stamp_text t =
     float_str (double (of_int (t div 1000000) + double (of_int (t mod 1000000) / 1000000)))"

definition dec_sum :: "decimal list \<Rightarrow> decimal" where
  "dec_sum ds = fold (\<lambda>d s. dec_add s d) ds (Dec 0 0)"

definition split_error :: "string \<Rightarrow> py_error" where
  "split_error s = HTTPException 400 s"

definition equal_shares :: "decimal \<Rightarrow> string list \<Rightarrow> (string, decimal) dict" where
  "equal_shares bill ps =
     fold (\<lambda>p. dset p (dec_div bill (Dec (int (length ps) + 1) 0))) ps []"

definition percent_shares :: "decimal \<Rightarrow> (string, decimal) dict \<Rightarrow> (string, decimal) dict" where
  "percent_shares bill ds = map (\<lambda>(p, x). (p, dec_div (dec_mul bill x) (Dec 100 0))) ds"

definition participant_amounts :: "split_request \<Rightarrow> (string, decimal) dict result" where
  "participant_amounts q =
     (let ds = (case sp_details q of None \<Rightarrow> [] | Some d \<Rightarrow> d)
      in if sp_type q = ''equal'' then Ok (equal_shares (sp_total q) (sp_participants q))
         else if sp_type q = ''percentage'' then
           (if ds = [] then Err (split_error ''Split details required for percentage split'')
            else if dec_less (Dec 100 0) (dec_sum (map snd ds)) then
              Err (split_error ''Total percentage cannot exceed 100%'')
            else Ok (percent_shares (sp_total q) ds))
         else if sp_type q = ''amount'' then
           (if ds = [] then Err (split_error ''Split details required for amount split'')
            else if dec_less (sp_total q) (dec_sum (map snd ds)) then
              Err (split_error ''Total assigned amount exceeds bill amount'')
            else Ok ds)
         else Ok [])"

text \<open>Each participant takes two readings of the clock.\<close>

fun split_shares :: "env \<Rightarrow> int \<Rightarrow> string \<Rightarrow> (string, decimal) dict \<Rightarrow> split_share list" where
  "split_shares e uid desc [] = []"
| "split_shares e uid desc ((p, x) # ps) =
     \<lparr>ss_id = ''pr_'' @ p @ ''_'' @ stamp_text (clock e 0), ss_requester = uid, ss_payer = p, ss_amount = x,
       ss_description = desc, ss_created = clock e 1\<rparr> # split_shares (later 2 e) uid desc ps"

definition create_split_payment :: "env \<Rightarrow> login \<Rightarrow> split_request \<Rightarrow> split_reply act" where
  "create_split_payment e u q =
     (case parse_int (sp_source q) of
        None \<Rightarrow> throw bad_account_id
      | Some aid \<Rightarrow>
          bind_act (validate_account_ownership e aid (lo_user u)) (\<lambda>_.
            case participant_amounts q of
              Inl err \<Rightarrow> throw err
            | Inr am \<Rightarrow>
                let rs = split_shares (later 1000 e) (lo_user u) (sp_description q) am
                in ret \<lparr>sy_id = ''split_'' @ stamp_text (clock (later (2 * length am) (later 1000 e)) 0),
                        sy_total = sp_total q, sy_amounts = am, sy_requests = rs\<rparr>))"

section \<open>Payment requests and links\<close>

record pay_request =
  py_requester :: string
  py_amount :: decimal
  py_description :: string
  py_due :: "time option"

record pay_reply =
  pz_id :: string
  pz_requester :: int
  pz_payer :: string
  pz_amount :: decimal
  pz_description :: string
  pz_due :: "time option"
  pz_created :: time

text \<open>The field \<open>requester_id\<close> of the body is taken for the payer.\<close>

definition create_payment_request :: "env \<Rightarrow> login \<Rightarrow> pay_request \<Rightarrow> pay_reply" where
  "create_payment_request e u q =
     \<lparr>pz_id = ''req_'' @ stamp_text (clock e 0), pz_requester = lo_user u, pz_payer = py_requester q,
       pz_amount = py_amount q, pz_description = py_description q, pz_due = py_due q, pz_created = clock e 1\<rparr>"

definition payment_link :: "int \<Rightarrow> decimal option \<Rightarrow> string option \<Rightarrow> string" where
  "payment_link uid amount desc =
     ''bankflow://p2p/pay?recipient='' @ str_int uid
     @ (case amount of Some a \<Rightarrow> if coeff a \<noteq> 0 then ''&amount='' @ dec_str a else [] | None \<Rightarrow> [])
     @ (case desc of Some d \<Rightarrow> if d \<noteq> [] then ''&description='' @ d else [] | None \<Rightarrow> [])"

record qr_reply =
  qr_code :: string
  qr_link :: string
  qr_expires :: time

definition generate_qr_code :: "(string \<Rightarrow> string) \<Rightarrow> env \<Rightarrow> login \<Rightarrow> decimal option \<Rightarrow> string option \<Rightarrow> qr_reply" where
  "generate_qr_code draw e u amount desc =
     (let link = payment_link (lo_user u) amount desc; now = clock e 1; day = 86400000000
      in \<lparr>qr_code = ''data:image/png;base64,'' @ draw link, qr_link = link,
          qr_expires = now div day * day + 86399000000 + now mod 1000000\<rparr>)"

definition scan_qr_code :: "(string \<times> cell) list \<Rightarrow> (string \<times> cell) list" where
  "scan_qr_code d =
     [(''recipient_id'', dget_or d ''recipient_id'' CNone), (''amount'', dget_or d ''amount'' CNone),
      (''description'', dget_or d ''description'' CNone), (''valid'', CBool True)]"

section \<open>Contacts\<close>

record p2p_contact =
  pc_id :: string
  pc_name :: string
  pc_username :: string
  pc_email :: string
  pc_phone :: string
  pc_favorite :: bool

text \<open>\<open>' '.join(parts)\<close> of the parts that are true.\<close>

fun part_texts :: "nat \<Rightarrow> cell list \<Rightarrow> string list result" where
  "part_texts n [] = Ok []"
| "part_texts n (CStr s # vs) = (case part_texts (Suc n) vs of Inl err \<Rightarrow> Err err | Inr ss \<Rightarrow> Ok (s # ss))"
| "part_texts n (v # vs) =
     Err (TypeError (''sequence item '' @ str_int (int n) @ '': expected str instance, '' @ type_name v @ '' found''))"

definition joined :: "cell list \<Rightarrow> string result" where
  "joined vs = map_sum id (\<lambda>ss. concat (map (\<lambda>k. (if k = 0 then [] else '' '') @ ss ! k) [0..<length ss]))
     (part_texts 0 (filter cell_true vs))"

text \<open>A field of the response must be a text.\<close>

definition text_field :: "cell \<Rightarrow> string result" where
  "text_field v = (case v of CStr s \<Rightarrow> Ok s | _ \<Rightarrow> Err (CustomError ''ValidationError'' []))"

definition text_or_empty :: "cell \<Rightarrow> string result" where
  "text_or_empty v = (if cell_true v then text_field v else Ok [])"

definition contact_name :: "cell \<Rightarrow> cell \<Rightarrow> cell \<Rightarrow> string result" where
  "contact_name fst_name lst_name user =
     (case joined [fst_name, lst_name] of
        Inl err \<Rightarrow> Err err
      | Inr s \<Rightarrow> if s \<noteq> [] then Ok s else text_field user)"

definition contact_entry :: "nat \<Rightarrow> nat \<Rightarrow> int \<Rightarrow> cell \<Rightarrow> p2p_contact act" where
  "contact_entry i j uid other =
     bind_act (attr j ''first_name'') (\<lambda>f. bind_act (attr j ''last_name'') (\<lambda>l.
     bind_act (attr j ''username'') (\<lambda>n. bind_act (attr i ''is_favorite'') (\<lambda>fav.
     bind_act (attr i ''user_id'') (\<lambda>owner. bind_act (attr j ''email'') (\<lambda>em. bind_act (attr j ''phone'') (\<lambda>ph.
     case (contact_name f l n, text_or_empty em, text_or_empty ph) of
       (Inr name, Inr em', Inr ph') \<Rightarrow>
         ret \<lparr>pc_id = cell_str other, pc_name = name, pc_username = ''@'' @ cell_str n, pc_email = em',
              pc_phone = ph', pc_favorite = (cell_true fav \<and> py_eq owner (CInt uid))\<rparr>
     | (Inl err, _, _) \<Rightarrow> throw err
     | (_, Inl err, _) \<Rightarrow> throw err
     | (_, _, Inl err) \<Rightarrow> throw err)))))))"

fun contact_entries :: "env \<Rightarrow> int \<Rightarrow> nat list \<Rightarrow> cell list \<Rightarrow> p2p_contact list act" where
  "contact_entries e uid [] seen = ret []"
| "contact_entries e uid (i # is) seen =
     bind_act (attr i ''status'') (\<lambda>s.
     if cell_str s \<noteq> ''accepted'' then contact_entries (later 100 e) uid is seen
     else bind_act (attr i ''user_id'') (\<lambda>owner. bind_act (attr i ''contact_id'') (\<lambda>c.
       let other = (if py_eq owner (CInt uid) then c else owner)
       in if cell_in other seen then contact_entries (later 100 e) uid is seen
          else bind_act (query_where e ''User'' [Compare ''id'' OpEq other]) (\<lambda>u.
            case u of
              None \<Rightarrow> contact_entries (later 100 e) uid is seen
            | Some j \<Rightarrow>
                bind_act (contact_entry i j uid other) (\<lambda>x.
                bind_act (contact_entries (later 100 e) uid is (seen @ [other])) (\<lambda>xs. ret (x # xs)))))))"

definition query_all :: "env \<Rightarrow> string \<Rightarrow> clause list \<Rightarrow> nat list act" where
  "query_all e m cs c = q_all e (filter_q (fst c) cs (new_query m)) c"

definition get_p2p_contacts :: "env \<Rightarrow> login \<Rightarrow> p2p_contact list act" where
  "get_p2p_contacts e u =
     bind_act (query_all e ''Contact'' [Bar [Compare ''user_id'' OpEq (CInt (lo_user u)), Compare ''contact_id'' OpEq (CInt (lo_user u))]])
       (\<lambda>is. contact_entries (later 1000 e) (lo_user u) is [])"

section \<open>The arithmetic of a transfer\<close>

text \<open>A decimal with few places and a value that is not huge fits the precision.\<close>

lemma coeff_bound:
  assumes "- 4 \<le> expo d" "\<bar>dval d\<bar> < 10 ^ 20"
  shows "\<bar>coeff d\<bar> < 10 ^ 24"
proof -
  have p: "(1 :: rat) \<le> 10 powi (expo d + 4)" using assms(1) by (intro one_le_power_int) auto
  have "\<bar>of_int (coeff d) :: rat\<bar> * 1 \<le> \<bar>of_int (coeff d)\<bar> * 10 powi (expo d + 4)" using p by (intro mult_left_mono) auto
  also have "\<dots> = \<bar>dval d\<bar> * 10 ^ 4" by (simp add: dval_def power_int_add abs_mult)
  also have "\<dots> < 10 ^ 20 * 10 ^ 4" using assms(2) by (intro mult_strict_right_mono) auto
  finally have "(of_int \<bar>coeff d\<bar> :: rat) < of_int (10 ^ 24)" by simp
  then show ?thesis unfolding of_int_less_iff .
qed

lemma fits_value: "- 4 \<le> expo d \<Longrightarrow> \<bar>dval d\<bar> < 10 ^ 20 \<Longrightarrow> fits d"
  using coeff_bound [of d] by (intro fits_bound) simp

lemma expo_exact_add [simp]: "expo (exact_add a b) = min (expo a) (expo b)"
  by (simp add: exact_add_def Let_def)

lemma expo_neg [simp]: "expo (dec_neg d) = expo d"
  by (simp add: dec_neg_def)

definition charged :: "p2p_request \<Rightarrow> int \<Rightarrow> int" where
  "charged q k = (if pq_method q = ''instant'' then 101 * k else 100 * k)"

lemma p2p_values:
  assumes "dval (pq_amount q) = of_int k / 100" "- 2 \<le> expo (pq_amount q)" "0 < k" "k \<le> money_range"
  shows "dval (p2p_total q) = of_int (charged q k) / 10000" and "- 4 \<le> expo (p2p_total q)"
proof -
  have k: "\<bar>of_int k :: rat\<bar> \<le> 10000000000000" "(0 :: rat) < of_int k" using range_rat [of k] assms(3,4) by auto
  have c: "\<bar>coeff (pq_amount q)\<bar> < 10 ^ 24" using assms(1,2) k by (intro coeff_bound) auto
  let ?m = "Dec (coeff (pq_amount q)) (expo (pq_amount q) - 2)"
  have "fits ?m" using c by (intro fits_bound) simp
  then have mul: "dec_mul (pq_amount q) (Dec 1 (- 2)) = ?m" by (simp add: dec_mul_def)
  have "dval ?m = dval (pq_amount q) / 100" by (simp add: dval_def power_int_diff)
  then have f: "dval (p2p_fee q) = (if pq_method q = ''instant'' then of_int k / 10000 else 0)" "- 4 \<le> expo (p2p_fee q)"
    using assms(1,2) by (simp_all add: p2p_fee_def mul dval_Dec)
  let ?s = "exact_add (pq_amount q) (p2p_fee q)"
  have s: "dval ?s = of_int (charged q k) / 10000" "- 4 \<le> expo ?s" using f assms(1,2) by (auto simp: charged_def)
  have "\<bar>of_int (charged q k) :: rat\<bar> \<le> 101 * of_int k" using k by (simp add: charged_def)
  then have "fits ?s" using s k by (intro fits_value) auto
  then show "dval (p2p_total q) = of_int (charged q k) / 10000" "- 4 \<le> expo (p2p_total q)"
    using s by (simp_all add: p2p_total_def dec_add_def)
qed

lemma cents_dec:
  assumes "\<bar>a\<bar> \<le> money_range"
  shows "dval (float_dec (cents a)) = of_int a / 100" and "- 2 \<le> expo (float_dec (cents a))"
proof -
  have "\<bar>100 * a\<bar> \<le> 10 ^ 15" using assms by (simp add: money_range_def)
  from repr_exact [OF this] have r: "repr_val (cents a) = of_int a / 100" by (simp add: cents_def)
  have s: "cents a < 0 \<longleftrightarrow> a < 0"
    using cents_mono(1) [OF assms, of 0] by (simp add: cents_def double_def money_range_def)
  show "dval (float_dec (cents a)) = of_int a / 100" "- 2 \<le> expo (float_dec (cents a))"
    by (rule float_dec_value [OF r s])+
qed

lemma left_value:
  assumes "\<bar>a\<bar> \<le> money_range" "dval t = of_int c / 10000" "- 4 \<le> expo t" "0 \<le> c" "c \<le> 101 * money_range"
  shows "dval (dec_sub (float_dec (cents a)) t) = of_int (100 * a - c) / 10000"
proof -
  note b = cents_dec [OF assms(1)]
  have "(of_int c :: rat) \<le> of_int (101 * money_range)" using assms(5) unfolding of_int_le_iff .
  then have c: "(0 :: rat) \<le> of_int c" "(of_int c :: rat) \<le> 1010000000000000" using assms(4) by (simp_all add: money_range_def)
  have a: "- (of_int a :: rat) \<le> 10000000000000" "(of_int a :: rat) \<le> 10000000000000" using range_rat [OF assms(1)] by (simp_all add: abs_le_iff)
  have "\<bar>of_int a / 100 - of_int c / 10000 :: rat\<bar> < 10 ^ 20" using a c by (simp add: abs_less_iff field_simps)
  then have "fits (exact_add (float_dec (cents a)) (dec_neg t))" using b assms(2,3) by (intro fits_value) auto
  then show ?thesis using b(1) assms(2) dval_sub [of "float_dec (cents a)" t] by (simp add: sub_exact_def field_simps)
qed

text \<open>Reading a balance or an amount rounds to cents, halves away from zero.\<close>

lemma half_up_error: "\<bar>of_int (half_up x) - x\<bar> \<le> 1/2"
proof -
  have "of_int \<lfloor>x + 1/2\<rfloor> \<le> x + 1/2" "x + 1/2 < of_int \<lfloor>x + 1/2\<rfloor> + 1" by linarith+
  moreover have "of_int \<lfloor>1/2 - x\<rfloor> \<le> 1/2 - x" "1/2 - x < of_int \<lfloor>1/2 - x\<rfloor> + 1" by linarith+
  ultimately show ?thesis unfolding half_up_def of_int_minus abs_le_iff by (simp only: split: if_split) linarith
qed

lemma format_places:
  assumes "\<bar>c\<bar> \<le> 10 ^ 15"
  shows "format_money (CFloat (double (of_int c / 10000))) = Ok (CFloat (cents (half_up (of_int c / 100))))"
    and "dval d = of_int c / 10000 \<Longrightarrow> format_money (CDec d) = Ok (CFloat (cents (half_up (of_int c / 100))))"
proof -
  have c: "- (of_int c :: rat) \<le> 1000000000000000" "(of_int c :: rat) \<le> 1000000000000000"
    using assms by (simp_all add: abs_le_iff)
  have "\<bar>half_up (of_int c / 100)\<bar> < 10 ^ 28"
  proof -
    have "of_int (half_up (of_int c / 100)) \<le> (10000000000001 :: rat)" "- 10000000000001 \<le> (of_int (half_up (of_int c / 100)) :: rat)"
      using c half_up_error [of "of_int c / 100"] unfolding abs_le_iff by linarith+
    then have "half_up (of_int c / 100) \<le> 10000000000001" "- 10000000000001 \<le> half_up (of_int c / 100)" by linarith+
    then show ?thesis by simp
  qed
  then have "ndigits \<bar>half_up (of_int c / 100)\<bar> \<le> 28" by (intro ndigits_le) auto
  note n = this
  show "format_money (CFloat (double (of_int c / 10000))) = Ok (CFloat (cents (half_up (of_int c / 100))))"
    using n by (simp add: format_money_def repr_exact [OF assms] quantize_def Let_def)
  assume "dval d = of_int c / 10000"
  then have "100 * dval d = of_int c / 100" by simp
  then show "format_money (CDec d) = Ok (CFloat (cents (half_up (of_int c / 100))))"
    using n by (simp only: format_money_def quantize_def Let_def cell.case if_True)
qed

section \<open>Booking\<close>

lemma set_balance_moved: "set_balance i (double x) = change_balance i (\<lambda>_. x)"
  by (simp add: fun_eq_iff set_balance_def change_balance_def bind_act_def attr_def)

lemma book_p2p_holds:
  assumes x: "tr i = Some x" "owned ''accounts'' x" "ob_class x = ''Account''" and ids: "ids_ok rs"
    and kw: "format_money (field kw ''amount'') = Ok v"
  shows "triple (sealed ''accounts'' rs tr [i] {}) (book_p2p e i kw (double y) answer)
    (\<lambda>z c. (\<exists>m o'. z = answer m o') \<and>
       (\<exists>rs'. writes_back rs (tr(i \<mapsto> moved (\<lambda>_. y) x)) [i] rs' \<and> st_tables (fst c) ''accounts'' = rs')) E"
proof -
  let ?tr = "tr(i \<mapsto> moved (\<lambda>_. y) x)"
  have own: "\<forall>k \<in> set [i]. owned ''accounts'' (the (?tr k))" using x(2) by simp
  have txn: "triple (sealed ''accounts'' rs tr [i] {}) (make_obj e' ''Transaction'' kw) (\<lambda>t. sealed ''accounts'' rs tr [i] {t}) E" for e'
    using triple_txn [OF kw, where X = "{}"] by simp
  have bal: "triple (sealed ''accounts'' rs tr [i] X) (set_balance i (double y)) (\<lambda>_. sealed ''accounts'' rs ?tr [i] X) E" for X
    unfolding set_balance_moved by (rule triple_moved) (simp_all add: x)
  have fin: "triple (\<lambda>c. \<exists>rs'. writes_back rs ?tr [i] rs' \<and> sealed ''accounts'' rs' ?tr [] {t} c)
      (bind_act (attr t ''id'') (\<lambda>n. bind_act (attr t ''status'') (\<lambda>s. ret (answer n s))))
      (\<lambda>z c. (\<exists>m o'. z = answer m o') \<and>
         (\<exists>rs'. writes_back rs ?tr [i] rs' \<and> st_tables (fst c) ''accounts'' = rs')) E" for t
    by (rule triple_bind [OF triple_attr_any], rule triple_bind [OF triple_attr_any], rule triple_ret) (auto dest: sealedD(1))
  show ?thesis
    unfolding book_p2p_def
    by (rule triple_bind [OF txn], rule triple_then [OF bal], rule triple_then [OF triple_add], rule insertI1,
        rule triple_then [OF triple_commit [OF own ids]], rule fin)
qed

text \<open>What is left of an account: \<open>c\<close> ten-thousandths, on the next reading rounded to cents.\<close>

definition balance_left :: "row list \<Rightarrow> int \<Rightarrow> int \<Rightarrow> row list \<Rightarrow> bool" where
  "balance_left rs n c rs' \<longleftrightarrow>
     only_changed rs n (half_up (of_int c / 100)) rs' \<and>
     (\<exists>s. row_at rs' n = Some s \<and> field s ''balance'' = CFloat (double (of_int c / 10000)))"

lemma book_p2p_effect:
  assumes ids: "unique_ids (st_tables st ''accounts'')" and row: "row_at (st_tables st ''accounts'') n = Some r" "n \<noteq> 0"
    and x: "is_account r a x" and s: "sealed ''accounts'' (st_tables st ''accounts'') [i \<mapsto> x] [i] {} c"
    and kw: "format_money (field kw ''amount'') = Ok v" and d: "\<bar>d\<bar> \<le> 10 ^ 15"
  shows "\<exists>m o' c'. book_p2p e i kw (double (of_int d / 10000)) answer c = (Ok (answer m o'), c')
    \<and> balance_left (st_tables st ''accounts'') n d (st_tables (fst c') ''accounts'')"
proof -
  let ?A = "st_tables st ''accounts''" and ?x = "moved (\<lambda>_. of_int d / 10000) x"
  have id: "field (ob_data x) ''id'' = CInt n" using x row_at_Some [OF row(1)] by (simp add: is_account_def)
  have "ob_class x = ''Account''" "ob_orig x \<noteq> None" using x by (simp_all add: is_account_def)
  then have own: "owned ''accounts'' x" "ob_class x = ''Account''" by (simp_all add: owned_def id row(2))
  have "ids_ok ?A" using ids by (simp add: unique_ids_def)
  from book_p2p_holds [of "[i \<mapsto> x]" i, OF _ own this kw]
  have h: "triple (sealed ''accounts'' ?A [i \<mapsto> x] [i] {}) (book_p2p e i kw (double (of_int d / 10000)) answer)
      (\<lambda>z c. (\<exists>m o'. z = answer m o') \<and>
         (\<exists>rs'. writes_back ?A [i \<mapsto> ?x] [i] rs' \<and> st_tables (fst c) ''accounts'' = rs')) (\<lambda>_ _. False)"
    by simp
  obtain res c' where run: "book_p2p e i kw (double (of_int d / 10000)) answer c = (res, c')"
    by (cases "book_p2p e i kw (double (of_int d / 10000)) answer c")
  obtain t where t: "res = Ok t" using tripleD(1) [OF h s, of _ c'] run by (cases res) auto
  obtain rs' m o' where w: "writes_back ?A [i \<mapsto> ?x] [i] rs'" and q: "st_tables (fst c') ''accounts'' = rs'" and a: "t = answer m o'"
    using tripleD(2) [OF h s, of t c'] run t by auto
  have id': "field (ob_data ?x) ''id'' = CInt n" using id by simp
  have "row_at ?A n \<noteq> None" using row(1) by simp
  note o = one_written [OF w id' this]
  obtain y where y: "row_at rs' n = Some y" "\<forall>g. g \<noteq> ''updated_at'' \<longrightarrow> field y g = field (ob_data ?x) g"
    using o(1) by blast
  let ?c = "half_up (of_int d / 100)"
  have "\<bar>of_int d :: rat\<bar> \<le> of_int (10 ^ 15)" using d unfolding of_int_abs [symmetric] of_int_le_iff .
  then have "(of_int d :: rat) \<le> 1000000000000000" "- (of_int d :: rat) \<le> 1000000000000000" by (simp_all add: abs_le_iff)
  then have "of_int ?c < (10000000000001 :: rat)" "- 10000000000001 < (of_int ?c :: rat)"
    using half_up_error [of "of_int d / 100"] unfolding abs_le_iff by linarith+
  then have "?c < 10000000000001" "- 10000000000001 < ?c" by linarith+
  then have "\<bar>?c\<bar> \<le> money_range" by (simp add: money_range_def abs_le_iff)
  moreover have "format_money (CFloat (double (of_int d / 10000))) = Ok (CFloat (cents ?c))" using d by (intro format_places(1)) simp
  ultimately have "holds y ?c" using y(2) by (intro changed_reads [OF x, of "double (of_int d / 10000)"]) auto
  with y o(2) w run t q a show ?thesis by (auto simp: balance_left_def only_changed_def writes_back_def)
qed


text \<open>C5: A transfer between people takes amount and fee off the sender and gives them to nobody. For an amount of
  whole cents, on an account of the sender: the request is refused without a change to any table if the balance does
  not cover amount and fee (one per cent for an instant transfer); otherwise it succeeds, whatever
  recipient it names, the balance stored is the old one less both, to the ten-thousandth, every other
  account is as before, and the next reading rounds the balance to cents. The amount of the transaction
  is rounded to cents by itself, so for half a cent of fee account and transaction disagree.\<close>

theorem p2p_credits_nobody:
  assumes "unique_ids (st_tables st ''accounts'')" "row_at (st_tables st ''accounts'') n = Some r" "n \<noteq> 0"
    and "holds r a" "py_eq (field r ''user_id'') (CInt (lo_user u))" "parse_int (pq_source q) = Some n"
    and "dval (pq_amount q) = of_int k / 100" "- 2 \<le> expo (pq_amount q)" "0 < k" "k \<le> 10 ^ 11"
  shows "(\<exists>res c'. create_p2p_transfer e u q (st, new_session) = (res, c') \<and>
      (if 100 * a < charged q k
       then res = Err (if a < k then no_funds else no_funds_fee) \<and> st_tables (fst c') = st_tables st
       else (\<exists>y. res = Ok y \<and> pr_total y = p2p_total q) \<and>
         balance_left (st_tables st ''accounts'') n (100 * a - charged q k) (st_tables (fst c') ''accounts''))) \<and>
    format_money (field (p2p_row (lo_user u) n q) ''amount'') = Ok (CFloat (cents (half_up (of_int (- charged q k) / 100))))"
proof
  have a: "\<bar>a\<bar> \<le> money_range" using assms(4) by (simp add: holds_def reads_def)
  have k: "k \<le> money_range" "0 \<le> charged q k" "charged q k \<le> 101 * money_range" "\<bar>charged q k\<bar> \<le> 10 ^ 15"
    using assms(9,10) by (auto simp: money_range_def charged_def)
  note t = p2p_values [OF assms(7-9) k(1)]
  note b = cents_dec(1) [OF a]
  have "dval (dec_neg (p2p_total q)) = of_int (- charged q k) / 10000" using t(1) by simp
  from format_places(2) [OF _ this] k(4)
  show amount: "format_money (field (p2p_row (lo_user u) n q) ''amount'') = Ok (CFloat (cents (half_up (of_int (- charged q k) / 100))))"
    by (simp add: p2p_row_def field_def dget_or_def)
  obtain i y c where v: "validate_account_ownership e n (lo_user u) (st, new_session) = (Ok i, c)" and y: "is_account r a y"
    and tb: "st_tables (fst c) = st_tables st" and s: "sealed ''accounts'' (st_tables st ''accounts'') [i \<mapsto> y] [i] {} c"
    and bal: "get_attr (snd c) i ''balance'' = CFloat (cents a)"
    using owner_loaded [OF assms(1,2,4,5), of e] by blast
  let ?left = "dec_sub (float_dec (cents a)) (p2p_total q)"
  have less: "dec_less (float_dec (cents a)) (pq_amount q) \<longleftrightarrow> a < k"
    "dec_less (float_dec (cents a)) (p2p_total q) \<longleftrightarrow> 100 * a < charged q k"
  proof -
    show "dec_less (float_dec (cents a)) (pq_amount q) \<longleftrightarrow> a < k" by (simp add: dec_less_iff b assms(7))
    have "of_int a / 100 < (of_int (charged q k) / 10000 :: rat) \<longleftrightarrow> of_int (100 * a) < (of_int (charged q k) :: rat)" by simp
    then show "dec_less (float_dec (cents a)) (p2p_total q) \<longleftrightarrow> 100 * a < charged q k"
      unfolding dec_less_iff b t(1) of_int_less_iff .
  qed
  have "a < k \<Longrightarrow> 100 * a < charged q k" using assms(9) by (auto simp: charged_def)
  then have run: "create_p2p_transfer e u q (st, new_session) =
      (if 100 * a < charged q k then (Err (if a < k then no_funds else no_funds_fee), c)
       else book_p2p (later 1000 e) i (p2p_row (lo_user u) n q) (double (dval ?left))
         (\<lambda>n s. \<lparr>pr_transaction = n, pr_amount = pq_amount q, pr_fee = p2p_fee q, pr_total = p2p_total q,
                 pr_status = s, pr_method = pq_method q\<rparr>) c)"
    by (auto simp: create_p2p_transfer_def assms(6) bind_act_def v attr_def bal less throw_def Let_def)
  show "\<exists>res c'. create_p2p_transfer e u q (st, new_session) = (res, c') \<and>
      (if 100 * a < charged q k
       then res = Err (if a < k then no_funds else no_funds_fee) \<and> st_tables (fst c') = st_tables st
       else (\<exists>y. res = Ok y \<and> pr_total y = p2p_total q) \<and>
         balance_left (st_tables st ''accounts'') n (100 * a - charged q k) (st_tables (fst c') ''accounts''))"
  proof (cases "100 * a < charged q k")
    case True
    then show ?thesis using run tb by simp
  next
    case False
    have left: "dval ?left = of_int (100 * a - charged q k) / 10000" by (rule left_value [OF a t k(2,3)])
    have "\<bar>100 * a - charged q k\<bar> \<le> 10 ^ 15" using a False k(2) by (simp add: money_range_def)
    from book_p2p_effect [OF assms(1-3) y s amount this] obtain m o' c' where
      "book_p2p (later 1000 e) i (p2p_row (lo_user u) n q) (double (of_int (100 * a - charged q k) / 10000))
         (\<lambda>n s. \<lparr>pr_transaction = n, pr_amount = pq_amount q, pr_fee = p2p_fee q, pr_total = p2p_total q,
                 pr_status = s, pr_method = pq_method q\<rparr>) c
       = (Ok \<lparr>pr_transaction = m, pr_amount = pq_amount q, pr_fee = p2p_fee q, pr_total = p2p_total q,
                 pr_status = o', pr_method = pq_method q\<rparr>, c')"
      "balance_left (st_tables st ''accounts'') n (100 * a - charged q k) (st_tables (fst c') ''accounts'')" by blast
    with run left False show ?thesis by simp
  qed
qed

text \<open>Fifty cents: the fee of half a cent is charged, given back by the next reading, and booked as a cent.\<close>

definition fifty_cents :: p2p_request where
  "fifty_cents = \<lparr>pq_recipient = ''nobody'', pq_amount = Dec 50 (- 2), pq_description = None, pq_method = ''instant'', pq_source = ''1''\<rparr>"

lemma p2p_credits_nobody_witness:
  "(\<exists>y c'. create_p2p_transfer env0 alice fifty_cents (two_accounts, new_session) = (Ok y, c') \<and>
      only_changed (st_tables two_accounts ''accounts'') 1 9950 (st_tables (fst c') ''accounts'')) \<and>
    format_money (field (p2p_row (lo_user alice) 1 fifty_cents) ''amount'') = Ok (CFloat (cents (- 51)))"
proof -
  have p: "parse_int ''1'' = Some 1" by code_simp
  have h: "half_up (994950 / 100) = 9950" "half_up (- (5050 / 100)) = - 51" "half_up (19899 / 2) = 9950" "half_up (- (101 / 2)) = - 51"
    by code_simp+
  have d: "dval (Dec 50 (- 2)) = 1 / 2" by code_simp
  from p2p_credits_nobody [where st = two_accounts and n = 1 and k = 50 and a = 10000 and u = alice and e = env0 and q = fifty_cents] p h d
  show ?thesis
    by (auto simp: two_accounts_facts alice_def fifty_cents_def charged_def balance_left_def)
qed


section \<open>Splits\<close>

text \<open>A participant named twice pays once, but the bill is divided as if he paid twice.\<close>

lemma duplicate_pays_once: "equal_shares bill [p, p] = [(p, dec_div bill (Dec 3 0))]"
  by (simp add: equal_shares_def)

end
