(* ===== verification/Payment_Methods.thy ===== *)
theory Payment_Methods
  imports Transfers
begin

text \<open>
  The payment methods of a user (\<open>backend/app/routes/payment_methods.py\<close>, with the parts of
  \<open>utils/security_logger.py\<close> and \<open>models/enums.py\<close> it reaches): the checks on card numbers, adding cards, bank
  accounts and wallets, listing, changing, deleting and verifying them, over a session of the memory store. As
  for the transfers, the response that pydantic builds from an instance is not modelled; an endpoint answers with the
  instance or with its message.

  The events the endpoints log do not exist in the enumeration \<open>SecurityEventType\<close>, so the call of
  \<open>log_security_event\<close> raises while its arguments are evaluated; it is modelled as that error.
\<close>

section \<open>Card numbers\<close>

definition mask_card_number :: "string \<Rightarrow> string" where
  "mask_card_number s = (if 4 \<le> length s then drop (length s - 4) s else s)"

definition mask_account_number :: "string \<Rightarrow> string" where
  "mask_account_number s = (if 4 \<le> length s then drop (length s - 4) s else s)"

text \<open>\<open>re.sub(r'[\s-]', '', s)\<close>\<close>

definition without_separators :: "string \<Rightarrow> string" where
  "without_separators s = filter (\<lambda>c. \<not> blank c \<and> c \<noteq> CHR ''-'') s"

definition starts :: "string list \<Rightarrow> string \<Rightarrow> bool" where
  "starts ps s = list_ex (\<lambda>p. take (length p) s = p) ps"

definition get_card_brand :: "string \<Rightarrow> string" where
  "get_card_brand number =
     (let s = without_separators number
      in if starts [''4''] s then ''Visa''
         else if starts [''51'', ''52'', ''53'', ''54'', ''55''] s then ''Mastercard''
         else if starts [''34'', ''37''] s then ''American Express''
         else if starts [''6011'', ''65''] s then ''Discover''
         else ''Other'')"

text \<open>\<open>str.isdigit\<close> on code points below 256: the superscripts two, three and one count as digits too, but \<open>int\<close> refuses them.\<close>

definition digit_like :: "char \<Rightarrow> bool" where
  "digit_like c \<longleftrightarrow> digit_value c \<noteq> None \<or> of_char c \<in> {178, 179, 185 :: nat}"

definition no_integer :: "char \<Rightarrow> py_error" where
  "no_integer c = ValueError (''invalid literal for int() with base 10: '' @ quoted [c])"

text \<open>The sum over the digits from the right; \<open>i\<close> is the number of digits before.\<close>

fun luhn_sum :: "nat \<Rightarrow> string \<Rightarrow> int result" where
  "luhn_sum i [] = Ok 0"
| "luhn_sum i (c # cs) =
     (case digit_value c of
        None \<Rightarrow> Err (no_integer c)
      | Some n \<Rightarrow>
          (let n' = (if i mod 2 = 1 then (if 9 < 2 * n then 2 * n - 9 else 2 * n) else n)
           in case luhn_sum (Suc i) cs of Inl err \<Rightarrow> Err err | Inr m \<Rightarrow> Ok (n' + m)))"

definition validate_card_number :: "string \<Rightarrow> bool result" where
  "validate_card_number number =
     (let s = without_separators number
      in if s = [] \<or> \<not> list_all digit_like s then Ok False
         else case luhn_sum 0 (rev s) of Inl err \<Rightarrow> Err err | Inr m \<Rightarrow> Ok (m mod 10 = 0))"

section \<open>Adding\<close>

record method_card =
  mc_type :: string
  mc_nickname :: "string option"
  mc_default :: bool
  mc_number :: string
  mc_month :: int
  mc_year :: int
  mc_zip :: string

record method_bank =
  mb_nickname :: "string option"
  mb_default :: bool
  mb_account :: string
  mb_routing :: string
  mb_bank :: string

record method_wallet =
  mw_nickname :: "string option"
  mw_default :: bool
  mw_provider :: string
  mw_id :: string

definition card_method_row :: "int \<Rightarrow> method_card \<Rightarrow> row" where
  "card_method_row uid q =
     [(''user_id'', CInt uid), (''type'', CStr (mc_type q)), (''nickname'', opt_cell CStr (mc_nickname q)),
      (''is_default'', CBool (mc_default q)), (''card_last_four'', CStr (mask_card_number (mc_number q))),
      (''card_brand'', CStr (get_card_brand (mc_number q))), (''expiry_month'', CInt (mc_month q)),
      (''expiry_year'', CInt (mc_year q)), (''billing_zip'', CStr (mc_zip q)), (''status'', CStr ''active'')]"

definition bank_method_row :: "int \<Rightarrow> method_bank \<Rightarrow> row" where
  "bank_method_row uid q =
     [(''user_id'', CInt uid), (''type'', CStr ''bank_account''), (''nickname'', opt_cell CStr (mb_nickname q)),
      (''is_default'', CBool (mb_default q)), (''account_last_four'', CStr (mask_account_number (mb_account q))),
      (''routing_number'', CStr (mb_routing q)), (''bank_name'', CStr (mb_bank q)),
      (''status'', CStr ''pending_verification'')]"

definition wallet_method_row :: "int \<Rightarrow> method_wallet \<Rightarrow> row" where
  "wallet_method_row uid q =
     [(''user_id'', CInt uid), (''type'', CStr ''digital_wallet''),
      (''nickname'', CStr (text_or (mw_nickname q) (mw_provider q))), (''is_default'', CBool (mw_default q)),
      (''wallet_provider'', CStr (mw_provider q)), (''wallet_id'', CStr (mw_id q)), (''status'', CStr ''active'')]"

text \<open>\<open>query(...).filter(...).update(values)\<close> changes the rows of the store at once.\<close>

definition update_where :: "string \<Rightarrow> clause list \<Rightarrow> row \<Rightarrow> unit act" where
  "update_where m cs vs c =
     (case update_q vs (fst c) (filter_q (fst c) cs (new_query m)) of (r, st) \<Rightarrow> (map_sum id (\<lambda>_. ()) r, (st, snd c)))"

text \<open>The filter on \<open>PaymentMethod.is_default\<close> is an attribute, no comparison, and lets every row pass.\<close>

definition unset_defaults :: "clause list \<Rightarrow> unit act" where
  "unset_defaults cs = update_where ''PaymentMethod'' (cs @ [OtherC]) [(''is_default'', CBool False)]"

definition no_event :: "string \<Rightarrow> py_error" where
  "no_event m = CustomError ''AttributeError''
     (''type object '' @ quoted ''SecurityEventType'' @ '' has no attribute '' @ quoted m)"

text \<open>The common part of the three endpoints, from the new instance to the refresh.\<close>

definition store_method :: "env \<Rightarrow> int \<Rightarrow> bool \<Rightarrow> row \<Rightarrow> nat act" where
  "store_method e uid dflt kw =
     bind_act (make_obj e ''PaymentMethod'' kw) (\<lambda>i.
     then_act (if dflt then unset_defaults [Compare ''user_id'' OpEq (CInt uid)] else ret ())
     (then_act (add_act i) (then_act (commit_act (later 100 e)) (then_act (refresh_act i) (ret i)))))"

definition add_card :: "env \<Rightarrow> login \<Rightarrow> method_card \<Rightarrow> nat act" where
  "add_card e u q =
     (case validate_card_number (mc_number q) of
        Inl err \<Rightarrow> throw err
      | Inr ok \<Rightarrow>
          if \<not> ok then throw (HTTPException 400 ''Invalid card number'')
          else bind_act (query_where e ''PaymentMethod''
                 [Compare ''user_id'' OpEq (CInt (lo_user u)),
                  Compare ''card_last_four'' OpEq (CStr (mask_card_number (mc_number q))),
                  InList ''type'' [CStr ''credit_card'', CStr ''debit_card'']])
            (\<lambda>x. if x \<noteq> None then throw (HTTPException 400 ''This card is already added'')
                 else bind_act (store_method (later 100 e) (lo_user u) (mc_default q) (card_method_row (lo_user u) q))
                   (\<lambda>_. throw (no_event ''PAYMENT_METHOD_ADDED''))))"

text \<open>\<open>re.match(r'^\d{9}$', s)\<close>: the dollar also matches before a final line break.\<close>

definition routing_ok :: "string \<Rightarrow> bool" where
  "routing_ok s =
     (let t = (if s \<noteq> [] \<and> last s = char_of (10 :: nat) then butlast s else s)
      in length t = 9 \<and> list_all (\<lambda>c. digit_value c \<noteq> None) t)"

definition add_bank_account :: "env \<Rightarrow> login \<Rightarrow> method_bank \<Rightarrow> nat act" where
  "add_bank_account e u q =
     (if \<not> routing_ok (mb_routing q) then throw (HTTPException 400 ''Invalid routing number'')
      else bind_act (store_method e (lo_user u) (mb_default q) (bank_method_row (lo_user u) q))
        (\<lambda>_. throw (no_event ''PAYMENT_METHOD_ADDED'')))"

definition wallet_providers :: "string list" where
  "wallet_providers = [''Apple Pay'', ''Google Pay'', ''Samsung Pay'', ''PayPal'', ''Venmo'']"

definition add_digital_wallet :: "env \<Rightarrow> login \<Rightarrow> method_wallet \<Rightarrow> nat act" where
  "add_digital_wallet e u q =
     (if mw_provider q \<notin> set wallet_providers
      then throw (HTTPException 400
        ''Invalid wallet provider. Must be one of: Apple Pay, Google Pay, Samsung Pay, PayPal, Venmo'')
      else bind_act (query_where e ''PaymentMethod''
             [Compare ''user_id'' OpEq (CInt (lo_user u)), Compare ''wallet_provider'' OpEq (CStr (mw_provider q)),
              Compare ''wallet_id'' OpEq (CStr (mw_id q))])
        (\<lambda>x. if x \<noteq> None then throw (HTTPException 400 ''This wallet is already added'')
             else store_method (later 100 e) (lo_user u) (mw_default q) (wallet_method_row (lo_user u) q)))"

section \<open>Reading\<close>

definition get_payment_methods :: "env \<Rightarrow> login \<Rightarrow> bool \<Rightarrow> nat list act" where
  "get_payment_methods e u include_expired c =
     (let q = filter_q (fst c) [Compare ''user_id'' OpEq (CInt (lo_user u))] (new_query ''PaymentMethod'');
          q' = (if include_expired then q else filter_q (fst c) [Compare ''status'' OpNe (CStr ''expired'')] q)
      in q_all e (order_by [(''is_default'', True), (''created_at'', True)] q') c)"

definition own_method :: "env \<Rightarrow> login \<Rightarrow> int \<Rightarrow> nat act" where
  "own_method e u pid =
     bind_act (query_where e ''PaymentMethod'' [Compare ''id'' OpEq (CInt pid), Compare ''user_id'' OpEq (CInt (lo_user u))])
       (\<lambda>x. case x of None \<Rightarrow> throw (HTTPException 404 ''Payment method not found'') | Some i \<Rightarrow> ret i)"

definition get_payment_method :: "env \<Rightarrow> login \<Rightarrow> int \<Rightarrow> nat act" where
  "get_payment_method e u pid = own_method e u pid"

section \<open>Changing\<close>

record method_update =
  mu_nickname :: "string option"
  mu_default :: "bool option"
  mu_zip :: "string option"

definition set_if :: "nat \<Rightarrow> string \<Rightarrow> string option \<Rightarrow> unit act" where
  "set_if i k v = (case v of None \<Rightarrow> ret () | Some s \<Rightarrow> on_session (set_attr i k (CStr s)))"

definition update_payment_method :: "env \<Rightarrow> login \<Rightarrow> int \<Rightarrow> method_update \<Rightarrow> nat act" where
  "update_payment_method e u pid q =
     bind_act (own_method e u pid) (\<lambda>i.
     then_act (set_if i ''nickname'' (mu_nickname q))
     (then_act (set_if i ''billing_zip'' (mu_zip q))
     (then_act
       (case mu_default q of
          None \<Rightarrow> ret ()
        | Some b \<Rightarrow>
            then_act (if b then unset_defaults [Compare ''user_id'' OpEq (CInt (lo_user u)), Compare ''id'' OpNe (CInt pid)] else ret ())
              (on_session (set_attr i ''is_default'' (CBool b))))
     (then_act (on_session (set_attr i ''updated_at'' (CTime True (clock e 100))))
     (then_act (commit_act (later 101 e)) (then_act (refresh_act i) (ret i)))))))"

text \<open>
  The type of a row written by the endpoints is a member of the enumeration, that of a seeded row is a plain text
  (\<open>seeded\<close>), which has no \<open>value\<close>.
\<close>

definition no_value :: py_error where
  "no_value = CustomError ''AttributeError'' (quoted ''str'' @ '' object has no attribute '' @ quoted ''value'')"

definition count_where :: "string \<Rightarrow> clause list \<Rightarrow> nat act" where
  "count_where m cs c = (q_count (fst c) (filter_q (fst c) cs (new_query m)), c)"

definition delete_payment_method :: "env \<Rightarrow> login \<Rightarrow> bool \<Rightarrow> int \<Rightarrow> string act" where
  "delete_payment_method e u seeded pid =
     bind_act (own_method e u pid) (\<lambda>i.
     bind_act (attr i ''is_default'') (\<lambda>d.
     bind_act (if cell_true d
               then count_where ''PaymentMethod'' [Compare ''user_id'' OpEq (CInt (lo_user u)), Compare ''id'' OpNe (CInt pid)]
               else ret 0) (\<lambda>n.
     if 0 < n then throw (HTTPException 400 ''Cannot delete default payment method. Set another as default first.'')
     else if seeded then throw no_value
     else then_act (on_session (\<lambda>se. (Ok (), se_delete i se)))
       (then_act (commit_act (later 100 e)) (throw (no_event ''PAYMENT_METHOD_REMOVED''))))))"

definition verified_message :: string where
  "verified_message = ''Payment method verified successfully''"

definition verify_payment_method :: "env \<Rightarrow> login \<Rightarrow> int \<Rightarrow> string act" where
  "verify_payment_method e u pid =
     bind_act (own_method e u pid) (\<lambda>i.
     bind_act (attr i ''type'') (\<lambda>t. bind_act (attr i ''status'') (\<lambda>s.
     if \<not> py_eq t (CStr ''bank_account'') then throw (HTTPException 400 ''Only bank accounts need verification'')
     else if py_eq s (CStr ''active'') then throw (HTTPException 400 ''Payment method already verified'')
     else then_act (on_session (set_attr i ''status'' (CStr ''active'')))
       (then_act (on_session (set_attr i ''verified_at'' (CTime True (clock e 100))))
       (then_act (commit_act (later 101 e)) (ret verified_message))))))"

end
