(* ===== verification/Card_Numbers.thy ===== *)
theory Card_Numbers
  imports Payment_Methods
begin

text \<open>
  The check on card numbers: which typing errors it detects, and the characters on which it fails with an exception.
\<close>

section \<open>The sum of the digits\<close>

definition digits :: "string \<Rightarrow> bool" where
  "digits s = list_all (\<lambda>c. digit_value c \<noteq> None) s"

definition weighed :: "nat \<Rightarrow> int \<Rightarrow> int" where
  "weighed i n = (if i mod 2 = 1 then (if 9 < 2 * n then 2 * n - 9 else 2 * n) else n)"

fun weighed_sum :: "nat \<Rightarrow> string \<Rightarrow> int" where
  "weighed_sum i [] = 0"
| "weighed_sum i (c # cs) = weighed i (the (digit_value c)) + weighed_sum (Suc i) cs"

lemma luhn_weighed: "digits s \<Longrightarrow> luhn_sum i s = Ok (weighed_sum i s)"
  by (induction s arbitrary: i) (auto simp: digits_def weighed_def Let_def)

lemma weighed_append: "weighed_sum i (s @ t) = weighed_sum i s + weighed_sum (i + length s) t"
  by (induction s arbitrary: i) simp_all

lemma digit_range: "digit_value c = Some n \<Longrightarrow> 0 \<le> n \<and> n \<le> 9"
  by (auto simp: digit_value_def Let_def split: if_splits)

lemma digit_eq: "digit_value a = Some n \<Longrightarrow> digit_value b = Some n \<Longrightarrow> a = b"
  by (auto simp: digit_value_def Let_def of_char_eq_iff split: if_splits)

lemma digits_plain: "digits s \<Longrightarrow> without_separators s = s \<and> list_all digit_like s"
proof -
  assume "digits s"
  then have "\<not> blank c \<and> c \<noteq> CHR ''-'' \<and> digit_like c" if "c \<in> set s" for c
    using digit_plain [of c] that by (auto simp: digits_def list_all_iff digit_like_def)
  then show ?thesis by (simp add: without_separators_def list_all_iff filter_id_conv)
qed

lemma digits_valid: "digits s \<Longrightarrow> s \<noteq> [] \<Longrightarrow> validate_card_number s = Ok (weighed_sum 0 (rev s) mod 10 = 0)"
  using digits_plain [of s] luhn_weighed [of "rev s" 0] by (simp add: validate_card_number_def digits_def)

section \<open>Errors\<close>

lemma weighed_values: "weighed i n = (if odd i then (if 5 \<le> n then 2 * n - 9 else 2 * n) else n)"
  by (simp add: weighed_def odd_iff_mod_2_eq_one)

lemma digit_cases:
  fixes n :: int
  assumes "0 \<le> n" "n \<le> 9"
  shows "n = 0 \<or> n = 1 \<or> n = 2 \<or> n = 3 \<or> n = 4 \<or> n = 5 \<or> n = 6 \<or> n = 7 \<or> n = 8 \<or> n = 9"
  using assms by presburger

lemma weighed_change:
  fixes m n :: int
  assumes "0 \<le> m" "m \<le> 9" "0 \<le> n" "n \<le> 9" "m \<noteq> n" "(x + weighed i m) mod 10 = 0"
  shows "(x + weighed i n) mod 10 \<noteq> 0"
proof -
  have "(weighed i m - weighed i n) mod 10 \<noteq> 0"
    using digit_cases [OF assms(1,2)] digit_cases [OF assms(3,4)] assms(5)
    by (cases "odd i") (auto simp: weighed_values)
  moreover have "weighed i m - weighed i n = (x + weighed i m) - (x + weighed i n)" by simp
  ultimately show ?thesis using assms(6) by (metis diff_self mod_0 mod_diff_eq)
qed

lemma weighed_swap:
  fixes m n :: int
  assumes "0 \<le> m" "m \<le> 9" "0 \<le> n" "n \<le> 9" "m \<noteq> n" "{m, n} \<noteq> {0, 9}" "(x + (weighed i m + weighed (Suc i) n)) mod 10 = 0"
  shows "(x + (weighed i n + weighed (Suc i) m)) mod 10 \<noteq> 0"
proof -
  let ?a = "weighed i m + weighed (Suc i) n" and ?b = "weighed i n + weighed (Suc i) m"
  have nine: "\<not> (m = 0 \<and> n = 9)" "\<not> (m = 9 \<and> n = 0)" using assms(6) by auto
  have "(?a - ?b) mod 10 \<noteq> 0"
  proof (cases "odd i")
    case True
    then have "?a = (if 5 \<le> m then 2 * m - 9 else 2 * m) + n" "?b = (if 5 \<le> n then 2 * n - 9 else 2 * n) + m"
      by (simp_all add: weighed_values)
    with assms(1-5) nine show ?thesis by presburger
  next
    case False
    then have "?a = m + (if 5 \<le> n then 2 * n - 9 else 2 * n)" "?b = n + (if 5 \<le> m then 2 * m - 9 else 2 * m)"
      by (simp_all add: weighed_values)
    with assms(1-5) nine show ?thesis by presburger
  qed
  moreover have "?a - ?b = (x + ?a) - (x + ?b)" by simp
  ultimately show ?thesis using assms(7) by (metis diff_self mod_0 mod_diff_eq)
qed

text \<open>C6: The check on card numbers detects every error in one digit of a valid number, and every exchange of two
  adjacent digits except zero and nine.\<close>

theorem luhn_detects:
  assumes "list_all (\<lambda>c. digit_value c \<noteq> None) (u @ w @ v)" "validate_card_number (u @ w @ v) = Ok True"
  shows "(\<forall>a b. w = [a] \<and> digit_value b \<noteq> None \<and> a \<noteq> b \<longrightarrow> validate_card_number (u @ [b] @ v) = Ok False) \<and>
    (\<forall>a b. w = [a, b] \<and> a \<noteq> b \<and> {a, b} \<noteq> {CHR ''0'', CHR ''9''} \<longrightarrow> validate_card_number (u @ [b, a] @ v) = Ok False)"
proof (intro conjI allI impI)
  fix a b assume w: "w = [a] \<and> digit_value b \<noteq> None \<and> a \<noteq> b"
  then obtain m n where d: "digit_value a = Some m" "digit_value b = Some n" using assms(1) by auto
  have "m \<noteq> n" using d w digit_eq by blast
  let ?x = "weighed_sum 0 (rev v) + weighed_sum (Suc (length v)) (rev u)"
  have dg: "digits (u @ [a] @ v)" "digits (u @ [b] @ v)" using assms(1) w by (simp_all add: digits_def)
  have "(?x + weighed (length v) m) mod 10 = 0"
    using assms(2) digits_valid [OF dg(1)] w d by (simp add: weighed_append algebra_simps)
  from weighed_change [OF _ _ _ _ \<open>m \<noteq> n\<close> this] have "(?x + weighed (length v) n) mod 10 \<noteq> 0"
    using digit_range [OF d(1)] digit_range [OF d(2)] by simp
  then show "validate_card_number (u @ [b] @ v) = Ok False"
    using digits_valid [OF dg(2)] d by (simp add: weighed_append algebra_simps)
next
  fix a b assume w: "w = [a, b] \<and> a \<noteq> b \<and> {a, b} \<noteq> {CHR ''0'', CHR ''9''}"
  then obtain m n where d: "digit_value a = Some m" "digit_value b = Some n" using assms(1) by auto
  have "m \<noteq> n" using d w digit_eq by blast
  have z: "digit_value CHR ''0'' = Some 0" "digit_value CHR ''9'' = Some 9" by (simp_all add: digit_value_def)
  have "{m, n} \<noteq> {0, 9}"
  proof
    assume "{m, n} = {0, 9}"
    then have "{a, b} = {CHR ''0'', CHR ''9''}" using d z digit_eq by (metis doubleton_eq_iff)
    then show False using w by blast
  qed
  let ?x = "weighed_sum 0 (rev v) + weighed_sum (Suc (Suc (length v))) (rev u)"
  have dg: "digits (u @ [a, b] @ v)" "digits (u @ [b, a] @ v)" using assms(1) w by (simp_all add: digits_def)
  have "(?x + (weighed (length v) n + weighed (Suc (length v)) m)) mod 10 = 0"
    using assms(2) digits_valid [OF dg(1)] w d by (simp add: weighed_append algebra_simps)
  from weighed_swap [OF _ _ _ _ _ _ this] have "(?x + (weighed (length v) m + weighed (Suc (length v)) n)) mod 10 \<noteq> 0"
    using digit_range [OF d(1)] digit_range [OF d(2)] \<open>m \<noteq> n\<close> \<open>{m, n} \<noteq> {0, 9}\<close> by (simp add: insert_commute)
  then show "validate_card_number (u @ [b, a] @ v) = Ok False"
    using digits_valid [OF dg(2)] d by (simp add: weighed_append algebra_simps)
qed

theorem luhn_detects_witness:
  "validate_card_number (''411111'' @ ''7'' @ ''111111111'') = Ok False"
proof -
  have "list_all (\<lambda>c. digit_value c \<noteq> None) (''411111'' @ ''1'' @ ''111111111'')" by code_simp
  moreover have "validate_card_number (''411111'' @ ''1'' @ ''111111111'') = Ok True" by code_simp
  moreover have "digit_value CHR ''7'' \<noteq> None" by code_simp
  ultimately show ?thesis using luhn_detects [of "''411111''" "''1''" "''111111111''"] by fastforce
qed

text \<open>Zero and nine exchanged pass, and a superscript two is no digit of an integer.\<close>

lemma zero_nine_pass: "validate_card_number ''4900000000000009'' = validate_card_number ''4090000000000009''"
  by code_simp

lemma superscript_raises: "validate_card_number (''411111111111111'' @ [char_of (178 :: nat)]) =
    Err (no_integer (char_of (178 :: nat)))"
  by code_simp

end
