(* ===== verification/Methods_Effect.thy ===== *)
theory Methods_Effect
  imports Payment_Methods
begin

text \<open>
  What the endpoints for payment methods do to the stored methods: adding stores and then fails, changing and verifying
  answer with success and lose the change, deleting always fails.
\<close>

section \<open>Sessions that hold rows of an unmapped model\<close>

definition calm :: "(string \<Rightarrow> row list) \<Rightarrow> ctx \<Rightarrow> bool" where
  "calm T c \<longleftrightarrow> base_only (snd c) \<and> st_tables (fst c) = T"

definition calm_at :: "(string \<Rightarrow> row list) \<Rightarrow> nat \<Rightarrow> ctx \<Rightarrow> bool" where
  "calm_at T i c \<longleftrightarrow> calm T c \<and> i < length (se_objs (snd c))"

lemma calm_new: "calm (st_tables st) (st, new_session)"
  by (simp add: calm_def base_only_def new_session_def)

lemma unmapped_method [simp]: "class_of ''PaymentMethod'' = ''BaseMemoryModel''" "''PaymentMethod'' \<notin> set model_map"
  "dget store_map ''PaymentMethod'' = Some ''payment_methods''" "steps_of ''BaseMemoryModel'' = []"
  "dget tablenames ''BaseMemoryModel'' = None"
  by code_simp+

lemma rows_of_methods [simp]: "rows_of st ''PaymentMethod'' = st_tables st ''payment_methods''"
  by (simp add: rows_of_def)

lemma base_object:
  assumes "has_key r ''id''"
  shows "\<exists>d st'. new_object e ''BaseMemoryModel'' r st = (Ok d, st') \<and> st_tables st' = st_tables st \<and>
    (\<forall>k. k \<noteq> ''created_at'' \<longrightarrow> field d k = field r k)"
proof -
  obtain d st' where b: "base_init e ''BaseMemoryModel'' r st = (d, st')" by fastforce
  have "d = (if has_key r ''created_at'' then r else dset ''created_at'' (CTime True (clock e 0)) r)"
    using b assms by (auto simp: base_init_def Let_def split: if_splits)
  moreover have "st_tables st' = st_tables st" using base_init_tables(1) [OF b] .
  ultimately show ?thesis using b by (auto simp: new_object_def field_def)
qed

lemma load_calm:
  assumes "calm T c" "has_key r ''id''"
  obtains i c' where "load e ''PaymentMethod'' r c = (Ok i, c')" "calm_at T i c'"
    "\<forall>k. k \<noteq> ''created_at'' \<longrightarrow> get_attr (snd c') i k = field r k"
proof -
  obtain d st' where d: "new_object e ''BaseMemoryModel'' r (fst c) = (Ok d, st')" "st_tables st' = st_tables (fst c)"
    "\<forall>k. k \<noteq> ''created_at'' \<longrightarrow> field d k = field r k" using base_object [OF assms(2)] by blast
  let ?i = "length (se_objs (snd c))"
  let ?se = "(snd c)\<lparr>se_objs := se_objs (snd c) @ [\<lparr>ob_class = ''BaseMemoryModel'', ob_data = d, ob_orig = Some r\<rparr>],
      se_updates := se_updates (snd c) @ [?i]\<rparr>"
  have "load e ''PaymentMethod'' r c = (Ok ?i, (st', ?se))" using d(1) by (simp add: load_def Let_def)
  moreover have "calm_at T ?i (st', ?se)"
    using assms(1) d(2) by (auto simp: calm_at_def calm_def base_only_def intro: less_SucI)
  moreover have "\<forall>k. k \<noteq> ''created_at'' \<longrightarrow> get_attr ?se ?i k = field r k" using d(3) by (simp add: get_attr_def ob_def)
  ultimately show thesis using that by fastforce
qed

section \<open>The own method\<close>

lemma find_only:
  assumes "unique_ids rs" "row_at rs n = Some r" "p r" "\<And>x. x \<in> set rs \<Longrightarrow> p x \<Longrightarrow> py_eq (field x ''id'') (CInt n)"
  shows "find p rs = Some r"
proof -
  have r: "r \<in> set rs" "field r ''id'' = CInt n" using row_at_Some [OF assms(2)] by blast+
  have "x = r" if x: "x \<in> set rs" "p x" for x
  proof -
    obtain m where "field x ''id'' = CInt m" using assms(1) x(1) by (auto simp: unique_ids_def ids_ok_def)
    then have "field x ''id'' = field r ''id''" using assms(4) [OF x] r(2) by simp
    then show ?thesis using assms(1) x(1) r(1) by (auto simp: unique_ids_def distinct_map dest: inj_onD)
  qed
  moreover obtain x where "find p rs = Some x" using r(1) assms(3) by (cases "find p rs") (auto simp: find_None_iff)
  moreover from this have "x \<in> set rs" "p x" by (auto simp: find_Some_iff)
  ultimately show ?thesis by blast
qed

definition shown :: "row \<Rightarrow> nat \<Rightarrow> ctx \<Rightarrow> bool" where
  "shown r i c \<longleftrightarrow> (\<forall>k. k \<noteq> ''created_at'' \<longrightarrow> get_attr (snd c) i k = field r k)"

lemma own_found:
  assumes "unique_ids (T ''payment_methods'')" "row_at (T ''payment_methods'') pid = Some r"
    "py_eq (field r ''user_id'') (CInt (lo_user u))"
  shows "triple (calm T) (own_method e u pid) (\<lambda>i c. shown r i c \<and> calm_at T i c) E"
proof -
  let ?cs = "[Compare ''id'' OpEq (CInt pid), Compare ''user_id'' OpEq (CInt (lo_user u))]"
  let ?p = "\<lambda>x. py_eq (field x ''id'') (CInt pid) \<and> py_eq (field x ''user_id'') (CInt (lo_user u))"
  have r: "field r ''id'' = CInt pid" using row_at_Some [OF assms(2)] by blast
  then have key: "has_key r ''id''" by (auto simp: field_def dget_or_def has_key_def split: option.splits)
  have f: "find (\<lambda>x. list_all (\<lambda>c. the (eq_clause c) x) ?cs) (T ''payment_methods'') = Some r"
    using find_only [OF assms(1,2), of ?p] assms(3) r by (simp add: eq_holds_def)
  show ?thesis
  proof -
    have run: "\<exists>i c'. own_method e u pid c = (Ok i, c') \<and> shown r i c' \<and> calm_at T i c'" if c: "calm T c" for c
    proof -
      obtain i c' where l: "load e ''PaymentMethod'' r c = (Ok i, c')" "calm_at T i c'"
        "\<forall>k. k \<noteq> ''created_at'' \<longrightarrow> get_attr (snd c') i k = field r k" by (rule load_calm [OF c key])
      have "st_tables (fst c) ''payment_methods'' = T ''payment_methods''" using c by (simp add: calm_def)
      then have "query_where e ''PaymentMethod'' ?cs c = (Ok (Some i), c')"
        using q_first_eq_query [of ?cs e "''PaymentMethod''" c] f l(1)
        by (simp add: query_where_def eq_query_forms load_option_def)
      then show ?thesis using l(2,3) by (simp add: own_method_def bind_act_def ret_def shown_def)
    qed
    show ?thesis by (rule tripleI; drule run) auto
  qed
qed

section \<open>The steps\<close>

lemma calm_set:
  "triple (\<lambda>c. calm_at T i c) (on_session (set_attr i k v)) (\<lambda>_. calm_at T i) E"
proof -
  have "set_attr i k v (snd c) = (Ok (), snd (set_attr i k v (snd c)))" if c: "calm_at T i c" for c
  proof -
    have "ob_class (ob (snd c) i) = ''BaseMemoryModel''"
      using c by (auto simp: calm_at_def calm_def base_only_def ob_def)
    then show ?thesis by (simp add: set_attr_def Let_def)
  qed
  moreover have "calm_at T i (fst c, snd (set_attr i k v (snd c)))" if "calm_at T i c" for c
    using that set_attr_objs [where se = "snd c" and i = i and k = k and v = v] by (simp add: calm_at_def calm_def)
  ultimately show ?thesis by (intro tripleI) (metis Inr_Inl_False old.prod.inject on_session_def Let_def case_prod_conv sum.inject(2))+
qed


lemma calm_set_if: "triple (\<lambda>c. calm_at T i c) (set_if i k v) (\<lambda>_. calm_at T i) E"
  by (cases v) (simp_all add: set_if_def calm_set triple_ret)

lemma calm_commit: "triple (\<lambda>c. calm_at T i c) (commit_act e) (\<lambda>_. calm_at T i) E"
proof -
  have "calm_at T i (commit e c)" if c: "calm_at T i c" for c
  proof -
    obtain st se where s: "c = (st, se)" by (cases c)
    have b: "base_only se" using c by (simp add: s calm_at_def calm_def)
    have "snd (commit e (st, se)) = clear_pending se" using b by (simp add: commit_def commit_adds_def base_only_def)
    then show ?thesis using c b commit_base [OF b, of e st]
      by (simp add: s calm_at_def calm_def base_only_def clear_pending_def)
  qed
  then show ?thesis by (intro tripleI) (simp_all add: commit_act_def, blast)
qed

lemma calm_refresh: "triple (\<lambda>c. calm_at T i c) (refresh_act i) (\<lambda>_. calm_at T i) E"
proof -
  have "refresh i c = snd c" if c: "calm_at T i c" for c
  proof -
    have "ob_class (ob (snd c) i) = ''BaseMemoryModel''" using c by (auto simp: calm_at_def calm_def base_only_def ob_def)
    then show ?thesis by (simp add: refresh_def Let_def has_key_def)
  qed
  then show ?thesis by (intro tripleI) (auto simp: refresh_act_def)
qed

lemma calm_remove: "triple (\<lambda>c. calm_at T i c) (on_session (\<lambda>se. (Ok (), se_delete i se))) (\<lambda>_. calm_at T i) E"
  by (intro tripleI) (auto simp: on_session_def calm_at_def calm_def base_only_def se_delete_def)

section \<open>Bulk updates\<close>

definition cleared :: "(row \<Rightarrow> bool) \<Rightarrow> row list \<Rightarrow> row list" where
  "cleared p rs = map (\<lambda>r. if p r then dset ''is_default'' (CBool False) r else r) rs"

lemma cleared_id [simp]: "map (\<lambda>r. field r ''id'') (cleared p rs) = map (\<lambda>r. field r ''id'') rs"
  by (simp add: cleared_def comp_def field_def)

lemma unique_cleared: "unique_ids rs \<Longrightarrow> unique_ids (cleared p rs)"
proof -
  assume "unique_ids rs"
  moreover have "ids_ok xs \<longleftrightarrow> (\<forall>v \<in> set (map (\<lambda>r. field r ''id'') xs). \<exists>n. v = CInt n)" for xs by (simp add: ids_ok_def)
  ultimately show ?thesis unfolding unique_ids_def by (metis cleared_id)
qed

lemma update_one:
  assumes "unique_ids rs" "x \<in> set rs"
  shows "update_id [(''is_default'', v)] (field x ''id'') rs = map (\<lambda>r. if r = x then dset ''is_default'' v r else r) rs"
  using assms
proof (induction rs)
  case (Cons r rs)
  obtain m n where i: "field r ''id'' = CInt m" "field x ''id'' = CInt n" using Cons.prems by (auto simp: unique_ids_def ids_ok_def)
  have u: "unique_ids rs" using Cons.prems(1) by (simp add: unique_ids_def ids_ok_def)
  show ?case
  proof (cases "r = x")
    case True
    have "y \<noteq> x" if "y \<in> set rs" for y using Cons.prems(1) that True by (auto simp: unique_ids_def)
    then show ?thesis using True i by (simp add: set_fields_def map_idI)
  next
    case False
    then have "x \<in> set rs" using Cons.prems(2) by simp
    then have "field r ''id'' \<noteq> field x ''id''" using Cons.prems(1) by (force simp: unique_ids_def)
    then show ?thesis using False i Cons.IH [OF u \<open>x \<in> set rs\<close>] by simp
  qed
qed simp

lemma update_all:
  assumes "unique_ids rs" "distinct xs" "set xs \<subseteq> set rs"
  shows "fold (\<lambda>x. update_id [(''is_default'', v)] (field x ''id'')) xs rs =
    map (\<lambda>r. if r \<in> set xs then dset ''is_default'' v r else r) rs"
  using assms(2,3)
proof (induction xs rule: rev_induct)
  case (snoc x xs)
  let ?rs = "map (\<lambda>r. if r \<in> set xs then dset ''is_default'' v r else r) rs"
  have ids: "map (\<lambda>r. field r ''id'') ?rs = map (\<lambda>r. field r ''id'') rs" by (simp add: comp_def field_def)
  have u: "unique_ids ?rs" using assms(1) ids unfolding unique_ids_def ids_ok_def by (metis (no_types, lifting) image_eqI list.set_map imageE)
  have x: "x \<in> set ?rs" "x \<notin> set xs" using snoc.prems by (auto intro!: image_eqI [of x])
  have "r = x" if r: "r \<in> set rs" "r \<in> set xs" "dset ''is_default'' v r = x" for r
  proof -
    have "field r ''id'' = field x ''id''" using r(3) by (auto simp: field_def)
    then show ?thesis using assms(1) r(1) snoc.prems by (auto simp: unique_ids_def distinct_map dest: inj_onD)
  qed
  then have "map (\<lambda>r. if r = x then dset ''is_default'' v r else r) ?rs =
      map (\<lambda>r. if r \<in> set (xs @ [x]) then dset ''is_default'' v r else r) rs"
    using x(2) by (auto simp: comp_def dset_twice)
  then show ?case using snoc update_one [OF u x(1), of v] by simp
qed simp

lemma unset_effect:
  assumes "unique_ids (st_tables st ''payment_methods'')"
    and "each_r (apply_clause st ''PaymentMethod'' (st_tables st ''payment_methods'')) (cs @ [OtherC]) (st_tables st ''payment_methods'') =
      Ok (filter p (st_tables st ''payment_methods''))"
  shows "unset_defaults cs (st, se) = (Ok (), (put_table ''payment_methods'' (cleared p (st_tables st ''payment_methods'')) st, se))"
proof -
  let ?rs = "st_tables st ''payment_methods''"
  have "distinct ?rs" using assms(1) by (auto simp: unique_ids_def distinct_map)
  then have "fold (\<lambda>x. update_id [(''is_default'', CBool False)] (field x ''id'')) (filter p ?rs) ?rs = cleared p ?rs"
    using update_all [OF assms(1), of "filter p ?rs" "CBool False"] by (simp add: cleared_def cong: map_cong)
  then show ?thesis using assms(2)
    by (simp add: unset_defaults_def update_where_def update_q_def matching_def apply_filters_def filter_q_def new_query_def
        infer_model_def put_rows_def)
qed


section \<open>Changing, deleting, verifying\<close>

definition owned_method :: "store \<Rightarrow> login \<Rightarrow> int \<Rightarrow> row \<Rightarrow> bool" where
  "owned_method st u pid r \<longleftrightarrow> unique_ids (st_tables st ''payment_methods'') \<and>
     row_at (st_tables st ''payment_methods'') pid = Some r \<and> field r ''user_id'' = CInt (lo_user u)"

lemma own_triple: "owned_method st u pid r \<Longrightarrow>
    triple (calm (st_tables st)) (own_method e u pid) (\<lambda>i c. shown r i c \<and> calm_at (st_tables st) i c) E"
  by (rule own_found) (auto simp: owned_method_def)

lemma triple_shown:
  assumes "\<And>v. v = field r k \<Longrightarrow> triple (\<lambda>c. shown r i c \<and> calm_at T i c) (g v) Q E" "k \<noteq> ''created_at''"
  shows "triple (\<lambda>c. shown r i c \<and> calm_at T i c) (bind_act (attr i k) g) Q E"
proof (rule triple_bind)
  show "triple (\<lambda>c. shown r i c \<and> calm_at T i c) (attr i k) (\<lambda>v c. v = field r k \<and> shown r i c \<and> calm_at T i c) E"
    using assms(2) by (intro tripleI) (auto simp: attr_def shown_def)
  show "triple (\<lambda>c. v = field r k \<and> shown r i c \<and> calm_at T i c) (g v) Q E" for v
    by (rule triple_fact) (rule assms(1))
qed

lemma verify_triple:
  assumes "owned_method st u pid r" "field r ''type'' = CStr ''bank_account''" "field r ''status'' = CStr s" "s \<noteq> ''active''"
  shows "triple (calm (st_tables st)) (verify_payment_method e u pid)
    (\<lambda>m c. m = verified_message \<and> calm (st_tables st) c) (\<lambda>_ _. False)"
  unfolding verify_payment_method_def
proof (rule triple_bind [OF own_triple [OF assms(1)]], intro triple_shown)
  fix i t s' assume v: "t = field r ''type''" "s' = field r ''status''"
  have "triple (\<lambda>c. shown r i c \<and> calm_at (st_tables st) i c)
     (then_act (on_session (set_attr i ''status'' (CStr ''active'')))
       (then_act (on_session (set_attr i ''verified_at'' (CTime True (clock e 100))))
       (then_act (commit_act (later 101 e)) (ret verified_message))))
     (\<lambda>m c. m = verified_message \<and> calm (st_tables st) c) (\<lambda>_ _. False)"
    by (rule triple_pre [OF triple_then [OF calm_set triple_then [OF calm_set triple_then [OF calm_commit triple_ret]]]])
      (auto simp: calm_at_def)
  then show "triple (\<lambda>c. shown r i c \<and> calm_at (st_tables st) i c)
     (if \<not> py_eq t (CStr ''bank_account'') then throw (HTTPException 400 ''Only bank accounts need verification'')
      else if py_eq s' (CStr ''active'') then throw (HTTPException 400 ''Payment method already verified'')
      else then_act (on_session (set_attr i ''status'' (CStr ''active'')))
       (then_act (on_session (set_attr i ''verified_at'' (CTime True (clock e 100))))
       (then_act (commit_act (later 101 e)) (ret verified_message))))
     (\<lambda>m c. m = verified_message \<and> calm (st_tables st) c) (\<lambda>_ _. False)"
    using v assms(2-4) by simp
qed simp_all

lemma triple_count: "triple P (count_where m cs) (\<lambda>_. P) (\<lambda>_. P)"
  by (intro tripleI) (auto simp: count_where_def)

lemma delete_triple:
  assumes "owned_method st u pid r"
  shows "triple (calm (st_tables st)) (delete_payment_method e u seeded pid) (\<lambda>_ _. False) (\<lambda>_. calm (st_tables st))"
  unfolding delete_payment_method_def
proof (rule triple_bind [OF own_triple [OF assms]], intro triple_shown, rule triple_bind)
  fix i d
  let ?P = "\<lambda>c. calm_at (st_tables st) i c"
  let ?cs = "[Compare ''user_id'' OpEq (CInt (lo_user u)), Compare ''id'' OpNe (CInt pid)]"
  have "triple ?P (if cell_true d then count_where ''PaymentMethod'' ?cs else ret 0) (\<lambda>_. ?P) (\<lambda>_. calm (st_tables st))"
    by (intro triple_if triple_post [OF triple_count [of ?P]] triple_ret) (auto simp: calm_at_def)
  then show "triple (\<lambda>c. shown r i c \<and> calm_at (st_tables st) i c) (if cell_true d then count_where ''PaymentMethod'' ?cs else ret 0)
      (\<lambda>_. ?P) (\<lambda>_. calm (st_tables st))" by (rule triple_pre) simp
  show "triple ?P
     (if 0 < n then throw (HTTPException 400 ''Cannot delete default payment method. Set another as default first.'')
      else if seeded then throw no_value
      else then_act (on_session (\<lambda>se. (Ok (), se_delete i se)))
        (then_act (commit_act (later 100 e)) (throw (no_event ''PAYMENT_METHOD_REMOVED''))))
     (\<lambda>_ _. False) (\<lambda>_. calm (st_tables st))" for n :: nat
    by (intro triple_if triple_throw triple_then [OF calm_remove] triple_then [OF calm_commit]) (simp_all add: calm_at_def)
qed simp

text \<open>The other methods of the user, which lose their mark.\<close>

definition others_of :: "login \<Rightarrow> int \<Rightarrow> row \<Rightarrow> bool" where
  "others_of u pid r \<longleftrightarrow> py_eq (field r ''user_id'') (CInt (lo_user u)) \<and> \<not> py_eq (field r ''id'') (CInt pid)"

definition after_update :: "store \<Rightarrow> login \<Rightarrow> int \<Rightarrow> method_update \<Rightarrow> string \<Rightarrow> row list" where
  "after_update st u pid q =
     (if mu_default q = Some True
      then (st_tables st)(''payment_methods'' := cleared (others_of u pid) (st_tables st ''payment_methods'')) else st_tables st)"

lemma unset_calm:
  assumes "unique_ids (T ''payment_methods'')"
  shows "triple (\<lambda>c. calm_at T i c) (unset_defaults [Compare ''user_id'' OpEq (CInt (lo_user u)), Compare ''id'' OpNe (CInt pid)])
    (\<lambda>_. calm_at (T(''payment_methods'' := cleared (others_of u pid) (T ''payment_methods''))) i) E"
proof -
  let ?cs = "[Compare ''user_id'' OpEq (CInt (lo_user u)), Compare ''id'' OpNe (CInt pid)]"
  have "unset_defaults ?cs c = (Ok (), (put_table ''payment_methods'' (cleared (others_of u pid) (T ''payment_methods'')) (fst c), snd c))"
    if c: "calm_at T i c" for c
  proof -
    have t: "st_tables (fst c) = T" using c by (simp add: calm_at_def calm_def)
    have "keep (compare_holds ''PaymentMethod'' ''user_id'' OpEq (CInt (lo_user u))) rs =
        Ok (filter (\<lambda>r. py_eq (field r ''user_id'') (CInt (lo_user u))) rs)"
      "keep (compare_holds ''PaymentMethod'' ''id'' OpNe (CInt pid)) rs = Ok (filter (\<lambda>r. \<not> py_eq (field r ''id'') (CInt pid)) rs)" for rs
      by (auto intro!: keep_total simp: compare_holds_def eq_holds_def)
    then have "each_r (apply_clause (fst c) ''PaymentMethod'' (T ''payment_methods'')) (?cs @ [OtherC]) (T ''payment_methods'') =
        Ok (filter (others_of u pid) (T ''payment_methods''))"
      by (simp add: others_of_def [abs_def] conj_commute)
    then show ?thesis using unset_effect [of "fst c" ?cs "others_of u pid" "snd c"] assms t by simp
  qed
  then show ?thesis by (intro tripleI) (auto simp: calm_at_def calm_def put_table_def)
qed

lemma update_triple:
  assumes "owned_method st u pid r"
  shows "triple (calm (st_tables st)) (update_payment_method e u pid q) (\<lambda>_. calm (after_update st u pid q)) (\<lambda>_ _. False)"
  unfolding update_payment_method_def
proof (rule triple_bind [OF own_triple [OF assms]])
  fix i
  let ?T = "st_tables st" and ?A = "after_update st u pid q"
  have unique: "unique_ids (?T ''payment_methods'')" using assms by (simp add: owned_method_def)
  have d: "triple (\<lambda>c. calm_at ?T i c)
     (case mu_default q of
        None \<Rightarrow> ret ()
      | Some b \<Rightarrow>
          then_act (if b then unset_defaults [Compare ''user_id'' OpEq (CInt (lo_user u)), Compare ''id'' OpNe (CInt pid)] else ret ())
            (on_session (set_attr i ''is_default'' (CBool b)))) (\<lambda>_. calm_at ?A i) (\<lambda>_ _. False)"
  proof (cases "mu_default q")
    case None
    then show ?thesis by (simp add: after_update_def triple_ret)
  next
    case (Some b)
    show ?thesis
    proof (cases b)
      case True
      then show ?thesis using Some triple_then [OF unset_calm [where T = ?T, OF unique] calm_set] by (simp add: after_update_def)
    next
      case False
      have "triple (\<lambda>c. calm_at ?T i c) (then_act (ret ()) (on_session (set_attr i ''is_default'' (CBool b)))) (\<lambda>_. calm_at ?T i) (\<lambda>_ _. False)"
        by (rule triple_then [OF triple_ret calm_set])
      then show ?thesis using Some False by (simp add: after_update_def)
    qed
  qed
  have "triple (\<lambda>c. calm_at ?A i c) (then_act (on_session (set_attr i ''updated_at'' (CTime True (clock e 100))))
      (then_act (commit_act (later 101 e)) (then_act (refresh_act i) (ret i)))) (\<lambda>_. calm ?A) (\<lambda>_ _. False)"
    by (intro triple_then [OF calm_set] triple_then [OF calm_commit] triple_then [OF calm_refresh] triple_ret) (simp add: calm_at_def)
  then show "triple (\<lambda>c. shown r i c \<and> calm_at ?T i c)
     (then_act (set_if i ''nickname'' (mu_nickname q))
     (then_act (set_if i ''billing_zip'' (mu_zip q))
     (then_act
       (case mu_default q of
          None \<Rightarrow> ret ()
        | Some b \<Rightarrow>
            then_act (if b then unset_defaults [Compare ''user_id'' OpEq (CInt (lo_user u)), Compare ''id'' OpNe (CInt pid)] else ret ())
              (on_session (set_attr i ''is_default'' (CBool b))))
     (then_act (on_session (set_attr i ''updated_at'' (CTime True (clock e 100))))
     (then_act (commit_act (later 101 e)) (then_act (refresh_act i) (ret i))))))) (\<lambda>_. calm ?A) (\<lambda>_ _. False)"
    by (intro triple_pre [OF triple_then [OF calm_set_if triple_then [OF calm_set_if triple_then [OF d]]]]) simp_all
qed

text \<open>C8: On a method of the user, with unique identifiers: verifying a pending bank account and changing a method
  answer with success and deleting always raises, but none of them changes the method: the tables stay as they were, except that
  choosing a new default method clears the mark of all other methods of the user, so that afterwards there may be no default method.\<close>

theorem method_edits_lost:
  assumes "owned_method st u pid r"
  shows "(\<exists>err c'. delete_payment_method e u seeded pid (st, new_session) = (Err err, c') \<and> st_tables (fst c') = st_tables st) \<and>
    (field r ''type'' = CStr ''bank_account'' \<and> field r ''status'' = CStr ''pending_verification'' \<longrightarrow>
      (\<exists>c'. verify_payment_method e u pid (st, new_session) = (Ok verified_message, c') \<and> st_tables (fst c') = st_tables st)) \<and>
    (\<exists>i c'. update_payment_method e u pid q (st, new_session) = (Ok i, c') \<and> st_tables (fst c') =
      (if mu_default q = Some True
       then (st_tables st)(''payment_methods'' := cleared (others_of u pid) (st_tables st ''payment_methods'')) else st_tables st))"
proof (intro conjI impI)
  show "\<exists>err c'. delete_payment_method e u seeded pid (st, new_session) = (Err err, c') \<and> st_tables (fst c') = st_tables st"
    using triple_raises [OF delete_triple [OF assms] calm_new] by (simp add: calm_def) blast
next
  assume "field r ''type'' = CStr ''bank_account'' \<and> field r ''status'' = CStr ''pending_verification''"
  then have t: "triple (calm (st_tables st)) (verify_payment_method e u pid)
    (\<lambda>m c. m = verified_message \<and> calm (st_tables st) c) (\<lambda>_ _. False)" by (intro verify_triple [OF assms]) auto
  show "\<exists>c'. verify_payment_method e u pid (st, new_session) = (Ok verified_message, c') \<and> st_tables (fst c') = st_tables st"
    using triple_succeeds [OF t calm_new] by (simp add: calm_def) blast
next
  show "\<exists>i c'. update_payment_method e u pid q (st, new_session) = (Ok i, c') \<and> st_tables (fst c') =
      (if mu_default q = Some True
       then (st_tables st)(''payment_methods'' := cleared (others_of u pid) (st_tables st ''payment_methods'')) else st_tables st)"
    using triple_succeeds [OF update_triple [OF assms] calm_new] by (simp only: calm_def after_update_def) blast
qed


text \<open>A default card and a bank account that waits to be verified.\<close>

definition two_methods :: store where
  "two_methods = (empty_store_of (\<lambda>t. if t = ''payment_methods''
     then [[(''id'', CInt 1), (''user_id'', CInt 7), (''type'', CStr ''credit_card''), (''is_default'', CBool True), (''status'', CStr ''active'')],
           [(''id'', CInt 2), (''user_id'', CInt 7), (''type'', CStr ''bank_account''), (''is_default'', CBool False),
            (''status'', CStr ''pending_verification'')]] else []))\<lparr>st_ready := True\<rparr>"

theorem method_edits_lost_witness:
  "(\<exists>c'. verify_payment_method env0 \<lparr>lo_user = 7, lo_name = ''ann''\<rparr> 2 (two_methods, new_session) = (Ok verified_message, c') \<and>
      st_tables (fst c') = st_tables two_methods) \<and>
   (\<exists>i c'. update_payment_method env0 \<lparr>lo_user = 7, lo_name = ''ann''\<rparr> 2 \<lparr>mu_nickname = None, mu_default = Some True, mu_zip = None\<rparr>
      (two_methods, new_session) = (Ok i, c') \<and>
      map (\<lambda>r. field r ''is_default'') (st_tables (fst c') ''payment_methods'') = [CBool False, CBool False])"
proof -
  let ?u = "\<lparr>lo_user = 7, lo_name = ''ann''\<rparr>" and ?q = "\<lparr>mu_nickname = None, mu_default = Some True, mu_zip = None\<rparr>"
  let ?r = "[(''id'', CInt 2), (''user_id'', CInt 7), (''type'', CStr ''bank_account''), (''is_default'', CBool False),
     (''status'', CStr ''pending_verification'')]"
  have "owned_method two_methods ?u 2 ?r"
    by (simp add: owned_method_def two_methods_def empty_store_of_def unique_ids_def ids_ok_def field_def dget_or_def)
  note lost = method_edits_lost [OF this, of env0 False ?q]
  have "field ?r ''type'' = CStr ''bank_account'' \<and> field ?r ''status'' = CStr ''pending_verification''"
    by (simp add: field_def dget_or_def)
  with lost have v: "\<exists>c'. verify_payment_method env0 ?u 2 (two_methods, new_session) = (Ok verified_message, c') \<and>
      st_tables (fst c') = st_tables two_methods" by blast
  have "map (\<lambda>r. field r ''is_default'') (cleared (others_of ?u 2) (st_tables two_methods ''payment_methods'')) = [CBool False, CBool False]"
    by (simp add: two_methods_def empty_store_of_def cleared_def others_of_def field_def dget_or_def)
  moreover obtain i c' where "update_payment_method env0 ?u 2 ?q (two_methods, new_session) = (Ok i, c')"
    "st_tables (fst c') = (if mu_default ?q = Some True
       then (st_tables two_methods)(''payment_methods'' := cleared (others_of ?u 2) (st_tables two_methods ''payment_methods''))
       else st_tables two_methods)" using lost by blast
  ultimately show ?thesis using v by fastforce
qed

section \<open>Adding\<close>

definition of_user :: "login \<Rightarrow> row \<Rightarrow> bool" where
  "of_user u r \<longleftrightarrow> py_eq (field r ''user_id'') (CInt (lo_user u))"

lemma max_cleared [simp]: "max_id (cleared p rs) = max_id rs"
proof -
  have "int_ids (cleared p rs) = int_ids rs"
    by (induction rs) (simp_all add: int_ids_def cleared_def List.map_filter_simps field_def split: option.split)
  then show ?thesis by (simp add: max_id_def)
qed

lemma method_made:
  assumes "\<not> has_key kw ''id''" "has_key kw ''status''" "has_key kw ''is_default''"
  obtains d st' where "new_object e ''PaymentMethod'' kw st = (Ok d, st')" "st_tables st' = st_tables st"
    "\<forall>k. k \<notin> {''id'', ''created_at''} \<longrightarrow> dget d k = dget kw k"
proof -
  obtain d st' where b: "base_init e ''PaymentMethod'' kw st = (d, st')" by fastforce
  have keep: "\<forall>k. k \<notin> {''id'', ''created_at''} \<longrightarrow> dget d k = dget kw k" using base_init_tables(3) [OF b] by blast
  have "steps_of ''PaymentMethod'' = [Default ''status'' (CStr ''active''), Default ''is_default'' (CBool False)]" by code_simp
  moreover have "has_key d ''status''" "has_key d ''is_default''" using keep assms by (simp_all add: has_key_def)
  ultimately have "new_object e ''PaymentMethod'' kw st = (Ok d, st')" by (simp add: new_object_def b)
  then show thesis using that keep base_init_tables(1) [OF b] by blast
qed

lemma method_target: "target_table ''PaymentMethod'' d = Some ''payment_methods''"
proof -
  have "dget tablenames ''PaymentMethod'' = Some ''payment_methods''" "dget table_map ''payment_methods'' = Some ''payment_methods''"
    by code_simp+
  then show ?thesis by (simp add: target_table_def)
qed

text \<open>The table after a method is stored.\<close>

definition with_method :: "login \<Rightarrow> bool \<Rightarrow> row list \<Rightarrow> row \<Rightarrow> row list" where
  "with_method u dflt rs d = (if dflt then cleared (of_user u) rs else rs) @ [d]"

lemma store_effect:
  assumes "unique_ids (st_tables st ''payment_methods'')" "\<not> has_key kw ''id''" "has_key kw ''status''" "has_key kw ''is_default''"
  shows "\<exists>i c' d. store_method e (lo_user u) dflt kw (st, new_session) = (Ok i, c') \<and>
    st_tables (fst c') = (st_tables st)(''payment_methods'' := with_method u dflt (st_tables st ''payment_methods'') d) \<and>
    field d ''id'' = CInt (max_id (st_tables st ''payment_methods'') + 1) \<and>
    (\<forall>k. k \<notin> {''id'', ''created_at''} \<longrightarrow> dget d k = dget kw k)"
proof -
  let ?rs = "st_tables st ''payment_methods''"
  obtain d st1 where d: "new_object e ''PaymentMethod'' kw st = (Ok d, st1)" "st_tables st1 = st_tables st"
    "\<forall>k. k \<notin> {''id'', ''created_at''} \<longrightarrow> dget d k = dget kw k" by (rule method_made [OF assms(2-4)])
  let ?se = "new_session\<lparr>se_objs := [\<lparr>ob_class = ''PaymentMethod'', ob_data = d, ob_orig = None\<rparr>]\<rparr>"
  let ?rs2 = "if dflt then cleared (of_user u) ?rs else ?rs"
  let ?d = "dset ''id'' (CInt (max_id ?rs + 1)) d"
  have make: "make_obj e ''PaymentMethod'' kw (st, new_session) = (Ok 0, (st1, ?se))"
    by (simp add: make_obj_def d(1) new_session_def)
  have "keep (compare_holds ''PaymentMethod'' ''user_id'' OpEq (CInt (lo_user u))) ?rs = Ok (filter (of_user u) ?rs)"
    by (auto intro!: keep_total simp: compare_holds_def eq_holds_def of_user_def)
  then have "each_r (apply_clause st1 ''PaymentMethod'' ?rs) ([Compare ''user_id'' OpEq (CInt (lo_user u))] @ [OtherC]) ?rs =
      Ok (filter (of_user u) ?rs)" by simp
  from unset_effect [of st1 "[Compare ''user_id'' OpEq (CInt (lo_user u))]" "of_user u" ?se]
  have unset: "(if dflt then unset_defaults [Compare ''user_id'' OpEq (CInt (lo_user u))] else ret ()) (st1, ?se) =
      (Ok (), (if dflt then put_table ''payment_methods'' ?rs2 st1 else st1, ?se))"
    using assms(1) d(2) \<open>each_r _ _ _ = _\<close> by (simp add: ret_def)
  let ?st2 = "if dflt then put_table ''payment_methods'' ?rs2 st1 else st1"
  have t2: "st_tables ?st2 = (st_tables st)(''payment_methods'' := ?rs2)" using d(2) by (auto simp: put_table_def)
  have commit: "commit (later 100 e) (?st2, se_add 0 ?se) =
      (put_table ''payment_methods'' (?rs2 @ [?d]) ?st2, clear_pending (put_data 0 ?d (se_add 0 ?se)))"
    by (cases dflt) (simp_all add: commit_def commit_adds_def commit_add_def se_add_def ob_def new_session_def add_to_store_def
        method_target commit_updates_def commit_deletes_def put_data_def Let_def d(2))
  have "store_method e (lo_user u) dflt kw (st, new_session) =
      (Ok 0, (put_table ''payment_methods'' (?rs2 @ [?d]) ?st2, refresh 0 (commit (later 100 e) (?st2, se_add 0 ?se))))"
    unfolding store_method_def bind_act_def make by (simp add: then_act_def bind_act_def unset add_act_def on_session_def commit_act_def
        refresh_act_def ret_def commit split del: if_split)
  moreover have "st_tables (put_table ''payment_methods'' (?rs2 @ [?d]) ?st2) =
      (st_tables st)(''payment_methods'' := with_method u dflt ?rs ?d)"
    unfolding put_table_def by (simp add: with_method_def d(2))
  ultimately show ?thesis using d(3)
    by (intro exI [of _ 0] exI [of _ "(put_table ''payment_methods'' (?rs2 @ [?d]) ?st2, refresh 0 (commit (later 100 e) (?st2, se_add 0 ?se)))"]
        exI [of _ ?d]) (simp add: field_def)
qed


definition card_query :: "login \<Rightarrow> method_card \<Rightarrow> row \<Rightarrow> bool" where
  "card_query u q r \<longleftrightarrow> of_user u r \<and> field r ''card_last_four'' = CStr (mask_card_number (mc_number q)) \<and>
     cell_in (field r ''type'') [CStr ''credit_card'', CStr ''debit_card'']"

lemma card_lookup:
  "query_where e ''PaymentMethod'' [Compare ''user_id'' OpEq (CInt (lo_user u)),
      Compare ''card_last_four'' OpEq (CStr (mask_card_number (mc_number q))),
      InList ''type'' [CStr ''credit_card'', CStr ''debit_card'']] c =
    load_option e ''PaymentMethod'' (find (card_query u q) (st_tables (fst c) ''payment_methods'')) c"
proof -
  let ?rs = "st_tables (fst c) ''payment_methods''"
  have k: "keep (compare_holds ''PaymentMethod'' ''user_id'' OpEq (CInt (lo_user u))) rs = Ok (filter (of_user u) rs)"
    "keep (compare_holds ''PaymentMethod'' ''card_last_four'' OpEq (CStr (mask_card_number (mc_number q)))) rs =
      Ok (filter (\<lambda>r. field r ''card_last_four'' = CStr (mask_card_number (mc_number q))) rs)" for rs
    by (auto intro!: keep_total simp: compare_holds_def eq_holds_def of_user_def)
  have h: "(case filter p xs of [] \<Rightarrow> None | r # _ \<Rightarrow> Some r) = find p xs" for p and xs :: "row list"
    by (induction xs) auto
  show ?thesis
    by (simp add: query_where_def q_first_def first_row_def ordered_rows_def matching_def apply_filters_def filter_q_def new_query_def
        infer_model_def apply_ordering_def sliced_def k conj_ac h [symmetric] card_query_def [abs_def])
qed

text \<open>C7: Adding a valid card that has the type of a card and new last four digits stores it: one row more, with the next
  identifier and the data of the request but not the number itself, and if it is to be the default every other method of
  the user loses the mark. Then the endpoint raises, because the event it logs does not exist; the client that tries again is
  told that the card is already added.\<close>

theorem card_stored_then_fails:
  assumes "unique_ids (st_tables st ''payment_methods'')" "validate_card_number (mc_number q) = Ok True"
    and "\<forall>r \<in> set (st_tables st ''payment_methods''). of_user u r \<longrightarrow> field r ''card_last_four'' \<noteq> CStr (mask_card_number (mc_number q))"
    and "mc_type q \<in> {''credit_card'', ''debit_card''}"
  shows "\<exists>c' d. add_card e u q (st, new_session) = (Err (no_event ''PAYMENT_METHOD_ADDED''), c') \<and>
    st_tables (fst c') = (st_tables st)(''payment_methods'' := with_method u (mc_default q) (st_tables st ''payment_methods'') d) \<and>
    field d ''id'' = CInt (max_id (st_tables st ''payment_methods'') + 1) \<and>
    (\<forall>k. k \<notin> {''id'', ''created_at''} \<longrightarrow> dget d k = dget (card_method_row (lo_user u) q) k) \<and>
    fst (add_card e' u q (fst c', new_session)) = Err (HTTPException 400 ''This card is already added'')"
proof -
  let ?rs = "st_tables st ''payment_methods''" and ?kw = "card_method_row (lo_user u) q"
  have "find (card_query u q) ?rs = None" using assms(3) by (auto simp: find_None_iff card_query_def)
  then have none: "query_where e ''PaymentMethod'' [Compare ''user_id'' OpEq (CInt (lo_user u)),
      Compare ''card_last_four'' OpEq (CStr (mask_card_number (mc_number q))),
      InList ''type'' [CStr ''credit_card'', CStr ''debit_card'']] (st, new_session) = (Ok None, (st, new_session))"
    by (simp add: card_lookup load_option_def)
  have keys: "\<not> has_key ?kw ''id''" "has_key ?kw ''status''" "has_key ?kw ''is_default''"
    by (simp_all add: card_method_row_def has_key_def)
  obtain i c' d where s: "store_method (later 100 e) (lo_user u) (mc_default q) ?kw (st, new_session) = (Ok i, c')"
    "st_tables (fst c') = (st_tables st)(''payment_methods'' := with_method u (mc_default q) ?rs d)"
    "field d ''id'' = CInt (max_id ?rs + 1)" "\<forall>k. k \<notin> {''id'', ''created_at''} \<longrightarrow> dget d k = dget ?kw k"
    using store_effect [OF assms(1) keys, where e = "later 100 e" and u = u and dflt = "mc_default q"]
    by (elim exE conjE) (rule that)
  have run: "add_card e u q (st, new_session) = (Err (no_event ''PAYMENT_METHOD_ADDED''), c')"
    using assms(2) none s(1) by (simp add: add_card_def bind_act_def throw_def)
  have f: "field d ''user_id'' = CInt (lo_user u)" "field d ''card_last_four'' = CStr (mask_card_number (mc_number q))"
    "field d ''type'' = CStr (mc_type q)" using s(4) by (simp_all add: field_def dget_or_def card_method_row_def)
  have "cell_in (field d ''type'') [CStr ''credit_card'', CStr ''debit_card'']" using assms(4) f(3) by (auto simp: cell_in_def)
  moreover have "of_user u d" by (simp add: of_user_def f(1))
  ultimately have "card_query u q d" by (simp add: card_query_def f(2))
  moreover have "d \<in> set (with_method u (mc_default q) ?rs d)" by (simp add: with_method_def)
  ultimately have "find (card_query u q) (with_method u (mc_default q) ?rs d) \<noteq> None" unfolding find_None_iff by blast
  then obtain r where f': "find (card_query u q) (with_method u (mc_default q) ?rs d) = Some r" by blast
  then have r: "find (card_query u q) (st_tables (fst c') ''payment_methods'') = Some r" "r \<in> set (with_method u (mc_default q) ?rs d)"
    unfolding s(2) by (simp_all only: fun_upd_same) (metis find_Some_iff nth_mem)
  have ids: "has_key x ''id''" if x: "x \<in> set (with_method u (mc_default q) ?rs d)" for x
  proof -
    have "ids_ok (if mc_default q then cleared (of_user u) ?rs else ?rs)"
      using assms(1) unique_cleared [of ?rs "of_user u"] by (auto simp: unique_ids_def)
    then have "\<exists>n. field x ''id'' = CInt n" using x s(3) by (auto simp: with_method_def ids_ok_def)
    then show ?thesis by (auto simp: field_def dget_or_def has_key_def split: option.splits)
  qed
  have "calm (st_tables (fst c')) (fst c', new_session)" by (rule calm_new)
  then obtain j c2 where l: "load e' ''PaymentMethod'' r (fst c', new_session) = (Ok j, c2)" by (rule load_calm [OF _ ids [OF r(2)]])
  have "fst (add_card e' u q (fst c', new_session)) = Err (HTTPException 400 ''This card is already added'')"
    using assms(2) by (simp add: add_card_def bind_act_def card_lookup r(1) load_option_def l throw_def)
  with run s(2-4) show ?thesis by blast
qed

theorem card_stored_then_fails_witness:
  "\<exists>c'. add_card env0 \<lparr>lo_user = 7, lo_name = ''ann''\<rparr> \<lparr>mc_type = ''credit_card'', mc_nickname = None, mc_default = True,
      mc_number = ''4111111111111111'', mc_month = 1, mc_year = 2030, mc_zip = ''12345''\<rparr> (two_methods, new_session) =
     (Err (no_event ''PAYMENT_METHOD_ADDED''), c') \<and>
   map (\<lambda>r. field r ''id'') (st_tables (fst c') ''payment_methods'') = [CInt 1, CInt 2, CInt 3] \<and>
   map (\<lambda>r. field r ''is_default'') (st_tables (fst c') ''payment_methods'') = [CBool False, CBool False, CBool True]"
proof -
  let ?u = "\<lparr>lo_user = 7, lo_name = ''ann''\<rparr>"
  let ?q = "\<lparr>mc_type = ''credit_card'', mc_nickname = None, mc_default = True,
      mc_number = ''4111111111111111'', mc_month = 1, mc_year = 2030, mc_zip = ''12345''\<rparr>"
  let ?rs = "st_tables two_methods ''payment_methods''"
  have h: "unique_ids ?rs" "\<forall>r \<in> set ?rs. of_user ?u r \<longrightarrow> field r ''card_last_four'' \<noteq> CStr (mask_card_number (mc_number ?q))"
    "mc_type ?q \<in> {''credit_card'', ''debit_card''}"
    by (simp_all add: two_methods_def empty_store_of_def unique_ids_def ids_ok_def field_def dget_or_def)
  have v: "validate_card_number (mc_number ?q) = Ok True" by code_simp
  obtain c' d where c': "add_card env0 ?u ?q (two_methods, new_session) = (Err (no_event ''PAYMENT_METHOD_ADDED''), c')"
    "st_tables (fst c') = (st_tables two_methods)(''payment_methods'' := with_method ?u (mc_default ?q) ?rs d)"
    "field d ''id'' = CInt (max_id ?rs + 1)"
    "\<forall>k. k \<notin> {''id'', ''created_at''} \<longrightarrow> dget d k = dget (card_method_row (lo_user ?u) ?q) k"
    using card_stored_then_fails [OF h(1) v h(2,3), of env0 env0] by blast
  have "field d ''is_default'' = CBool True" using c'(4) by (simp add: field_def dget_or_def card_method_row_def)
  moreover have "max_id ?rs = 2"
    by (simp add: two_methods_def empty_store_of_def max_id_def int_ids_def List.map_filter_simps field_def dget_or_def)
  moreover have "map (\<lambda>r. field r ''id'') (cleared (of_user ?u) ?rs) = [CInt 1, CInt 2]"
    "map (\<lambda>r. field r ''is_default'') (cleared (of_user ?u) ?rs) = [CBool False, CBool False]"
    by (simp_all add: two_methods_def empty_store_of_def cleared_def of_user_def field_def dget_or_def)
  ultimately show ?thesis using c' by (intro exI [of _ c']) (simp add: with_method_def)
qed

end
