(* ===== verification/Goals.thy ===== *)
theory Goals
  imports Transfers
begin

text \<open>
  Saving goals over a session of the memory store: the service that feeds them from the deposits on an account
  (\<open>backend/app/services/goal_update_service.py\<close>) and the endpoints (\<open>backend/app/routes/goals.py\<close>). An endpoint
  answers with the instances of its goals and their progress; the response that pydantic builds from them is not
  modelled.

  The theory Goals_Effect proves what a deposit does to the goals.
\<close>

section \<open>Access\<close>

text \<open>\<open>float(goal_data.get(k, 0))\<close>: the default only stands in for a missing key.\<close>

definition goal_number :: "nat \<Rightarrow> string \<Rightarrow> rat act" where
  "goal_number i k c = (py_float (dget_or (ob_data (ob (snd c) i)) k (CInt 0)), c)"

text \<open>Writing to the data of an instance beside its attributes.\<close>

definition put_value :: "nat \<Rightarrow> string \<Rightarrow> cell \<Rightarrow> unit act" where
  "put_value i k v = on_session (\<lambda>se. (Ok (), put_data i (dset k v (ob_data (ob se i))) se))"

definition active_goals :: "cell \<Rightarrow> clause list" where
  "active_goals aid = [Compare ''account_id'' OpEq aid, Compare ''status'' OpEq (CStr ''active'')]"

definition by_priority :: "env \<Rightarrow> clause list \<Rightarrow> nat list act" where
  "by_priority e cs c =
     q_all e (order_by [(''allocation_priority'', True)] (filter_q (fst c) cs (new_query ''Goal''))) c"

definition query_all_where :: "env \<Rightarrow> string \<Rightarrow> clause list \<Rightarrow> nat list act" where
  "query_all_where e m cs c = q_all e (filter_q (fst c) cs (new_query m)) c"

section \<open>Feeding the goals of an account\<close>

text \<open>The part of what remains of a deposit that goes to a goal.\<close>

definition allocation :: "rat \<Rightarrow> rat \<Rightarrow> rat \<Rightarrow> rat \<Rightarrow> rat \<Rightarrow> rat" where
  "allocation remaining current target percent fixed =
     (if 0 < percent then min (min (double (remaining * double (percent / 100))) remaining) (double (target - current))
      else if 0 < fixed then min (min fixed remaining) (double (target - current))
      else 0)"

definition contribution_row :: "env \<Rightarrow> row \<Rightarrow> cell \<Rightarrow> rat \<Rightarrow> row" where
  "contribution_row e td gid x =
     [(''goal_id'', gid), (''amount'', CFloat x),
      (''contribution_date'', let d = field td ''transaction_date'' in if cell_true d then d else CTime True (clock e 0)),
      (''notes'', CStr (''Automatic contribution from '' @
         (let d = field td ''description'' in if cell_true d then cell_str d else ''deposit''))),
      (''is_automatic'', CBool True), (''source_transaction_id'', field td ''id'')]"

definition contribute :: "env \<Rightarrow> row \<Rightarrow> nat \<Rightarrow> rat \<Rightarrow> rat \<Rightarrow> rat \<Rightarrow> nat act" where
  "contribute e td g current target x =
     bind_act (attr g ''id'') (\<lambda>gid.
     bind_act (make_obj (later 10 e) ''GoalContribution'' (contribution_row e td gid x)) (\<lambda>k.
     bind_act (\<lambda>c. (safe_add_money (CFloat current) (CFloat x), c)) (\<lambda>v.
     then_act (put_value g ''current_amount'' v)
     (then_act
       (if target \<le> to_float v
        then then_act (put_value g ''status'' (CStr ''completed'')) (put_value g ''completed_at'' (CTime True (clock e 1)))
        else ret ())
     (then_act (put_value g ''updated_at'' (CTime True (clock e 2))) (then_act (add_act k) (ret k)))))))"

fun allocate :: "env \<Rightarrow> row \<Rightarrow> nat list \<Rightarrow> rat \<Rightarrow> nat list act" where
  "allocate e td [] remaining = ret []"
| "allocate e td (g # gs) remaining =
     (if remaining \<le> 0 then ret []
      else bind_act (goal_number g ''current_amount'') (\<lambda>current. bind_act (goal_number g ''target_amount'') (\<lambda>target.
        if target \<le> current then allocate (later 200 e) td gs remaining
        else bind_act (goal_number g ''auto_allocate_percentage'') (\<lambda>percent.
          bind_act (goal_number g ''auto_allocate_fixed_amount'') (\<lambda>fixed.
            let x = allocation remaining current target percent fixed
            in if x \<le> 0 then allocate (later 200 e) td gs remaining
               else bind_act (contribute e td g current target x) (\<lambda>k.
                 bind_act (allocate (later 200 e) td gs (double (remaining - x))) (\<lambda>ks. ret (k # ks))))))))"

definition linked_goals :: "cell \<Rightarrow> cell \<Rightarrow> clause list" where
  "linked_goals aid uid = active_goals aid @ [Compare ''user_id'' OpEq uid]"

definition feed_goals :: "env \<Rightarrow> row \<Rightarrow> nat list \<Rightarrow> nat list act" where
  "feed_goals e td gs =
     (if gs = [] then ret []
      else bind_act (\<lambda>c. (py_float (dget_or td ''amount'' (CInt 0)), c)) (\<lambda>amount.
        bind_act (allocate e td gs amount) (\<lambda>ks.
          then_act (if ks = [] then ret () else commit_act (later 100000 e)) (ret ks))))"

definition process_transaction_for_goals :: "env \<Rightarrow> nat \<Rightarrow> nat list act" where
  "process_transaction_for_goals e t c =
     (let td = ob_data (ob (snd c) t)
      in if field td ''transaction_type'' \<noteq> CStr ''credit'' then ret []
         else if cell_true (field td ''from_account_id'') \<and> cell_true (field td ''to_account_id'') then ret []
         else bind_act (query_where e ''Account'' [Compare ''id'' OpEq (field td ''account_id'')]) (\<lambda>a.
           case a of
             None \<Rightarrow> ret []
           | Some i \<Rightarrow>
               bind_act (attr i ''id'') (\<lambda>aid. bind_act (attr i ''user_id'') (\<lambda>uid.
               bind_act (by_priority (later 100 e) (linked_goals aid uid)) (feed_goals (later 100000 e) td))))) c"

section \<open>Rules of allocation\<close>

record allocation_line =
  ln_id :: cell
  ln_name :: cell
  ln_percent :: rat
  ln_fixed :: rat
  ln_priority :: cell
  ln_current :: rat
  ln_target :: rat
  ln_progress :: rat

record allocation_summary =
  am_account :: int
  am_count :: nat
  am_percent :: rat
  am_fixed :: rat
  am_goals :: "allocation_line list"

text \<open>The sum of a field over goals, as a float; no goals sum to zero.\<close>

fun goal_sum :: "string \<Rightarrow> nat list \<Rightarrow> rat \<Rightarrow> rat act" where
  "goal_sum k [] x = ret x"
| "goal_sum k (g # gs) x = bind_act (goal_number g k) (\<lambda>y. goal_sum k gs (double (x + y)))"

definition goal_progress :: "rat \<Rightarrow> rat \<Rightarrow> rat" where
  "goal_progress current target = (if 0 < target then double (double (current / target) * 100) else 0)"

fun summary_lines :: "nat list \<Rightarrow> allocation_line list act" where
  "summary_lines [] = ret []"
| "summary_lines (g # gs) =
     bind_act (attr g ''id'') (\<lambda>i. bind_act (attr g ''name'') (\<lambda>n.
     bind_act (goal_number g ''auto_allocate_percentage'') (\<lambda>percent.
     bind_act (goal_number g ''auto_allocate_fixed_amount'') (\<lambda>fixed.
     bind_act (\<lambda>c. (Ok (dget_or (ob_data (ob (snd c) g)) ''allocation_priority'' (CInt 1)), c)) (\<lambda>p.
     bind_act (goal_number g ''current_amount'') (\<lambda>current.
     bind_act (goal_number g ''target_amount'') (\<lambda>target.
     bind_act (summary_lines gs) (\<lambda>ls.
       ret (\<lparr>ln_id = i, ln_name = n, ln_percent = percent, ln_fixed = fixed, ln_priority = p, ln_current = current,
             ln_target = target, ln_progress = goal_progress current target\<rparr> # ls)))))))))"

text \<open>The two sums run in one loop; only the first number that cannot be read matters for an error.\<close>

fun goal_sums :: "nat list \<Rightarrow> rat \<Rightarrow> rat \<Rightarrow> (rat \<times> rat) act" where
  "goal_sums [] x y = ret (x, y)"
| "goal_sums (g # gs) x y =
     bind_act (goal_number g ''auto_allocate_percentage'') (\<lambda>a.
     bind_act (goal_number g ''auto_allocate_fixed_amount'') (\<lambda>b. goal_sums gs (double (x + a)) (double (y + b))))"

definition allocation_summary_of :: "env \<Rightarrow> int \<Rightarrow> allocation_summary act" where
  "allocation_summary_of e aid =
     bind_act (by_priority e (active_goals (CInt aid))) (\<lambda>gs.
     bind_act (goal_sums gs 0 0) (\<lambda>(x, y).
     bind_act (summary_lines gs) (\<lambda>ls.
       ret \<lparr>am_account = aid, am_count = length gs, am_percent = x, am_fixed = y, am_goals = ls\<rparr>)))"

record allocation_check =
  ac_valid :: bool
  ac_current :: cell
  ac_total :: cell
  ac_remaining :: cell
  ac_message :: string

text \<open>Sums of percentages: a float, but the integer zero where nothing was added.\<close>

definition percent_left :: "cell \<Rightarrow> cell" where
  "percent_left v = (case v of CInt i \<Rightarrow> CInt (100 - i) | _ \<Rightarrow> CFloat (double (100 - to_float v)))"

definition validate_allocation_rules :: "env \<Rightarrow> cell \<Rightarrow> int option \<Rightarrow> rat option \<Rightarrow> allocation_check act" where
  "validate_allocation_rules e aid gid new =
     bind_act (\<lambda>c.
       let q = filter_q (fst c) (active_goals aid) (new_query ''Goal'')
       in q_all e (case gid of
                     Some n \<Rightarrow> if n \<noteq> 0 then filter_q (fst c) [Compare ''id'' OpNe (CInt n)] q else q
                   | None \<Rightarrow> q) c) (\<lambda>gs.
     bind_act (goal_sum ''auto_allocate_percentage'' gs 0) (\<lambda>x.
       let current = (if gs = [] then CInt 0 else CFloat x);
           y = (case new of Some p \<Rightarrow> p | None \<Rightarrow> 0);
           tot = (if y = 0 then current else CFloat (double (x + y)));
           ok = to_float tot \<le> 100
       in ret \<lparr>ac_valid = ok, ac_current = current, ac_total = tot, ac_remaining = percent_left current,
            ac_message = (if ok then ''Allocation rules are valid''
              else ''Total allocation would exceed 100% (current: '' @ cell_str current @ ''%, new total: ''
                @ cell_str tot @ ''%)'')\<rparr>))"

section \<open>Endpoints\<close>

record goal_create =
  gc_name :: string
  gc_description :: "string option"
  gc_target :: rat
  gc_date :: "int option" \<comment> \<open>a day number\<close>
  gc_category :: "string option"
  gc_priority :: "string option"
  gc_initial :: "rat option"
  gc_account :: "int option"
  gc_transfer :: "rat option"
  gc_frequency :: "string option"
  gc_percent :: "rat option"
  gc_fixed :: "rat option"
  gc_rank :: "int option"
  gc_sources :: "string list option"

definition number_or :: "rat option \<Rightarrow> rat \<Rightarrow> rat" where
  "number_or v d = (case v of Some x \<Rightarrow> if x \<noteq> 0 then x else d | None \<Rightarrow> d)"

definition chosen :: "int option \<Rightarrow> int option" where
  "chosen v = (case v of Some n \<Rightarrow> if n \<noteq> 0 then Some n else None | None \<Rightarrow> None)"

definition goal_row :: "int \<Rightarrow> goal_create \<Rightarrow> row" where
  "goal_row uid q =
     [(''user_id'', CInt uid), (''name'', CStr (gc_name q)), (''description'', opt_cell CStr (gc_description q)),
      (''target_amount'', CFloat (gc_target q)), (''current_amount'', CFloat (number_or (gc_initial q) 0)),
      (''target_date'', opt_cell CDate (gc_date q)), (''category'', CStr (text_or (gc_category q) ''other'')),
      (''priority'', CStr (text_or (gc_priority q) ''medium'')), (''status'', CStr ''active''),
      (''account_id'', opt_cell CInt (gc_account q)), (''auto_transfer_amount'', opt_cell CFloat (gc_transfer q)),
      (''auto_transfer_frequency'', opt_cell CStr (gc_frequency q)),
      (''auto_allocate_percentage'', opt_cell CFloat (gc_percent q)),
      (''auto_allocate_fixed_amount'', opt_cell CFloat (gc_fixed q)),
      (''allocation_priority'', CInt (case chosen (gc_rank q) of Some n \<Rightarrow> n | None \<Rightarrow> 1)),
      (''allocation_source_types'',
        CList (map CStr (case gc_sources q of Some (s # ss) \<Rightarrow> s # ss | _ \<Rightarrow> [''income'', ''deposit''])))]"

definition calculate_goal_progress :: "row \<Rightarrow> rat" where
  "calculate_goal_progress d =
     (let t = to_float (field d ''target_amount''); x = to_float (field d ''current_amount'')
      in if t \<le> 0 then 0 else min (double (double (x / t) * 100)) 100)"

text \<open>An answer: the instance and its progress.\<close>

definition goal_response :: "nat \<Rightarrow> (nat \<times> rat) act" where
  "goal_response i c = (Ok (i, calculate_goal_progress (ob_data (ob (snd c) i))), c)"

definition goal_responses :: "nat list \<Rightarrow> (nat \<times> rat) list act" where
  "goal_responses is' c = (Ok (map (\<lambda>i. (i, calculate_goal_progress (ob_data (ob (snd c) i)))) is'), c)"

definition reraise :: "(py_error \<Rightarrow> py_error) \<Rightarrow> 'a act \<Rightarrow> 'a act" where
  "reraise h f c = (case f c of (Inl err, c') \<Rightarrow> (Err (h err), c') | (Inr x, c') \<Rightarrow> (Ok x, c'))"

definition check_rules :: "env \<Rightarrow> cell \<Rightarrow> int option \<Rightarrow> rat option \<Rightarrow> unit act" where
  "check_rules e aid gid p =
     bind_act (validate_allocation_rules e aid gid p) (\<lambda>r.
       if ac_valid r then ret () else throw (HTTPException 400 (ac_message r)))"

text \<open>\<open>str(e)\<close> of an \<open>HTTPException\<close> starts with its status.\<close>

definition goal_refused :: "py_error \<Rightarrow> py_error" where
  "goal_refused err =
     (case err of
        HTTPException n m \<Rightarrow> HTTPException 422 (str_nat (int n) @ '': '' @ m)
      | _ \<Rightarrow> HTTPException 500 (err_str err))"

definition create_goal :: "env \<Rightarrow> login \<Rightarrow> goal_create \<Rightarrow> (nat \<times> rat) act" where
  "create_goal e u q = reraise goal_refused
     (then_act
       (case chosen (gc_account q) of
          None \<Rightarrow> ret ()
        | Some aid \<Rightarrow>
            then_act (validate_account_ownership e aid (lo_user u))
              (if number_or (gc_percent q) 0 \<noteq> 0 then check_rules (later 1000 e) (CInt aid) None (gc_percent q) else ret ()))
       (bind_act (make_obj (later 100000 e) ''Goal'' (goal_row (lo_user u) q)) (\<lambda>i.
        then_act (add_act i) (then_act (commit_act (later 100100 e)) (then_act (refresh_act i) (goal_response i))))))"

definition get_goals :: "env \<Rightarrow> login \<Rightarrow> string option \<Rightarrow> (nat \<times> rat) list act" where
  "get_goals e u status =
     bind_act (\<lambda>c.
       let q = filter_q (fst c) [Compare ''user_id'' OpEq (CInt (lo_user u))] (new_query ''Goal'');
           q' = (case status of None \<Rightarrow> q | Some s \<Rightarrow> filter_q (fst c) [Compare ''status'' OpEq (CStr s)] q)
       in q_all e (order_by [(''created_at'', True)] q') c) goal_responses"

definition own_goal :: "env \<Rightarrow> login \<Rightarrow> int \<Rightarrow> nat act" where
  "own_goal e u gid =
     bind_act (query_where e ''Goal'' [Compare ''id'' OpEq (CInt gid), Compare ''user_id'' OpEq (CInt (lo_user u))])
       (\<lambda>x. case x of None \<Rightarrow> throw (HTTPException 404 ''Goal not found'') | Some i \<Rightarrow> ret i)"

definition get_goal :: "env \<Rightarrow> login \<Rightarrow> int \<Rightarrow> (nat \<times> rat) act" where
  "get_goal e u gid = bind_act (own_goal e u gid) goal_response"

record goals_summary =
  gy_total :: nat
  gy_active :: nat
  gy_completed :: nat
  gy_target :: rat
  gy_saved :: rat
  gy_progress :: rat
  gy_goals :: "(nat \<times> rat) list"

definition round2 :: "rat \<Rightarrow> rat" where
  "round2 x = double (of_int (round_even (100 * x)) / 100)"

definition get_goals_summary :: "env \<Rightarrow> login \<Rightarrow> goals_summary act" where
  "get_goals_summary e u =
     bind_act (query_all_where e ''Goal'' [Compare ''user_id'' OpEq (CInt (lo_user u))]) (\<lambda>gs.
     bind_act (goal_responses gs) (\<lambda>rs c.
       let num = (\<lambda>s. length (filter (\<lambda>i. py_eq (get_attr (snd c) i ''status'') (CStr s)) gs));
           add = (\<lambda>k. float_sum (map (\<lambda>i. to_float (get_attr (snd c) i k)) gs));
           t = add ''target_amount''; s = add ''current_amount''
       in (Ok \<lparr>gy_total = length gs, gy_active = num ''active'', gy_completed = num ''completed'',
             gy_target = round2 t, gy_saved = round2 s,
             gy_progress = (if 0 < t then round2 (double (double (s / t) * 100)) else 0), gy_goals = rs\<rparr>, c)))"

text \<open>The fields that a request sets, in the order of the model; None is skipped.\<close>

fun assign_fields :: "nat \<Rightarrow> row \<Rightarrow> unit act" where
  "assign_fields i [] = ret ()"
| "assign_fields i ((k, v) # kvs) =
     then_act (if v \<noteq> CNone then on_session (set_attr i k v) else ret ()) (assign_fields i kvs)"

definition complete_if_reached :: "env \<Rightarrow> nat \<Rightarrow> unit act" where
  "complete_if_reached e i =
     then_act (on_session (set_attr i ''status'' (CStr ''completed'')))
       (on_session (set_attr i ''completed_at'' (CTime True (clock e 0))))"

definition update_failed :: "py_error \<Rightarrow> py_error" where
  "update_failed err =
     (case err of HTTPException n m \<Rightarrow> err | _ \<Rightarrow> HTTPException 500 ''Failed to update goal. Please try again.'')"

definition rules_of_update :: "env \<Rightarrow> int \<Rightarrow> nat \<Rightarrow> row \<Rightarrow> unit act" where
  "rules_of_update e gid i upd =
     bind_act (attr i ''account_id'') (\<lambda>a.
       if has_key upd ''auto_allocate_percentage'' \<and> cell_true a
       then check_rules e a (Some gid) (case field upd ''auto_allocate_percentage'' of CFloat p \<Rightarrow> Some p | _ \<Rightarrow> None)
       else ret ())"

definition update_goal :: "env \<Rightarrow> login \<Rightarrow> int \<Rightarrow> row \<Rightarrow> (nat \<times> rat) act" where
  "update_goal e u gid upd = reraise update_failed
     (bind_act (own_goal e u gid) (\<lambda>i.
      then_act (rules_of_update (later 200 e) gid i upd)
      (then_act (assign_fields i upd)
      (bind_act (attr i ''current_amount'') (\<lambda>x. bind_act (attr i ''target_amount'') (\<lambda>t. bind_act (attr i ''status'') (\<lambda>s.
       then_act (if to_float t \<le> to_float x \<and> py_eq s (CStr ''active'') then complete_if_reached (later 100000 e) i else ret ())
       (then_act (on_session (set_attr i ''updated_at'' (CTime True (clock e 100001))))
       (then_act (commit_act (later 100002 e)) (then_act (refresh_act i) (goal_response i)))))))))))"

definition contribute_to_goal :: "env \<Rightarrow> login \<Rightarrow> int \<Rightarrow> rat \<Rightarrow> string option \<Rightarrow> (nat \<times> rat) act" where
  "contribute_to_goal e u gid amount notes =
     bind_act (own_goal e u gid) (\<lambda>i. bind_act (attr i ''status'') (\<lambda>s.
     if \<not> py_eq s (CStr ''active'') then throw (HTTPException 400 ''Can only contribute to active goals'')
     else bind_act (make_obj (later 200 e) ''GoalContribution''
            [(''goal_id'', CInt gid), (''amount'', CFloat amount), (''contribution_date'', CTime True (clock e 190)),
             (''notes'', opt_cell CStr notes)]) (\<lambda>k.
       bind_act (attr i ''current_amount'') (\<lambda>x.
       then_act (on_session (set_attr i ''current_amount'' (CFloat (double (to_float x + amount)))))
       (bind_act (attr i ''current_amount'') (\<lambda>y. bind_act (attr i ''target_amount'') (\<lambda>t.
        then_act (if to_float t \<le> to_float y then complete_if_reached (later 300 e) i else ret ())
        (then_act (add_act k)
        (then_act (commit_act (later 400 e)) (then_act (refresh_act i) (goal_response i)))))))))))"

definition get_goal_contributions :: "env \<Rightarrow> login \<Rightarrow> int \<Rightarrow> int \<Rightarrow> (cell \<times> nat list) act" where
  "get_goal_contributions e u gid n =
     bind_act (own_goal e u gid) (\<lambda>i.
     bind_act (\<lambda>c. q_all (later 200 e)
         (q_limit n (order_by [(''contribution_date'', True)]
           (filter_q (fst c) [Compare ''goal_id'' OpEq (CInt gid)] (new_query ''GoalContribution'')))) c) (\<lambda>ks.
     bind_act (attr i ''name'') (\<lambda>name. ret (name, ks))))"

definition delete_goal :: "env \<Rightarrow> login \<Rightarrow> int \<Rightarrow> string act" where
  "delete_goal e u gid =
     bind_act (own_goal e u gid) (\<lambda>i.
     then_act (on_session (set_attr i ''status'' (CStr ''cancelled'')))
     (then_act (on_session (set_attr i ''updated_at'' (CTime True (clock e 190))))
     (then_act (commit_act (later 200 e)) (ret ''Goal cancelled successfully''))))"

definition get_allocation_summary :: "env \<Rightarrow> login \<Rightarrow> int \<Rightarrow> allocation_summary act" where
  "get_allocation_summary e u aid =
     then_act (validate_account_ownership e aid (lo_user u)) (allocation_summary_of (later 1000 e) aid)"

end
