(* ===== verification/Rate_Limiter.thy ===== *)
theory Rate_Limiter
  imports PyJson PyFloat
begin

text \<open>
  The rate limiting middleware (\<open>backend/app/middleware/rate_limiter.py\<close>): a token bucket for each
  client, in float arithmetic. The readings of the monotonic clock are floats, arguments of the
  operations; requests are served one after the other, which is what the lock gives. Headers are those
  the code reads. The rest of the server is a function of its state, \<open>call_next\<close>.

  The lemmas bound what a client gets through in any sequence of requests of all clients: the capacity
  and the refill of the time that passed, up to the rounding errors.
\<close>

section \<open>Clients\<close>

record http_client =
  hc_forwarded :: "string option"
  hc_real_ip :: "string option"
  hc_host :: "string option"
  hc_path :: string

definition nonempty :: "string option \<Rightarrow> bool" where
  "nonempty s = (s \<noteq> None \<and> s \<noteq> Some [])"

definition get_identifier :: "http_client \<Rightarrow> string" where
  "get_identifier r =
     (if nonempty (hc_forwarded r)
      then ''ip_'' @ py_strip (takeWhile (\<lambda>c. c \<noteq> CHR '','') (the (hc_forwarded r)))
      else if nonempty (hc_real_ip r) then ''ip_'' @ the (hc_real_ip r)
      else case hc_host r of Some h \<Rightarrow> ''ip_'' @ h | None \<Rightarrow> ''ip_unknown'')"

section \<open>Buckets\<close>

record limits =
  li_enabled :: bool
  li_requests :: int
  li_period :: int

record bucket =
  bk_tokens :: rat
  bk_updated :: rat

type_synonym limiter = "(string, bucket) dict"

definition capacity :: "limits \<Rightarrow> int" where
  "capacity l = max 1 (li_requests l)"

definition refill_rate :: "limits \<Rightarrow> rat" where
  "refill_rate l = double (of_int (capacity l) / of_int (max 1 (li_period l)))"

definition refill :: "limits \<Rightarrow> rat \<Rightarrow> bucket \<Rightarrow> rat" where
  "refill l now b =
     min (of_int (capacity l))
       (double (bk_tokens b + double (double (now - bk_updated b) * refill_rate l)))"

definition check_rate :: "limits \<Rightarrow> rat \<Rightarrow> http_client \<Rightarrow> limiter \<Rightarrow> (bool \<times> int) \<times> limiter" where
  "check_rate l now r s =
     (let i = get_identifier r;
          b = (case dget s i of Some b \<Rightarrow> b
               | None \<Rightarrow> \<lparr>bk_tokens = of_int (capacity l), bk_updated = now\<rparr>);
          t = refill l now b
      in if t \<ge> 1 then ((True, 0), dset i \<lparr>bk_tokens = double (t - 1), bk_updated = now\<rparr> s)
         else ((False, \<lfloor>double (double (1 - t) / refill_rate l)\<rfloor> + 1),
               dset i \<lparr>bk_tokens = t, bk_updated = now\<rparr> s))"

section \<open>The middleware\<close>

datatype 'r limiter_reply =
    Passed 'r
  | Limited nat string string string string \<comment> \<open>status, error, Retry-After, limit, remaining\<close>

definition skip_paths :: "string list" where
  "skip_paths = [''/docs'', ''/redoc'', ''/openapi.json'', ''/health'']"

definition rate_limit_middleware ::
  "limits \<Rightarrow> rat \<Rightarrow> (http_client \<Rightarrow> 's \<Rightarrow> 'r \<times> 's) \<Rightarrow> http_client \<Rightarrow> limiter \<times> 's \<Rightarrow> 'r limiter_reply \<times> limiter \<times> 's" where
  "rate_limit_middleware l now call_next r st =
     (let (s, w) = st; pass = (\<lambda>s'. let (x, w') = call_next r w in (Passed x, s', w'))
      in if \<not> li_enabled l \<or> (\<exists>p \<in> set skip_paths. in_str p (hc_path r)) then pass s
         else let ((ok, retry), s') = check_rate l now r s
              in if ok then pass s'
                 else (Limited 429 (''Rate limit exceeded. Try again in '' @ str_int retry @ '' seconds.'')
                         (str_int retry) (str_int (li_requests l)) ''0'', s', w))"

section \<open>What a refill adds\<close>

text \<open>Limits in a sensible range; what one request can gain by rounding.\<close>

definition sensible :: "limits \<Rightarrow> bool" where
  "sensible l \<longleftrightarrow> li_requests l \<le> 2 ^ 40"

definition slack :: "limits \<Rightarrow> rat" where
  "slack l = of_int (capacity l) / 2 ^ 50"

lemma capacity_ge: "1 \<le> (of_int (capacity l) :: rat)"
  by (simp add: capacity_def)

lemma err_rate:
  fixes q c d u :: rat
  assumes "0 \<le> q" "q \<le> c" "1 \<le> c" "d \<le> q + q / 2 ^ 53 + u" "u \<le> 1 / 2 ^ 100"
  shows "d \<le> 2 * c"
  using assms unfolding powers_eval by linarith

lemma rate_bounds: "0 \<le> refill_rate l" "refill_rate l \<le> 2 * of_int (capacity l)"
proof -
  let ?c = "of_int (capacity l) :: rat" and ?p = "of_int (max 1 (li_period l)) :: rat"
  have p: "1 \<le> ?p" by simp
  have c: "1 \<le> ?c" by (rule capacity_ge)
  have q: "0 \<le> ?c / ?p" "?c / ?p \<le> ?c" using c p by (simp_all add: divide_le_eq)
  show "0 \<le> refill_rate l" unfolding refill_rate_def by (rule double_nonneg [OF q(1)])
  show "refill_rate l \<le> 2 * ?c" unfolding refill_rate_def
    using err_rate [OF q c double_upper [OF q(1)] tiny_small] by simp
qed

lemma err_refill:
  fixes t c p q u d' x t' :: rat
  assumes "0 \<le> t" "1 \<le> c" "t + p \<le> c" "0 \<le> p" "q \<le> 2 * c / 2 ^ 100" "0 \<le> q" "0 \<le> u" "u \<le> 1 / 2 ^ 100"
    and "d' \<le> p + p / 2 ^ 53 + q" "x \<le> d' + d' / 2 ^ 53 + u" "t' \<le> (t + x) + (t + x) / 2 ^ 53 + u"
  shows "t' \<le> t + p + c / 2 ^ 51"
  using assms unfolding powers_eval add_divide_distrib diff_divide_distrib by linarith

lemma refill_gain:
  assumes "0 \<le> bk_tokens b" "bk_updated b \<le> now"
  shows "refill l now b \<le> bk_tokens b + (now - bk_updated b) * refill_rate l + of_int (capacity l) / 2 ^ 51"
proof -
  let ?c = "of_int (capacity l) :: rat" and ?t = "bk_tokens b" and ?r = "refill_rate l" and ?d = "now - bk_updated b"
  have d: "0 \<le> ?d" "0 \<le> ?d * ?r" using assms(2) rate_bounds(1) by simp_all
  show ?thesis
  proof (cases "?t + ?d * ?r \<le> ?c")
    case False
    have "refill l now b \<le> ?c" by (simp add: refill_def)
    moreover have "0 \<le> ?c / 2 ^ 51" using capacity_ge [of l] by simp
    ultimately show ?thesis using False by linarith
  next
    case True
    have dr: "double ?d * ?r \<le> ?d * ?r + ?d * ?r / 2 ^ 53 + tiny * ?r"
      using mult_right_mono [OF double_upper [OF d(1)] rate_bounds(1) [of l]] by (simp add: algebra_simps)
    have n: "0 \<le> double ?d * ?r" using double_nonneg [OF d(1)] rate_bounds(1) by simp
    have tr: "tiny * ?r \<le> 2 * ?c / 2 ^ 100"
    proof -
      have "tiny * ?r \<le> 1 / 2 ^ 100 * (2 * ?c)"
        by (rule mult_mono [OF tiny_small rate_bounds(2)]) (simp_all add: rate_bounds(1))
      then show ?thesis by simp
    qed
    have "0 \<le> ?t + double (double ?d * ?r)" using assms(1) double_nonneg [OF n] by simp
    from double_upper [OF this] have "double (?t + double (double ?d * ?r)) \<le> ?t + ?d * ?r + ?c / 2 ^ 51"
      using assms(1) capacity_ge True d(2) tr rate_bounds(1) tiny_pos tiny_small dr double_upper [OF n]
      by (intro err_refill [of ?t ?c "?d * ?r" "tiny * ?r" tiny "double ?d * ?r" "double (double ?d * ?r)"]) simp_all
    then show ?thesis by (simp add: refill_def min_le_iff_disj)
  qed
qed

definition bucket_ok :: "limits \<Rightarrow> bucket \<Rightarrow> bool" where
  "bucket_ok l b \<longleftrightarrow> 0 \<le> bk_tokens b \<and> bk_tokens b \<le> of_int (capacity l)"

lemma refill_ok: "0 \<le> bk_tokens b \<Longrightarrow> bk_updated b \<le> now \<Longrightarrow> 0 \<le> refill l now b \<and> refill l now b \<le> of_int (capacity l)"
  using capacity_ge [of l] rate_bounds(1) [of l]
  by (auto simp: refill_def intro!: double_nonneg add_nonneg_nonneg mult_nonneg_nonneg)

lemma take_token:
  assumes "1 \<le> t" "t \<le> of_int (capacity l)"
  shows "0 \<le> double (t - 1)" "double (t - 1) \<le> t - 1 + of_int (capacity l) / 2 ^ 51" "sensible l \<Longrightarrow> double (t - 1) \<le> of_int (capacity l)"
proof -
  have t: "0 \<le> t - 1" using assms(1) by simp
  show "0 \<le> double (t - 1)" by (rule double_nonneg [OF t])
  show u: "double (t - 1) \<le> t - 1 + of_int (capacity l) / 2 ^ 51"
    using double_upper [OF t] assms capacity_ge [of l] tiny_small unfolding powers_eval add_divide_distrib diff_divide_distrib by linarith
  have "of_int (capacity l) / 2 ^ 51 \<le> (1 :: rat)" if "sensible l"
    using that by (simp add: sensible_def capacity_def)
  then show "sensible l \<Longrightarrow> double (t - 1) \<le> of_int (capacity l)" using u assms(2) by linarith
qed

lemma slack_nonneg: "0 \<le> slack l"
  using capacity_ge [of l] by (simp add: slack_def)

section \<open>Sequences of requests\<close>

text \<open>How many requests of a client the limiter lets through.\<close>

fun admitted :: "limits \<Rightarrow> string \<Rightarrow> (rat \<times> http_client) list \<Rightarrow> limiter \<Rightarrow> nat" where
  "admitted l i [] s = 0"
| "admitted l i ((now, r) # qs) s =
     (let x = check_rate l now r s
      in (if fst (fst x) \<and> get_identifier r = i then 1 else 0) + admitted l i qs (snd x))"

definition limiter_ok :: "limits \<Rightarrow> rat \<Rightarrow> limiter \<Rightarrow> bool" where
  "limiter_ok l t s \<longleftrightarrow> (\<forall>i b. dget s i = Some b \<longrightarrow> bucket_ok l b \<and> bk_updated b \<le> t)"

definition bucket_of :: "limits \<Rightarrow> rat \<Rightarrow> string \<Rightarrow> limiter \<Rightarrow> bucket" where
  "bucket_of l now i s =
     (case dget s i of Some b \<Rightarrow> b | None \<Rightarrow> \<lparr>bk_tokens = of_int (capacity l), bk_updated = now\<rparr>)"

lemma check_rate_step:
  assumes "limiter_ok l t s" "t \<le> now" "sensible l"
  shows "\<exists>b'. snd (check_rate l now r s) = dset (get_identifier r) b' s \<and> bucket_ok l b' \<and> bk_updated b' = now \<and>
    (if fst (fst (check_rate l now r s)) then 1 else 0) + bk_tokens b' \<le>
      refill l now (bucket_of l now (get_identifier r) s) + of_int (capacity l) / 2 ^ 51 \<and>
    (fst (fst (check_rate l now r s)) \<longleftrightarrow> 1 \<le> refill l now (bucket_of l now (get_identifier r) s))"
proof -
  let ?b = "bucket_of l now (get_identifier r) s"
  have "0 \<le> bk_tokens ?b" "bk_updated ?b \<le> now"
    using assms(1,2) capacity_ge [of l] unfolding limiter_ok_def bucket_of_def bucket_ok_def
    by (auto split: option.splits intro: order_trans)
  note r = refill_ok [OF this, of l]
  have c: "0 \<le> of_int (capacity l) / (2 ^ 51 :: rat)" using capacity_ge [of l] by simp
  show ?thesis
  proof (cases "1 \<le> refill l now ?b")
    case True
    note t = take_token [OF True conjunct2 [OF r]]
    show ?thesis using True t assms(3)
      by (intro exI [of _ "\<lparr>bk_tokens = double (refill l now ?b - 1), bk_updated = now\<rparr>"])
        (simp add: check_rate_def bucket_of_def bucket_ok_def Let_def)
  next
    case False
    then show ?thesis using r c
      by (intro exI [of _ "\<lparr>bk_tokens = refill l now ?b, bk_updated = now\<rparr>"])
        (simp add: check_rate_def bucket_of_def bucket_ok_def Let_def)
  qed
qed

lemma limiter_ok_dset:
  "limiter_ok l t s \<Longrightarrow> t \<le> now \<Longrightarrow> bucket_ok l b \<Longrightarrow> bk_updated b = now \<Longrightarrow> limiter_ok l now (dset i b s)"
  by (auto simp: limiter_ok_def intro: order_trans)

lemma admitted_bucket:
  assumes "limiter_ok l t s" "dget s i = Some b" "sensible l" "sorted (t # map fst qs @ [t_end])"
  shows "of_nat (admitted l i qs s) \<le>
    bk_tokens b + (t_end - bk_updated b) * refill_rate l + of_nat (length qs) * slack l"
  using assms
proof (induction qs arbitrary: s t b)
  case Nil
  then have "0 \<le> bk_tokens b" "bk_updated b \<le> t_end" unfolding limiter_ok_def bucket_ok_def by fastforce+
  then show ?case using rate_bounds(1) [of l] by simp
next
  case (Cons q qs)
  obtain now r where q: "q = (now, r)" by (cases q)
  have t: "t \<le> now" "sorted (now # map fst qs @ [t_end])" using Cons.prems(4) q by auto
  let ?x = "check_rate l now r s" and ?j = "get_identifier r"
  obtain b' where b': "snd ?x = dset ?j b' s" "bucket_ok l b'" "bk_updated b' = now"
    "(if fst (fst ?x) then 1 else 0) + bk_tokens b' \<le> refill l now (bucket_of l now ?j s) + of_int (capacity l) / 2 ^ 51"
    using check_rate_step [OF Cons.prems(1) t(1) Cons.prems(3), of r] by blast
  have ok: "limiter_ok l now (snd ?x)" unfolding b'(1) by (rule limiter_ok_dset [OF Cons.prems(1) t(1) b'(2,3)])
  have sl: "0 \<le> slack l" "slack l = of_int (capacity l) / 2 ^ 51 + of_int (capacity l) / 2 ^ 51"
    using capacity_ge [of l] by (simp_all add: slack_def)
  show ?case
  proof (cases "?j = i")
    case False
    then have "dget (snd ?x) i = Some b" using Cons.prems(2) by (simp add: b'(1))
    from Cons.IH [OF ok this Cons.prems(3) t(2)] show ?thesis using False sl(1) by (simp add: q Let_def distrib_right)
  next
    case True
    then have "dget (snd ?x) i = Some b'" by (simp add: b'(1))
    note IH = Cons.IH [OF ok this Cons.prems(3) t(2)]
    have bo: "bucket_of l now ?j s = b" using Cons.prems(2) True by (simp add: bucket_of_def)
    have "refill l now b \<le> bk_tokens b + (now - bk_updated b) * refill_rate l + of_int (capacity l) / 2 ^ 51"
      using Cons.prems(1,2) t(1) unfolding limiter_ok_def bucket_ok_def by (intro refill_gain) force+
    then have "(if fst (fst ?x) then 1 else 0) + bk_tokens b' \<le> bk_tokens b + (now - bk_updated b) * refill_rate l + slack l"
      using b'(4) unfolding bo sl(2) by linarith
    then show ?thesis using IH True by (simp add: q Let_def b'(3) algebra_simps split: if_splits)
  qed
qed

lemma admitted_any:
  assumes "limiter_ok l t s" "sensible l" "sorted (t # map fst qs @ [t_end])" "sorted (t0 # map fst qs @ [t_end])"
  shows "of_nat (admitted l i qs s) \<le>
    of_int (capacity l) + (t_end - t0) * refill_rate l + of_nat (length qs) * slack l"
  using assms
proof (induction qs arbitrary: s t)
  case Nil
  then show ?case using rate_bounds(1) [of l] capacity_ge [of l] by simp
next
  case (Cons q qs)
  obtain now r where q: "q = (now, r)" by (cases q)
  have t: "t \<le> now" "t0 \<le> now" "sorted (now # map fst qs @ [t_end])" "sorted (t0 # map fst qs @ [t_end])"
    using Cons.prems(3,4) q by auto
  let ?x = "check_rate l now r s" and ?j = "get_identifier r"
  obtain b' where b': "snd ?x = dset ?j b' s" "bucket_ok l b'" "bk_updated b' = now"
    "(if fst (fst ?x) then 1 else 0) + bk_tokens b' \<le> refill l now (bucket_of l now ?j s) + of_int (capacity l) / 2 ^ 51"
    using check_rate_step [OF Cons.prems(1) t(1) Cons.prems(2), of r] by blast
  have ok: "limiter_ok l now (snd ?x)" unfolding b'(1) by (rule limiter_ok_dset [OF Cons.prems(1) t(1) b'(2,3)])
  have sl: "0 \<le> of_int (capacity l) / (2 ^ 51 :: rat)" "slack l = of_int (capacity l) / 2 ^ 51 + of_int (capacity l) / 2 ^ 51"
    using capacity_ge [of l] by (simp_all add: slack_def)
  show ?case
  proof (cases "?j = i")
    case False
    then show ?thesis using Cons.IH [OF ok Cons.prems(2) t(3,4)] slack_nonneg [of l]
      by (simp add: q Let_def distrib_right)
  next
    case True
    then have "dget (snd ?x) i = Some b'" by (simp add: b'(1))
    note A = admitted_bucket [OF ok this Cons.prems(2) t(3)]
    have "refill l now (bucket_of l now ?j s) \<le> of_int (capacity l)" by (simp add: refill_def)
    then have "(if fst (fst ?x) then 1 else 0) + bk_tokens b' \<le> of_int (capacity l) + slack l"
      using b'(4) sl by linarith
    moreover have "(t_end - now) * refill_rate l \<le> (t_end - t0) * refill_rate l"
      using t(2) rate_bounds(1) [of l] by (intro mult_right_mono) simp_all
    ultimately show ?thesis using A True by (simp add: q Let_def b'(3) algebra_simps split: if_splits)
  qed
qed

text \<open>At one instant the bucket only empties, one token for each request.\<close>

lemma burst_step:
  assumes "dget s (get_identifier r) = Some \<lparr>bk_tokens = of_int k, bk_updated = now\<rparr>" "0 \<le> k" "k \<le> capacity l" "sensible l"
  shows "snd (check_rate l now r s) =
      dset (get_identifier r) \<lparr>bk_tokens = of_int (if 1 \<le> k then k - 1 else k), bk_updated = now\<rparr> s"
    and "fst (fst (check_rate l now r s)) \<longleftrightarrow> 1 \<le> k"
proof -
  have c: "capacity l \<le> 2 ^ 40" using assms(4) by (simp add: sensible_def capacity_def)
  have d: "double 0 = 0" by (simp add: double_def)
  have k: "double (of_int k) = of_int k" "1 \<le> k \<Longrightarrow> double (of_int k - 1) = of_int (k - 1)"
    using double_int [of k] double_int [of "k - 1"] assms(2,3) c by simp_all
  have r: "refill l now \<lparr>bk_tokens = of_int k, bk_updated = now\<rparr> = of_int k"
    using assms(3) by (simp add: refill_def d k(1) min_def)
  show "snd (check_rate l now r s) =
      dset (get_identifier r) \<lparr>bk_tokens = of_int (if 1 \<le> k then k - 1 else k), bk_updated = now\<rparr> s"
    "fst (fst (check_rate l now r s)) \<longleftrightarrow> 1 \<le> k"
    using assms(1,2) k(2) by (simp_all add: check_rate_def Let_def r)
qed

lemma burst_admitted:
  assumes "\<forall>q \<in> set qs. fst q = now \<and> get_identifier (snd q) = i" "sensible l"
    and "dget s i = Some \<lparr>bk_tokens = of_int k, bk_updated = now\<rparr>" "0 \<le> k" "k \<le> capacity l"
  shows "admitted l i qs s = min (length qs) (nat k)"
  using assms
proof (induction qs arbitrary: s k)
  case (Cons q qs)
  obtain r where q: "q = (now, r)" "get_identifier r = i" using Cons.prems(1) by (cases q) auto
  have h: "dget s (get_identifier r) = Some \<lparr>bk_tokens = of_int k, bk_updated = now\<rparr>" using Cons.prems(3) q(2) by simp
  note st = burst_step [OF h Cons.prems(4,5,2)]
  have d: "dget (snd (check_rate l now r s)) i = Some \<lparr>bk_tokens = of_int (if 1 \<le> k then k - 1 else k), bk_updated = now\<rparr>"
    unfolding st(1) by (simp add: q(2))
  have "admitted l i qs (snd (check_rate l now r s)) = min (length qs) (nat (if 1 \<le> k then k - 1 else k))"
    by (rule Cons.IH [OF _ Cons.prems(2) d]) (use Cons.prems in auto)
  then show ?case using Cons.prems(4) by (auto simp: q Let_def st(2) split: if_splits)
qed simp

lemma burst_exact:
  assumes "\<forall>q \<in> set qs. fst q = now \<and> get_identifier (snd q) = i" "sensible l" "dget s i = None"
  shows "admitted l i qs s = min (length qs) (nat (capacity l))"
proof (cases qs)
  case (Cons q qs')
  obtain r where q: "q = (now, r)" "get_identifier r = i" using assms(1) Cons by (cases q) auto
  let ?s = "dset i \<lparr>bk_tokens = of_int (capacity l), bk_updated = now\<rparr> s"
  have "check_rate l now r s = check_rate l now r ?s"
    using assms(3) by (simp add: check_rate_def q(2) Let_def dset_twice)
  then have "admitted l i qs s = admitted l i qs ?s" by (simp add: Cons q(1))
  then show ?thesis using burst_admitted [OF assms(1,2), of ?s "capacity l"] by (simp add: capacity_def)
qed simp

text \<open>C38: The rate limiter keeps its promise although it counts in floats. In any sequence of requests of any
  clients, from any state of the limiter that requests can lead to, the requests of one client that are let
  through are at most the capacity plus what the bucket refills in the time that passed, up to one part in
  2 ^ 50 of the capacity for each request; and a client not seen before that sends its requests all at one
  instant gets through exactly as many as the capacity allows.\<close>

theorem rate_limit_exact:
  assumes "sensible l" "limiter_ok l t s" "sorted (t # map fst qs @ [t_end])"
  shows "of_nat (admitted l i qs s) \<le>
      of_int (capacity l) + (t_end - t) * refill_rate l + of_nat (length qs) * slack l \<and>
    ((\<forall>q \<in> set qs. fst q = now \<and> get_identifier (snd q) = i) \<and> dget s i = None \<longrightarrow>
      admitted l i qs s = min (length qs) (nat (capacity l)))"
  using admitted_any [OF assms(2,1,3,3)] burst_exact [OF _ assms(1), of qs now i s] by blast

definition demo_client :: http_client where
  "demo_client = \<lparr>hc_forwarded = None, hc_real_ip = None, hc_host = Some ''h'', hc_path = ''/x''\<rparr>"

lemma rate_limit_exact_witness:
  "of_nat (admitted \<lparr>li_enabled = True, li_requests = 2, li_period = 60\<rparr> ''ip_h'' [(0, demo_client), (0, demo_client), (0, demo_client)] [])
     \<le> (2 + (0 - 0) * refill_rate \<lparr>li_enabled = True, li_requests = 2, li_period = 60\<rparr> + 3 * (2 / 2 ^ 50) :: rat) \<and>
   admitted \<lparr>li_enabled = True, li_requests = 2, li_period = 60\<rparr> ''ip_h'' [(0, demo_client), (0, demo_client), (0, demo_client)] [] = 2"
proof -
  let ?l = "\<lparr>li_enabled = True, li_requests = 2, li_period = 60\<rparr>" and ?q = "(0 :: rat, demo_client)"
  have "sensible ?l" "limiter_ok ?l 0 []" "sorted (0 # map fst [?q, ?q, ?q] @ [0])"
    by (simp_all add: sensible_def limiter_ok_def)
  from rate_limit_exact [OF this, of "''ip_h''" 0] show ?thesis
    by (simp add: capacity_def slack_def demo_client_def get_identifier_def nonempty_def)
qed

text \<open>A client that sends a header of its choice is a client not seen before.\<close>

lemma forwarded_names_client:
  assumes "v \<noteq> []" "CHR '','' \<notin> set v" "\<not> blank (hd v)" "\<not> blank (last v)"
  shows "get_identifier (r\<lparr>hc_forwarded := Some v\<rparr>) = ''ip_'' @ v"
proof -
  have tw: "takeWhile (\<lambda>c. c \<noteq> CHR '','') v = v" using assms(2) by (auto simp: takeWhile_eq_all_conv)
  have d: "dropWhile blank v = v" using assms(1,3) by (cases v) auto
  have r: "dropWhile blank (rev v) = rev v" using assms(1,4) by (cases v rule: rev_cases) auto
  show ?thesis using assms(1) by (simp add: get_identifier_def nonempty_def py_strip_def tw d r)
qed

end
