(* ===== verification/Csrf.thy ===== *)
theory Csrf
  imports PyJson
begin

text \<open>
  The CSRF middleware (\<open>backend/app/middleware/csrf_protection.py\<close>): the store of tokens, the checks of a
  request, the response with a fresh token. A request reads the clock for the check, for the clean-up and
  for the token it is given, in this order, and draws that token. Of a request the model has what the code reads; the
  form is the outcome of parsing it, which may raise. The rest of the server, \<open>call_next\<close>, is a function of
  its state that returns a response or raises.

  The lemmas: a token is accepted exactly if it was issued to the same session less than an hour before;
  which requests pass; what an exception of the server leads to.
\<close>

section \<open>Tokens\<close>

record csrf_token =
  ct_session :: string
  ct_created :: time

type_synonym csrf_store = "(string, csrf_token) dict"

definition token_ttl :: time where
  "token_ttl = seconds 3600"

text \<open>\<open>session_id or "anonymous"\<close>.\<close>

definition session_name :: "string option \<Rightarrow> string" where
  "session_name s = (case s of None \<Rightarrow> ''anonymous'' | Some x \<Rightarrow> if x = [] then ''anonymous'' else x)"

definition generate_csrf_token :: "time \<Rightarrow> string \<Rightarrow> string option \<Rightarrow> csrf_store \<Rightarrow> csrf_store" where
  "generate_csrf_token now tok sid s = dset tok \<lparr>ct_session = session_name sid, ct_created = now\<rparr> s"

definition validate_csrf_token :: "time \<Rightarrow> string \<Rightarrow> string option \<Rightarrow> csrf_store \<Rightarrow> bool \<times> csrf_store" where
  "validate_csrf_token now tok sid s =
     (if tok = [] then (False, s)
      else case dget s tok of
             None \<Rightarrow> (False, s)
           | Some d \<Rightarrow>
               if now - ct_created d > token_ttl then (False, ddel tok s)
               else (ct_session d = session_name sid, s))"

definition cleanup_expired_tokens :: "time \<Rightarrow> csrf_store \<Rightarrow> csrf_store" where
  "cleanup_expired_tokens now s =
     fold ddel (map fst (filter (\<lambda>(t, d). now - ct_created d > token_ttl) s)) s"

section \<open>Requests\<close>

record csrf_request =
  cq_host :: "string option"
  cq_method :: string
  cq_path :: string
  cq_header :: "string option" \<comment> \<open>X-CSRF-Token\<close>
  cq_content :: string \<comment> \<open>content-type, empty if missing\<close>
  cq_form :: "string option result" \<comment> \<open>csrf_token of the form\<close>
  cq_cookie :: "string option" \<comment> \<open>session_id\<close>

definition csrf_skip_paths :: "string list" where
  "csrf_skip_paths = [''/api/auth/login'', ''/api/auth/register'', ''/docs'', ''/redoc'', ''/openapi.json'']"

definition requires_csrf_protection :: "csrf_request \<Rightarrow> bool" where
  "requires_csrf_protection r =
     (if cq_host r = Some ''testclient'' then False
      else if cq_method r \<in> set [''GET'', ''HEAD'', ''OPTIONS''] then False
      else \<not> (\<exists>p \<in> set csrf_skip_paths. in_str p (cq_path r)))"

definition present :: "string option \<Rightarrow> bool" where
  "present t = (t \<noteq> None \<and> t \<noteq> Some [])"

definition token_missing :: py_error where
  "token_missing = HTTPException 403 ''CSRF token missing. This action requires a valid CSRF token.''"

definition token_invalid :: py_error where
  "token_invalid = HTTPException 403 ''Invalid or expired CSRF token. Please refresh the page and try again.''"

definition request_token :: "csrf_request \<Rightarrow> string option result" where
  "request_token r =
     (if present (cq_header r) then Ok (cq_header r)
      else if in_str ''application/x-www-form-urlencoded'' (cq_content r) then cq_form r
      else Ok (cq_header r))"

definition check_csrf_protection :: "env \<Rightarrow> csrf_request \<Rightarrow> csrf_store \<Rightarrow> unit result \<times> csrf_store" where
  "check_csrf_protection e r s =
     (if \<not> requires_csrf_protection r then (Ok (), s)
      else case request_token r of
             Inl err \<Rightarrow> (Err err, s)
           | Inr t \<Rightarrow>
               if \<not> present t then (Err token_missing, s)
               else let (ok, s') = validate_csrf_token (clock e 0) (the t) (cq_cookie r) s
                    in if ok then (Ok (), cleanup_expired_tokens (clock e 1) s') else (Err token_invalid, s'))"

section \<open>The middleware\<close>

datatype 'r csrf_reply =
    Answer 'r "string option" \<comment> \<open>the response, the token attached\<close>
  | Forbidden nat string string \<comment> \<open>status, detail, the token attached\<close>

definition issue_csrf_token :: "env \<Rightarrow> csrf_request \<Rightarrow> csrf_store \<Rightarrow> csrf_store" where
  "issue_csrf_token e r s = generate_csrf_token (clock e 2) (uuid e 0) (cq_cookie r) s"

text \<open>
  The check and the call are in one \<open>try\<close>: an HTTPException of either is answered as a CSRF failure, any
  other exception of either leads to a call of the server, the second one if the first raised. An
  exception of that last call is passed on.
\<close>

definition call_guarded ::
  "env \<Rightarrow> (csrf_request \<Rightarrow> 's \<Rightarrow> 'r result \<times> 's) \<Rightarrow> csrf_request \<Rightarrow> csrf_store \<times> 's \<Rightarrow> 'r result \<times> csrf_store \<times> 's" where
  "call_guarded e call_next r st =
     (case check_csrf_protection e r (fst st) of
        (Inl err, s) \<Rightarrow> (Err err, s, snd st)
      | (Inr _, s) \<Rightarrow> let (x, w) = call_next r (snd st) in (x, s, w))"

definition csrf_protection_middleware ::
  "env \<Rightarrow> (csrf_request \<Rightarrow> 's \<Rightarrow> 'r result \<times> 's) \<Rightarrow> csrf_request \<Rightarrow> csrf_store \<times> 's
   \<Rightarrow> 'r csrf_reply result \<times> csrf_store \<times> 's" where
  "csrf_protection_middleware e call_next r st =
     (case call_guarded e call_next r st of
        (Inr x, s, w) \<Rightarrow> (Ok (Answer x (Some (uuid e 0))), issue_csrf_token e r s, w)
      | (Inl (HTTPException code detail), s, w) \<Rightarrow>
          (Ok (Forbidden code detail (uuid e 0)), issue_csrf_token e r s, w)
      | (Inl err, s, w) \<Rightarrow>
          (case call_next r w of
             (Inl err', w') \<Rightarrow> (Err err', s, w')
           | (Inr x, w') \<Rightarrow> (Ok (Answer x None), s, w')))"

section \<open>Which tokens are accepted\<close>

text \<open>The operations on the store, with their clock reading.\<close>

datatype csrf_op =
    Issue time string "string option"
  | Validate time string "string option"
  | Cleanup time

fun csrf_do :: "csrf_op \<Rightarrow> csrf_store \<Rightarrow> csrf_store" where
  "csrf_do (Issue t tok sid) s = generate_csrf_token t tok sid s"
| "csrf_do (Validate t tok sid) s = snd (validate_csrf_token t tok sid s)"
| "csrf_do (Cleanup t) s = cleanup_expired_tokens t s"

fun op_time :: "csrf_op \<Rightarrow> time" where
  "op_time (Issue t tok sid) = t"
| "op_time (Validate t tok sid) = t"
| "op_time (Cleanup t) = t"

fun issued_token :: "csrf_op \<Rightarrow> string option" where
  "issued_token (Issue t tok sid) = Some tok"
| "issued_token op = None"

definition issued :: "csrf_op list \<Rightarrow> string list" where
  "issued ops = List.map_filter issued_token ops"

text \<open>The store holds only what was issued, and everything issued that has not expired by \<open>T\<close>.\<close>

definition store_exact :: "csrf_op list \<Rightarrow> time \<Rightarrow> csrf_store \<Rightarrow> bool" where
  "store_exact ops T s \<longleftrightarrow>
     (\<forall>tok d. dget s tok = Some d \<longrightarrow>
        (\<exists>sid. Issue (ct_created d) tok sid \<in> set ops \<and> ct_session d = session_name sid)) \<and>
     (\<forall>t tok sid. Issue t tok sid \<in> set ops \<and> T - t \<le> token_ttl \<longrightarrow>
        dget s tok = Some \<lparr>ct_session = session_name sid, ct_created = t\<rparr>)"

lemma dget_fold_ddel: "dget (fold ddel ks s) k = (if k \<in> set ks then None else dget s k)"
  by (induction ks arbitrary: s) auto

lemma dict_ok_fold_ddel: "dict_ok s \<Longrightarrow> dict_ok (fold ddel ks s)"
  by (induction ks arbitrary: s) auto

lemma cleanup_dget:
  assumes "dict_ok s"
  shows "dget (cleanup_expired_tokens now s) tok =
     (case dget s tok of None \<Rightarrow> None | Some d \<Rightarrow> if now - ct_created d > token_ttl then None else Some d)"
proof -
  have m: "(tok, d) \<in> set s \<longleftrightarrow> dget s tok = Some d" for d
    using assms by (simp add: dict_ok_def)
  have "tok \<in> set (map fst (filter (\<lambda>(t, d). now - ct_created d > token_ttl) s)) \<longleftrightarrow>
      (\<exists>d. (tok, d) \<in> set s \<and> now - ct_created d > token_ttl)" by force
  then show ?thesis unfolding cleanup_expired_tokens_def dget_fold_ddel m by (auto split: option.splits)
qed

lemma csrf_do_ok: "dict_ok s \<Longrightarrow> dict_ok (csrf_do op s)"
  by (cases op) (auto simp: generate_csrf_token_def validate_csrf_token_def cleanup_expired_tokens_def
      dict_ok_fold_ddel split: option.split)

interpretation csrf: preserved csrf_do dict_ok
  by unfold_locales (rule csrf_do_ok)

lemma issued_iff: "tok \<in> set (issued ops) \<longleftrightarrow> (\<exists>t sid. Issue t tok sid \<in> set ops)"
proof -
  have "issued_token op = Some tok \<longleftrightarrow> (\<exists>t sid. op = Issue t tok sid)" for op by (cases op) auto
  then show ?thesis by (force simp: issued_def List.map_filter_def)
qed

lemma store_exact_dset:
  assumes "store_exact ops T s" "tok \<notin> set (issued ops)"
  shows "store_exact (ops @ [Issue t tok sid]) T (dset tok \<lparr>ct_session = session_name sid, ct_created = t\<rparr> s)"
  using assms unfolding store_exact_def issued_iff by (auto split: if_splits)

lemma store_exact_less:
  assumes "store_exact ops T s" "T \<le> T'"
    and "\<And>tok. dget s' tok = dget s tok \<or> dget s' tok = None \<and> (\<forall>d. dget s tok = Some d \<longrightarrow> T' - ct_created d > token_ttl)"
    and "issued_token op = None"
  shows "store_exact (ops @ [op]) T' s'"
proof -
  have i: "Issue t tok sid \<in> set (ops @ [op]) \<longleftrightarrow> Issue t tok sid \<in> set ops" for t tok sid
    using assms(4) by (cases op) auto
  show ?thesis unfolding store_exact_def i
  proof (intro conjI allI impI, goal_cases)
    case (1 tok d)
    then have "dget s tok = Some d" using assms(3) [of tok] by auto
    then show ?case using assms(1) unfolding store_exact_def by blast
  next
    case (2 t tok sid)
    then have d: "dget s tok = Some \<lparr>ct_session = session_name sid, ct_created = t\<rparr>"
      using assms(1,2) unfolding store_exact_def by auto
    then show ?case using assms(3) [of tok] 2 by auto
  qed
qed

lemma store_exact_later: "store_exact ops T s \<Longrightarrow> T \<le> T' \<Longrightarrow> store_exact ops T' s"
proof -
  assume a: "store_exact ops T s" "T \<le> T'"
  have "T - t \<le> token_ttl" if "T' - t \<le> token_ttl" for t using a(2) that by linarith
  then show ?thesis using a(1) unfolding store_exact_def by simp
qed

lemma store_exact_do:
  assumes "store_exact ops T s" "dict_ok s" "T \<le> op_time op" "distinct (issued (ops @ [op]))"
  shows "store_exact (ops @ [op]) (op_time op) (csrf_do op s)"
proof (cases op)
  case (Issue t tok sid)
  then have "tok \<notin> set (issued ops)" using assms(4) by (auto simp: issued_def List.map_filter_def)
  from store_exact_dset [OF store_exact_later [OF assms(1,3)] this] show ?thesis
    by (simp add: Issue generate_csrf_token_def)
next
  case (Validate t tok sid)
  show ?thesis unfolding Validate
    by (rule store_exact_less [OF assms(1)])
      (use assms(3) Validate in \<open>auto simp: validate_csrf_token_def split: option.splits\<close>)
next
  case (Cleanup t)
  show ?thesis unfolding Cleanup
    by (rule store_exact_less [OF assms(1)])
      (use assms(2,3) Cleanup in \<open>auto simp: cleanup_dget split: option.splits\<close>)
qed

lemma store_exact_run:
  assumes "sorted (map op_time ops)" "distinct (issued ops)" "\<forall>op \<in> set ops. op_time op \<le> T"
  shows "store_exact ops T (fold csrf_do ops [])"
  using assms
proof (induction ops arbitrary: T rule: rev_induct)
  case Nil
  then show ?case by (simp add: store_exact_def)
next
  case (snoc op ops)
  have "store_exact ops (op_time op) (fold csrf_do ops [])"
    by (rule snoc.IH) (use snoc.prems in \<open>auto simp: sorted_append issued_def List.map_filter_def\<close>)
  then have "store_exact (ops @ [op]) (op_time op) (csrf_do op (fold csrf_do ops []))"
    by (rule store_exact_do) (use snoc.prems(2) csrf.run_inv [of "[]" ops] in auto)
  then show ?case using store_exact_later [of _ "op_time op" _ T] snoc.prems(3) by simp
qed

lemma check_passes:
  "fst (check_csrf_protection e r s) = Ok () \<longleftrightarrow>
    \<not> requires_csrf_protection r \<or>
    (\<exists>tok. request_token r = Ok (Some tok) \<and> tok \<noteq> [] \<and> fst (validate_csrf_token (clock e 0) tok (cq_cookie r) s))"
proof -
  have "(case p of (ok, s') \<Rightarrow> if ok then (Ok (), f s') else (Err x, s')) = (if fst p then (Ok (), f (snd p)) else (Err x, snd p))"
    for p :: "bool \<times> csrf_store" and f x by (cases p) simp
  then show ?thesis unfolding check_csrf_protection_def present_def
    by (auto split: sum.splits)
qed

text \<open>C39: A request passes the CSRF check exactly if it needs none or carries, in the header or else in the form,
  a token that was issued at most an hour before to a request with the same session, where all requests
  without a session count as one: after any sequence of issues of fresh tokens, checks and clean-ups in
  the order of time, no other token is accepted and none of these is forgotten. Where the
  check raises an HTTPException, that is the answer, and the server does not see the request.\<close>

theorem csrf_exact:
  assumes "sorted (map op_time ops)" "distinct (issued ops)" "\<forall>op \<in> set ops. op_time op \<le> clock e 0"
  shows "(fst (check_csrf_protection e r (fold csrf_do ops [])) = Ok () \<longleftrightarrow>
      \<not> requires_csrf_protection r \<or>
      (\<exists>tok t sid. request_token r = Ok (Some tok) \<and> tok \<noteq> [] \<and> Issue t tok sid \<in> set ops \<and>
         session_name sid = session_name (cq_cookie r) \<and> clock e 0 - t \<le> token_ttl)) \<and>
    (case fst (check_csrf_protection e r (fold csrf_do ops [])) of
       Inl (HTTPException code detail) \<Rightarrow>
         (\<exists>s. csrf_protection_middleware e call_next r (fold csrf_do ops [], w) =
            (Ok (Forbidden code detail (uuid e 0)), s, w))
     | _ \<Rightarrow> True)"
proof
  let ?s = "fold csrf_do ops []"
  have x: "store_exact ops (clock e 0) ?s" by (rule store_exact_run [OF assms])
  have valid: "fst (validate_csrf_token (clock e 0) tok (cq_cookie r) ?s) \<longleftrightarrow>
      tok \<noteq> [] \<and> (\<exists>t sid. Issue t tok sid \<in> set ops \<and> session_name sid = session_name (cq_cookie r) \<and>
        clock e 0 - t \<le> token_ttl)" (is "?V \<longleftrightarrow> ?R") for tok
  proof
    assume ?V
    then obtain d where d: "dget ?s tok = Some d" "clock e 0 - ct_created d \<le> token_ttl"
        "ct_session d = session_name (cq_cookie r)" "tok \<noteq> []"
      by (auto simp: validate_csrf_token_def split: option.splits if_splits)
    obtain sid where "Issue (ct_created d) tok sid \<in> set ops" "ct_session d = session_name sid"
      using x d(1) unfolding store_exact_def by meson
    then show ?R using d by auto
  next
    assume ?R
    then obtain t sid where i: "tok \<noteq> []" "Issue t tok sid \<in> set ops" "session_name sid = session_name (cq_cookie r)"
        "clock e 0 - t \<le> token_ttl" by blast
    then have "dget ?s tok = Some \<lparr>ct_session = session_name sid, ct_created = t\<rparr>"
      using x unfolding store_exact_def by blast
    then show ?V using i by (simp add: validate_csrf_token_def)
  qed
  show "fst (check_csrf_protection e r ?s) = Ok () \<longleftrightarrow>
      \<not> requires_csrf_protection r \<or>
      (\<exists>tok t sid. request_token r = Ok (Some tok) \<and> tok \<noteq> [] \<and> Issue t tok sid \<in> set ops \<and>
         session_name sid = session_name (cq_cookie r) \<and> clock e 0 - t \<le> token_ttl)"
    unfolding check_passes valid by blast
  show "case fst (check_csrf_protection e r ?s) of
       Inl (HTTPException code detail) \<Rightarrow>
         (\<exists>s. csrf_protection_middleware e call_next r (?s, w) =
            (Ok (Forbidden code detail (uuid e 0)), s, w))
     | _ \<Rightarrow> True"
    by (cases "check_csrf_protection e r ?s")
      (auto simp: csrf_protection_middleware_def call_guarded_def split: sum.split py_error.split)
qed

text \<open>Where the server raises anything but an HTTPException, the middleware calls it again with the same
  request, in the state the first call left: what the first call did before it failed is done twice, and
  the client gets the outcome of the second call.\<close>

theorem csrf_calls_twice:
  assumes "fst (check_csrf_protection e r s) = Ok ()" "call_next r w = (Err err, w1)"
    and "case err of HTTPException code detail \<Rightarrow> False | _ \<Rightarrow> True"
  shows "csrf_protection_middleware e call_next r (s, w) =
    (case call_next r w1 of
       (Inl err', w2) \<Rightarrow> (Err err', snd (check_csrf_protection e r s), w2)
     | (Inr x, w2) \<Rightarrow> (Ok (Answer x None), snd (check_csrf_protection e r s), w2))"
  using assms by (cases "check_csrf_protection e r s")
    (auto simp: csrf_protection_middleware_def call_guarded_def split: py_error.splits prod.split sum.split)

definition demo_request :: csrf_request where
  "demo_request = \<lparr>cq_host = None, cq_method = ''POST'', cq_path = ''/api/transfers'', cq_header = Some ''t1'',
     cq_content = [], cq_form = Ok None, cq_cookie = Some ''s''\<rparr>"

lemma csrf_exact_witness:
  "fst (check_csrf_protection env0 demo_request (fold csrf_do [Issue 0 ''t1'' (Some ''s'')] [])) = Ok ()"
proof -
  have r: "requires_csrf_protection demo_request" "request_token demo_request = Ok (Some ''t1'')"
    "cq_cookie demo_request = Some ''s''" by code_simp+
  have "sorted (map op_time [Issue 0 ''t1'' (Some ''s'')])" "distinct (issued [Issue 0 ''t1'' (Some ''s'')])"
    "\<forall>op \<in> set [Issue 0 ''t1'' (Some ''s'')]. op_time op \<le> clock env0 0"
    by (simp_all add: issued_def List.map_filter_def)
  from conjunct1 [OF csrf_exact [OF this, of demo_request]] show ?thesis using r
    by (auto simp: token_ttl_def)
qed

lemma csrf_calls_twice_witness:
  "csrf_protection_middleware env0 (\<lambda>r n. (Err (ValueError ''x''), n + 1)) (demo_request\<lparr>cq_method := ''GET''\<rparr>) ([], 0 :: nat) =
     (Err (ValueError ''x'') :: unit csrf_reply result, [], 2)"
proof -
  have "check_csrf_protection env0 (demo_request\<lparr>cq_method := ''GET''\<rparr>) [] = (Ok (), [])" by code_simp
  then show ?thesis
    by (subst csrf_calls_twice [where err = "ValueError ''x''" and w = 0 and ?w1.0 = 1]) simp_all
qed

end
