(* ===== verification/Request_Signing.thy ===== *)
theory Request_Signing
  imports PyJson
begin

text \<open>
  Request signatures (\<open>backend/app/security/request_signing.py\<close>). The keyed hash of a text, in
  hexadecimal, is the argument \<open>mac\<close>; a body is a dictionary, of which the JSON text is signed, or a text.
  The verification keeps no state: nothing remembers the nonces it has seen.

  The lemmas: the five parts of what is signed can be read back from it when method, endpoint and nonce hold
  no line break; a signature is accepted for the request it was made for, in the five minutes around its
  timestamp, and for no other.
\<close>

section \<open>Signing and verifying\<close>

datatype sign_body = BDict "(string \<times> pyval) list" | BText string

record signature =
  sg_signature :: string
  sg_timestamp :: string
  sg_nonce :: string
  sg_algorithm :: string

definition signature_ttl :: int where
  "signature_ttl = 300"

definition newline :: char where
  "newline = CHR 0x0A"

definition body_text :: "sign_body \<Rightarrow> string" where
  "body_text b = (case b of BDict d \<Rightarrow> json_dumps (VDict d) | BText s \<Rightarrow> s)"

definition signed_text :: "string \<Rightarrow> string \<Rightarrow> string \<Rightarrow> int \<Rightarrow> string \<Rightarrow> string" where
  "signed_text m ep body ts nonce =
     m @ newline # ep @ newline # body @ newline # str_int ts @ newline # nonce"

text \<open>\<open>timestamp or now\<close>, \<open>nonce or uuid\<close>: zero and the empty text count as missing.\<close>

definition generate_signature ::
  "(string \<Rightarrow> string) \<Rightarrow> env \<Rightarrow> string \<Rightarrow> string \<Rightarrow> sign_body \<Rightarrow> int option \<Rightarrow> string option \<Rightarrow> signature" where
  "generate_signature mac e m ep body ts nonce =
     (let t = (case ts of Some t \<Rightarrow> if t = 0 then whole_seconds (clock e 0) else t | None \<Rightarrow> whole_seconds (clock e 0));
          n = (case nonce of Some n \<Rightarrow> if n = [] then uuid e 0 else n | None \<Rightarrow> uuid e 0)
      in \<lparr>sg_signature = mac (signed_text m ep (body_text body) t n), sg_timestamp = str_int t,
          sg_nonce = n, sg_algorithm = ''sha256''\<rparr>)"

text \<open>\<open>compare_digest\<close> takes texts of ASCII characters only.\<close>

definition ascii :: "string \<Rightarrow> bool" where
  "ascii s = list_all (\<lambda>c. (of_char c :: nat) < 128) s"

definition compare_digest :: "string \<Rightarrow> string \<Rightarrow> bool result" where
  "compare_digest a b =
     (if ascii a \<and> ascii b then Ok (a = b)
      else Err (TypeError ''comparing strings with non-ASCII characters is not supported''))"

definition verify_signature ::
  "(string \<Rightarrow> string) \<Rightarrow> env \<Rightarrow> string \<Rightarrow> string \<Rightarrow> string \<Rightarrow> string \<Rightarrow> string \<Rightarrow> sign_body \<Rightarrow> (bool \<times> string) result" where
  "verify_signature mac e m ep signature timestamp nonce body =
     (case parse_int timestamp of
        None \<Rightarrow> Ok (False, ''Invalid timestamp format'')
      | Some ts \<Rightarrow>
          if \<bar>whole_seconds (clock e 0) - ts\<bar> > signature_ttl then Ok (False, ''Request signature expired'')
          else case compare_digest signature
                      (sg_signature (generate_signature mac (later 1 e) m ep body (Some ts) (Some nonce))) of
                 Inl err \<Rightarrow> Err err
               | Inr ok \<Rightarrow> Ok (if ok then (True, ''Signature valid'') else (False, ''Signature verification failed'')))"

record signed_request =
  sr_method :: string
  sr_endpoint :: string
  sr_body :: "(string \<times> pyval) list"
  sr_headers :: "(string, string) dict"

definition create_signed_request ::
  "(string \<Rightarrow> string) \<Rightarrow> env \<Rightarrow> string \<Rightarrow> string \<Rightarrow> (string \<times> pyval) list option \<Rightarrow> signed_request" where
  "create_signed_request mac e m ep body =
     (let b = (case body of Some d \<Rightarrow> d | None \<Rightarrow> []);
          s = generate_signature mac e m ep (BDict b) None None
      in \<lparr>sr_method = m, sr_endpoint = ep, sr_body = b,
          sr_headers = [(''X-Signature'', sg_signature s), (''X-Timestamp'', sg_timestamp s),
                        (''X-Nonce'', sg_nonce s), (''X-Algorithm'', sg_algorithm s)]\<rparr>)"

section \<open>What a signature binds\<close>

text \<open>A text without line breaks in front of a line break, or behind the last one, is determined.\<close>

lemma line_split:
  assumes "newline \<notin> set a" "newline \<notin> set a'" "a @ newline # r = a' @ newline # r'"
  shows "a = a'" and "r = r'"
proof -
  have "takeWhile (\<lambda>c. c \<noteq> newline) (x @ newline # y) = x" if "newline \<notin> set x" for x y
    using that by (induction x) auto
  then show "a = a'" using assms by metis
  then show "r = r'" using assms(3) by simp
qed

lemma line_split_last:
  assumes "newline \<notin> set b" "newline \<notin> set b'" "r @ newline # b = r' @ newline # b'"
  shows "b = b'" and "r = r'"
proof -
  have "rev b @ newline # rev r = rev b' @ newline # rev r'" using arg_cong [OF assms(3), of rev] by simp
  from line_split [OF _ _ this] assms(1,2) show "b = b'" "r = r'" by simp_all
qed

lemma str_int_no_newline: "newline \<notin> set (str_int n)"
proof -
  have "digit_value newline = None" by (simp add: digit_value_def newline_def)
  then have "newline \<notin> set (str_nat k)" if "0 \<le> k" for k using str_nat_digits [OF that, of newline] by auto
  moreover have "newline \<noteq> CHR ''-''" by (simp add: newline_def)
  ultimately show ?thesis by (auto simp: str_int_def)
qed

definition clean :: "string \<Rightarrow> bool" where
  "clean s \<longleftrightarrow> newline \<notin> set s"

lemma signed_text_inject:
  assumes "clean m" "clean m'" "clean ep" "clean ep'" "clean n" "clean n'"
    and "signed_text m ep b ts n = signed_text m' ep' b' ts' n'"
  shows "m = m' \<and> ep = ep' \<and> b = b' \<and> ts = ts' \<and> n = n'"
proof -
  note c = assms(1-6) [unfolded clean_def]
  note s = assms(7) [unfolded signed_text_def]
  note l1 = line_split [OF c(1,2) s]
  note l2 = line_split [OF c(3,4) l1(2)]
  have "(b @ newline # str_int ts) @ newline # n = (b' @ newline # str_int ts') @ newline # n'" using l2(2) by simp
  note l3 = line_split_last [OF c(5,6) this]
  note l4 = line_split_last [OF str_int_no_newline str_int_no_newline l3(2)]
  have "ts = ts'" using arg_cong [OF l4(1), of parse_int] by (simp add: parse_str_int)
  then show ?thesis using l1(1) l2(1) l3(1) l4(2) by simp
qed

text \<open>C40: Take a keyed hash without collisions that is written in ASCII, and methods, endpoints and nonces without
  line breaks. The signature of a request, made with a timestamp and a nonce, is accepted for exactly that
  request: the verification succeeds if and only if method, endpoint, text of the body, timestamp and nonce are
  those that were signed and the clock is within five minutes of the timestamp, before or after. It
  succeeds as often as it is asked: a replay in that time is accepted.\<close>

theorem signature_exact:
  assumes "inj mac" "\<And>x. ascii (mac x)"
    and "clean m" "clean m'" "clean ep" "clean ep'" "clean n" "clean n'" "n \<noteq> []" "n' \<noteq> []" "t \<noteq> 0" "t' \<noteq> 0"
  shows "verify_signature mac e' m' ep' (sg_signature (generate_signature mac e m ep b (Some t) (Some n))) (str_int t') n' b' =
      Ok (True, ''Signature valid'') \<longleftrightarrow>
    m' = m \<and> ep' = ep \<and> body_text b' = body_text b \<and> t' = t \<and> n' = n \<and>
    \<bar>whole_seconds (clock e' 0) - t\<bar> \<le> signature_ttl"
proof -
  have "mac (signed_text m ep (body_text b) t n) = mac (signed_text m' ep' (body_text b') t' n') \<longleftrightarrow>
      m = m' \<and> ep = ep' \<and> body_text b = body_text b' \<and> t = t' \<and> n = n'"
    using signed_text_inject [OF assms(3-8)] injD [OF assms(1)] by metis
  then show ?thesis using assms(2,9-12)
    by (auto simp: verify_signature_def generate_signature_def compare_digest_def parse_str_int Let_def split: if_splits)
qed

text \<open>A hash without collisions, for a concrete run: two hexadecimal digits for each character.\<close>

definition hex_mac :: "string \<Rightarrow> string" where
  "hex_mac s = concat (map (\<lambda>c. [hex_char (of_char c div 16), hex_char (of_char c mod 16)]) s)"

lemma hex_char_code: "a < 16 \<Longrightarrow> (of_char (hex_char a) :: nat) = (if a < 10 then 48 + a else 87 + a)"
  by (simp add: hex_char_def)

lemma hex_char_inj: "a < 16 \<Longrightarrow> b < 16 \<Longrightarrow> hex_char a = hex_char b \<Longrightarrow> a = b"
proof -
  assume a: "a < 16" "b < 16" "hex_char a = hex_char b"
  have "(if a < 10 then 48 + a else 87 + a) = (of_char (hex_char a) :: nat)" by (simp add: hex_char_code a(1))
  also have "\<dots> = (if b < 10 then 48 + b else 87 + b)" unfolding a(3) by (rule hex_char_code [OF a(2)])
  finally show "a = b" using a(1,2) by (simp split: if_splits)
qed

lemma nibbles: "(of_char c :: nat) div 16 < 16" "(of_char c :: nat) mod 16 < 16"
  using nat_of_char_less_256 [of c] by (simp_all add: less_mult_imp_div_less)

lemma hex_mac_inj: "inj hex_mac"
proof (rule injI)
  fix s t assume "hex_mac s = hex_mac t"
  then show "s = t"
  proof (induction s arbitrary: t)
    case Nil
    then show ?case by (cases t) (simp_all add: hex_mac_def)
  next
    case (Cons c s)
    then obtain d t' where t: "t = d # t'" by (cases t) (simp_all add: hex_mac_def)
    have e: "hex_char (of_char c div 16) = hex_char (of_char d div 16)" "hex_char (of_char c mod 16) = hex_char (of_char d mod 16)"
      "hex_mac s = hex_mac t'" using Cons.prems t by (simp_all add: hex_mac_def)
    have "(of_char c :: nat) div 16 = of_char d div 16" "(of_char c :: nat) mod 16 = of_char d mod 16"
      using hex_char_inj nibbles e(1,2) by blast+
    then have "(of_char c :: nat) = of_char d" by (metis div_mult_mod_eq)
    then show ?case using Cons.IH [OF e(3)] t by simp
  qed
qed

lemma hex_mac_ascii: "ascii (hex_mac s)"
proof (induction s)
  case (Cons c s)
  have "(of_char (hex_char k) :: nat) < 128" if "k < 16" for k using hex_char_code [OF that] that by simp
  then show ?case using Cons nibbles [of c] by (simp add: hex_mac_def ascii_def)
qed (simp add: hex_mac_def ascii_def)

lemma signature_exact_witness:
  "verify_signature hex_mac env0 ''POST'' ''/api/transfers''
     (sg_signature (generate_signature hex_mac env0 ''POST'' ''/api/transfers'' (BText ''b'') (Some 7) (Some ''n'')))
     (str_int 7) ''n'' (BText ''b'') = Ok (True, ''Signature valid'')"
  by (subst signature_exact [OF hex_mac_inj hex_mac_ascii])
    (simp_all add: clean_def newline_def whole_seconds_def signature_ttl_def)

text \<open>Without the condition on line breaks one signature serves two requests.\<close>

lemma line_break_ambiguous:
  "signed_text m (ep @ newline # x) b t n = signed_text m ep (x @ newline # b) t n"
  by (simp add: signed_text_def)

end
