(* ===== verification/Matching.thy ===== *)
theory Matching
  imports Py_Cell
begin

text \<open>
  The match algorithms of the data quality package
  (\<open>backend/app/risk_management/data_quality/utils/match_algorithms.py\<close>): normalisation, edit distance, the
  similarities of Jaro and Winkler, Soundex, and the weighted score of two records. Scores are decimals made from
  the text of a float, as in the code; \<open>round\<close> to four places is correctly rounded.

  The theory Edit_Distance proves the edit distance right.
\<close>

section \<open>Texts\<close>

text \<open>\<open>re.sub(r"\s+", " ", s)\<close>\<close>

fun collapse :: "bool \<Rightarrow> string \<Rightarrow> string" where
  "collapse gap [] = []"
| "collapse gap (c # cs) =
     (if blank c then (if gap then collapse True cs else CHR '' '' # collapse True cs) else c # collapse False cs)"

definition normalize_text :: "string \<Rightarrow> string" where
  "normalize_text s = collapse False (py_lower (py_strip s))"

definition zero_score :: decimal where
  "zero_score = Dec 0 0"

definition one_score :: decimal where
  "one_score = Dec 1 0"

text \<open>\<open>Decimal(str(round(x, 4)))\<close>\<close>

definition round4 :: "rat \<Rightarrow> rat" where
  "round4 x = double (of_int (round_even (10000 * x)) / 10000)"

definition score4 :: "rat \<Rightarrow> decimal" where
  "score4 x = float_dec (round4 x)"

definition exact_match :: "string option \<Rightarrow> string option \<Rightarrow> decimal" where
  "exact_match a b =
     (case (a, b) of
        (Some s, Some t) \<Rightarrow> if normalize_text s = normalize_text t then one_score else zero_score
      | _ \<Rightarrow> zero_score)"

section \<open>Edit distance\<close>

text \<open>The rest of a row: \<open>p\<close> and \<open>q\<close> are \<open>previous_row[j]\<close> and \<open>previous_row[j + 1]\<close>, \<open>cur\<close> is \<open>current_row[j]\<close>.\<close>

fun lev_row :: "char \<Rightarrow> string \<Rightarrow> nat list \<Rightarrow> nat \<Rightarrow> nat list" where
  "lev_row c1 (c2 # cs) (p # q # ps) cur =
     (let v = min (min (q + 1) (cur + 1)) (p + (if c1 \<noteq> c2 then 1 else 0)) in v # lev_row c1 cs (q # ps) v)"
| "lev_row c1 cs ps cur = []"

fun lev_rows :: "nat \<Rightarrow> string \<Rightarrow> string \<Rightarrow> nat list \<Rightarrow> nat list" where
  "lev_rows i [] t row = row"
| "lev_rows i (c # s) t row = lev_rows (Suc i) s t (Suc i # lev_row c t row (Suc i))"

definition lev_table :: "string \<Rightarrow> string \<Rightarrow> nat" where
  "lev_table s t =
     (let (s, t) = (if length s < length t then (t, s) else (s, t))
      in if length t = 0 then length s else last (lev_rows 0 s t [0..<Suc (length t)]))"

definition levenshtein_distance :: "string \<Rightarrow> string \<Rightarrow> nat" where
  "levenshtein_distance a b = lev_table (normalize_text a) (normalize_text b)"

definition similarity4 :: "nat \<Rightarrow> nat \<Rightarrow> decimal" where
  "similarity4 d n = score4 (double (1 - double (of_nat d / of_nat n)))"

definition fuzzy_match :: "string option \<Rightarrow> string option \<Rightarrow> decimal" where
  "fuzzy_match a b =
     (case (a, b) of
        (Some x, Some y) \<Rightarrow>
          let s = normalize_text x; t = normalize_text y
          in if s = [] \<and> t = [] then one_score
             else if s = [] \<or> t = [] then zero_score
             else similarity4 (levenshtein_distance s t) (max (length s) (length t))
      | _ \<Rightarrow> zero_score)"

section \<open>Jaro and Winkler\<close>

text \<open>The first place of the window that is free and has the character of place \<open>i\<close>.\<close>

definition jaro_window :: "nat \<Rightarrow> nat \<Rightarrow> nat \<Rightarrow> nat list" where
  "jaro_window reach n i = [i - reach..<min (i + reach + 1) n]"

definition jaro_step :: "string \<Rightarrow> string \<Rightarrow> nat \<Rightarrow> nat \<Rightarrow> bool list \<times> bool list \<Rightarrow> bool list \<times> bool list" where
  "jaro_step s t reach i ms =
     (case find (\<lambda>j. \<not> snd ms ! j \<and> s ! i = t ! j) (jaro_window reach (length t) i) of
        None \<Rightarrow> ms
      | Some j \<Rightarrow> ((fst ms)[i := True], (snd ms)[j := True]))"

definition jaro_matches :: "string \<Rightarrow> string \<Rightarrow> bool list \<times> bool list" where
  "jaro_matches s t =
     fold (jaro_step s t (max (length s) (length t) div 2 - 1)) [0..<length s]
       (replicate (length s) False, replicate (length t) False)"

text \<open>The matched characters of both texts in their order, compared place by place.\<close>

definition matched_chars :: "string \<Rightarrow> bool list \<Rightarrow> string" where
  "matched_chars s m = map fst (filter snd (zip s m))"

definition transpositions :: "string \<Rightarrow> string \<Rightarrow> bool list \<times> bool list \<Rightarrow> nat" where
  "transpositions s t ms =
     length (filter (\<lambda>(a, b). a \<noteq> b) (zip (matched_chars s (fst ms)) (matched_chars t (snd ms))))"

definition jaro_value :: "nat \<Rightarrow> nat \<Rightarrow> nat \<Rightarrow> nat \<Rightarrow> rat" where
  "jaro_value m tr n1 n2 =
     double (double (double (double (of_nat m / of_nat n1) + double (of_nat m / of_nat n2))
       + double (double (of_nat m - of_nat tr / 2) / of_nat m)) / 3)"

definition jaro_similarity :: "string \<Rightarrow> string \<Rightarrow> decimal" where
  "jaro_similarity a b =
     (let s = normalize_text a; t = normalize_text b
      in if s = t then one_score
         else if s = [] \<or> t = [] then zero_score
         else let ms = jaro_matches s t; m = length (filter id (fst ms))
              in if m = 0 then zero_score
                 else score4 (jaro_value m (transpositions s t ms) (length s) (length t)))"

definition common_prefix :: "string \<Rightarrow> string \<Rightarrow> nat" where
  "common_prefix s t = length (takeWhile (\<lambda>(a, b). a = b) (take 4 (zip s t)))"

definition jaro_winkler_similarity :: "string \<Rightarrow> string \<Rightarrow> rat \<Rightarrow> decimal" where
  "jaro_winkler_similarity a b w =
     (let j = double (dval (jaro_similarity a b)); n = common_prefix (normalize_text a) (normalize_text b);
          x = double (j + double (double (of_nat n * w) * double (1 - j)))
      in score4 (min x 1))"

section \<open>Soundex\<close>

definition soundex_code :: "char \<Rightarrow> char option" where
  "soundex_code c =
     (if c \<in> set ''bfpv'' then Some CHR ''1''
      else if c \<in> set ''cgjkqsxz'' then Some CHR ''2''
      else if c \<in> set ''dt'' then Some CHR ''3''
      else if c = CHR ''l'' then Some CHR ''4''
      else if c \<in> set ''mn'' then Some CHR ''5''
      else if c = CHR ''r'' then Some CHR ''6''
      else None)"

fun soundex_codes :: "char option \<Rightarrow> string \<Rightarrow> string" where
  "soundex_codes prev [] = []"
| "soundex_codes prev (c # cs) =
     (case soundex_code c of
        None \<Rightarrow> soundex_codes prev cs
      | Some k \<Rightarrow> (if Some k \<noteq> prev then k # soundex_codes (Some k) cs else soundex_codes (Some k) cs))"

definition small_letter :: "char \<Rightarrow> bool" where
  "small_letter c = (let n = of_char c :: nat in 97 \<le> n \<and> n \<le> 122)"

definition soundex :: "string \<Rightarrow> string" where
  "soundex a =
     (case filter small_letter (py_lower (normalize_text a)) of
        [] \<Rightarrow> []
      | c # cs \<Rightarrow>
          let coded = take 4 (upper_char c # soundex_codes (soundex_code c) cs)
          in coded @ replicate (4 - length coded) CHR ''0'')"

definition phonetic_match :: "string \<Rightarrow> string \<Rightarrow> decimal" where
  "phonetic_match a b =
     (let s = soundex a; t = soundex b
      in if s = [] \<or> t = [] then zero_score
         else if s = t then one_score
         else float_dec (double (of_nat (length (filter (\<lambda>(x, y). x = y) (zip s t))) / 4)))"

section \<open>Records\<close>

record field_config =
  fc_field :: string
  fc_type :: "string option"
  fc_weight :: "decimal option" \<comment> \<open>Decimal(str(weight))\<close>

record match_result =
  mr_first :: string
  mr_second :: string
  mr_score :: decimal
  mr_fields :: "(string, decimal) dict"
  mr_match :: bool
  mr_confidence :: string

definition text_of :: "cell \<Rightarrow> string" where
  "text_of v = (if cell_true v then cell_str v else [])"

definition field_score :: "string option \<Rightarrow> string \<Rightarrow> string \<Rightarrow> decimal" where
  "field_score kind a b =
     (if kind = Some ''fuzzy'' then fuzzy_match (Some a) (Some b)
      else if kind = Some ''jaro_winkler'' then jaro_winkler_similarity a b (double (1 / 10))
      else if kind = Some ''phonetic'' then phonetic_match a b
      else exact_match (Some a) (Some b))"

fun weigh :: "(string, cell) dict \<Rightarrow> (string, cell) dict \<Rightarrow> field_config list
   \<Rightarrow> (string, decimal) dict \<times> decimal \<times> decimal \<Rightarrow> (string, decimal) dict \<times> decimal \<times> decimal" where
  "weigh r1 r2 [] acc = acc"
| "weigh r1 r2 (c # cs) (scores, sm, tot) =
     (let w = (case fc_weight c of None \<Rightarrow> Dec 10 (- 1) | Some w \<Rightarrow> w);
          s = field_score (fc_type c) (text_of (dget_or r1 (fc_field c) CNone)) (text_of (dget_or r2 (fc_field c) CNone))
      in weigh r1 r2 cs (dset (fc_field c) s scores, dec_add sm (dec_mul s w), dec_add tot w))"

definition confidence_level :: "decimal \<Rightarrow> string" where
  "confidence_level x =
     (if \<not> dec_less x (Dec 95 (- 2)) then ''high''
      else if \<not> dec_less x (Dec 85 (- 2)) then ''medium''
      else if \<not> dec_less x (Dec 70 (- 2)) then ''low''
      else ''no_match'')"

definition composite_match ::
  "decimal \<Rightarrow> (string, cell) dict \<Rightarrow> (string, cell) dict \<Rightarrow> field_config list \<Rightarrow> match_result" where
  "composite_match threshold r1 r2 cs =
     (case weigh r1 r2 cs ([], zero_score, zero_score) of
        (scores, sm, tot) \<Rightarrow>
          let x = (if dec_less (Dec 0 0) tot then dec_div sm tot else zero_score)
          in \<lparr>mr_first = cell_str (dget_or r1 ''id'' (CStr [])), mr_second = cell_str (dget_or r2 ''id'' (CStr [])),
              mr_score = x, mr_fields = scores, mr_match = (\<not> dec_less x threshold), mr_confidence = confidence_level x\<rparr>)"

end
