(* ===== verification/Edit_Distance.thy ===== *)
theory Edit_Distance
  imports Matching
begin

text \<open>
  The table of the match algorithms computes the edit distance: the least number of insertions, deletions and
  substitutions of one character that lead from one text to the other.
\<close>

section \<open>Edit steps\<close>

inductive edit_step :: "'a list \<Rightarrow> 'a list \<Rightarrow> bool" where
  insert_char: "edit_step (u @ v) (u @ a # v)"
| delete_char: "edit_step (u @ a # v) (u @ v)"
| replace_char: "edit_step (u @ a # v) (u @ b # v)"

definition edit_distance :: "'a list \<Rightarrow> 'a list \<Rightarrow> nat" where
  "edit_distance s t = (LEAST n. (edit_step ^^ n) s t)"

section \<open>The recursion\<close>

fun edit_count :: "'a list \<Rightarrow> 'a list \<Rightarrow> nat" where
  "edit_count [] t = length t"
| "edit_count (a # s) [] = Suc (length s)"
| "edit_count (a # s) (b # t) = min (min (edit_count s (b # t) + 1) (edit_count (a # s) t + 1)) (edit_count s t + (if a \<noteq> b then 1 else 0))"

lemma edit_Nil2 [simp]: "edit_count s [] = length s"
  by (cases s) simp_all

lemma edit_Cons1: "edit_count (a # s) t \<le> edit_count s t + 1"
  by (cases t) simp_all

lemma edit_Cons2: "edit_count s (b # t) \<le> edit_count s t + 1"
  by (cases s) simp_all

text \<open>One step changes the distance by one at most: at the head, then behind a common prefix.\<close>

lemma edit_drop: "edit_count s t \<le> edit_count (a # s) t + 1"
proof (induction t)
  case (Cons b t)
  then show ?case using edit_Cons2 [of s b t] by simp
qed simp

lemma edit_replace: "edit_count (a # s) t \<le> edit_count (b # s) t + 1"
proof (induction t)
  case (Cons c t)
  have d: "edit_count (a # s) (c # t) \<le> edit_count s (c # t) + 1" "edit_count (a # s) (c # t) \<le> edit_count (a # s) t + 1"
    "edit_count (a # s) (c # t) \<le> edit_count s t + 1" by (simp_all add: min_def)
  have e: "edit_count (b # s) (c # t) = edit_count s (c # t) + 1 \<or> edit_count (b # s) (c # t) = edit_count (b # s) t + 1 \<or>
      edit_count s t \<le> edit_count (b # s) (c # t)" unfolding edit_count.simps(3) by (simp add: min_def)
  from d e Cons.IH show ?case by linarith
qed simp

lemma edit_context: "(\<And>t. edit_count s t \<le> edit_count s' t + 1) \<Longrightarrow> edit_count (a # s) t \<le> edit_count (a # s') t + 1"
proof (induction t)
  case Nil
  then have "edit_count s [] \<le> edit_count s' [] + 1" by blast
  then show ?case by simp
next
  case (Cons b t)
  have "edit_count s (b # t) \<le> edit_count s' (b # t) + 1" "edit_count s t \<le> edit_count s' t + 1" "edit_count (a # s) t \<le> edit_count (a # s') t + 1"
    using Cons by blast+
  then show ?case by simp
qed

lemma edit_prefix: "(\<And>t. edit_count s t \<le> edit_count s' t + 1) \<Longrightarrow> edit_count (u @ s) t \<le> edit_count (u @ s') t + 1"
proof (induction u arbitrary: t)
  case (Cons a u)
  then show ?case using edit_context [of "u @ s" "u @ s'" a t] by simp
qed simp

lemma edit_lipschitz: "edit_step s s' \<Longrightarrow> edit_count s t \<le> edit_count s' t + 1"
proof (induction rule: edit_step.induct)
  case (insert_char u v a)
  then show ?case by (rule edit_prefix) (rule edit_drop)
next
  case (delete_char u a v)
  then show ?case by (rule edit_prefix) (rule edit_Cons1)
next
  case (replace_char u a v b)
  then show ?case by (rule edit_prefix) (rule edit_replace)
qed

lemma edit_same [simp]: "edit_count s s = 0"
  by (induction s) simp_all

lemma edit_least: "(edit_step ^^ n) s t \<Longrightarrow> edit_count s t \<le> n"
proof (induction n arbitrary: s)
  case (Suc n)
  then obtain s' where "edit_step s s'" "(edit_step ^^ n) s' t" by (meson relpowp_Suc_E2)
  then show ?case using edit_lipschitz [of s s' t] Suc.IH [of s'] by simp
qed simp

text \<open>The steps of a distance lead there.\<close>

lemma step_Cons: "edit_step s t \<Longrightarrow> edit_step (a # s) (a # t)"
proof (induction rule: edit_step.induct)
  case (insert_char u v b)
  show ?case using edit_step.insert_char [of "a # u" v b] by simp
next
  case (delete_char u b v)
  show ?case using edit_step.delete_char [of "a # u" b v] by simp
next
  case (replace_char u b v c)
  show ?case using edit_step.replace_char [of "a # u" b v c] by simp
qed

lemma steps_Cons: "(edit_step ^^ n) s t \<Longrightarrow> (edit_step ^^ n) (a # s) (a # t)"
proof (induction n arbitrary: s)
  case (Suc n)
  then obtain s' where "edit_step s s'" "(edit_step ^^ n) s' t" by (meson relpowp_Suc_E2)
  then show ?case using step_Cons [of s s' a] Suc.IH [of s'] by (meson relpowp_Suc_I2)
qed simp

lemma steps_insert: "(edit_step ^^ length t) [] t"
proof (induction t)
  case (Cons b t)
  have "edit_step t (b # t)" using edit_step.insert_char [of "[]" t b] by simp
  with Cons show ?case by (auto intro: relpowp_Suc_I)
qed simp

lemma steps_delete: "(edit_step ^^ length s) s []"
proof (induction s)
  case (Cons a s)
  have "edit_step (a # s) s" using edit_step.delete_char [of "[]" a s] by simp
  from relpowp_Suc_I2 [OF this Cons.IH] show ?case by simp
qed simp

lemma steps_edit: "(edit_step ^^ edit_count s t) s t"
proof (induction s t rule: edit_count.induct)
  case (1 t)
  then show ?case using steps_insert [of t] by simp
next
  case (2 a s)
  then show ?case using steps_delete [of "a # s"] by simp
next
  case (3 a s b t)
  have del: "(edit_step ^^ (edit_count s (b # t) + 1)) (a # s) (b # t)"
  proof -
    have "edit_step (a # s) s" using edit_step.delete_char [of "[]" a s] by simp
    from relpowp_Suc_I2 [OF this 3(1)] show ?thesis by simp
  qed
  have ins: "(edit_step ^^ (edit_count (a # s) t + 1)) (a # s) (b # t)"
  proof -
    have "edit_step t (b # t)" using edit_step.insert_char [of "[]" t b] by simp
    from relpowp_Suc_I [OF 3(2) this] show ?thesis by simp
  qed
  have rep: "(edit_step ^^ (edit_count s t + (if a \<noteq> b then 1 else 0))) (a # s) (b # t)"
  proof (cases "a = b")
    case True
    then show ?thesis using steps_Cons [OF 3(3), of a] by simp
  next
    case False
    have "edit_step (a # s) (b # s)" using edit_step.replace_char [of "[]" a s b] by simp
    from relpowp_Suc_I2 [OF this steps_Cons [OF 3(3), of b]] show ?thesis using False by simp
  qed
  consider "edit_count (a # s) (b # t) = edit_count s (b # t) + 1" | "edit_count (a # s) (b # t) = edit_count (a # s) t + 1"
    | "edit_count (a # s) (b # t) = edit_count s t + (if a \<noteq> b then 1 else 0)" unfolding edit_count.simps(3) by (metis min_def)
  then show ?case using del ins rep by cases simp_all
qed

lemma edit_exact: "edit_count s t = edit_distance s t"
  unfolding edit_distance_def by (rule Least_equality [symmetric]) (simp_all add: steps_edit edit_least)

section \<open>Symmetry, and the other end\<close>

lemma step_sym: "edit_step s t \<Longrightarrow> edit_step t s"
  by (induction rule: edit_step.induct) (auto intro: edit_step.intros)

lemma steps_sym: "(edit_step ^^ n) s t \<Longrightarrow> (edit_step ^^ n) t s"
proof (induction n arbitrary: s)
  case (Suc n)
  then obtain s' where "edit_step s s'" "(edit_step ^^ n) s' t" by (meson relpowp_Suc_E2)
  then show ?case using Suc.IH [of s'] step_sym by (meson relpowp_Suc_I)
qed simp

lemma step_rev: "edit_step s t \<Longrightarrow> edit_step (rev s) (rev t)"
proof (induction rule: edit_step.induct)
  case (insert_char u v a)
  show ?case using edit_step.insert_char [of "rev v" "rev u" a] by simp
next
  case (delete_char u a v)
  show ?case using edit_step.delete_char [of "rev v" a "rev u"] by simp
next
  case (replace_char u a v b)
  show ?case using edit_step.replace_char [of "rev v" a "rev u" b] by simp
qed

lemma steps_rev: "(edit_step ^^ n) s t \<Longrightarrow> (edit_step ^^ n) (rev s) (rev t)"
proof (induction n arbitrary: s)
  case (Suc n)
  then obtain s' where "edit_step s s'" "(edit_step ^^ n) s' t" by (meson relpowp_Suc_E2)
  then show ?case using Suc.IH [of s'] step_rev by (meson relpowp_Suc_I2)
qed simp

lemma edit_sym: "edit_count s t = edit_count t s"
  using edit_least steps_edit steps_sym by (metis antisym)

lemma edit_rev: "edit_count (rev s) (rev t) = edit_count s t"
  using edit_least steps_edit steps_rev by (metis antisym rev_rev_ident)

text \<open>The recursion from the last characters, which is the one of the table.\<close>

lemma edit_snoc: "edit_count (s @ [a]) (t @ [b]) =
    min (min (edit_count s (t @ [b]) + 1) (edit_count (s @ [a]) t + 1)) (edit_count s t + (if a \<noteq> b then 1 else 0))"
proof -
  have r: "edit_count x y = edit_count (rev x) (rev y)" for x y :: "'a list" by (simp add: edit_rev)
  have "edit_count (s @ [a]) (t @ [b]) = edit_count (a # rev s) (b # rev t)" by (subst r) simp
  moreover have "edit_count (rev s) (b # rev t) = edit_count s (t @ [b])" "edit_count (a # rev s) (rev t) = edit_count (s @ [a]) t"
    "edit_count (rev s) (rev t) = edit_count s t" by (simp_all add: r [of s] r [of "s @ [a]"])
  ultimately show ?thesis by (simp del: edit_rev)
qed

section \<open>The table\<close>

text \<open>A row of the table: the distances of a prefix to all prefixes of the other text.\<close>

fun row_of :: "string \<Rightarrow> string \<Rightarrow> string \<Rightarrow> nat list" where
  "row_of s d [] = [edit_count s d]"
| "row_of s d (c # cs) = edit_count s d # row_of s (d @ [c]) cs"

lemma row_of_start: "row_of [] d cs = [length d..<Suc (length d + length cs)]"
proof (induction cs arbitrary: d)
  case (Cons c cs)
  have "[length d..<Suc (length d + length (c # cs))] = length d # [Suc (length d)..<Suc (length d + length (c # cs))]"
    by (rule upt_conv_Cons) simp
  then show ?case using Cons.IH [of "d @ [c]"] by (simp del: upt_Suc)
qed simp

lemma row_of_hd: "row_of s d cs = edit_count s d # tl (row_of s d cs)"
  by (cases cs) simp_all

lemma last_row_of: "last (row_of s d cs) = edit_count s (d @ cs)"
proof (induction cs arbitrary: d)
  case (Cons c cs)
  then show ?case using row_of_hd [of s "d @ [c]" cs] by (simp del: row_of.simps add: row_of.simps(2)) (metis last_ConsR list.distinct(1))
qed simp

lemma lev_row_exact: "lev_row c cs (row_of s d cs) (edit_count (s @ [c]) d) = tl (row_of (s @ [c]) d cs)"
proof (induction cs arbitrary: d)
  case (Cons c2 cs)
  have r: "row_of s (d @ [c2]) cs = edit_count s (d @ [c2]) # tl (row_of s (d @ [c2]) cs)" by (rule row_of_hd)
  have v: "min (min (edit_count s (d @ [c2]) + 1) (edit_count (s @ [c]) d + 1)) (edit_count s d + (if c \<noteq> c2 then 1 else 0)) =
      edit_count (s @ [c]) (d @ [c2])" by (rule edit_snoc [symmetric])
  have "lev_row c (c2 # cs) (row_of s d (c2 # cs)) (edit_count (s @ [c]) d) =
      edit_count (s @ [c]) (d @ [c2]) # lev_row c cs (row_of s (d @ [c2]) cs) (edit_count (s @ [c]) (d @ [c2]))"
    unfolding row_of.simps(2) by (subst (1 2) r) (simp only: lev_row.simps Let_def v)
  also have "\<dots> = row_of (s @ [c]) (d @ [c2]) cs" unfolding Cons.IH by (rule row_of_hd [symmetric])
  finally show ?case by simp
qed simp

lemma lev_rows_exact: "lev_rows (length u) s t (row_of u [] t) = row_of (u @ s) [] t"
proof (induction s arbitrary: u)
  case (Cons c s)
  have "Suc (length u) # lev_row c t (row_of u [] t) (Suc (length u)) = row_of (u @ [c]) [] t"
    using lev_row_exact [of c t u "[]"] row_of_hd [of "u @ [c]" "[]" t] by simp
  then show ?case using Cons.IH [of "u @ [c]"] by simp
qed simp

lemma lev_table_exact: "lev_table s t = edit_count s t"
proof -
  have "(if length t = 0 then length s else last (lev_rows 0 s t [0..<Suc (length t)])) = edit_count s t" for s t
    using lev_rows_exact [of "[]" s t] row_of_start [of "[]" t] last_row_of [of s "[]" t] by auto
  then show ?thesis unfolding lev_table_def by (simp add: Let_def edit_sym split del: if_split) (simp add: edit_sym)
qed

text \<open>C37: The edit distance of the match algorithms is the least number of single-character insertions, deletions and
  substitutions that lead from the one normalised text to the other, although the code keeps only
  two rows of a table and swaps the texts; it is symmetric, zero exactly for texts that normalise to the
  same, and no larger than the longer text.\<close>

theorem levenshtein_exact:
  "levenshtein_distance a b = edit_distance (normalize_text a) (normalize_text b) \<and>
   levenshtein_distance a b = levenshtein_distance b a \<and>
   (levenshtein_distance a b = 0 \<longleftrightarrow> normalize_text a = normalize_text b) \<and>
   levenshtein_distance a b \<le> max (length (normalize_text a)) (length (normalize_text b))"
proof -
  have z: "edit_count s t = 0 \<longleftrightarrow> s = t" for s t :: string using steps_edit [of s t] by auto
  have b: "edit_count s t \<le> max (length s) (length t)" for s t :: string
    by (induction s t rule: edit_count.induct) (simp_all, linarith)
  show ?thesis unfolding levenshtein_distance_def lev_table_exact edit_exact [symmetric] using z b edit_sym by blast
qed

end
