(* ===== verification/Dedup.thy ===== *)
theory Dedup
  imports Matching Money
begin

text \<open>
  Deduplication of records (\<open>backend/app/risk_management/data_quality/utils/data_deduplication.py\<close>): exact and
  fuzzy groups of duplicates, the primary record of a group, survivorship rules for merging, removal.
  A record is a dictionary of cells; the order of a set of field names is a parameter \<open>ord\<close>. In the rules
  \<open>max\<close> and \<open>min\<close> the texts of infinite floats and NaN are not modelled.

  The theory Dedup_Exact proves what the removal keeps.
\<close>

type_synonym drec = "(string, cell) dict"

record duplicate_group =
  dg_id :: string
  dg_primary :: drec
  dg_duplicates :: "drec list"
  dg_score :: decimal
  dg_fields :: "string list"
  dg_at :: time

record dedup_result =
  dr_total :: nat
  dr_unique :: int
  dr_groups :: nat
  dr_removed :: nat
  dr_list :: "duplicate_group list"
  dr_millis :: int
  dr_at :: time

record dedup_state =
  dd_threshold :: decimal
  dd_rules :: "(string, string) dict"

definition new_dedup :: dedup_state where
  "new_dedup = \<lparr>dd_threshold = Dec 10 (- 1), dd_rules = []\<rparr>"

definition set_survivorship_rules :: "(string, string) dict \<Rightarrow> dedup_state \<Rightarrow> dedup_state" where
  "set_survivorship_rules rules s = s\<lparr>dd_rules := rules\<rparr>"

definition set_threshold :: "decimal \<Rightarrow> dedup_state \<Rightarrow> dedup_state" where
  "set_threshold x s = s\<lparr>dd_threshold := x\<rparr>"

section \<open>The primary record\<close>

definition completeness_score :: "drec \<Rightarrow> nat" where
  "completeness_score r = length (filter (\<lambda>(k, v). v \<noteq> CNone \<and> \<not> py_eq v (CStr [])) r)"

definition select_primary_record :: "drec list \<Rightarrow> drec" where
  "select_primary_record rs =
     fold (\<lambda>r best. if completeness_score best < completeness_score r then r else best) (tl rs) (hd rs)"

definition duplicates_of :: "string \<Rightarrow> drec \<Rightarrow> drec list \<Rightarrow> drec list" where
  "duplicates_of idf p rs = filter (\<lambda>r. \<not> py_eq (dget_or r idf CNone) (dget_or p idf CNone)) rs"

section \<open>Exact duplicates\<close>

definition record_key :: "string list \<Rightarrow> drec \<Rightarrow> string list" where
  "record_key ks r = map (\<lambda>f. py_strip (py_lower (cell_str (dget_or r f (CStr []))))) ks"

definition groups_by_key :: "string list \<Rightarrow> drec list \<Rightarrow> (string list, drec list) dict" where
  "groups_by_key ks data = fold (\<lambda>r g. let k = record_key ks r in dset k (dget_or g k [] @ [r]) g) data []"

text \<open>\<open>int(x * 1000)\<close> of a span in seconds as a float\<close>

definition millis :: "time \<Rightarrow> int" where
  "millis d = (let x = double (double (of_int d / 1000000) * 1000) in if 0 \<le> x then \<lfloor>x\<rfloor> else \<lceil>x\<rceil>)"

definition dedup_group :: "env \<Rightarrow> nat \<Rightarrow> string \<Rightarrow> decimal \<Rightarrow> string list \<Rightarrow> drec list \<Rightarrow> duplicate_group" where
  "dedup_group e i idf score flds rs =
     (let p = select_primary_record rs
      in \<lparr>dg_id = uuid e i, dg_primary = p, dg_duplicates = duplicates_of idf p rs, dg_score = score,
          dg_fields = flds, dg_at = clock e (Suc i)\<rparr>)"

definition group_list :: "env \<Rightarrow> string \<Rightarrow> decimal \<Rightarrow> string list \<Rightarrow> drec list list \<Rightarrow> duplicate_group list" where
  "group_list e idf score flds rss =
     map (\<lambda>(i, rs). dedup_group e i idf score flds rs) (List.enumerate 0 (filter (\<lambda>rs. 1 < length rs) rss))"

definition dedup_report :: "env \<Rightarrow> drec list \<Rightarrow> duplicate_group list \<Rightarrow> dedup_result" where
  "dedup_report e data gs =
     (let n = sum_list (map (\<lambda>g. length (dg_duplicates g)) gs); fin = clock e (Suc (length gs))
      in \<lparr>dr_total = length data, dr_unique = int (length data) - int n, dr_groups = length gs, dr_removed = n,
          dr_list = gs, dr_millis = millis (fin - clock e 0), dr_at = fin\<rparr>)"

definition find_exact_duplicates :: "env \<Rightarrow> drec list \<Rightarrow> string list \<Rightarrow> string \<Rightarrow> dedup_result" where
  "find_exact_duplicates e data ks idf =
     dedup_report e data (group_list e idf (Dec 10 (- 1)) ks (map snd (groups_by_key ks data)))"

definition remove_duplicates :: "env \<Rightarrow> drec list \<Rightarrow> string list \<Rightarrow> string \<Rightarrow> drec list" where
  "remove_duplicates e data ks idf =
     (let gone = concat (map (\<lambda>g. map (\<lambda>d. cell_str (dget_or d idf CNone)) (dg_duplicates g))
                   (dr_list (find_exact_duplicates e data ks idf)))
      in filter (\<lambda>r. cell_str (dget_or r idf CNone) \<notin> set gone) data)"

section \<open>Fuzzy duplicates\<close>

definition levenshtein_similarity :: "string \<Rightarrow> string \<Rightarrow> decimal" where
  "levenshtein_similarity s t =
     (if s = [] \<and> t = [] then one_score
      else if s = [] \<or> t = [] then zero_score
      else similarity4 (lev_table s t) (max (length s) (length t)))"

definition field_similarity :: "drec \<Rightarrow> drec \<Rightarrow> string \<Rightarrow> decimal" where
  "field_similarity r1 r2 f =
     (let s = py_strip (py_lower (cell_str (dget_or r1 f (CStr []))));
          t = py_strip (py_lower (cell_str (dget_or r2 f (CStr []))))
      in if s = t then one_score else levenshtein_similarity s t)"

definition calculate_similarity :: "drec \<Rightarrow> drec \<Rightarrow> string list \<Rightarrow> decimal" where
  "calculate_similarity r1 r2 flds =
     (if flds = [] then zero_score
      else dec_div (fold (\<lambda>f acc. dec_add acc (field_similarity r1 r2 f)) flds zero_score) (Dec (int (length flds)) 0))"

definition record_id :: "string \<Rightarrow> nat \<times> drec \<Rightarrow> string" where
  "record_id idf ir = cell_str (dget_or (snd ir) idf (CInt (int (fst ir))))"

text \<open>The inner loop: the similar records that are not processed yet, which are processed now.\<close>

fun similar_records ::
  "decimal \<Rightarrow> string list \<Rightarrow> string \<Rightarrow> drec \<Rightarrow> (nat \<times> drec) list \<Rightarrow> string set \<Rightarrow> drec list \<times> string set" where
  "similar_records th flds idf r1 [] ids = ([], ids)"
| "similar_records th flds idf r1 (jr # rest) ids =
     (if record_id idf jr \<in> ids \<or> dec_less (calculate_similarity r1 (snd jr) flds) th
      then similar_records th flds idf r1 rest ids
      else (case similar_records th flds idf r1 rest (insert (record_id idf jr) ids) of
              (rs, ids') \<Rightarrow> (snd jr # rs, ids')))"

fun fuzzy_groups :: "decimal \<Rightarrow> string list \<Rightarrow> string \<Rightarrow> (nat \<times> drec) list \<Rightarrow> string set \<Rightarrow> drec list list" where
  "fuzzy_groups th flds idf [] ids = []"
| "fuzzy_groups th flds idf (ir # rest) ids =
     (if record_id idf ir \<in> ids then fuzzy_groups th flds idf rest ids
      else (case similar_records th flds idf (snd ir) rest ids of
              (rs, ids') \<Rightarrow>
                if rs = [] then fuzzy_groups th flds idf rest ids'
                else (snd ir # rs) # fuzzy_groups th flds idf rest (insert (record_id idf ir) ids')))"

text \<open>A threshold of zero is false and gives way to the default.\<close>

definition find_fuzzy_duplicates ::
  "env \<Rightarrow> drec list \<Rightarrow> string list \<Rightarrow> decimal option \<Rightarrow> string \<Rightarrow> dedup_state \<Rightarrow> dedup_result" where
  "find_fuzzy_duplicates e data flds threshold idf s =
     (let th = (case threshold of None \<Rightarrow> dd_threshold s | Some x \<Rightarrow> if dval x = 0 then dd_threshold s else x)
      in dedup_report e data (group_list e idf th flds (fuzzy_groups th flds idf (List.enumerate 0 data) {})))"

section \<open>Merging\<close>

fun floats :: "cell list \<Rightarrow> rat list result" where
  "floats [] = Ok []"
| "floats (v # vs) =
     (case py_float v of Inl err \<Rightarrow> Err err | Inr x \<Rightarrow> (case floats vs of Inl err \<Rightarrow> Err err | Inr xs \<Rightarrow> Ok (x # xs)))"

text \<open>\<open>max(vs, key=f)\<close>: the first one of the largest key.\<close>

definition first_max :: "('a \<Rightarrow> nat) \<Rightarrow> 'a list \<Rightarrow> 'a" where
  "first_max f vs = fold (\<lambda>v best. if f best < f v then v else best) (tl vs) (hd vs)"

definition count_texts :: "string list \<Rightarrow> (string, nat) dict" where
  "count_texts ss = fold (\<lambda>s d. dset s (dget_or d s 0 + 1) d) ss []"

definition apply_survivorship_rule :: "drec list \<Rightarrow> string \<Rightarrow> string \<Rightarrow> cell" where
  "apply_survivorship_rule rs f rule =
     (let vs = filter (\<lambda>v. v \<noteq> CNone) (map (\<lambda>r. dget_or r f CNone) rs)
      in if vs = [] then CNone
         else if rule = ''first'' then hd vs
         else if rule = ''last'' then last vs
         else if rule = ''most_complete'' then first_max (\<lambda>v. if cell_true v then length (cell_str v) else 0) vs
         else if rule = ''most_frequent'' then CStr (fst (first_max snd (count_texts (map cell_str vs))))
         else if rule = ''max'' then (case floats vs of Inl err \<Rightarrow> hd vs | Inr xs \<Rightarrow> CFloat (Max (set xs)))
         else if rule = ''min'' then (case floats vs of Inl err \<Rightarrow> hd vs | Inr xs \<Rightarrow> CFloat (Min (set xs)))
         else hd vs)"

definition merge_duplicate_records ::
  "(string list \<Rightarrow> string list) \<Rightarrow> duplicate_group \<Rightarrow> (string, string) dict option \<Rightarrow> dedup_state \<Rightarrow> drec" where
  "merge_duplicate_records ord g rules s =
     (let rules' = (case rules of None \<Rightarrow> dd_rules s | Some d \<Rightarrow> if d = [] then dd_rules s else d);
          rs = dg_primary g # dg_duplicates g
      in map (\<lambda>f. (f, apply_survivorship_rule rs f (dget_or rules' f ''most_complete'')))
           (ord (remdups (concat (map (map fst) rs)))))"

end
