(* ===== verification/Dedup_Exact.thy ===== *)
theory Dedup_Exact
  imports Dedup
begin

text \<open>
  What the removal of duplicates keeps: of the records with the same key the first of the most complete ones, if the
  identifiers tell the records apart; and what it loses when they do not.
\<close>

section \<open>Groups\<close>

lemma groups_get: "dget_or (fold (\<lambda>r g. let k = record_key ks r in dset k (dget_or g k [] @ [r]) g) data g) k [] =
    dget_or g k [] @ filter (\<lambda>r. record_key ks r = k) data"
  by (induction data arbitrary: g) (simp_all add: Let_def)

lemma groups_keys: "has_key (fold (\<lambda>r g. let k = record_key ks r in dset k (dget_or g k [] @ [r]) g) data g) k \<longleftrightarrow>
    has_key g k \<or> k \<in> record_key ks ` set data"
  by (induction data arbitrary: g) (auto simp: Let_def)

lemma groups_ok: "dict_ok g \<Longrightarrow> dict_ok (fold (\<lambda>r g. let k = record_key ks r in dset k (dget_or g k [] @ [r]) g) data g)"
  by (induction data arbitrary: g) (simp_all add: Let_def)

lemma groups_dict_ok: "dict_ok (groups_by_key ks data)"
  unfolding groups_by_key_def by (rule groups_ok) simp

lemma groups_entry: "(k, rs) \<in> set (groups_by_key ks data) \<longleftrightarrow>
    k \<in> record_key ks ` set data \<and> rs = filter (\<lambda>r. record_key ks r = k) data"
proof -
  have get: "dget_or (groups_by_key ks data) k [] = filter (\<lambda>r. record_key ks r = k) data"
    unfolding groups_by_key_def groups_get by simp
  have key: "has_key (groups_by_key ks data) k \<longleftrightarrow> k \<in> record_key ks ` set data"
    unfolding groups_by_key_def groups_keys by simp
  have "(k, rs) \<in> set (groups_by_key ks data) \<longleftrightarrow> dget (groups_by_key ks data) k = Some rs"
    using groups_dict_ok [of ks data] by (simp add: dict_ok_def)
  then show ?thesis using get key by (auto simp: dget_or_def has_key_def split: option.splits)
qed

lemma groups_exact: "groups_by_key ks data =
    map (\<lambda>k. (k, filter (\<lambda>r. record_key ks r = k) data)) (map fst (groups_by_key ks data))"
proof -
  let ?f = "\<lambda>k. (k, filter (\<lambda>r. record_key ks r = k) data)"
  have "?f (fst x) = x" if "x \<in> set (groups_by_key ks data)" for x
    using that groups_entry [of "fst x" "snd x" ks data] by (metis prod.collapse)
  then have "map (\<lambda>x. ?f (fst x)) (groups_by_key ks data) = groups_by_key ks data" by (rule map_idI)
  then show ?thesis by (simp add: comp_def)
qed

lemma groups_fst: "set (map fst (groups_by_key ks data)) = record_key ks ` set data" "distinct (map fst (groups_by_key ks data))"
proof -
  have "k \<in> set (map fst (groups_by_key ks data)) \<longleftrightarrow> k \<in> record_key ks ` set data" for k
  proof -
    have "k \<in> set (map fst (groups_by_key ks data)) \<longleftrightarrow> (\<exists>rs. (k, rs) \<in> set (groups_by_key ks data))" by force
    then show ?thesis unfolding groups_entry by blast
  qed
  then show "set (map fst (groups_by_key ks data)) = record_key ks ` set data" by blast
  show "distinct (map fst (groups_by_key ks data))" using groups_dict_ok by (simp add: dict_ok_def)
qed

section \<open>The primary record\<close>

definition first_best :: "drec list \<Rightarrow> drec \<Rightarrow> bool" where
  "first_best rs r \<longleftrightarrow> (\<exists>pre post. rs = pre @ r # post \<and>
     (\<forall>x \<in> set pre. completeness_score x < completeness_score r) \<and>
     (\<forall>x \<in> set post. completeness_score x \<le> completeness_score r))"

lemma select_first_best: "rs \<noteq> [] \<Longrightarrow> first_best rs (select_primary_record rs)"
proof (induction rs rule: rev_induct)
  case (snoc x rs)
  show ?case
  proof (cases "rs = []")
    case True
    then show ?thesis unfolding first_best_def select_primary_record_def by (intro exI [of _ "[]"]) simp
  next
    case False
    let ?p = "select_primary_record rs"
    obtain pre post where p: "rs = pre @ ?p # post" "\<forall>y \<in> set pre. completeness_score y < completeness_score ?p"
      "\<forall>y \<in> set post. completeness_score y \<le> completeness_score ?p"
      using snoc.IH [OF False] unfolding first_best_def by blast
    have s: "select_primary_record (rs @ [x]) = (if completeness_score ?p < completeness_score x then x else ?p)"
      using False by (cases rs) (simp_all add: select_primary_record_def)
    have best: "\<forall>y \<in> set rs. completeness_score y \<le> completeness_score ?p"
      using p(2,3) by (subst p(1)) (auto intro: less_imp_le)
    show ?thesis
    proof (cases "completeness_score ?p < completeness_score x")
      case True
      then show ?thesis unfolding s first_best_def using best by (intro exI [of _ rs] exI [of _ "[]"]) auto
    next
      case not_less: False
      have "rs @ [x] = pre @ ?p # (post @ [x])" using p(1) by simp
      then show ?thesis unfolding s first_best_def using not_less p(2,3) by (intro exI [of _ pre] exI [of _ "post @ [x]"]) auto
    qed
  qed
qed simp

lemma first_best_in: "first_best rs r \<Longrightarrow> r \<in> set rs"
  unfolding first_best_def by auto

lemma first_best_unique: "first_best rs r \<Longrightarrow> first_best rs r' \<Longrightarrow> r = r'"
proof -
  assume "first_best rs r" "first_best rs r'"
  then obtain p q p' q' where a: "rs = p @ r # q" "\<forall>x \<in> set p. completeness_score x < completeness_score r"
    "\<forall>x \<in> set q. completeness_score x \<le> completeness_score r"
    and b: "rs = p' @ r' # q'" "\<forall>x \<in> set p'. completeness_score x < completeness_score r'"
    "\<forall>x \<in> set q'. completeness_score x \<le> completeness_score r'" unfolding first_best_def by blast
  have "p @ r # q = p' @ r' # q'" using a(1) b(1) by simp
  then consider "p = p'" "r = r'" | us where "p' = p @ r # us" "q = us @ r' # q'" | us where "p = p' @ r' # us" "q' = us @ r # q"
    by (auto simp: append_eq_append_conv2 Cons_eq_append_conv append_eq_Cons_conv)
  then show ?thesis using a b by cases fastforce+
qed


section \<open>What is removed\<close>

lemma duplicates_listed: "map dg_duplicates (group_list e idf x ks rss) =
    map (\<lambda>rs. duplicates_of idf (select_primary_record rs) rs) (filter (\<lambda>rs. 1 < length rs) rss)"
proof -
  have "map (\<lambda>x. f (snd x)) (List.enumerate n xs) = map f xs" for f :: "drec list \<Rightarrow> drec list" and n xs
    by (induction xs arbitrary: n) simp_all
  then show ?thesis by (simp add: group_list_def dedup_group_def Let_def comp_def case_prod_beta)
qed

text \<open>Identifiers that tell the records apart, as values and as texts.\<close>

definition id_text :: "string \<Rightarrow> drec \<Rightarrow> string" where
  "id_text idf r = cell_str (dget_or r idf CNone)"

definition ids_apart :: "string \<Rightarrow> drec list \<Rightarrow> bool" where
  "ids_apart idf data \<longleftrightarrow> distinct (map (id_text idf) data) \<and>
     (\<forall>r \<in> set data. \<forall>r' \<in> set data. py_eq (dget_or r idf CNone) (dget_or r' idf CNone) \<longleftrightarrow> id_text idf r = id_text idf r')"

definition same_key :: "string list \<Rightarrow> drec list \<Rightarrow> drec \<Rightarrow> drec list" where
  "same_key ks data r = filter (\<lambda>r'. record_key ks r' = record_key ks r) data"

definition primary_for :: "string list \<Rightarrow> drec list \<Rightarrow> drec \<Rightarrow> bool" where
  "primary_for ks data r \<longleftrightarrow> select_primary_record (same_key ks data r) = r"

lemma primary_first_best: "r \<in> set data \<Longrightarrow> primary_for ks data r \<longleftrightarrow> first_best (same_key ks data r) r"
proof -
  assume "r \<in> set data"
  then have "same_key ks data r \<noteq> []" by (auto simp: same_key_def filter_empty_conv)
  from select_first_best [OF this] show ?thesis unfolding primary_for_def using first_best_unique by metis
qed

lemma ids_apart_inj: "ids_apart idf data \<Longrightarrow> inj_on (id_text idf) (set data)"
  by (simp add: ids_apart_def distinct_map)

lemma group_duplicates:
  assumes "ids_apart idf data" "r \<in> set data"
  shows "duplicates_of idf (select_primary_record (same_key ks data r)) (same_key ks data r) =
    filter (\<lambda>d. record_key ks d = record_key ks r \<and> \<not> primary_for ks data d) data"
proof -
  let ?p = "select_primary_record (same_key ks data r)"
  have "same_key ks data r \<noteq> []" using assms(2) by (auto simp: same_key_def filter_empty_conv)
  then have p: "?p \<in> set data" "record_key ks ?p = record_key ks r"
    using first_best_in [OF select_first_best] by (fastforce simp: same_key_def)+
  have "\<not> py_eq (dget_or d idf CNone) (dget_or ?p idf CNone) \<longleftrightarrow> \<not> primary_for ks data d"
    if d: "d \<in> set data" "record_key ks d = record_key ks r" for d
  proof -
    have "same_key ks data d = same_key ks data r" using d(2) by (simp add: same_key_def)
    moreover have "py_eq (dget_or d idf CNone) (dget_or ?p idf CNone) \<longleftrightarrow> d = ?p"
      using assms(1) d(1) p(1) inj_onD [OF ids_apart_inj [OF assms(1)]] by (auto simp: ids_apart_def)
    ultimately show ?thesis by (auto simp: primary_for_def)
  qed
  then show ?thesis unfolding duplicates_of_def by (subst (2) same_key_def) (auto intro: filter_cong)
qed


text \<open>Summing over the keys counts each record once.\<close>

lemma count_by_key:
  assumes "distinct K" "key ` set data \<subseteq> set K"
  shows "sum_list (map (\<lambda>k. length (filter (\<lambda>d. key d = k \<and> Q d) data)) K) = length (filter Q data)"
  using assms(2)
proof (induction data)
  case (Cons d data)
  have "sum_list (map (\<lambda>k. length (filter (\<lambda>d. key d = k \<and> Q d) (d # data))) K) =
      sum_list (map (\<lambda>k. (if k = key d then (if Q d then 1 else 0) else 0) + length (filter (\<lambda>d. key d = k \<and> Q d) data)) K)"
    by (intro arg_cong [where f = sum_list] map_cong refl) auto
  also have "\<dots> = sum_list (map (\<lambda>k. if k = key d then (if Q d then 1 else 0) else 0) K) + length (filter Q data)"
    using Cons by (simp add: sum_list_addf)
  also have "sum_list (map (\<lambda>k. if k = key d then (if Q d then 1 else 0) else 0) K) = (if Q d then 1 else 0 :: nat)"
    using assms(1) Cons.prems by (simp add: sum_list_distinct_conv_sum_set)
  finally show ?case by simp
qed simp

lemma duplicates_exact:
  assumes "ids_apart idf data"
  shows "map dg_duplicates (dr_list (find_exact_duplicates e data ks idf)) =
    map (\<lambda>k. filter (\<lambda>d. record_key ks d = k \<and> \<not> primary_for ks data d) data)
      (filter (\<lambda>k. 1 < length (filter (\<lambda>r. record_key ks r = k) data)) (map fst (groups_by_key ks data)))"
proof -
  have one: "duplicates_of idf (select_primary_record (filter (\<lambda>r. record_key ks r = k) data)) (filter (\<lambda>r. record_key ks r = k) data) =
      filter (\<lambda>d. record_key ks d = k \<and> \<not> primary_for ks data d) data" if k: "k \<in> set (map fst (groups_by_key ks data))" for k
  proof -
    obtain r where "r \<in> set data" "record_key ks r = k" using k unfolding groups_fst(1) by blast
    then show ?thesis using group_duplicates [OF assms, of r ks] by (simp add: same_key_def)
  qed
  have "map snd (groups_by_key ks data) = map (\<lambda>k. filter (\<lambda>r. record_key ks r = k) data) (map fst (groups_by_key ks data))"
    by (subst groups_exact) simp
  then show ?thesis unfolding find_exact_duplicates_def dedup_report_def Let_def
    by (simp only: dedup_result.select_convs duplicates_listed filter_map map_map comp_def) (rule map_cong, use one in auto)
qed

lemma single_kept: "r \<in> set data \<Longrightarrow> length (same_key ks data r) \<le> 1 \<Longrightarrow> primary_for ks data r"
proof -
  assume r: "r \<in> set data" "length (same_key ks data r) \<le> 1"
  have "r \<in> set (same_key ks data r)" using r(1) by (simp add: same_key_def)
  then have "same_key ks data r = [r]" using r(2) by (cases "same_key ks data r") auto
  then show ?thesis by (simp add: primary_for_def select_primary_record_def)
qed

lemma small_group: "\<not> 1 < length (filter (\<lambda>r. record_key ks r = k) data) \<Longrightarrow>
    filter (\<lambda>d. record_key ks d = k \<and> \<not> primary_for ks data d) data = []"
  using single_kept [of _ data ks] by (fastforce simp: filter_empty_conv same_key_def)

lemma gone_exact:
  assumes "ids_apart idf data"
  shows "set (concat (map dg_duplicates (dr_list (find_exact_duplicates e data ks idf)))) = {d \<in> set data. \<not> primary_for ks data d}"
proof -
  have "1 < length (filter (\<lambda>r. record_key ks r = record_key ks d) data)" if "d \<in> set data" "\<not> primary_for ks data d" for d
    using small_group [of ks "record_key ks d" data] that by (auto simp: filter_empty_conv)
  moreover have "record_key ks d \<in> set (map fst (groups_by_key ks data))" if "d \<in> set data" for d
    unfolding groups_fst(1) using that by blast
  ultimately show ?thesis unfolding duplicates_exact [OF assms] by fastforce
qed

lemma removed_exact:
  assumes "ids_apart idf data"
  shows "dr_removed (find_exact_duplicates e data ks idf) = length (filter (\<lambda>d. \<not> primary_for ks data d) data)"
proof -
  let ?K = "map fst (groups_by_key ks data)"
  let ?n = "\<lambda>k. length (filter (\<lambda>d. record_key ks d = k \<and> \<not> primary_for ks data d) data)"
  have "dr_removed (find_exact_duplicates e data ks idf) =
      sum_list (map length (map dg_duplicates (dr_list (find_exact_duplicates e data ks idf))))"
    by (simp add: find_exact_duplicates_def dedup_report_def Let_def comp_def)
  also have "\<dots> = sum_list (map ?n (filter (\<lambda>k. 1 < length (filter (\<lambda>r. record_key ks r = k) data)) ?K))"
    unfolding duplicates_exact [OF assms] by (simp add: comp_def)
  also have "\<dots> = sum_list (map ?n ?K)"
    by (rule sum_list_map_filter) (use small_group in fastforce)
  also have "\<dots> = length (filter (\<lambda>d. \<not> primary_for ks data d) data)"
    by (rule count_by_key) (simp_all only: groups_fst subset_refl)
  finally show ?thesis .
qed

lemma remove_exact:
  assumes "ids_apart idf data"
  shows "remove_duplicates e data ks idf = filter (primary_for ks data) data"
proof -
  have "remove_duplicates e data ks idf =
      filter (\<lambda>r. id_text idf r \<notin> id_text idf ` {d \<in> set data. \<not> primary_for ks data d}) data"
    unfolding gone_exact [OF assms, where e = e, symmetric] remove_duplicates_def Let_def id_text_def
    by (rule filter_cong) auto
  also have "\<dots> = filter (primary_for ks data) data"
    by (rule filter_cong [OF refl]) (use inj_onD [OF ids_apart_inj [OF assms]] in blast)
  finally show ?thesis .
qed

text \<open>C36: If the identifiers tell the records apart, removing duplicates keeps, in order, exactly the records that
  are the first of the most complete ones of their key; so every key of the input keeps exactly one record, and the report
  counts the kept and the removed records.\<close>

theorem dedup_exact:
  assumes "ids_apart idf data"
  shows "remove_duplicates e data ks idf = filter (\<lambda>r. first_best (same_key ks data r) r) data \<and>
    distinct (map (record_key ks) (remove_duplicates e data ks idf)) \<and>
    record_key ks ` set (remove_duplicates e data ks idf) = record_key ks ` set data \<and>
    dr_unique (find_exact_duplicates e data ks idf) = int (length (remove_duplicates e data ks idf)) \<and>
    dr_total (find_exact_duplicates e data ks idf) =
      length (remove_duplicates e data ks idf) + dr_removed (find_exact_duplicates e data ks idf)"
proof -
  have kept: "remove_duplicates e data ks idf = filter (primary_for ks data) data" by (rule remove_exact [OF assms])
  have "distinct data" using assms by (auto simp: ids_apart_def distinct_map)
  moreover have "inj_on (record_key ks) {r \<in> set data. primary_for ks data r}"
    by (rule inj_onI) (auto simp: primary_for_def same_key_def)
  ultimately have d: "distinct (map (record_key ks) (filter (primary_for ks data) data))"
    by (simp add: distinct_map)
  have "record_key ks r \<in> record_key ks ` {r \<in> set data. primary_for ks data r}" if r: "r \<in> set data" for r
  proof -
    have "same_key ks data r \<noteq> []" using r by (auto simp: same_key_def filter_empty_conv)
    then have "select_primary_record (same_key ks data r) \<in> set (same_key ks data r)" by (intro first_best_in select_first_best)
    then show ?thesis by (intro image_eqI [of _ _ "select_primary_record (same_key ks data r)"])
        (auto simp: primary_for_def same_key_def)
  qed
  then have k: "record_key ks ` set (filter (primary_for ks data) data) = record_key ks ` set data" by auto
  have n: "length (filter (primary_for ks data) data) + dr_removed (find_exact_duplicates e data ks idf) = length data"
    unfolding removed_exact [OF assms] by (rule sum_length_filter_compl)
  have "filter (primary_for ks data) data = filter (\<lambda>r. first_best (same_key ks data r) r) data"
    by (rule filter_cong) (simp_all add: primary_first_best)
  moreover have "dr_unique (find_exact_duplicates e data ks idf) = int (length data) - int (dr_removed (find_exact_duplicates e data ks idf))"
    "dr_total (find_exact_duplicates e data ks idf) = length data"
    by (simp_all add: find_exact_duplicates_def dedup_report_def Let_def)
  ultimately show ?thesis unfolding kept using d k n by auto
qed

text \<open>Three customers, two of them the same person; the later entry is more complete.\<close>

definition customers :: "cell list \<Rightarrow> drec list" where
  "customers ids = map2 (\<lambda>i r. (''id'', i) # r) ids
     [[(''name'', CStr '' Ann''), (''phone'', CStr '''')],
      [(''name'', CStr ''ann''), (''phone'', CStr ''555'')],
      [(''name'', CStr ''Bob''), (''phone'', CNone)]]"

theorem dedup_exact_witness:
  "remove_duplicates env0 (customers [CInt 1, CInt 2, CInt 3]) [''name''] ''id'' =
     filter (\<lambda>r. first_best (same_key [''name''] (customers [CInt 1, CInt 2, CInt 3]) r) r) (customers [CInt 1, CInt 2, CInt 3]) \<and>
   map (\<lambda>r. dget r ''id'') (remove_duplicates env0 (customers [CInt 1, CInt 2, CInt 3]) [''name''] ''id'') = [Some (CInt 2), Some (CInt 3)]"
proof -
  have "ids_apart ''id'' (customers [CInt 1, CInt 2, CInt 3])" by code_simp
  from dedup_exact [OF this] have "remove_duplicates env0 (customers [CInt 1, CInt 2, CInt 3]) [''name''] ''id'' =
     filter (\<lambda>r. first_best (same_key [''name''] (customers [CInt 1, CInt 2, CInt 3]) r) r) (customers [CInt 1, CInt 2, CInt 3])" by blast
  moreover have "map (\<lambda>r. dget r ''id'') (remove_duplicates env0 (customers [CInt 1, CInt 2, CInt 3]) [''name''] ''id'') =
      [Some (CInt 2), Some (CInt 3)]" by code_simp
  ultimately show ?thesis by blast
qed

text \<open>Without identifiers nothing is removed; with a missing one beside a duplicate too much is.\<close>

lemma no_ids_none_removed: "length (remove_duplicates env0 (map tl (customers [CNone, CNone, CNone])) [''name''] ''id'') = 3"
  by code_simp

lemma missing_ids_lost: "map (\<lambda>r. dget r ''name'') (remove_duplicates env0 (customers [CNone, CInt 2, CNone]) [''name''] ''id'') = [Some (CStr ''ann'')]"
  by code_simp

end
