(* ===== verification/Lineage.thy ===== *)
theory Lineage
  imports PyJson Py_Cell
begin

text \<open>
  The lineage graph of the data quality package
  (\<open>backend/app/risk_management/data_quality/utils/lineage_graph.py\<close>): nodes, edges, the two adjacency lists,
  the traversals up and down to a depth, the enumeration of paths, roots, leaves, export and clear. Sets of
  visited nodes are sets; the depth of a recursion is a number that counts down, as the code's \<open>depth\<close> counts up to
  \<open>max_depth\<close> (below Python's recursion limit).

  The theory Lineage_Search proves what the traversals and the paths are.
\<close>

section \<open>Data\<close>

datatype lineage_node_type = Li_Table | Li_View | Li_File | Li_Stream | Li_Api | Li_Report | Li_Dashboard

fun lineage_node_value :: "lineage_node_type \<Rightarrow> string" where
  "lineage_node_value Li_Table = ''table''"
| "lineage_node_value Li_View = ''view''"
| "lineage_node_value Li_File = ''file''"
| "lineage_node_value Li_Stream = ''stream''"
| "lineage_node_value Li_Api = ''api''"
| "lineage_node_value Li_Report = ''report''"
| "lineage_node_value Li_Dashboard = ''dashboard''"

datatype lineage_edge_type = Li_Direct | Li_Transform | Li_Aggregate | Li_Filter | Li_Join | Li_Union

fun lineage_edge_value :: "lineage_edge_type \<Rightarrow> string" where
  "lineage_edge_value Li_Direct = ''direct''"
| "lineage_edge_value Li_Transform = ''transform''"
| "lineage_edge_value Li_Aggregate = ''aggregate''"
| "lineage_edge_value Li_Filter = ''filter''"
| "lineage_edge_value Li_Join = ''join''"
| "lineage_edge_value Li_Union = ''union''"

record lineage_node =
  li_id :: string
  li_name :: string
  li_type :: lineage_node_type
  li_database :: string
  li_schema :: string
  li_description :: string
  li_owner :: string
  li_metadata :: "(string, cell) dict"

record lineage_edge =
  le_id :: string
  le_source :: string
  le_target :: string
  le_type :: lineage_edge_type
  le_transformation :: string
  le_columns :: "(string, string) dict list"
  le_metadata :: "(string, cell) dict"

record lineage_path =
  lp_id :: string
  lp_nodes :: "string list"
  lp_edges :: "string list"
  lp_hops :: nat
  lp_start :: string
  lp_end :: string

record lineage =
  lg_nodes :: "(string, lineage_node) dict"
  lg_edges :: "(string, lineage_edge) dict"
  lg_adjacency :: "(string, string list) dict"
  lg_reverse :: "(string, string list) dict"
  lg_counter :: int

definition empty_lineage :: lineage where
  "empty_lineage = \<lparr>lg_nodes = [], lg_edges = [], lg_adjacency = [], lg_reverse = [], lg_counter = 0\<rparr>"

section \<open>Building\<close>

text \<open>\<open>if key not in d: d[key] = []\<close>\<close>

definition listed :: "string \<Rightarrow> (string, string list) dict \<Rightarrow> (string, string list) dict" where
  "listed x d = (if has_key d x then d else dset x [] d)"

text \<open>\<open>d[key].append(y)\<close> after that.\<close>

definition listed_append :: "string \<Rightarrow> string \<Rightarrow> (string, string list) dict \<Rightarrow> (string, string list) dict" where
  "listed_append x y d = (let d' = listed x d in dset x (dget_or d' x [] @ [y]) d')"

definition add_lineage_node :: "lineage_node \<Rightarrow> lineage \<Rightarrow> lineage" where
  "add_lineage_node n g =
     g\<lparr>lg_nodes := dset (li_id n) n (lg_nodes g), lg_adjacency := listed (li_id n) (lg_adjacency g),
       lg_reverse := listed (li_id n) (lg_reverse g)\<rparr>"

definition lineage_edge_id :: "int \<Rightarrow> string" where
  "lineage_edge_id k = ''edge_'' @ pad 6 k"

text \<open>The identifier of the given edge is ignored: the method draws it from the counter.\<close>

definition add_lineage_edge :: "lineage_edge \<Rightarrow> lineage \<Rightarrow> lineage_edge \<times> lineage" where
  "add_lineage_edge e g =
     (let k = lg_counter g + 1; i = lineage_edge_id k; e' = e\<lparr>le_id := i\<rparr>
      in (e', g\<lparr>lg_counter := k, lg_edges := dset i e' (lg_edges g),
                lg_adjacency := listed_append (le_source e) (le_target e) (lg_adjacency g),
                lg_reverse := listed_append (le_target e) (le_source e) (lg_reverse g)\<rparr>))"

definition clear_lineage :: "lineage \<Rightarrow> lineage" where
  "clear_lineage g = \<lparr>lg_nodes = [], lg_edges = [], lg_adjacency = [], lg_reverse = [], lg_counter = 0\<rparr>"

datatype lineage_op = Add_Node lineage_node | Add_Edge lineage_edge | Clear_Lineage

fun lineage_step :: "lineage_op \<Rightarrow> lineage \<Rightarrow> lineage" where
  "lineage_step (Add_Node n) g = add_lineage_node n g"
| "lineage_step (Add_Edge e) g = snd (add_lineage_edge e g)"
| "lineage_step Clear_Lineage g = clear_lineage g"

definition built :: "lineage_op list \<Rightarrow> lineage" where
  "built ops = fold lineage_step ops empty_lineage"

section \<open>Traversals\<close>

text \<open>Both traversals, over the adjacency lists \<open>adj\<close>; the first argument is \<open>max_depth - depth\<close>.\<close>

fun traverse ::
  "nat \<Rightarrow> (string, string list) dict \<Rightarrow> (string, lineage_node) dict \<Rightarrow> string
   \<Rightarrow> string set \<times> lineage_node list \<Rightarrow> string set \<times> lineage_node list" where
  "traverse 0 adj nodes x st = st"
| "traverse (Suc k) adj nodes x st =
     (if x \<in> fst st then st
      else fold
        (\<lambda>u st. case dget nodes u of
             None \<Rightarrow> st
           | Some n \<Rightarrow> if u \<in> fst st then st else traverse k adj nodes u (fst st, snd st @ [n]))
        (dget_or adj x []) (insert x (fst st), snd st))"

definition get_upstream_nodes :: "string \<Rightarrow> int \<Rightarrow> lineage \<Rightarrow> lineage_node list" where
  "get_upstream_nodes x d g = snd (traverse (nat d) (lg_reverse g) (lg_nodes g) x ({}, []))"

definition get_downstream_nodes :: "string \<Rightarrow> int \<Rightarrow> lineage \<Rightarrow> lineage_node list" where
  "get_downstream_nodes x d g = snd (traverse (nat d) (lg_adjacency g) (lg_nodes g) x ({}, []))"

section \<open>Paths\<close>

text \<open>The first edge from \<open>x\<close> to \<open>y\<close>, if there is one, of each step of a path.\<close>

fun get_edges_for_path :: "(string, lineage_edge) dict \<Rightarrow> string list \<Rightarrow> string list" where
  "get_edges_for_path es (x # y # p) =
     (case find (\<lambda>(i, e). le_source e = x \<and> le_target e = y) es of None \<Rightarrow> [] | Some (i, e) \<Rightarrow> [i])
     @ get_edges_for_path es (y # p)"
| "get_edges_for_path es p = []"

definition lineage_path_of :: "(string, lineage_edge) dict \<Rightarrow> string list \<Rightarrow> nat \<Rightarrow> lineage_path" where
  "lineage_path_of es p k =
     \<lparr>lp_id = ''path_'' @ str_int (int k + 1), lp_nodes = p, lp_edges = get_edges_for_path es p,
      lp_hops = length p - 1, lp_start = hd p, lp_end = last p\<rparr>"

function find_paths_dfs ::
  "lineage \<Rightarrow> string \<Rightarrow> int \<Rightarrow> string \<Rightarrow> string set \<Rightarrow> string list \<Rightarrow> lineage_path list \<Rightarrow> lineage_path list" where
  "find_paths_dfs g goal depth cur visited path found =
     (if depth < int (length path) then found
      else if cur = goal then found @ [lineage_path_of (lg_edges g) path (length found)]
      else fold
        (\<lambda>v found. if v \<in> visited then found else find_paths_dfs g goal depth v (insert v visited) (path @ [v]) found)
        (dget_or (lg_adjacency g) cur []) found)"
  by pat_completeness auto
termination
  by (relation "measure (\<lambda>(g, goal, depth, cur, visited, path, found). nat (depth + 1 - int (length path)))") auto

declare find_paths_dfs.simps [simp del]

definition find_all_paths :: "string \<Rightarrow> string \<Rightarrow> int \<Rightarrow> lineage \<Rightarrow> lineage_path list" where
  "find_all_paths a b depth g = find_paths_dfs g b depth a {a} [a] []"

section \<open>Roots, leaves, export\<close>

definition get_root_nodes :: "lineage \<Rightarrow> lineage_node list" where
  "get_root_nodes g = map snd (filter (\<lambda>(i, n). dget_or (lg_reverse g) i [] = []) (lg_nodes g))"

definition get_leaf_nodes :: "lineage \<Rightarrow> lineage_node list" where
  "get_leaf_nodes g = map snd (filter (\<lambda>(i, n). dget_or (lg_adjacency g) i [] = []) (lg_nodes g))"

record lineage_export =
  lx_nodes :: "(string \<times> string \<times> string \<times> string \<times> string \<times> string) list"
  lx_edges :: "(string \<times> string \<times> string \<times> string \<times> string) list"
  lx_statistics :: "nat \<times> nat \<times> nat \<times> nat"

definition export_to_dict :: "lineage \<Rightarrow> lineage_export" where
  "export_to_dict g =
     \<lparr>lx_nodes = map (\<lambda>(i, n). (li_id n, li_name n, lineage_node_value (li_type n), li_database n, li_schema n, li_owner n))
        (lg_nodes g),
      lx_edges = map (\<lambda>(i, e). (le_id e, le_source e, le_target e, lineage_edge_value (le_type e), le_transformation e))
        (lg_edges g),
      lx_statistics = (length (lg_nodes g), length (lg_edges g), length (get_root_nodes g), length (get_leaf_nodes g))\<rparr>"

section \<open>The invariant of a built graph\<close>

text \<open>The adjacency lists are the edges, in the order they were added.\<close>

definition lineage_ok :: "lineage \<Rightarrow> bool" where
  "lineage_ok g \<longleftrightarrow>
     (\<forall>x. dget_or (lg_adjacency g) x [] = map le_target (filter (\<lambda>e. le_source e = x) (map snd (lg_edges g)))) \<and>
     (\<forall>x. dget_or (lg_reverse g) x [] = map le_source (filter (\<lambda>e. le_target e = x) (map snd (lg_edges g)))) \<and>
     map fst (lg_edges g) = map lineage_edge_id [1..lg_counter g] \<and> 0 \<le> lg_counter g \<and>
     (\<forall>(i, e) \<in> set (lg_edges g). le_id e = i) \<and> (\<forall>(i, n) \<in> set (lg_nodes g). li_id n = i)"

lemma parse_zeros: "parse_digits (replicate n CHR ''0'' @ s) 0 = parse_digits s 0"
  by (induction n) (simp_all add: digit_value_def)

lemma pad_inject: "0 \<le> i \<Longrightarrow> 0 \<le> j \<Longrightarrow> pad n i = pad n j \<longleftrightarrow> i = j"
  by (metis option.inject pad_def parse_str_nat parse_zeros)

lemma edge_id_inject [simp]: "0 \<le> i \<Longrightarrow> 0 \<le> j \<Longrightarrow> lineage_edge_id i = lineage_edge_id j \<longleftrightarrow> i = j"
  by (simp add: lineage_edge_id_def pad_inject)

lemma dget_or_listed [simp]: "dget_or (listed x d) y [] = dget_or d y []"
  by (simp add: listed_def has_key_def dget_or_def split: option.split)

lemma dget_or_listed_append [simp]:
  "dget_or (listed_append x z d) y [] = (if y = x then dget_or d x [] @ [z] else dget_or d y [])"
  by (simp add: listed_append_def Let_def)

lemma ok_empty [simp]: "lineage_ok empty_lineage"
  by (simp add: lineage_ok_def empty_lineage_def)

lemma ok_step: "lineage_ok g \<Longrightarrow> lineage_ok (lineage_step op g)"
proof (cases op)
  case (Add_Node n)
  assume "lineage_ok g"
  moreover have "(i, m) \<in> set (dset (li_id n) n (lg_nodes g)) \<Longrightarrow> (i, m) = (li_id n, n) \<or> (i, m) \<in> set (lg_nodes g)" for i m
    using set_dset [of "li_id n" n "lg_nodes g"] by blast
  ultimately have "\<forall>(i, m) \<in> set (dset (li_id n) n (lg_nodes g)). li_id m = i" by (fastforce simp: lineage_ok_def)
  with \<open>lineage_ok g\<close> show ?thesis using Add_Node by (simp add: lineage_ok_def add_lineage_node_def)
next
  case (Add_Edge e)
  assume ok: "lineage_ok g"
  have "\<not> has_key (lg_edges g) (lineage_edge_id (lg_counter g + 1))"
    using ok by (auto simp: has_key_iff lineage_ok_def)
  then have new: "dset (lineage_edge_id (lg_counter g + 1)) x (lg_edges g) = lg_edges g @ [(lineage_edge_id (lg_counter g + 1), x)]" for x
    by (rule dset_new)
  have up: "[1..lg_counter g + 1] = [1..lg_counter g] @ [lg_counter g + 1]" if "0 \<le> lg_counter g"
    using that upto_rec2 [of 1 "lg_counter g + 1"] by simp
  show ?thesis using ok up Add_Edge by (simp add: lineage_ok_def add_lineage_edge_def Let_def new)
next
  case Clear_Lineage
  then show ?thesis using ok_empty by (simp add: clear_lineage_def empty_lineage_def)
qed

interpretation lineage_inv: preserved lineage_step lineage_ok
  by unfold_locales (rule ok_step)

lemma built_ok: "lineage_ok (built ops)"
  unfolding built_def by (rule lineage_inv.run_inv) simp

end
