(* ===== verification/Lineage_Search.thy ===== *)
theory Lineage_Search
  imports Lineage Graph
begin

text \<open>
  What the searches of the lineage graph return: the traversal with enough depth is reachability, the paths are
  the simple paths with one entry for each choice of parallel edges; and what a depth that is too small loses.
\<close>

section \<open>Traversals\<close>

text \<open>The links a traversal follows: to the known nodes of the adjacency lists.\<close>

definition links :: "(string, string list) dict \<Rightarrow> (string, lineage_node) dict \<Rightarrow> (string \<times> string) set" where
  "links adj nodes = {(x, y). y \<in> set (dget_or adj x []) \<and> has_key nodes y}"

definition known :: "(string, lineage_node) dict \<Rightarrow> string set" where
  "known nodes = set (map fst nodes)"

lemma finite_known [simp]: "finite (known nodes)"
  by (simp add: known_def)

text \<open>The nodes a call adds: each once, closed under links, reachable, and reported in the result.\<close>

definition adds ::
  "(string, string list) dict \<Rightarrow> (string, lineage_node) dict \<Rightarrow> string set \<times> lineage_node list
   \<Rightarrow> string set \<Rightarrow> string set \<times> lineage_node list \<Rightarrow> bool" where
  "adds adj nodes st from st' \<longleftrightarrow>
     (\<exists>ys. snd st' = snd st @ map (\<lambda>y. the (dget nodes y)) ys \<and> distinct ys \<and> set ys \<inter> fst st = {} \<and>
        fst st' = fst st \<union> set ys \<and> set ys \<subseteq> known nodes \<and> links adj nodes `` set ys \<subseteq> fst st' \<and>
        set ys \<subseteq> (links adj nodes)\<^sup>* `` from)"

lemma adds_refl: "adds adj nodes st S st"
  unfolding adds_def by (rule exI [of _ "[]"]) simp

lemma adds_trans:
  assumes "adds adj nodes st S st'" "adds adj nodes st' S st''"
  shows "adds adj nodes st S st''"
proof -
  obtain ys where ys: "snd st' = snd st @ map (\<lambda>y. the (dget nodes y)) ys" "distinct ys" "set ys \<inter> fst st = {}"
    "fst st' = fst st \<union> set ys" "set ys \<subseteq> known nodes" "links adj nodes `` set ys \<subseteq> fst st'"
    "set ys \<subseteq> (links adj nodes)\<^sup>* `` S" using assms(1) unfolding adds_def by blast
  obtain zs where zs: "snd st'' = snd st' @ map (\<lambda>y. the (dget nodes y)) zs" "distinct zs" "set zs \<inter> fst st' = {}"
    "fst st'' = fst st' \<union> set zs" "set zs \<subseteq> known nodes" "links adj nodes `` set zs \<subseteq> fst st''"
    "set zs \<subseteq> (links adj nodes)\<^sup>* `` S" using assms(2) unfolding adds_def by blast
  show ?thesis unfolding adds_def by (rule exI [of _ "ys @ zs"]) (use ys zs in auto)
qed

lemma reach_mono: "S \<subseteq> R\<^sup>* `` T \<Longrightarrow> R\<^sup>* `` S \<subseteq> R\<^sup>* `` T"
proof -
  assume "S \<subseteq> R\<^sup>* `` T"
  then have "R\<^sup>* `` S \<subseteq> R\<^sup>* `` R\<^sup>* `` T" by (rule Image_mono [OF subset_refl])
  also have "\<dots> = R\<^sup>* `` T" by (simp add: relcomp_Image [symmetric])
  finally show ?thesis .
qed

lemma adds_mono: "adds adj nodes st S st' \<Longrightarrow> S \<subseteq> (links adj nodes)\<^sup>* `` T \<Longrightarrow> adds adj nodes st T st'"
  unfolding adds_def by (meson reach_mono subset_trans)

lemma adds_visited: "adds adj nodes st S st' \<Longrightarrow> fst st \<subseteq> fst st'"
  unfolding adds_def by blast

text \<open>The loop over the neighbours, when each call on an unvisited neighbour adds what it should.\<close>

definition visit ::
  "(string \<Rightarrow> string set \<times> lineage_node list \<Rightarrow> string set \<times> lineage_node list) \<Rightarrow> (string, lineage_node) dict
   \<Rightarrow> string \<Rightarrow> string set \<times> lineage_node list \<Rightarrow> string set \<times> lineage_node list" where
  "visit call nodes u st =
     (case dget nodes u of None \<Rightarrow> st | Some n \<Rightarrow> if u \<in> fst st then st else call u (fst st, snd st @ [n]))"

lemma visit_loop:
  assumes "\<And>u st n. V \<subseteq> fst st \<Longrightarrow> dget nodes u = Some n \<Longrightarrow> u \<notin> fst st \<Longrightarrow> u \<in> set us \<Longrightarrow>
      adds adj nodes st {u} (call u (fst st, snd st @ [n])) \<and> u \<in> fst (call u (fst st, snd st @ [n]))"
    and "V \<subseteq> fst st"
  shows "adds adj nodes st (set us \<inter> known nodes) (fold (visit call nodes) us st) \<and>
    set us \<inter> known nodes \<subseteq> fst (fold (visit call nodes) us st)"
  using assms
proof (induction us arbitrary: st)
  case Nil
  then show ?case by (simp add: adds_refl)
next
  case (Cons u us)
  let ?st = "visit call nodes u st"
  have one: "adds adj nodes st (set (u # us) \<inter> known nodes) ?st \<and> ({u} \<inter> known nodes \<subseteq> fst ?st)"
  proof (cases "dget nodes u")
    case None
    then have "?st = st" by (simp add: visit_def)
    moreover have "u \<notin> known nodes" using None by (simp add: known_def map_of_eq_None_iff)
    ultimately show ?thesis by (simp add: adds_refl)
  next
    case (Some n)
    then have k: "u \<in> known nodes" by (force simp: known_def dest: map_of_SomeD)
    show ?thesis
    proof (cases "u \<in> fst st")
      case True
      then have "?st = st" using Some by (simp add: visit_def)
      then show ?thesis using True by (auto simp: adds_refl)
    next
      case False
      have "adds adj nodes st {u} ?st \<and> u \<in> fst ?st" using Cons.prems(1) [of st u n] Cons.prems(2) False Some by (simp add: visit_def)
      moreover have "{u} \<subseteq> (links adj nodes)\<^sup>* `` (set (u # us) \<inter> known nodes)" using k by auto
      ultimately show ?thesis using adds_mono by fastforce
    qed
  qed
  have rest: "adds adj nodes ?st (set us \<inter> known nodes) (fold (visit call nodes) us ?st) \<and>
    set us \<inter> known nodes \<subseteq> fst (fold (visit call nodes) us ?st)"
  proof (rule Cons.IH)
    show "V \<subseteq> fst ?st" using adds_visited [OF conjunct1 [OF one]] Cons.prems(2) by (rule subset_trans [rotated])
  qed (use Cons.prems(1) in simp)
  have "adds adj nodes ?st (set (u # us) \<inter> known nodes) (fold (visit call nodes) us ?st)"
    by (rule adds_mono [OF conjunct1 [OF rest]]) auto
  moreover have "fst ?st \<subseteq> fst (fold (visit call nodes) us ?st)" using rest adds_visited by blast
  ultimately have "adds adj nodes st (set (u # us) \<inter> known nodes) (fold (visit call nodes) us ?st)"
    "set (u # us) \<inter> known nodes \<subseteq> fst (fold (visit call nodes) us ?st)"
    using adds_trans [OF conjunct1 [OF one]] conjunct2 [OF one] conjunct2 [OF rest] by auto
  then show ?case by simp
qed

lemma traverse_Suc: "traverse (Suc k) adj nodes x st =
    (if x \<in> fst st then st else fold (visit (traverse k adj nodes) nodes) (dget_or adj x []) (insert x (fst st), snd st))"
  by (simp add: visit_def [abs_def])

text \<open>A call on an unvisited node whose depth is at least the number of nodes left.\<close>

definition complete_at :: "(string, string list) dict \<Rightarrow> (string, lineage_node) dict \<Rightarrow> string
   \<Rightarrow> string set \<times> lineage_node list \<Rightarrow> string set \<times> lineage_node list \<Rightarrow> bool" where
  "complete_at adj nodes x st st' \<longleftrightarrow>
     adds adj nodes (insert x (fst st), snd st) (links adj nodes `` {x}) st' \<and> links adj nodes `` {x} \<subseteq> fst st'"

lemma traverse_complete:
  "x \<notin> fst st \<Longrightarrow> card (insert x (known nodes) - fst st) \<le> k \<Longrightarrow> complete_at adj nodes x st (traverse k adj nodes x st)"
proof (induction k arbitrary: x st)
  case 0
  then have "insert x (known nodes) - fst st = {}" by simp
  then show ?case using 0 by blast
next
  case (Suc k)
  let ?V = "insert x (fst st)" and ?us = "dget_or adj x []"
  have less: "card (known nodes - ?V) \<le> k"
  proof -
    have "insert x (known nodes) - fst st = insert x (known nodes - ?V)" using Suc.prems(1) by auto
    then show ?thesis using Suc.prems(2) by simp
  qed
  have call: "adds adj nodes s {u} (traverse k adj nodes u (fst s, snd s @ [n])) \<and> u \<in> fst (traverse k adj nodes u (fst s, snd s @ [n]))"
    if s: "?V \<subseteq> fst s" "dget nodes u = Some n" "u \<notin> fst s" for s u n
  proof -
    have k: "u \<in> known nodes" using s(2) by (force simp: known_def dest: map_of_SomeD)
    have "card (insert u (known nodes) - fst s) \<le> card (known nodes - ?V)"
      by (rule card_mono) (use s k in auto)
    then have "complete_at adj nodes u (fst s, snd s @ [n]) (traverse k adj nodes u (fst s, snd s @ [n]))"
      using Suc.IH [of u "(fst s, snd s @ [n])"] s less by simp
    then obtain ys where ys: "snd (traverse k adj nodes u (fst s, snd s @ [n])) = snd s @ n # map (\<lambda>y. the (dget nodes y)) ys"
      "distinct ys" "set ys \<inter> insert u (fst s) = {}" "fst (traverse k adj nodes u (fst s, snd s @ [n])) = insert u (fst s) \<union> set ys"
      "set ys \<subseteq> known nodes" "links adj nodes `` set ys \<subseteq> fst (traverse k adj nodes u (fst s, snd s @ [n]))"
      "set ys \<subseteq> (links adj nodes)\<^sup>* `` (links adj nodes `` {u})"
      "links adj nodes `` {u} \<subseteq> fst (traverse k adj nodes u (fst s, snd s @ [n]))"
      unfolding complete_at_def adds_def by auto
    have "set (u # ys) \<subseteq> (links adj nodes)\<^sup>* `` {u}" using ys(7) by (auto intro: converse_rtrancl_into_rtrancl)
    then show ?thesis unfolding adds_def
      by (intro conjI exI [of _ "u # ys"]) (use ys s k in auto)
  qed
  have us: "set ?us \<inter> known nodes = links adj nodes `` {x}" by (auto simp: links_def known_def has_key_iff)
  have "adds adj nodes (?V, snd st) (set ?us \<inter> known nodes) (fold (visit (traverse k adj nodes) nodes) ?us (?V, snd st)) \<and>
    set ?us \<inter> known nodes \<subseteq> fst (fold (visit (traverse k adj nodes) nodes) ?us (?V, snd st))"
    by (rule visit_loop [of ?V]) (use call in auto)
  then show ?case using Suc.prems(1) unfolding complete_at_def us traverse_Suc by simp
qed

lemma traverse_exact:
  assumes "card (insert x (known nodes)) \<le> k"
  shows "\<exists>ys. snd (traverse k adj nodes x ({}, [])) = map (\<lambda>y. the (dget nodes y)) ys \<and> distinct ys \<and>
    set ys = (links adj nodes)\<^sup>+ `` {x} - {x}"
proof -
  let ?R = "links adj nodes"
  have "complete_at adj nodes x ({}, []) (traverse k adj nodes x ({}, []))"
    by (rule traverse_complete) (use assms in simp_all)
  then obtain ys where ys: "snd (traverse k adj nodes x ({}, [])) = map (\<lambda>y. the (dget nodes y)) ys" "distinct ys"
    "x \<notin> set ys" "?R `` set ys \<subseteq> insert x (set ys)" "set ys \<subseteq> ?R\<^sup>* `` (?R `` {x})" "?R `` {x} \<subseteq> insert x (set ys)"
    unfolding complete_at_def adds_def by auto
  have "set ys \<subseteq> ?R\<^sup>+ `` {x} - {x}" using ys(3,5) by (fastforce intro: rtrancl_into_trancl2)
  moreover have "y \<in> insert x (set ys)" if "(x, y) \<in> ?R\<^sup>+" for y
    using that by induction (use ys(4,6) in blast)+
  ultimately have "set ys = ?R\<^sup>+ `` {x} - {x}" by blast
  then show ?thesis using ys(1,2) by blast
qed

text \<open>The edges of a graph.\<close>

definition lineage_links :: "lineage \<Rightarrow> (string \<times> string) set" where
  "lineage_links g = {(a, b). \<exists>e \<in> set (map snd (lg_edges g)). le_source e = a \<and> le_target e = b}"

lemma links_down: "lineage_ok g \<Longrightarrow> links (lg_adjacency g) (lg_nodes g) = lineage_links g \<inter> UNIV \<times> known (lg_nodes g)"
  unfolding lineage_ok_def links_def lineage_links_def has_key_iff known_def [symmetric] by (auto simp del: map_map)

lemma links_up: "lineage_ok g \<Longrightarrow> links (lg_reverse g) (lg_nodes g) = (lineage_links g)\<inverse> \<inter> UNIV \<times> known (lg_nodes g)"
  unfolding lineage_ok_def links_def lineage_links_def has_key_iff known_def [symmetric] by (auto simp del: map_map)

text \<open>C35: With a depth of at least the number of nodes, the nodes downstream of a node are the known nodes that its
  edges lead to through known nodes, each reported once, and never the node itself, even on a
  cycle; upstream likewise against the edges. (With a smaller depth, see the two lemmas
  below.)\<close>

theorem lineage_reach_exact:
  assumes "g = built ops" "int (card (insert x (known (lg_nodes g)))) \<le> d"
  shows "(\<exists>ys. get_downstream_nodes x d g = map (\<lambda>y. the (dget (lg_nodes g) y)) ys \<and> distinct ys \<and>
      set ys = (lineage_links g \<inter> UNIV \<times> known (lg_nodes g))\<^sup>+ `` {x} - {x}) \<and>
    (\<exists>ys. get_upstream_nodes x d g = map (\<lambda>y. the (dget (lg_nodes g) y)) ys \<and> distinct ys \<and>
      set ys = ((lineage_links g)\<inverse> \<inter> UNIV \<times> known (lg_nodes g))\<^sup>+ `` {x} - {x})"
proof -
  have ok: "lineage_ok g" using assms(1) built_ok by simp
  have k: "card (insert x (known (lg_nodes g))) \<le> nat d" using assms(2) by simp
  show ?thesis
    unfolding get_downstream_nodes_def get_upstream_nodes_def
      links_down [OF ok, symmetric] links_up [OF ok, symmetric]
    by (intro conjI traverse_exact k)
qed

text \<open>A chain with a shortcut.\<close>

definition sample_node :: "string \<Rightarrow> lineage_op" where
  "sample_node x = Add_Node \<lparr>li_id = x, li_name = x, li_type = Li_Table, li_database = [], li_schema = [],
     li_description = [], li_owner = [], li_metadata = []\<rparr>"

definition sample_edge :: "string \<Rightarrow> string \<Rightarrow> lineage_op" where
  "sample_edge x y = Add_Edge \<lparr>le_id = [], le_source = x, le_target = y, le_type = Li_Direct, le_transformation = [],
     le_columns = [], le_metadata = []\<rparr>"

definition shortcut :: lineage where
  "shortcut = built (map sample_node [''s'', ''a'', ''b'', ''c'', ''d''] @
     [sample_edge ''s'' ''a'', sample_edge ''a'' ''b'', sample_edge ''s'' ''b'', sample_edge ''b'' ''c'', sample_edge ''c'' ''d''])"

theorem lineage_reach_exact_witness:
  "(\<exists>ys. get_upstream_nodes ''d'' 5 shortcut = map (\<lambda>y. the (dget (lg_nodes shortcut) y)) ys \<and> distinct ys \<and>
      set ys = ((lineage_links shortcut)\<inverse> \<inter> UNIV \<times> known (lg_nodes shortcut))\<^sup>+ `` {''d''} - {''d''}) \<and>
   map li_id (get_upstream_nodes ''d'' 5 shortcut) = [''c'', ''b'', ''a'', ''s'']"
proof -
  have k: "known (lg_nodes shortcut) = {''s'', ''a'', ''b'', ''c'', ''d''}" by code_simp
  have "int (card (insert ''d'' (known (lg_nodes shortcut)))) \<le> 5" unfolding k by code_simp
  from lineage_reach_exact [OF shortcut_def this]
  have "\<exists>ys. get_upstream_nodes ''d'' 5 shortcut = map (\<lambda>y. the (dget (lg_nodes shortcut) y)) ys \<and> distinct ys \<and>
      set ys = ((lineage_links shortcut)\<inverse> \<inter> UNIV \<times> known (lg_nodes shortcut))\<^sup>+ `` {''d''} - {''d''}" by blast
  moreover have "map li_id (get_upstream_nodes ''d'' 5 shortcut) = [''c'', ''b'', ''a'', ''s'']" by code_simp
  ultimately show ?thesis by blast
qed

text \<open>A depth that is too small: \<open>d\<close> is three edges away and not found with depth three, because \<open>b\<close> was reached by
  the longer way first; and with depth two \<open>b\<close> is reported twice.\<close>

lemma depth_loses_node: "map li_id (get_downstream_nodes ''s'' 3 shortcut) = [''a'', ''b'', ''c'']"
  by code_simp

lemma depth_reports_twice: "map li_id (get_downstream_nodes ''s'' 2 shortcut) = [''a'', ''b'', ''b'', ''c'']"
  by code_simp

end
