(* ===== verification/Lineage_Paths.thy ===== *)
theory Lineage_Paths
  imports Lineage_Search
begin

text \<open>
  The enumeration of paths in the lineage graph: every simple path of at most the given number of nodes, once for
  each choice of parallel edges, with the edges it names.
\<close>

section \<open>The node lists\<close>

text \<open>The search without its visited set, its labels and its accumulator.\<close>

function routes :: "(string \<Rightarrow> string list) \<Rightarrow> string \<Rightarrow> int \<Rightarrow> string list \<Rightarrow> string list list" where
  "routes adj goal depth path =
     (if depth < int (length path) then []
      else if last path = goal then [path]
      else concat (map (\<lambda>v. if v \<in> set path then [] else routes adj goal depth (path @ [v])) (adj (last path))))"
  by pat_completeness auto
termination
  by (relation "measure (\<lambda>(adj, goal, depth, path). nat (depth + 1 - int (length path)))") auto

declare routes.simps [simp del]

fun labelled :: "(string, lineage_edge) dict \<Rightarrow> nat \<Rightarrow> string list list \<Rightarrow> lineage_path list" where
  "labelled es k [] = []"
| "labelled es k (p # ps) = lineage_path_of es p k # labelled es (Suc k) ps"

lemma labelled_append: "labelled es k (ps @ qs) = labelled es k ps @ labelled es (k + length ps) qs"
  by (induction ps arbitrary: k) simp_all

lemma length_labelled [simp]: "length (labelled es k ps) = length ps"
  by (induction ps arbitrary: k) simp_all

lemma labelled_nodes [simp]: "map lp_nodes (labelled es k ps) = ps"
  by (induction ps arbitrary: k) (simp_all add: lineage_path_of_def)

lemma labelled_ids: "map lp_id (labelled es k ps) = map (\<lambda>i. ''path_'' @ str_int (int i + 1)) [k..<k + length ps]"
  by (induction ps arbitrary: k) (simp_all add: lineage_path_of_def upt_conv_Cons del: upt_Suc)

lemma set_labelled: "r \<in> set (labelled es k ps) \<Longrightarrow> \<exists>p \<in> set ps. \<exists>j. r = lineage_path_of es p j"
  by (induction ps arbitrary: k) auto

lemma fold_labelled:
  assumes "\<And>v found. v \<in> set vs \<Longrightarrow> f v found = found @ labelled es (length found) (r v)"
  shows "fold f vs found = found @ labelled es (length found) (concat (map r vs))"
  using assms by (induction vs arbitrary: found) (simp_all add: labelled_append)

lemma find_paths_routes:
  "path \<noteq> [] \<Longrightarrow> find_paths_dfs g goal depth (last path) (set path) path found =
     found @ labelled (lg_edges g) (length found) (routes (\<lambda>x. dget_or (lg_adjacency g) x []) goal depth path)"
proof (induction "\<lambda>x. dget_or (lg_adjacency g) x []" goal depth path arbitrary: found rule: routes.induct)
  case (1 goal depth path)
  let ?adj = "\<lambda>x. dget_or (lg_adjacency g) x []"
  let ?r = "\<lambda>v. if v \<in> set path then [] else routes ?adj goal depth (path @ [v])"
  show ?case
  proof (cases "depth < int (length path) \<or> last path = goal")
    case True
    then show ?thesis by (auto simp: find_paths_dfs.simps [of g goal depth] routes.simps [of ?adj goal depth])
  next
    case False
    have "find_paths_dfs g goal depth v (insert v (set path)) (path @ [v]) found' =
        found' @ labelled (lg_edges g) (length found') (routes ?adj goal depth (path @ [v]))"
      if "v \<in> set (?adj (last path))" "v \<notin> set path" for v found'
      using 1(1) [of v found'] that False by simp
    then have "fold (\<lambda>v found. if v \<in> set path then found else find_paths_dfs g goal depth v (insert v (set path)) (path @ [v]) found)
        (?adj (last path)) found = found @ labelled (lg_edges g) (length found) (concat (map ?r (?adj (last path))))"
      by (intro fold_labelled) simp
    then show ?thesis using False by (simp add: find_paths_dfs.simps [of g goal depth] routes.simps [of ?adj goal depth])
  qed
qed

section \<open>How often a path is listed\<close>

fun choices :: "(string \<Rightarrow> string list) \<Rightarrow> string list \<Rightarrow> nat" where
  "choices adj (x # y # p) = count_list (adj x) y * choices adj (y # p)"
| "choices adj p = 1"

lemma sum_count: "sum_list (map (\<lambda>v. if v = w then c else 0) vs) = count_list vs w * (c :: nat)"
  by (induction vs) simp_all

lemma count_concat: "count_list (concat xss) x = sum_list (map (\<lambda>xs. count_list xs x) xss)"
  by (induction xss) simp_all

definition fitting :: "string \<Rightarrow> int \<Rightarrow> string list \<Rightarrow> bool" where
  "fitting goal depth p \<longleftrightarrow> distinct p \<and> last p = goal \<and> int (length p) \<le> depth"

lemma routes_prefix: "q \<in> set (routes adj goal depth path) \<Longrightarrow> prefix path q"
proof (induction adj goal depth path rule: routes.induct)
  case (1 adj goal depth path)
  then show ?case
    by (subst (asm) (2) routes.simps) (auto split: if_splits dest!: 1(1) simp: prefix_def)
qed

lemma routes_count:
  "path \<noteq> [] \<Longrightarrow> distinct path \<Longrightarrow> count_list (routes adj goal depth path) (path @ q) =
     (if fitting goal depth (path @ q) then choices adj (last path # q) else 0)"
proof (induction adj goal depth path arbitrary: q rule: routes.induct)
  case (1 adj goal depth path)
  consider "depth < int (length path)" | "\<not> depth < int (length path)" "last path = goal"
    | "\<not> depth < int (length path)" "last path \<noteq> goal" by blast
  then show ?case
  proof cases
    case 1
    then show ?thesis by (simp add: routes.simps [of adj] fitting_def)
  next
    case 2
    have no: "\<not> fitting goal depth (path @ q)" if "q \<noteq> []"
      using that 2(2) \<open>path \<noteq> []\<close> unfolding fitting_def by (metis disjoint_iff distinct_append last_appendR last_in_set)
    show ?thesis
    proof (cases "q = []")
      case True
      then show ?thesis using 2 \<open>distinct path\<close> by (simp add: routes.simps [of adj] fitting_def)
    next
      case False
      then show ?thesis using 2 no [OF False] by (simp add: routes.simps [of adj])
    qed
  next
    case 3
    let ?r = "\<lambda>v. if v \<in> set path then [] else routes adj goal depth (path @ [v])"
    have sum: "count_list (routes adj goal depth path) (path @ q) =
        sum_list (map (\<lambda>v. count_list (?r v) (path @ q)) (adj (last path)))"
      using 3 by (simp add: routes.simps [of adj goal depth path] count_concat comp_def)
    show ?thesis
    proof (cases q)
      case Nil
      have "count_list (?r v) path = 0" for v using routes_prefix [of path adj goal depth "path @ [v]"]
        by (auto simp: count_list_0_iff)
      then show ?thesis using sum Nil 3 by (simp add: fitting_def del: count_notin)
    next
      case (Cons w q')
      let ?c = "if fitting goal depth (path @ q) then choices adj (w # q') else 0"
      have "count_list (?r v) (path @ q) = (if v = w then ?c else 0)" if "v \<in> set (adj (last path))" for v
      proof (cases "v \<in> set path")
        case True
        then show ?thesis using Cons by (auto simp: fitting_def)
      next
        case False
        show ?thesis
        proof (cases "v = w")
          case True
          then show ?thesis using "1.IH" [of v q'] 3 False Cons that "1.prems" by simp
        next
          case neq: False
          have "path @ q \<notin> set (routes adj goal depth (path @ [v]))"
            using routes_prefix [of "path @ q" adj goal depth "path @ [v]"] neq Cons by auto
          then show ?thesis using neq False by simp
        qed
      qed
      then have m: "map (\<lambda>v. count_list (?r v) (path @ q)) (adj (last path)) = map (\<lambda>v. if v = w then ?c else 0) (adj (last path))"
        by simp
      show ?thesis unfolding sum m sum_count using Cons by simp
    qed
  qed
qed

section \<open>The edges of a path\<close>

text \<open>Step by step: the named edge is the first one from the node to the next.\<close>

fun first_edges :: "(string, lineage_edge) dict \<Rightarrow> string list \<Rightarrow> string list \<Rightarrow> bool" where
  "first_edges es (x # y # p) (i # is) \<longleftrightarrow>
     (\<exists>pre e post. es = pre @ (i, e) # post \<and> le_source e = x \<and> le_target e = y \<and>
        (\<forall>(j, e') \<in> set pre. \<not> (le_source e' = x \<and> le_target e' = y))) \<and> first_edges es (y # p) is"
| "first_edges es [x] [] \<longleftrightarrow> True"
| "first_edges es p is \<longleftrightarrow> False"

lemma first_edges_exact:
  "p \<noteq> [] \<Longrightarrow> choices (\<lambda>x. map le_target (filter (\<lambda>e. le_source e = x) (map snd es))) p \<noteq> 0 \<Longrightarrow>
     first_edges es p (get_edges_for_path es p)"
proof (induction es p rule: get_edges_for_path.induct)
  case (1 es x y p)
  have "y \<in> le_target ` {e \<in> snd ` set es. le_source e = x}" using "1.prems" by (auto simp: count_list_0_iff)
  then obtain i0 e0 where m: "(i0, e0) \<in> set es" "le_source e0 = x" "le_target e0 = y" by auto
  then have "find (\<lambda>(i, e). le_source e = x \<and> le_target e = y) es \<noteq> None" by (simp add: find_None_iff) blast
  then obtain i e where f: "find (\<lambda>(i, e). le_source e = x \<and> le_target e = y) es = Some (i, e)" by auto
  obtain k where k: "k < length es" "(\<lambda>(i, e). le_source e = x \<and> le_target e = y) (es ! k)" "(i, e) = es ! k"
    "\<forall>j<k. \<not> (\<lambda>(i, e). le_source e = x \<and> le_target e = y) (es ! j)" using f [unfolded find_Some_iff]
    by (elim exE conjE) (rule that)
  have "es = take k es @ (i, e) # drop (Suc k) es" unfolding k(3) by (rule id_take_nth_drop [OF k(1)])
  moreover have "\<forall>(j, e') \<in> set (take k es). \<not> (le_source e' = x \<and> le_target e' = y)"
    using k(1,4) by (auto simp: in_set_conv_nth) fastforce
  moreover have "first_edges es (y # p) (get_edges_for_path es (y # p))" by (rule "1.IH") (use "1.prems" in simp_all)
  moreover have "le_source e = x \<and> le_target e = y" using k(2) by (simp add: k(3) [symmetric])
  ultimately show ?case using f by auto
qed simp_all

text \<open>The number of edges from \<open>x\<close> to \<open>y\<close>, and the choices of edges along a list of nodes.\<close>

definition parallel_edges :: "lineage \<Rightarrow> string \<Rightarrow> string \<Rightarrow> nat" where
  "parallel_edges g x y = length (filter (\<lambda>e. le_source e = x \<and> le_target e = y) (map snd (lg_edges g)))"

fun edge_choices :: "lineage \<Rightarrow> string list \<Rightarrow> nat" where
  "edge_choices g (x # y # p) = parallel_edges g x y * edge_choices g (y # p)"
| "edge_choices g p = 1"

lemma count_parallel: "count_list (map le_target (filter (\<lambda>e. le_source e = x) es)) y =
    length (filter (\<lambda>e. le_source e = x \<and> le_target e = y) es)"
  by (induction es) simp_all

lemma choices_edges:
  "choices (\<lambda>x. map le_target (filter (\<lambda>e. le_source e = x) (map snd (lg_edges g)))) p = edge_choices g p"
  by (induction g p rule: edge_choices.induct) (simp_all add: count_parallel parallel_edges_def)


lemma find_all_labelled: "lineage_ok g \<Longrightarrow> find_all_paths a b d g =
    labelled (lg_edges g) 0 (routes (\<lambda>x. map le_target (filter (\<lambda>e. le_source e = x) (map snd (lg_edges g)))) b d [a])"
  using find_paths_routes [of "[a]" g b d "[]"] by (simp add: find_all_paths_def lineage_ok_def del: map_map filter_map)

text \<open>C34: The paths from one node to another are the simple paths along the edges with at most \<open>max_depth\<close> nodes; each is
  listed once for every choice among parallel edges and not otherwise. The entries are numbered in order;
  each has one edge per step, but always the first of parallel edges, so entries for the same nodes cannot be
  told apart.\<close>

theorem lineage_paths_exact:
  assumes "g = built ops"
  shows "(\<forall>p. p \<noteq> [] \<longrightarrow> count_list (map lp_nodes (find_all_paths a b d g)) p =
      (if hd p = a \<and> last p = b \<and> distinct p \<and> int (length p) \<le> d then edge_choices g p else 0)) \<and>
    (\<forall>r \<in> set (find_all_paths a b d g). first_edges (lg_edges g) (lp_nodes r) (lp_edges r) \<and>
      lp_hops r = length (lp_nodes r) - 1 \<and> lp_start r = a \<and> lp_end r = b) \<and>
    map lp_id (find_all_paths a b d g) =
      map (\<lambda>i. ''path_'' @ str_int (int i + 1)) [0..<length (find_all_paths a b d g)]"
proof -
  let ?adj = "\<lambda>x. map le_target (filter (\<lambda>e. le_source e = x) (map snd (lg_edges g)))"
  have ok: "lineage_ok g" using assms built_ok by simp
  note paths = find_all_labelled [OF ok, of a b d]
  have count: "count_list (routes ?adj b d [a]) p =
      (if hd p = a \<and> last p = b \<and> distinct p \<and> int (length p) \<le> d then edge_choices g p else 0)" if p: "p \<noteq> []" for p
  proof (cases "hd p = a")
    case True
    then obtain q where "p = [a] @ q" using p by (cases p) auto
    then show ?thesis using routes_count [of "[a]" ?adj b d q] by (simp add: fitting_def choices_edges del: map_map filter_map)
  next
    case False
    then have "p \<notin> set (routes ?adj b d [a])" using routes_prefix [of p ?adj b d "[a]"] p by (cases p) auto
    then show ?thesis using False by simp
  qed
  have entry: "first_edges (lg_edges g) (lp_nodes r) (lp_edges r) \<and> lp_hops r = length (lp_nodes r) - 1 \<and> lp_start r = a \<and> lp_end r = b"
    if r: "r \<in> set (find_all_paths a b d g)" for r
  proof -
    obtain p j where p: "p \<in> set (routes ?adj b d [a])" "r = lineage_path_of (lg_edges g) p j"
      using set_labelled r unfolding paths by blast
    then have ne: "p \<noteq> []" using routes_prefix by fastforce
    have "count_list (routes ?adj b d [a]) p \<noteq> 0" using p(1) by (simp add: count_list_0_iff)
    then have "hd p = a \<and> last p = b \<and> edge_choices g p \<noteq> 0" unfolding count [OF ne] by (simp split: if_splits)
    moreover from this have "first_edges (lg_edges g) p (get_edges_for_path (lg_edges g) p)"
      by (intro first_edges_exact ne) (simp add: choices_edges del: map_map filter_map)
    ultimately show ?thesis using p(2) by (simp add: lineage_path_of_def)
  qed
  show ?thesis using count entry by (auto simp: paths labelled_ids simp del: map_map filter_map)
qed

text \<open>Two edges between the same tables.\<close>

definition doubled :: "lineage_op list" where
  "doubled = [sample_node ''s'', sample_node ''t'', sample_edge ''s'' ''t'', sample_edge ''s'' ''t'']"

theorem lineage_paths_exact_witness:
  "count_list (map lp_nodes (find_all_paths ''s'' ''t'' 10 (built doubled))) [''s'', ''t''] = edge_choices (built doubled) [''s'', ''t''] \<and>
   edge_choices (built doubled) [''s'', ''t''] = 2 \<and>
   map lp_edges (find_all_paths ''s'' ''t'' 10 (built doubled)) = replicate 2 [''edge_000001'']"
proof -
  have "count_list (map lp_nodes (find_all_paths ''s'' ''t'' 10 (built doubled))) [''s'', ''t''] = edge_choices (built doubled) [''s'', ''t'']"
    using lineage_paths_exact [OF refl, where ops = doubled and a = "''s''" and b = "''t''" and d = 10] by simp
  moreover have "edge_choices (built doubled) [''s'', ''t''] = 2" by code_simp
  moreover have "map lp_edges (find_all_paths ''s'' ''t'' 10 (built doubled)) = replicate 2 [''edge_000001'']" by code_simp
  ultimately show ?thesis by blast
qed

end
