(* ===== verification/Spec2Isabelle.thy ===== *)
theory Spec2Isabelle
  imports Txn_System Saga_Pattern Micro_Saga Circuit_Breaker Service_Registry Event_Log Event_Streaming
    Audit_Logger Session_Manager Mfa Aml_Workflow Network_Search Pattern_Search Memory_Types P2p
    Card_Numbers Methods_Effect Goals Rate_Limiter Csrf Request_Signing Edit_Distance Dedup_Exact Lineage_Paths
begin

text \<open>
  A verification library for the FinTech banking application: the parts of its backend
  (src/backend/app) and of its microservices (src/services) that hold the logic of money, of
  long-running transactions, of the in-memory database and of security.

  The parts and how they interact.

  \<^item> Money over the in-memory store. The HTTP endpoints open a session of the memory store
    (storage/memory_adapter.py), load model instances (models/memory_models.py), change attributes and
    commit. Theories: Money (utils/money.py: rounding to cents); Memory_Model (constructors, identifier
    counters; \<open>store\<close> is the tables of data_manager with the counters); Memory_Types (the types of what
    the constructors store); Memory_Query (MemoryQuery:
    filters, ordering, slices, bulk changes, aggregates); Memory_Session (MemorySession: \<open>session\<close> holds
    the instances and the pending lists; \<open>load\<close>, \<open>commit\<close>, \<open>flush\<close>, \<open>refresh\<close>); Actions (handlers as
    actions \<open>ctx \<Rightarrow> 'a result \<times> ctx\<close>, with a Hoare logic and the frame predicate \<open>sealed\<close>); Accounts
    (the ownership check of utils/validators.py, what an account row reads as); Transfers and Payments
    (routes/transfers.py, with get_or_create_conversation of routes/conversations.py); P2p (routes/p2p.py,
    where amounts are decimals); Payment_Methods (routes/payment_methods.py), with Card_Numbers (the check
    digit) and Methods_Effect (what the endpoints do to the store); Goals (services/goal_update_service.py, which feeds
    saving goals from deposits, and routes/goals.py).
  \<^item> The event-sourced transaction services (services/event_store.py, transaction_coordinator.py,
    transaction_handler.py, transaction_adapter.py): clients submit contexts to a queue, a worker thread
    runs the registered handler, every change is logged. Theories: Txn_Events, Coordinator (generic in
    the handlers, locale \<open>handler_contract\<close>), Txn_Handler (interprets it), Txn_System (the adapter, and
    the interleavings of clients, adapter and worker as the relation \<open>sys_step\<close>).
  \<^item> Sagas: Saga_Pattern (services/saga_pattern.py) and Micro_Saga (services/core/saga.py of the
    microservices). An action and a compensation are functions of a state of any type.
  \<^item> Microservice core: Circuit_Breaker (core/circuit_breaker.py, calls of several threads as start and
    finish steps), Service_Registry (core/service_registry.py, core/health_check.py and the health and
    key checks of api_gateway/gateway.py).
  \<^item> Event streams: Event_Log (services/event_sourcing.py: hash chain, snapshots, replay) and
    Event_Streaming (services/event_streaming.py: buffer, deduplication, retention, capture).
  \<^item> Security: Audit_Logger (services/audit_logger.py), Session_Manager
    (utils/enhanced_session_manager.py, which writes to the audit log), Mfa (utils/mfa.py),
    Aml_Workflow (risk_management/aml/services/aml_workflow_service.py), Request_Signing
    (security/request_signing.py), and two middlewares as functions of the rest of the server:
    Rate_Limiter (middleware/rate_limiter.py) and Csrf (middleware/csrf_protection.py).
  \<^item> Networks of accounts (risk_management/aml/services/network_analysis_service.py): Graph (components
    and distances of an undirected graph, locale \<open>undirected\<close>), Network (the service: expansion, clusters,
    circular flows, shortest paths, risk, statistics), Network_Search (interprets the locale).
  \<^item> Suspicious patterns (pattern_detection_service.py beside it): Patterns (structuring, layering, velocity,
    geography, rapid movement, round trips, flows) and Pattern_Search (what its searches list, and when they raise).
  \<^item> Data quality (risk_management/data_quality/utils): Matching (match_algorithms.py: edit distance, Jaro, Winkler,
    Soundex, weighted matches) and Edit_Distance; Dedup (data_deduplication.py) and Dedup_Exact; Lineage
    (lineage_graph.py), Lineage_Search (the traversals) and Lineage_Paths (the paths).

  Foundations. Prelude: results \<open>error + 'a\<close>, ordered dictionaries, the environment \<open>env\<close> (the sequence of
  readings of the clock and of fresh uuids; \<open>later n\<close> skips n of them), the locales \<open>preserved\<close> (an
  invariant kept by every operation), \<open>append_only\<close> and \<open>keyed_store\<close>, which the components interpret
  on their own operations. PyDecimal: decimal numbers with precision 28, rounding half to even. PyFloat: IEEE
  doubles without infinities as rationals, \<open>double\<close> rounding to the nearest,
  \<open>repr_val\<close> the value of the shortest text, \<open>float_sum\<close> the compensated sum of Python 3.12;
  \<open>double\<close> is monotone, and a decimal of four places below 10 ^ 11 is the text of its double (\<open>repr_exact\<close>).
  PyJson and Py_Cell: values, equality, order and texts of Python data as far as the code uses them.

  What the lemmas show. Transfers, payments: balances move exactly, to the cent, although they are
  floats; a refused request changes nothing; a transfer to the same account and a negative fee create
  money; a payment between people is taken off the sender and credited to nobody; which typing
  errors of a card number are detected, and that the endpoints for payment methods store and fail, or succeed and
  change nothing. Memory store: a query returns exactly the rows its filters mean; ordering; a commit writes back
  every loaded instance, the last one wins; identifiers stay unique; changes to rows of unmapped models
  are lost. Transaction services: in every interleaving no account is overdrawn and the balance events
  agree with the balances; the adapter moves money twice; the queue drains. Sagas: all or nothing when
  compensations invert their actions; bounded attempts. Breaker, registry, gateway: invariants, when
  calls are rejected, refinement of a map. Logs: indices, hash chain, replay, all-or-nothing capture.
  Security: what is masked, session limits, MFA codes, the order of workflow steps; a client gets through
  the rate limiter what the bucket holds and refills, although it counts in floats; which CSRF tokens are
  accepted; what a signature binds. Networks: the loops end, clusters are components, a path found is a shortest
  one, the circular flows found are the simple cycles of edges. Patterns: the layering search
  raises whenever an account only receives, and is exact otherwise; the search for rapid movement is exact or raises. Data
  quality: the edit distance is the least number of edits; removing duplicates keeps the first of the most complete
  records of each key; the lineage traversals are reachability, the paths are the simple paths.

  Bounds and fuel. \<open>money_range\<close> is ten to the thirteen cents: below it three float operations stay
  away from half a cent (Money, Payments). The search for the shortest text of a double tries at most 360
  digits, more than any double has. The layering search recurses on the hops that are left. The environment is split among the steps of a request with strides
  (\<open>later 200 e\<close>) larger than what a step draws, which only matters for times and tokens, and no property
  depends on it. No definition runs out of fuel: the retries of a saga step and the loops over lists are
  structural.

  Not modelled: HTTP, JSON text of exports, logging to the console, threads below the level of the
  steps above; hash functions and one-time passwords are parameters. The values in a row are not shared:
  two rows never hold the same nested dictionary. Not modelled yet: the other routes (cards, business,
  subscriptions, savings and more), which use the same store; the analytics and reports; the other
  risk packages. The managers under repositories mostly generate demo data at random.
\<close>

end
